(* ===== verification/Prelude.thy ===== *)
theory Prelude
  imports Main "HOL-Library.Word"
begin

text \<open>
  What the components share: the machine integer types of the C++ code, the flat byte memory
  that \<open>std::memcpy\<close> works on with its little-endian loads and stores (the server is built for
  x86-64), the result type of operations that can fail, and generic lemmas on lists and maps.
  The collections \<open>mem_simps\<close> and \<open>le_simps\<close> hold the rewrite rules of the memory
  and of the byte encodings.
\<close>

unbundle bit_operations_syntax

named_theorems mem_simps
named_theorems le_simps

type_synonym u8 = "8 word"
type_synonym u16 = "16 word"
type_synonym u32 = "32 word"
type_synonym u64 = "64 word"
type_synonym s32 = "32 word" \<comment> \<open>read with \<open>sint\<close>\<close>

section \<open>Byte memory\<close>

type_synonym mem = "nat \<Rightarrow> u8"

definition bytes :: "mem \<Rightarrow> nat \<Rightarrow> nat \<Rightarrow> u8 list" where
  "bytes m a n = map m [a..<a + n]"

fun put_bytes :: "nat \<Rightarrow> u8 list \<Rightarrow> mem \<Rightarrow> mem" where
  "put_bytes a [] m = m"
| "put_bytes a (b # bs) m = put_bytes (Suc a) bs (m(a := b))"

lemma length_bytes [simp]: "length (bytes m a n) = n"
  by (simp add: bytes_def)

lemma nth_bytes [simp]: "i < n \<Longrightarrow> bytes m a n ! i = m (a + i)"
  by (simp add: bytes_def)

lemma bytes_0 [simp]: "bytes m a 0 = []"
  by (simp add: bytes_def)

lemma bytes_Suc: "bytes m a (Suc n) = m a # bytes m (Suc a) n"
  by (simp add: bytes_def upt_conv_Cons del: upt_Suc)

lemma bytes_add: "bytes m a (j + n) = bytes m a j @ bytes m (a + j) n"
  by (rule nth_equalityI) (auto simp: nth_append)

lemma put_bytes_apply [mem_simps]:
  "put_bytes a bs m x = (if a \<le> x \<and> x < a + length bs then bs ! (x - a) else m x)"
proof (induction bs arbitrary: a m)
  case Nil
  then show ?case by auto
next
  case (Cons b bs)
  then show ?case by (cases "x = a") (auto simp: nth_Cons')
qed

lemma put_bytes_other: "x < a \<or> a + length bs \<le> x \<Longrightarrow> put_bytes a bs m x = m x"
  by (auto simp: mem_simps)

lemma bytes_put_bytes_same [simp]: "n = length bs \<Longrightarrow> bytes (put_bytes a bs m) a n = bs"
  by (rule nth_equalityI) (auto simp: mem_simps)

lemma bytes_put_bytes_other:
  "a + length bs \<le> c \<or> c + n \<le> a \<Longrightarrow> bytes (put_bytes a bs m) c n = bytes m c n"
  by (rule nth_equalityI) (auto simp: mem_simps)

lemma put_bytes_bytes_id [simp]: "put_bytes a (bytes m a n) m = m"
  by (rule ext) (auto simp: mem_simps)

lemma put_bytes_overwrite:
  "length bs = length cs \<Longrightarrow> put_bytes a bs (put_bytes a cs m) = put_bytes a bs m"
  by (rule ext) (simp add: mem_simps)

lemma put_bytes_commute:
  "a + length bs \<le> c \<or> c + length cs \<le> a \<Longrightarrow>
     put_bytes a bs (put_bytes c cs m) = put_bytes c cs (put_bytes a bs m)"
  by (rule ext) (auto simp: mem_simps)

lemma put_bytes_append: "put_bytes a (bs @ cs) m = put_bytes (a + length bs) cs (put_bytes a bs m)"
  by (induction bs arbitrary: a m) auto

section \<open>Little-endian words\<close>

definition le16 :: "u16 \<Rightarrow> u8 list" where
  "le16 w = [ucast w, ucast (drop_bit 8 w)]"

definition le32 :: "u32 \<Rightarrow> u8 list" where
  "le32 w = [ucast w, ucast (drop_bit 8 w), ucast (drop_bit 16 w), ucast (drop_bit 24 w)]"

fun of_le16 :: "u8 list \<Rightarrow> u16" where
  "of_le16 [a, b] = ucast a OR push_bit 8 (ucast b)"
| "of_le16 _ = 0"

fun of_le32 :: "u8 list \<Rightarrow> u32" where
  "of_le32 [a, b, c, d] =
     ucast a OR push_bit 8 (ucast b) OR push_bit 16 (ucast c) OR push_bit 24 (ucast d)"
| "of_le32 _ = 0"

lemma length_le [simp]: "length (le16 w) = 2" "length (le32 v) = 4"
  by (simp_all add: le16_def le32_def)

lemma of_le16_le16 [simp, le_simps]: "of_le16 (le16 w) = w"
  by (rule bit_word_eqI) (auto simp: le16_def bit_simps)

lemma of_le32_le32 [simp, le_simps]: "of_le32 (le32 w) = w"
proof (rule bit_word_eqI)
  fix n :: nat
  assume "n < LENGTH(32)"
  then consider "n < 8" | "8 \<le> n" "n < 16" | "16 \<le> n" "n < 24" | "24 \<le> n" "n < 32"
    by fastforce
  then show "bit (of_le32 (le32 w)) n = bit w n"
    by cases (auto simp: le32_def bit_simps)
qed

lemma list_length_2: "length bs = 2 \<Longrightarrow> \<exists>a b. bs = [a, b]"
  by (auto simp: length_Suc_conv numeral_2_eq_2)

lemma list_length_4: "length bs = 4 \<Longrightarrow> \<exists>a b c d. bs = [a, b, c, d]"
  by (auto simp: length_Suc_conv eval_nat_numeral)

lemma not_bit_u8_high [simp]: "8 \<le> n \<Longrightarrow> \<not> bit (a :: u8) n"
  by (auto dest: bit_imp_le_length)

lemma le16_of_le16 [le_simps]: "length bs = 2 \<Longrightarrow> le16 (of_le16 bs) = bs"
  by (auto dest!: list_length_2 simp: le16_def bit_simps intro!: bit_word_eqI)

lemma le32_of_le32 [le_simps]: "length bs = 4 \<Longrightarrow> le32 (of_le32 bs) = bs"
  by (auto dest!: list_length_4 simp: le32_def bit_simps intro!: bit_word_eqI)

lemma unat_ucast_u8_u32 [simp]: "unat (ucast (d :: u8) :: u32) = unat d"
  by (simp add: unsigned_ucast_eq take_bit_nat_eq_self_iff less_trans [OF unsigned_less])

lemma unat_u8_le: "unat (d :: u8) \<le> 255"
  using unsigned_less [of d, where 'a = nat] by simp

lemma and_7_int: "(x :: int) AND 7 = x mod 8"
  using take_bit_eq_mask [of 3 x] by (simp add: take_bit_eq_mod mask_eq_exp_minus_1)

definition load16 :: "mem \<Rightarrow> nat \<Rightarrow> u16" where
  "load16 m a = of_le16 (bytes m a 2)"

definition load32 :: "mem \<Rightarrow> nat \<Rightarrow> u32" where
  "load32 m a = of_le32 (bytes m a 4)"

definition store16 :: "nat \<Rightarrow> u16 \<Rightarrow> mem \<Rightarrow> mem" where
  "store16 a w m = put_bytes a (le16 w) m"

definition store32 :: "nat \<Rightarrow> u32 \<Rightarrow> mem \<Rightarrow> mem" where
  "store32 a w m = put_bytes a (le32 w) m"

lemma load_store_same [mem_simps]:
  "load16 (store16 a w m) a = w" "load32 (store32 a v m) a = v"
  by (simp_all add: load16_def store16_def load32_def store32_def)

lemma load_store32_other [mem_simps]:
  "a + 4 \<le> c \<or> c + 4 \<le> a \<Longrightarrow> load32 (store32 a v m) c = load32 m c"
  by (simp add: load32_def store32_def bytes_put_bytes_other)

lemma store_load32_id [mem_simps]: "store32 a (load32 m a) m = m"
  by (simp add: load32_def store32_def le32_of_le32)

lemma store32_commute:
  "a + 4 \<le> c \<or> c + 4 \<le> a \<Longrightarrow> store32 a v (store32 c w m) = store32 c w (store32 a v m)"
  unfolding store32_def by (rule put_bytes_commute) simp

lemma store32_overwrite [mem_simps]: "store32 a v (store32 a w m) = store32 a v m"
  by (simp add: store32_def put_bytes_overwrite)

lemma store32_other: "x < a \<or> a + 4 \<le> x \<Longrightarrow> store32 a v m x = m x"
  by (simp add: store32_def put_bytes_other)

section \<open>Byte codecs\<close>

text \<open>What a stream promises for a value type: a fixed width, and a decoder that inverts the
  encoder. The streams (network messages, property streams) prove their round trips once, for
  any codec; the integer types of the wire formats are its instances.\<close>

locale byte_codec =
  fixes enc :: "'a \<Rightarrow> u8 list" and dec :: "u8 list \<Rightarrow> 'a" and width :: nat
  assumes length_enc [simp]: "length (enc v) = width"
    and dec_enc [simp]: "dec (enc v) = v"
    and enc_dec: "length bs = width \<Longrightarrow> enc (dec bs) = bs"
begin

lemma dec_put: "dec (bytes (put_bytes a (enc v) m) a width) = v"
  by simp

lemma dec_put_other:
  "a + length bs \<le> c \<or> c + width \<le> a \<Longrightarrow>
     dec (bytes (put_bytes a bs m) c width) = dec (bytes m c width)"
  by (simp add: bytes_put_bytes_other)

lemma enc_inject: "enc v = enc w \<longleftrightarrow> v = w"
  by (metis dec_enc)

end

interpretation u8_codec: byte_codec "\<lambda>b. [b]" "\<lambda>bs. hd bs" 1
  by unfold_locales (auto simp: length_Suc_conv)

interpretation u16_codec: byte_codec le16 of_le16 2
  by unfold_locales (auto simp: le_simps)

interpretation u32_codec: byte_codec le32 of_le32 4
  by unfold_locales (auto simp: le_simps)

end
