(* ===== verification/Checksum.thy ===== *)
theory Checksum
  imports Prelude
begin

text \<open>
  \<open>adlerChecksum\<close> of \<open>src/tools.cpp\<close>: the packet checksum, computed with 32-bit words and a
  reduction only every 5552 bytes. The reference is Adler-32 as it is defined, reduced after
  every byte; the two agree because 5552 bytes never overflow the words.
\<close>

definition NETWORKMESSAGE_MAXSIZE :: nat where
  "NETWORKMESSAGE_MAXSIZE = 65550"

fun adler_do :: "mem \<Rightarrow> nat \<Rightarrow> nat \<Rightarrow> u32 \<Rightarrow> u32 \<Rightarrow> nat \<times> u32 \<times> u32" where
  "adler_do m data 0 a b = (data, a, b)"
| "adler_do m data (Suc tmp) a b =
     (let a' = a + ucast (m data); b' = b + a' in adler_do m (data + 1) tmp a' b')"

function adler_while :: "mem \<Rightarrow> nat \<Rightarrow> nat \<Rightarrow> u32 \<Rightarrow> u32 \<Rightarrow> u32 \<times> u32" where
  "adler_while m data len a b =
     (if len > 0
      then let tmp = (if len > 5552 then 5552 else len);
               (data', a', b') = adler_do m data tmp a b
           in adler_while m data' (len - tmp) (a' mod 65521) (b' mod 65521)
      else (a, b))"
  by pat_completeness auto
termination
  by (relation "measure (\<lambda>(_, _, len, _). len)") auto

declare adler_while.simps [simp del]

definition adlerChecksum :: "mem \<Rightarrow> nat \<Rightarrow> nat \<Rightarrow> u32" where
  "adlerChecksum m data len =
     (if len > NETWORKMESSAGE_MAXSIZE then 0
      else let (a, b) = adler_while m data len 1 0 in push_bit 16 b OR a)"

section \<open>The reference: Adler-32\<close>

fun adler_ref :: "u8 list \<Rightarrow> nat \<Rightarrow> nat \<Rightarrow> nat \<times> nat" where
  "adler_ref [] a b = (a, b)"
| "adler_ref (d # ds) a b =
     (let a' = (a + unat d) mod 65521 in adler_ref ds a' ((b + a') mod 65521))"

definition adler32 :: "u8 list \<Rightarrow> nat" where
  "adler32 ds = (let (a, b) = adler_ref ds 1 0 in b * 65536 + a)"

text \<open>The sums without any reduction, which both sides compute modulo 65521.\<close>

fun adler_sums :: "u8 list \<Rightarrow> nat \<Rightarrow> nat \<Rightarrow> nat \<times> nat" where
  "adler_sums [] a b = (a, b)"
| "adler_sums (d # ds) a b = adler_sums ds (a + unat d) (b + (a + unat d))"

lemma adler_ref_mod:
  "adler_ref ds (a mod 65521) (b mod 65521) =
     (fst (adler_sums ds a b) mod 65521, snd (adler_sums ds a b) mod 65521)"
proof (induction ds arbitrary: a b)
  case Nil
  then show ?case by simp
next
  case (Cons d ds)
  have "(b mod 65521 + (a mod 65521 + unat d) mod 65521) mod 65521 = (b + (a + unat d)) mod 65521"
    by (simp add: mod_simps)
  then show ?case
    using Cons [of "a + unat d" "b + (a + unat d)"] by (simp add: Let_def mod_simps)
qed

lemma adler_ref_less:
  "a < 65521 \<Longrightarrow> b < 65521 \<Longrightarrow> fst (adler_ref ds a b) < 65521 \<and> snd (adler_ref ds a b) < 65521"
  by (induction ds arbitrary: a b) (auto simp: Let_def)

lemma adler_ref_append:
  "adler_ref (ds @ es) a b = (let (a', b') = adler_ref ds a b in adler_ref es a' b')"
  by (induction ds arbitrary: a b) (auto simp: Let_def)

lemma unat_add_no_wrap:
  "unat (a :: 'a::len word) + unat b < 2 ^ LENGTH('a) \<Longrightarrow> unat (a + b) = unat a + unat b"
  by (simp add: unat_word_ariths)

text \<open>The bound that a chunk keeps: with \<open>n\<close> bytes to go, the final \<open>b\<close> fits 32 bits.\<close>

definition adler_fits :: "nat \<Rightarrow> nat \<Rightarrow> nat \<Rightarrow> bool" where
  "adler_fits n a b \<longleftrightarrow> 2 * b + 2 * (n * a) + 255 * (n * (n + 1)) < 2 * 2 ^ 32"

lemma adler_fits_step:
  assumes "adler_fits (Suc n) a b" and "d \<le> 255"
  shows "adler_fits n (a + d) (b + (a + d))"
proof -
  have "(2 + 2 * n) * d \<le> (2 + 2 * n) * 255" using assms(2) by (rule mult_le_mono2)
  then have "2 * (b + (a + d)) + 2 * (n * (a + d)) + 255 * (n * (n + 1))
      \<le> 2 * b + 2 * (Suc n * a) + 255 * (Suc n * (Suc n + 1))"
    by (simp add: algebra_simps)
  with assms(1) show ?thesis unfolding adler_fits_def by (rule order.strict_trans1 [rotated])
qed

lemma adler_fits_add:
  assumes "adler_fits (Suc n) a b" and "d \<le> 255"
  shows "a + d < 2 ^ 32" and "b + (a + d) < 2 ^ 32"
  using assms by (auto simp: adler_fits_def algebra_simps)

lemma adler_fits_chunk: "a < 65521 \<Longrightarrow> b < 65521 \<Longrightarrow> n \<le> 5552 \<Longrightarrow> adler_fits n a b"
proof -
  assume a: "a < 65521" and b: "b < 65521" and n: "n \<le> 5552"
  have "n * a \<le> 5552 * 65520" using a n by (intro mult_le_mono) auto
  moreover have "n * (n + 1) \<le> 5552 * 5553" using n by (intro mult_le_mono) auto
  ultimately show ?thesis using b by (simp add: adler_fits_def)
qed

lemma adler_do_sums:
  assumes "adler_fits n (unat a) (unat b)"
  shows "\<exists>a' b'. adler_do m data n a b = (data + n, a', b') \<and>
           (unat a', unat b') = adler_sums (bytes m data n) (unat a) (unat b)"
  using assms
proof (induction n arbitrary: data a b)
  case 0
  then show ?case by simp
next
  case (Suc n)
  let ?d = "m data" and ?a = "a + ucast (m data)"
  note fits = adler_fits_add [OF Suc.prems unat_u8_le [of ?d]]
  have a': "unat ?a = unat a + unat ?d"
    using fits(1) by (subst unat_add_no_wrap) auto
  have b': "unat (b + ?a) = unat b + (unat a + unat ?d)"
    using fits(2) a' by (subst unat_add_no_wrap) auto
  have "adler_fits n (unat ?a) (unat (b + ?a))"
    unfolding a' b' using Suc.prems unat_u8_le by (rule adler_fits_step)
  from Suc.IH [OF this, of "Suc data"] show ?case
    by (simp add: Let_def a' b' bytes_Suc)
qed

lemma unat_mod_65521: "unat ((a :: u32) mod 65521) = unat a mod 65521"
  by (simp add: unat_mod)

lemma adler_while_ref:
  assumes "unat a < 65521" "unat b < 65521"
  shows "(unat (fst (adler_while m data len a b)), unat (snd (adler_while m data len a b))) =
         adler_ref (bytes m data len) (unat a) (unat b)"
  using assms
proof (induction len arbitrary: data a b rule: less_induct)
  case (less len)
  show ?case
  proof (cases "len > 0")
    case True
    define t where "t = (if len > 5552 then 5552 else len)"
    have t: "0 < t" "t \<le> len" "t \<le> 5552" using True by (auto simp: t_def)
    from adler_do_sums [OF adler_fits_chunk [OF less.prems t(3)], of m data]
    obtain a' b' where ab: "adler_do m data t a b = (data + t, a', b')"
      "(unat a', unat b') = adler_sums (bytes m data t) (unat a) (unat b)" by blast
    have step: "adler_while m data len a b =
        adler_while m (data + t) (len - t) (a' mod 65521) (b' mod 65521)"
      using True ab(1) by (simp add: adler_while.simps [of m data len] t_def [symmetric] Let_def)
    have "adler_ref (bytes m data t) (unat a) (unat b) = (unat a' mod 65521, unat b' mod 65521)"
      using adler_ref_mod [of "bytes m data t" "unat a" "unat b"] less.prems ab(2)
      by (metis fst_conv mod_less snd_conv)
    then have "adler_ref (bytes m data len) (unat a) (unat b) =
        adler_ref (bytes m (data + t) (len - t)) (unat a' mod 65521) (unat b' mod 65521)"
      using bytes_add [of m data t "len - t"] t by (simp add: adler_ref_append)
    with step less.IH [of "len - t" "a' mod 65521" "b' mod 65521" "data + t"] t
    show ?thesis by (simp add: unat_mod_65521)
  qed (simp add: adler_while.simps)
qed

lemma unat_join_16:
  assumes a: "unat (a :: u32) < 65536" and b: "unat b < 65536"
  shows "unat (push_bit 16 b OR a) = unat b * 65536 + unat a"
proof -
  have "take_bit 16 (unat a) = unat a" using a by (simp add: take_bit_nat_eq_self_iff)
  then have "\<not> bit (unat a) n" if "16 \<le> n" for n
    using that by (metis bit_take_bit_iff not_le)
  then have "push_bit 16 (unat b) AND unat a = 0"
    by (auto simp: bit_eq_iff bit_simps)
  then have "push_bit 16 (unat b) + unat a = push_bit 16 (unat b) OR unat a"
    by (rule disjunctive_add_eq_or)
  moreover have "unat (push_bit 16 b) = push_bit 16 (unat b)"
    using b by (simp only: unsigned_push_bit_eq) (simp add: take_bit_nat_eq_self_iff push_bit_eq_mult)
  ultimately show ?thesis by (simp add: unsigned_or_eq push_bit_eq_mult)
qed

lemma adlerChecksum_ref:
  assumes "len \<le> NETWORKMESSAGE_MAXSIZE"
  shows "unat (adlerChecksum m data len) = adler32 (bytes m data len)"
proof -
  obtain a b where ab: "adler_while m data len 1 0 = (a, b)" by fastforce
  have ref: "adler_ref (bytes m data len) 1 0 = (unat a, unat b)"
    using adler_while_ref [of 1 0 m data len] ab by simp
  have "unat a < 65521" "unat b < 65521"
    using adler_ref_less [of 1 0 "bytes m data len"] ref by auto
  then show ?thesis
    using assms by (simp add: adlerChecksum_def ab adler32_def ref [simplified] unat_join_16)
qed

section \<open>Properties\<close>

text \<open>C13: The checksum, which sums in blocks of 5552 bytes with 32-bit counters and reduces once
  per block, is Adler-32 as RFC 1950 defines it, for every packet up to the size of the buffer;
  longer data gets 0.\<close>

theorem checksum_is_adler32:
  "unat (adlerChecksum m data len) =
     (if len \<le> NETWORKMESSAGE_MAXSIZE then adler32 (bytes m data len) else 0)"
  by (simp add: adlerChecksum_ref) (simp add: adlerChecksum_def)

end
