(* ===== verification/Xtea.thy ===== *)
theory Xtea
  imports Prelude
begin

text \<open>
  The XTEA cipher of \<open>src/xtea.cpp\<close>: key expansion, and encryption and decryption in place of
  the blocks of a buffer. The loops are the code's: rounds outside, blocks inside. The cipher
  works on flat memory, as the code's pointers do, so what it touches beyond \<open>length\<close> when
  the length is not a multiple of 8 is visible.
\<close>

definition xtea_delta :: u32 where
  "xtea_delta = 0x9E3779B9"

function expand_from :: "nat \<Rightarrow> u32 \<Rightarrow> u32 \<Rightarrow> u32 list \<Rightarrow> u32 list \<Rightarrow> u32 list" where
  "expand_from i sm next_sum k expanded =
     (if i < length expanded
      then expand_from (i + 2) next_sum (next_sum + xtea_delta) k
             (expanded[i := sm + k ! unat (sm AND 3),
                       i + 1 := next_sum + k ! unat (drop_bit 11 next_sum AND 3)])
      else expanded)"
  by pat_completeness auto
termination
  by (relation "measure (\<lambda>(i, _, _, _, e). length e - i)") auto

declare expand_from.simps [simp del]

definition expand_key :: "u32 list \<Rightarrow> u32 list" where
  "expand_key k = expand_from 0 0 (0 + xtea_delta) k (replicate 64 0)"

definition encrypt_round :: "u32 \<Rightarrow> u32 \<Rightarrow> u32 \<times> u32 \<Rightarrow> u32 \<times> u32" where
  "encrypt_round ki ki1 b =
     (let (left, right) = b;
          left = left + (((push_bit 4 right XOR drop_bit 5 right) + right) XOR ki);
          right = right + (((push_bit 4 left XOR drop_bit 5 left) + left) XOR ki1)
      in (left, right))"

definition decrypt_round :: "u32 \<Rightarrow> u32 \<Rightarrow> u32 \<times> u32 \<Rightarrow> u32 \<times> u32" where
  "decrypt_round ki kim1 b =
     (let (left, right) = b;
          right = right - (((push_bit 4 left XOR drop_bit 5 left) + left) XOR ki);
          left = left - (((push_bit 4 right XOR drop_bit 5 right) + right) XOR kim1)
      in (left, right))"

definition load_block :: "mem \<Rightarrow> nat \<Rightarrow> u32 \<times> u32" where
  "load_block m it = (load32 m it, load32 m (it + 4))"

definition store_block :: "nat \<Rightarrow> u32 \<times> u32 \<Rightarrow> mem \<Rightarrow> mem" where
  "store_block it b m = store32 (it + 4) (snd b) (store32 it (fst b) m)"

function block_loop :: "(u32 \<times> u32 \<Rightarrow> u32 \<times> u32) \<Rightarrow> nat \<Rightarrow> nat \<Rightarrow> mem \<Rightarrow> mem" where
  "block_loop f it stop m =
     (if it < stop then block_loop f (it + 8) stop (store_block it (f (load_block m it)) m) else m)"
  by pat_completeness auto
termination
  by (relation "measure (\<lambda>(_, it, stop, _). stop - it)") auto

declare block_loop.simps [simp del]

function encrypt_from :: "nat \<Rightarrow> nat \<Rightarrow> nat \<Rightarrow> u32 list \<Rightarrow> mem \<Rightarrow> mem" where
  "encrypt_from i data len k m =
     (if i < length k
      then encrypt_from (i + 2) data len k
             (block_loop (encrypt_round (k ! i) (k ! (i + 1))) data (data + len) m)
      else m)"
  by pat_completeness auto
termination
  by (relation "measure (\<lambda>(i, _, _, k, _). length k - i)") auto

declare encrypt_from.simps [simp del]

definition encrypt :: "nat \<Rightarrow> nat \<Rightarrow> u32 list \<Rightarrow> mem \<Rightarrow> mem" where
  "encrypt data len k m = encrypt_from 0 data len k m"

text \<open>The code's counter is signed and ends at \<open>-1\<close>; \<open>nat\<close> ends at 0, where the guard
  \<open>i > 0\<close> fails just the same.\<close>

function decrypt_from :: "nat \<Rightarrow> nat \<Rightarrow> nat \<Rightarrow> u32 list \<Rightarrow> mem \<Rightarrow> mem" where
  "decrypt_from i data len k m =
     (if i > 0
      then decrypt_from (i - 2) data len k
             (block_loop (decrypt_round (k ! i) (k ! (i - 1))) data (data + len) m)
      else m)"
  by pat_completeness auto
termination
  by (relation "measure (\<lambda>(i, _). i)") auto

declare decrypt_from.simps [simp del]

definition decrypt :: "nat \<Rightarrow> nat \<Rightarrow> u32 list \<Rightarrow> mem \<Rightarrow> mem" where
  "decrypt data len k m = decrypt_from (length k - 1) data len k m"

section \<open>One block\<close>

lemma decrypt_encrypt_round [simp]: "decrypt_round k1 k0 (encrypt_round k0 k1 b) = b"
  by (cases b) (simp add: encrypt_round_def decrypt_round_def Let_def)

lemma load_store_block [mem_simps]: "load_block (store_block it b m) it = b"
  by (simp add: load_block_def store_block_def mem_simps)

lemma load_store_block_other [mem_simps]:
  "p + 8 \<le> it \<or> it + 8 \<le> p \<Longrightarrow> load_block (store_block it b m) p = load_block m p"
  by (auto simp: load_block_def store_block_def mem_simps)

lemma store_load_block_id [mem_simps]: "store_block it (load_block m it) m = m"
  by (simp add: load_block_def store_block_def mem_simps)

lemma store_block_overwrite [mem_simps]: "store_block it b (store_block it c m) = store_block it b m"
proof -
  have "store_block it b (store_block it c m) =
        store32 (it + 4) (snd b) (store32 (it + 4) (snd c) (store32 it (fst b) (store32 it (fst c) m)))"
    by (simp add: store_block_def store32_commute [of it "it + 4"])
  then show ?thesis by (simp add: store_block_def mem_simps)
qed

lemma store_block_other: "x < it \<or> it + 8 \<le> x \<Longrightarrow> store_block it b m x = m x"
  by (auto simp: store_block_def store32_other)

lemma store_block_commute:
  "p + 8 \<le> it \<Longrightarrow> store_block it b (store_block p c m) = store_block p c (store_block it b m)"
  by (simp add: store_block_def store32_commute)

section \<open>The block loop\<close>

lemma block_loop_store_below:
  "p + 8 \<le> it \<Longrightarrow> block_loop f it stop (store_block p v m) = store_block p v (block_loop f it stop m)"
proof (induction f it stop m rule: block_loop.induct)
  case (1 f it stop m)
  show ?case
  proof (cases "it < stop")
    case True
    have "load_block (store_block p v m) it = load_block m it"
      using 1(2) by (simp add: mem_simps)
    then have "block_loop f it stop (store_block p v m) =
        block_loop f (it + 8) stop (store_block p v (store_block it (f (load_block m it)) m))"
      using True 1(2) by (subst block_loop.simps) (simp add: store_block_commute [OF 1(2)])
    also have "\<dots> = store_block p v (block_loop f (it + 8) stop (store_block it (f (load_block m it)) m))"
      using True 1(2) by (intro 1(1)) auto
    finally show ?thesis using True by (simp add: block_loop.simps [of f it stop m])
  qed (simp add: block_loop.simps)
qed

lemma load_block_loop_below:
  "p + 8 \<le> it \<Longrightarrow> load_block (block_loop f it stop m) p = load_block m p"
  by (metis block_loop_store_below load_store_block store_load_block_id)

lemma block_loop_step:
  "it < stop \<Longrightarrow>
     block_loop f it stop m = store_block it (f (load_block m it)) (block_loop f (it + 8) stop m)"
  by (subst block_loop.simps) (simp add: block_loop_store_below)

lemma block_loop_done: "stop \<le> it \<Longrightarrow> block_loop f it stop m = m"
  by (simp add: block_loop.simps)

lemma block_loop_comp:
  "block_loop g it stop (block_loop f it stop m) = block_loop (g \<circ> f) it stop m"
proof (induction "stop - it" arbitrary: it rule: less_induct)
  case less
  show ?case
  proof (cases "it < stop")
    case True
    let ?M = "block_loop f (it + 8) stop m" and ?x = "load_block m it"
    have "block_loop g it stop (block_loop f it stop m) =
          block_loop g it stop (store_block it (f ?x) ?M)"
      using True by (simp add: block_loop_step [of it stop f])
    also have "\<dots> = store_block it (g (f ?x)) (block_loop g (it + 8) stop ?M)"
      using True by (simp add: block_loop_step [of it stop g] block_loop_store_below mem_simps)
    also have "block_loop g (it + 8) stop ?M = block_loop (g \<circ> f) (it + 8) stop m"
      using True by (intro less) simp
    finally show ?thesis using True by (simp add: block_loop_step [of it stop "g \<circ> f"])
  qed (simp add: block_loop_done)
qed

lemma block_loop_id: "(\<And>b. f b = b) \<Longrightarrow> block_loop f it stop m = m"
proof (induction "stop - it" arbitrary: it rule: less_induct)
  case less
  then show ?case
    by (cases "it < stop") (auto simp: block_loop_step block_loop_done mem_simps)
qed

lemma block_loop_inverse:
  "(\<And>b. g (f b) = b) \<Longrightarrow> block_loop g it stop (block_loop f it stop m) = m"
  by (simp add: block_loop_comp block_loop_id)

text \<open>What the loop touches: whole blocks from \<open>it\<close>, the last of which may start before
  \<open>stop\<close> and end after it.\<close>

definition block_span :: "nat \<Rightarrow> nat" where
  "block_span len = 8 * ((len + 7) div 8)"

lemma block_span_step:
  assumes "0 < n"
  shows "block_span n = 8 + block_span (n - 8)"
proof (cases "8 \<le> n")
  case True
  then obtain d where d: "n = 8 + d" using le_Suc_ex by blast
  have "(d + 7 + 8) div 8 = (d + 7) div 8 + 1" by (rule div_add_self2) simp
  then show ?thesis by (simp add: d block_span_def add.commute)
next
  case False
  then have "(n + 7) div 8 = 1" using assms by (intro div_nat_eqI) auto
  then show ?thesis using False by (simp add: block_span_def)
qed

lemma block_span_ge: "n \<le> block_span n"
  using div_mult_mod_eq [of "n + 7" 8] mod_less_divisor [of 8 "n + 7"]
  unfolding block_span_def by linarith

lemma block_span_dvd: "8 dvd n \<Longrightarrow> block_span n = n"
  by (auto simp: block_span_def)

lemma block_loop_other:
  "x < it \<or> it + block_span (stop - it) \<le> x \<Longrightarrow> block_loop f it stop m x = m x"
proof (induction "stop - it" arbitrary: it rule: less_induct)
  case less
  show ?case
  proof (cases "it < stop")
    case True
    have "block_span (stop - it) = 8 + block_span (stop - (it + 8))"
      using True block_span_step [of "stop - it"] by simp
    with less(2) have x: "x < it \<or> it + 8 + block_span (stop - (it + 8)) \<le> x"
      by (simp add: add.assoc)
    then have "block_loop f (it + 8) stop m x = m x"
      using True by (intro less) auto
    with True x show ?thesis by (auto simp: block_loop_step store_block_other)
  qed (simp add: block_loop_done)
qed

lemma load_block_loop:
  "it + 8 * j < stop \<Longrightarrow>
     load_block (block_loop f it stop m) (it + 8 * j) = f (load_block m (it + 8 * j))"
proof (induction j arbitrary: it)
  case 0
  then show ?case by (simp add: block_loop_step mem_simps)
next
  case (Suc j)
  have "load_block (block_loop f it stop m) (it + 8 * Suc j) =
        load_block (block_loop f (it + 8) stop m) (it + 8 + 8 * j)"
    using Suc.prems by (simp add: block_loop_step mem_simps algebra_simps)
  also have "\<dots> = f (load_block m (it + 8 + 8 * j))"
    using Suc.prems by (intro Suc.IH) simp
  finally show ?case by (simp add: algebra_simps)
qed

section \<open>Rounds\<close>

lemma decrypt_encrypt_from:
  assumes "length k = 2 * n" and "j \<le> n"
  shows "decrypt_from (2 * n - 1) data len k (encrypt_from (2 * j) data len k m) =
         decrypt_from (2 * j - 1) data len k m"
  using assms(2)
proof (induction "n - j" arbitrary: j m)
  case 0
  then show ?case using assms(1) by (simp add: encrypt_from.simps)
next
  case (Suc d)
  let ?E = "\<lambda>m. block_loop (encrypt_round (k ! (2 * j)) (k ! (2 * j + 1))) data (data + len) m"
  have "j < n" using Suc by linarith
  then have "decrypt_from (2 * n - 1) data len k (encrypt_from (2 * j) data len k m) =
        decrypt_from (2 * n - 1) data len k (encrypt_from (2 * Suc j) data len k (?E m))"
    using assms(1) by (simp add: encrypt_from.simps [of "2 * j"])
  also have "\<dots> = decrypt_from (2 * Suc j - 1) data len k (?E m)"
    using Suc \<open>j < n\<close> by (intro Suc.hyps(1)) auto
  also have "\<dots> = decrypt_from (2 * j - 1) data len k m"
    by (simp add: decrypt_from.simps [of "Suc (2 * j)"] block_loop_inverse)
  finally show ?case .
qed

lemma decrypt_from_0: "decrypt_from 0 data len k m = m"
  by (simp add: decrypt_from.simps)

lemma decrypt_encrypt:
  assumes "even (length k)"
  shows "decrypt data len k (encrypt data len k m) = m"
proof -
  obtain n where n: "length k = 2 * n" using assms by (elim evenE)
  show ?thesis
    using decrypt_encrypt_from [OF n, of 0 data len m]
    by (simp add: decrypt_def encrypt_def n decrypt_from_0)
qed

lemma encrypt_from_other:
  "x < data \<or> data + block_span len \<le> x \<Longrightarrow> encrypt_from i data len k m x = m x"
proof (induction i data len k m rule: encrypt_from.induct)
  case (1 i data len k m)
  then show ?case
    by (cases "i < length k") (auto simp: encrypt_from.simps [of i data len k m] block_loop_other)
qed

lemma decrypt_from_other:
  "x < data \<or> data + block_span len \<le> x \<Longrightarrow> decrypt_from i data len k m x = m x"
proof (induction i data len k m rule: decrypt_from.induct)
  case (1 i data len k m)
  then show ?case
    by (cases "i > 0")
       (auto simp: decrypt_from.simps [of i data len k m] decrypt_from_0 block_loop_other)
qed

lemma encrypt_other: "x < data \<or> data + block_span len \<le> x \<Longrightarrow> encrypt data len k m x = m x"
  by (simp add: encrypt_def encrypt_from_other)

lemma decrypt_other: "x < data \<or> data + block_span len \<le> x \<Longrightarrow> decrypt data len k m x = m x"
  by (simp add: decrypt_def decrypt_from_other)

text \<open>The rounds of one block, as XTEA is usually written: the loops exchanged.\<close>

fun xtea_rounds :: "u32 list \<Rightarrow> u32 \<times> u32 \<Rightarrow> u32 \<times> u32" where
  "xtea_rounds (k0 # k1 # ks) b = xtea_rounds ks (encrypt_round k0 k1 b)"
| "xtea_rounds _ b = b"

lemma encrypt_from_block:
  assumes "even (length k - i)" "i \<le> length k" "8 * j < len"
  shows "load_block (encrypt_from i data len k m) (data + 8 * j) =
         xtea_rounds (drop i k) (load_block m (data + 8 * j))"
  using assms
proof (induction i data len k m rule: encrypt_from.induct)
  case (1 i data len k m)
  show ?case
  proof (cases "i < length k")
    case True
    then have "i + 1 < length k" using 1(2) by (cases "length k - i = 1") auto
    then have "drop i k = k ! i # k ! (i + 1) # drop (i + 2) k"
      by (simp add: Cons_nth_drop_Suc Suc_lessD)
    with 1 True \<open>i + 1 < length k\<close> show ?thesis
      by (simp add: encrypt_from.simps [of i data len k m] load_block_loop)
  qed (simp add: encrypt_from.simps)
qed

lemma encrypt_block:
  "even (length k) \<Longrightarrow> 8 * j < len \<Longrightarrow>
     load_block (encrypt data len k m) (data + 8 * j) = xtea_rounds k (load_block m (data + 8 * j))"
  using encrypt_from_block [of k 0 j len data m] by (simp add: encrypt_def)

section \<open>Locality\<close>

text \<open>The result in the blocks depends on the blocks only: two memories that agree there
  agree there afterwards.\<close>

definition same_blocks :: "nat \<Rightarrow> nat \<Rightarrow> mem \<Rightarrow> mem \<Rightarrow> bool" where
  "same_blocks data len m m' \<longleftrightarrow>
     (\<forall>j. 8 * j < len \<longrightarrow> load_block m (data + 8 * j) = load_block m' (data + 8 * j))"

lemma load32_eq_iff: "load32 m a = load32 m' b \<longleftrightarrow> bytes m a 4 = bytes m' b 4"
  by (metis le32_of_le32 length_bytes load32_def)

lemma load_block_eq_iff: "load_block m a = load_block m' a \<longleftrightarrow> bytes m a 8 = bytes m' a 8"
  using bytes_add [of m a 4 4] bytes_add [of m' a 4 4]
  by (simp add: load_block_def load32_eq_iff)

lemma same_blocks_bytes:
  "same_blocks data (8 * n) m m' \<longleftrightarrow> bytes m data (8 * n) = bytes m' data (8 * n)"
proof (induction n)
  case 0
  then show ?case by (simp add: same_blocks_def)
next
  case (Suc n)
  have "same_blocks data (8 * N) m m' \<longleftrightarrow>
      (\<forall>j<N. load_block m (data + 8 * j) = load_block m' (data + 8 * j))" for N
    by (simp add: same_blocks_def)
  then have "same_blocks data (8 * Suc n) m m' \<longleftrightarrow>
      same_blocks data (8 * n) m m' \<and> load_block m (data + 8 * n) = load_block m' (data + 8 * n)"
    by (simp only: All_less_Suc) blast
  then show ?case
    using bytes_add [of m data "8 * n" 8] bytes_add [of m' data "8 * n" 8] Suc
    by (simp add: load_block_eq_iff add.commute)
qed

lemma same_blocks_loop:
  "same_blocks data len m m' \<Longrightarrow>
     same_blocks data len (block_loop f data (data + len) m) (block_loop f data (data + len) m')"
  by (simp add: same_blocks_def load_block_loop)

lemma same_blocks_decrypt:
  "same_blocks data len m m' \<Longrightarrow> same_blocks data len (decrypt data len k m) (decrypt data len k m')"
proof -
  have "same_blocks data len (decrypt_from i data len k m) (decrypt_from i data len k m')"
    if "same_blocks data len m m'" for i
    using that
  proof (induction i data len k m arbitrary: m' rule: decrypt_from.induct)
    case (1 i data len k m)
    then show ?case
      by (cases "i > 0")
         (auto simp: decrypt_from.simps [of i data len k m] decrypt_from.simps [of i data len k m']
            decrypt_from_0 same_blocks_loop)
  qed
  then show "same_blocks data len m m' \<Longrightarrow>
      same_blocks data len (decrypt data len k m) (decrypt data len k m')"
    by (simp add: decrypt_def)
qed

text \<open>Decryption of a buffer whose blocks are those of an encrypted one gives the plain text.\<close>

lemma decrypt_bytes:
  assumes "even (length k)" and "bytes m' data (8 * n) = bytes (encrypt data (8 * n) k m) data (8 * n)"
  shows "bytes (decrypt data (8 * n) k m') data (8 * n) = bytes m data (8 * n)"
  using same_blocks_decrypt [of data "8 * n" m' "encrypt data (8 * n) k m" k] assms
  by (simp add: same_blocks_bytes decrypt_encrypt)

section \<open>Key expansion\<close>

lemma length_expand_from [simp]: "length (expand_from i s ns k e) = length e"
  by (induction i s ns k e rule: expand_from.induct) (simp add: expand_from.simps)

lemma length_expand_key [simp]: "length (expand_key k) = 64"
  by (simp add: expand_key_def)

lemma expand_from_nth_below:
  "j < i \<Longrightarrow> expand_from i s ns k e ! j = e ! j"
proof (induction i s ns k e rule: expand_from.induct)
  case (1 i s ns k e)
  then show ?case
    by (cases "i < length e") (auto simp: expand_from.simps [of i s ns k e])
qed

definition key_sum :: "nat \<Rightarrow> u32" where
  "key_sum r = of_nat r * xtea_delta"

lemma expand_from_nth:
  assumes "i = 2 * r" "s = key_sum r" "ns = key_sum (Suc r)" "even (length e)" "r \<le> q"
    "2 * q < length e"
  shows "expand_from i s ns k e ! (2 * q) = key_sum q + k ! unat (key_sum q AND 3) \<and>
         expand_from i s ns k e ! (2 * q + 1) =
           key_sum (Suc q) + k ! unat (drop_bit 11 (key_sum (Suc q)) AND 3)"
  using assms
proof (induction i s ns k e arbitrary: r rule: expand_from.induct)
  case (1 i s ns k e)
  have i: "i < length e" "Suc i < length e" using 1(2,5,6,7) by auto
  let ?e = "e[i := s + k ! unat (s AND 3), i + 1 := ns + k ! unat (drop_bit 11 ns AND 3)]"
  have step: "expand_from i s ns k e = expand_from (i + 2) ns (ns + xtea_delta) k ?e"
    using i by (simp add: expand_from.simps [of i s ns k e])
  show ?case
  proof (cases "r = q")
    case True
    then show ?thesis
      unfolding step using 1(2-) i by (simp add: expand_from_nth_below)
  next
    case False
    then show ?thesis
      unfolding step using 1(2-) i
      by (intro 1(1) [of "Suc r"]) (auto simp: key_sum_def algebra_simps)
  qed
qed

lemma expand_key_nth:
  "q < 32 \<Longrightarrow> expand_key k ! (2 * q) = key_sum q + k ! unat (key_sum q AND 3) \<and>
     expand_key k ! (2 * q + 1) =
       key_sum (Suc q) + k ! unat (drop_bit 11 (key_sum (Suc q)) AND 3)"
  unfolding expand_key_def
  by (rule expand_from_nth [of _ 0]) (auto simp: key_sum_def)

section \<open>Properties\<close>

text \<open>C11: Decrypting with the expanded key of a session what was encrypted with it gives back the
  memory, all of it, wherever the data lies and whatever its length.\<close>

theorem xtea_round_trip:
  "decrypt data len (expand_key k) (encrypt data len (expand_key k) m) = m"
  by (simp add: decrypt_encrypt)

text \<open>C12: The key schedule that the code computes once is the one of the XTEA definition: the two
  subkeys of cycle q are the sums q * delta and (q + 1) * delta, each plus the key word that the
  bits of the sum select.\<close>

theorem xtea_key_schedule:
  "length (expand_key k) = 64 \<and>
   (\<forall>q. expand_key k ! (2 * (q mod 32)) =
          of_nat (q mod 32) * xtea_delta + k ! unat ((of_nat (q mod 32) * xtea_delta) AND 3) \<and>
        expand_key k ! (2 * (q mod 32) + 1) =
          of_nat (q mod 32 + 1) * xtea_delta +
          k ! unat (drop_bit 11 (of_nat (q mod 32 + 1) * xtea_delta) AND 3))"
proof -
  have "q mod 32 < 32" for q :: nat by simp
  from expand_key_nth [OF this] show ?thesis
    by (simp only: key_sum_def length_expand_key Suc_eq_plus1) simp
qed

end
