(* ===== verification/Positions.thy ===== *)
theory Positions
  imports Prelude
begin

text \<open>
  Positions and directions: \<open>src/position.h\<close> and the direction functions of
  \<open>src/tools.cpp\<close>. Coordinates are unsigned of 16, 16 and 8 bits, so that moves wrap
  around; the offsets of the code are 32-bit integers, in which the difference of two
  coordinates always fits.
\<close>

record position =
  px :: u16
  py :: u16
  pz :: u8

datatype Direction =
    DIRECTION_NORTH | DIRECTION_EAST | DIRECTION_SOUTH | DIRECTION_WEST
  | DIRECTION_SOUTHWEST | DIRECTION_SOUTHEAST | DIRECTION_NORTHWEST | DIRECTION_NORTHEAST
  | DIRECTION_NONE

fun direction_code :: "Direction \<Rightarrow> u8" where
  "direction_code DIRECTION_NORTH = 0"
| "direction_code DIRECTION_EAST = 1"
| "direction_code DIRECTION_SOUTH = 2"
| "direction_code DIRECTION_WEST = 3"
| "direction_code DIRECTION_SOUTHWEST = 4 OR 0"
| "direction_code DIRECTION_SOUTHEAST = 4 OR 1"
| "direction_code DIRECTION_NORTHWEST = 4 OR 2"
| "direction_code DIRECTION_NORTHEAST = 4 OR 3"
| "direction_code DIRECTION_NONE = 8"

definition getOffsetX :: "position \<Rightarrow> position \<Rightarrow> int" where
  "getOffsetX p q = uint (px p) - uint (px q)"

definition getOffsetY :: "position \<Rightarrow> position \<Rightarrow> int" where
  "getOffsetY p q = uint (py p) - uint (py q)"

definition getOffsetZ :: "position \<Rightarrow> position \<Rightarrow> int" where
  "getOffsetZ p q = uint (pz p) - uint (pz q)"

definition getDistanceX :: "position \<Rightarrow> position \<Rightarrow> int" where
  "getDistanceX p q = \<bar>getOffsetX p q\<bar>"

definition getDistanceY :: "position \<Rightarrow> position \<Rightarrow> int" where
  "getDistanceY p q = \<bar>getOffsetY p q\<bar>"

definition getDistanceZ :: "position \<Rightarrow> position \<Rightarrow> int" where
  "getDistanceZ p q = \<bar>getOffsetZ p q\<bar>"

definition isInRange2 :: "position \<Rightarrow> position \<Rightarrow> int \<Rightarrow> int \<Rightarrow> bool" where
  "isInRange2 q p deltax deltay \<longleftrightarrow> getDistanceX q p \<le> deltax \<and> getDistanceY q p \<le> deltay"

definition isInRange :: "position \<Rightarrow> position \<Rightarrow> int \<Rightarrow> int \<Rightarrow> int \<Rightarrow> bool" where
  "isInRange q p deltax deltay deltaz \<longleftrightarrow>
     getDistanceX q p \<le> deltax \<and> getDistanceY q p \<le> deltay \<and> getDistanceZ q p \<le> deltaz"

definition position_less :: "position \<Rightarrow> position \<Rightarrow> bool" where
  "position_less p q \<longleftrightarrow>
     pz p < pz q \<or> pz p = pz q \<and> (py p < py q \<or> py p = py q \<and> px p < px q)"

definition position_add :: "position \<Rightarrow> position \<Rightarrow> position" where
  "position_add p q = \<lparr>px = px p + px q, py = py p + py q, pz = pz p + pz q\<rparr>"

definition position_sub :: "position \<Rightarrow> position \<Rightarrow> position" where
  "position_sub p q = \<lparr>px = px p - px q, py = py p - py q, pz = pz p - pz q\<rparr>"

fun direction_name :: "Direction \<Rightarrow> string" where
  "direction_name DIRECTION_NORTH = ''North''"
| "direction_name DIRECTION_EAST = ''East''"
| "direction_name DIRECTION_WEST = ''West''"
| "direction_name DIRECTION_SOUTH = ''South''"
| "direction_name DIRECTION_SOUTHWEST = ''South-West''"
| "direction_name DIRECTION_SOUTHEAST = ''South-East''"
| "direction_name DIRECTION_NORTHWEST = ''North-West''"
| "direction_name DIRECTION_NORTHEAST = ''North-East''"
| "direction_name DIRECTION_NONE = ''''"

section \<open>Moves\<close>

fun getNextPosition :: "Direction \<Rightarrow> position \<Rightarrow> position" where
  "getNextPosition DIRECTION_NORTH p = p\<lparr>py := py p - 1\<rparr>"
| "getNextPosition DIRECTION_SOUTH p = p\<lparr>py := py p + 1\<rparr>"
| "getNextPosition DIRECTION_WEST p = p\<lparr>px := px p - 1\<rparr>"
| "getNextPosition DIRECTION_EAST p = p\<lparr>px := px p + 1\<rparr>"
| "getNextPosition DIRECTION_SOUTHWEST p = p\<lparr>px := px p - 1, py := py p + 1\<rparr>"
| "getNextPosition DIRECTION_NORTHWEST p = p\<lparr>px := px p - 1, py := py p - 1\<rparr>"
| "getNextPosition DIRECTION_NORTHEAST p = p\<lparr>px := px p + 1, py := py p - 1\<rparr>"
| "getNextPosition DIRECTION_SOUTHEAST p = p\<lparr>px := px p + 1, py := py p + 1\<rparr>"
| "getNextPosition DIRECTION_NONE p = p"

definition getDirectionTo :: "position \<Rightarrow> position \<Rightarrow> Direction" where
  "getDirectionTo from' to' =
     (if from' = to' then DIRECTION_NONE
      else
        let x_offset = getOffsetX from' to';
            (dir, x_offset) = (if x_offset < 0 then (DIRECTION_EAST, \<bar>x_offset\<bar>)
                               else (DIRECTION_WEST, x_offset));
            y_offset = getOffsetY from' to'
        in if y_offset \<ge> 0 then
             if y_offset > x_offset then DIRECTION_NORTH
             else if y_offset = x_offset then
               if dir = DIRECTION_EAST then DIRECTION_NORTHEAST else DIRECTION_NORTHWEST
             else dir
           else
             let y_offset = \<bar>y_offset\<bar>
             in if y_offset > x_offset then DIRECTION_SOUTH
                else if y_offset = x_offset then
                  if dir = DIRECTION_EAST then DIRECTION_SOUTHEAST else DIRECTION_SOUTHWEST
                else dir)"

section \<open>Steps towards a target\<close>

definition distance :: "position \<Rightarrow> position \<Rightarrow> int" where
  "distance p q = max (getDistanceX p q) (getDistanceY p q)"

lemmas offset_defs = getOffsetX_def getOffsetY_def getDistanceX_def getDistanceY_def distance_def

lemma uint_step:
  fixes a b :: u16
  shows "a < b \<Longrightarrow> uint (a + 1) = uint a + 1" "b < a \<Longrightarrow> uint (a - 1) = uint a - 1"
proof -
  assume "a < b"
  then have "uint a + 1 < 2 ^ 16"
    using uint_lt2p [of b] by (simp add: word_less_def)
  then show "uint (a + 1) = uint a + 1"
    by (simp add: uint_word_ariths)
next
  assume "b < a"
  then have "uint b < uint a" by (simp add: word_less_def)
  then have "0 < uint a" by (rule le_less_trans [OF unsigned_greater_eq])
  then show "uint (a - 1) = uint a - 1"
    using uint_lt2p [of a] by (simp add: uint_word_ariths)
qed

lemma position_eqI: "px p = px q \<Longrightarrow> py p = py q \<Longrightarrow> pz p = pz q \<Longrightarrow> p = (q :: position)"
  by (cases p; cases q) simp

lemma offset_signs:
  "getOffsetX p q < 0 \<longleftrightarrow> px p < px q" "getOffsetY p q < 0 \<longleftrightarrow> py p < py q"
  "getOffsetX p q > 0 \<longleftrightarrow> px q < px p" "getOffsetY p q > 0 \<longleftrightarrow> py q < py p"
  by (auto simp: getOffsetX_def getOffsetY_def word_less_def)

lemma step_x:
  "px p < px q \<Longrightarrow> getOffsetX (p\<lparr>px := px p + 1\<rparr>) q = getOffsetX p q + 1"
  "px q < px p \<Longrightarrow> getOffsetX (p\<lparr>px := px p - 1\<rparr>) q = getOffsetX p q - 1"
  by (simp_all add: getOffsetX_def uint_step)

lemma step_y:
  "py p < py q \<Longrightarrow> getOffsetY (p\<lparr>py := py p + 1\<rparr>) q = getOffsetY p q + 1"
  "py q < py p \<Longrightarrow> getOffsetY (p\<lparr>py := py p - 1\<rparr>) q = getOffsetY p q - 1"
  by (simp_all add: getOffsetY_def uint_step)

lemma offset_update [simp]:
  "getOffsetX (p\<lparr>py := y\<rparr>) q = getOffsetX p q" "getOffsetY (p\<lparr>px := x\<rparr>) q = getOffsetY p q"
  "getOffsetX (p\<lparr>px := x, py := y\<rparr>) q = getOffsetX (p\<lparr>px := x\<rparr>) q"
  "getOffsetY (p\<lparr>px := x, py := y\<rparr>) q = getOffsetY (p\<lparr>py := y\<rparr>) q"
  by (simp_all add: getOffsetX_def getOffsetY_def)

section \<open>Properties\<close>

text \<open>C17: A step in the direction that \<open>getDirectionTo\<close> gives brings a creature exactly one square
  nearer to any other position of its floor (in the distance that counts diagonal steps as one),
  without leaving the map's coordinates, and keeps it on the floor.\<close>

theorem step_towards:
  assumes "pz p = pz q" and "p \<noteq> q"
  shows "let p' = getNextPosition (getDirectionTo p q) p
         in distance p' q = distance p q - 1 \<and> pz p' = pz p \<and>
            \<bar>uint (px p') - uint (px p)\<bar> \<le> 1 \<and> \<bar>uint (py p') - uint (py p)\<bar> \<le> 1"
proof -
  have ne: "getOffsetX p q \<noteq> 0 \<or> getOffsetY p q \<noteq> 0"
    using assms position_eqI [of p q] by (auto simp: getOffsetX_def getOffsetY_def word_uint_eq_iff [of "px p"]
        word_uint_eq_iff [of "py p"])
  consider "getOffsetX p q < 0" | "getOffsetX p q = 0" | "getOffsetX p q > 0" by linarith
  then show ?thesis
    using ne assms(2) offset_signs [of p q]
    by cases
       (auto simp: getDirectionTo_def Let_def distance_def getDistanceX_def getDistanceY_def
          step_x step_y uint_step split: if_splits)
qed

lemma step_towards_witness:
  "let p = \<lparr>px = 100, py = 100, pz = 7\<rparr>; q = \<lparr>px = 103, py = 98, pz = 7\<rparr>;
       p' = getNextPosition (getDirectionTo p q) p
   in distance p' q = distance p q - 1 \<and> pz p' = pz p \<and>
      \<bar>uint (px p') - uint (px p)\<bar> \<le> 1 \<and> \<bar>uint (py p') - uint (py p)\<bar> \<le> 1"
  unfolding Let_def by (rule step_towards [unfolded Let_def]) simp_all

end
