(* ===== verification/Net_Message.thy ===== *)
theory Net_Message
  imports Checksum Xtea Positions
begin

text \<open>
  The network messages of \<open>src/networkmessage.{h,cpp}\<close> and \<open>src/outputmessage.h\<close>: a buffer of
  \<open>NETWORKMESSAGE_MAXSIZE\<close> bytes with a 16-bit position and a 16-bit length, the guarded
  reads and writes of fixed-width values and strings, and the headers that an outgoing message
  gets in front. Positions and lengths are \<open>16 word\<close>, so their wrap-around is the code's.
  The conversions between UTF-8 and ISO-8859-1 of boost and the item table are parameters.
\<close>

definition INITIAL_BUFFER_POSITION :: u16 where
  "INITIAL_BUFFER_POSITION = 8"

definition HEADER_LENGTH :: nat where
  "HEADER_LENGTH = 2"

definition CHECKSUM_LENGTH :: nat where
  "CHECKSUM_LENGTH = 4"

definition XTEA_MULTIPLE :: nat where
  "XTEA_MULTIPLE = 8"

definition MAX_BODY_LENGTH :: nat where
  "MAX_BODY_LENGTH = NETWORKMESSAGE_MAXSIZE - HEADER_LENGTH - CHECKSUM_LENGTH - XTEA_MULTIPLE"

definition MAX_PROTOCOL_BODY_LENGTH :: nat where
  "MAX_PROTOCOL_BODY_LENGTH = MAX_BODY_LENGTH - 10"

lemmas size_defs = INITIAL_BUFFER_POSITION_def HEADER_LENGTH_def CHECKSUM_LENGTH_def
  XTEA_MULTIPLE_def NETWORKMESSAGE_MAXSIZE_def MAX_BODY_LENGTH_def MAX_PROTOCOL_BODY_LENGTH_def

record net_message =
  msg_length :: u16
  msg_position :: u16
  overrun :: bool
  buffer :: mem

definition reset :: "'a net_message_scheme \<Rightarrow> 'a net_message_scheme" where
  "reset m = m\<lparr>msg_length := 0, msg_position := INITIAL_BUFFER_POSITION, overrun := False\<rparr>"

section \<open>Guards\<close>

text \<open>\<open>size_t\<close> arithmetic, modulo \<open>2 ^ 64\<close>.\<close>

definition can_add :: "nat \<Rightarrow> 'a net_message_scheme \<Rightarrow> bool" where
  "can_add n m \<longleftrightarrow> (n + unat (msg_position m)) mod 2 ^ 64 < MAX_BODY_LENGTH"

definition can_read :: "int \<Rightarrow> 'a net_message_scheme \<Rightarrow> bool" where
  "can_read n m \<longleftrightarrow>
     \<not> (uint (msg_position m) + n > uint (msg_length m) + 8 \<or>
        n \<ge> int NETWORKMESSAGE_MAXSIZE - uint (msg_position m))"

section \<open>Reads\<close>

text \<open>The shape that every fixed-width read has: \<open>canRead\<close> first, which records the overrun
  when it refuses; the value is zero then.\<close>

definition get_raw :: "nat \<Rightarrow> 'a net_message_scheme \<Rightarrow> u8 list option \<times> 'a net_message_scheme" where
  "get_raw n m =
     (if can_read (int n) m
      then (Some (bytes (buffer m) (unat (msg_position m)) n),
            m\<lparr>msg_position := msg_position m + of_nat n\<rparr>)
      else (None, m\<lparr>overrun := True\<rparr>))"

definition getByte :: "'a net_message_scheme \<Rightarrow> u8 \<times> 'a net_message_scheme" where
  "getByte m = (case get_raw 1 m of (None, m') \<Rightarrow> (0, m') | (Some bs, m') \<Rightarrow> (hd bs, m'))"

definition get_u16 :: "'a net_message_scheme \<Rightarrow> u16 \<times> 'a net_message_scheme" where
  "get_u16 m = (case get_raw 2 m of (None, m') \<Rightarrow> (0, m') | (Some bs, m') \<Rightarrow> (of_le16 bs, m'))"

definition get_u32 :: "'a net_message_scheme \<Rightarrow> u32 \<times> 'a net_message_scheme" where
  "get_u32 m = (case get_raw 4 m of (None, m') \<Rightarrow> (0, m') | (Some bs, m') \<Rightarrow> (of_le32 bs, m'))"

text \<open>\<open>buffer[--info.position]\<close>\<close>

definition getPreviousByte :: "'a net_message_scheme \<Rightarrow> u8 \<times> 'a net_message_scheme" where
  "getPreviousByte m =
     (let p = msg_position m - 1 in (buffer m (unat p), m\<lparr>msg_position := p\<rparr>))"

definition getString ::
  "(u8 list \<Rightarrow> u8 list) \<Rightarrow> u16 \<Rightarrow> 'a net_message_scheme \<Rightarrow> u8 list \<times> 'a net_message_scheme" where
  "getString to_utf stringLen m =
     (let (stringLen, m) = (if stringLen = 0 then get_u16 m else (stringLen, m))
      in case get_raw (unat stringLen) m of
           (None, m') \<Rightarrow> ([], m')
         | (Some bs, m') \<Rightarrow> (to_utf bs, m'))"

definition getPosition :: "'a net_message_scheme \<Rightarrow> position \<times> 'a net_message_scheme" where
  "getPosition m =
     (let (x, m) = get_u16 m; (y, m) = get_u16 m; (z, m) = getByte m
      in (\<lparr>px = x, py = y, pz = z\<rparr>, m))"

definition skipBytes :: "16 word \<Rightarrow> 'a net_message_scheme \<Rightarrow> 'a net_message_scheme" where
  "skipBytes count m = m\<lparr>msg_position := msg_position m + count\<rparr>"

section \<open>Writes\<close>

definition put_raw :: "u8 list \<Rightarrow> 'a net_message_scheme \<Rightarrow> 'a net_message_scheme" where
  "put_raw bs m =
     m\<lparr>buffer := put_bytes (unat (msg_position m)) bs (buffer m),
       msg_position := msg_position m + of_nat (length bs),
       msg_length := msg_length m + of_nat (length bs)\<rparr>"

definition add_raw :: "u8 list \<Rightarrow> 'a net_message_scheme \<Rightarrow> 'a net_message_scheme" where
  "add_raw bs m = (if \<not> can_add (length bs) m then m else put_raw bs m)"

definition addByte :: "u8 \<Rightarrow> 'a net_message_scheme \<Rightarrow> 'a net_message_scheme" where
  "addByte v m = add_raw [v] m"

definition add_u16 :: "u16 \<Rightarrow> 'a net_message_scheme \<Rightarrow> 'a net_message_scheme" where
  "add_u16 v m = add_raw (le16 v) m"

definition add_u32 :: "u32 \<Rightarrow> 'a net_message_scheme \<Rightarrow> 'a net_message_scheme" where
  "add_u32 v m = add_raw (le32 v) m"

definition addString ::
  "(u8 list \<Rightarrow> u8 list) \<Rightarrow> u8 list \<Rightarrow> 'a net_message_scheme \<Rightarrow> 'a net_message_scheme" where
  "addString from_utf value m =
     (let latin1Str = from_utf value; stringLen = length latin1Str
      in if \<not> can_add (stringLen + 2) m \<or> stringLen > 8192 then m
         else put_raw latin1Str (add_u16 (of_nat stringLen) m))"

definition addBytes :: "u8 list \<Rightarrow> 'a net_message_scheme \<Rightarrow> 'a net_message_scheme" where
  "addBytes bs m = (if \<not> can_add (length bs) m \<or> length bs > 8192 then m else put_raw bs m)"

definition addPaddingBytes :: "nat \<Rightarrow> 'a net_message_scheme \<Rightarrow> 'a net_message_scheme" where
  "addPaddingBytes n m =
     (if \<not> can_add n m then m
      else m\<lparr>buffer := put_bytes (unat (msg_position m)) (replicate n 0x33) (buffer m),
             msg_length := msg_length m + of_nat n\<rparr>)"

definition addPosition :: "position \<Rightarrow> 'a net_message_scheme \<Rightarrow> 'a net_message_scheme" where
  "addPosition pos m = addByte (pz pos) (add_u16 (py pos) (add_u16 (px pos) m))"

definition fluidMap :: "u8 list" where
  "fluidMap = [0, 1, 5, 3, 6, 8, 9, 2]"

text \<open>The fields of \<open>ItemType\<close> that a message shows; the table is a parameter.\<close>

record wire_item_type =
  clientId :: u16
  it_stackable :: bool
  it_isSplash :: bool
  it_isFluidContainer :: bool
  it_isAnimation :: bool

definition addItem ::
  "(u16 \<Rightarrow> wire_item_type) \<Rightarrow> u16 \<Rightarrow> u8 \<Rightarrow> 'a net_message_scheme \<Rightarrow> 'a net_message_scheme" where
  "addItem types itemId count m =
     (let it = types itemId;
          m = addByte 0xFF (add_u16 (clientId it) m);
          m = (if it_stackable it then addByte count m
               else if it_isSplash it \<or> it_isFluidContainer it
                 then addByte (fluidMap ! unat (count AND 7)) m
               else m)
      in if it_isAnimation it then addByte 0xFE m else m)"

text \<open>The overload for an item object: its id, its count (16 bits, cut to 255) and fluid.\<close>

definition addItem_object ::
  "(u16 \<Rightarrow> wire_item_type) \<Rightarrow> u16 \<Rightarrow> u16 \<Rightarrow> u8 \<Rightarrow> 'a net_message_scheme \<Rightarrow> 'a net_message_scheme" where
  "addItem_object types itemId itemCount fluidType m =
     (let it = types itemId;
          m = addByte 0xFF (add_u16 (clientId it) m);
          m = (if it_stackable it then addByte (ucast (min 0xFF itemCount)) m
               else if it_isSplash it \<or> it_isFluidContainer it
                 then addByte (fluidMap ! unat (fluidType AND 7)) m
               else m)
      in if it_isAnimation it then addByte 0xFE m else m)"

definition addItemId :: "(u16 \<Rightarrow> wire_item_type) \<Rightarrow> u16 \<Rightarrow> 'a net_message_scheme \<Rightarrow> 'a net_message_scheme" where
  "addItemId types itemId m = add_u16 (clientId (types itemId)) m"

section \<open>Accessors\<close>

definition getRemainingBufferLength :: "'a net_message_scheme \<Rightarrow> u16" where
  "getRemainingBufferLength m = msg_length m - msg_position m"

definition setBufferPosition :: "u16 \<Rightarrow> 'a net_message_scheme \<Rightarrow> bool \<times> 'a net_message_scheme" where
  "setBufferPosition pos m =
     (if int (unat pos) < int NETWORKMESSAGE_MAXSIZE - int (unat INITIAL_BUFFER_POSITION)
      then (True, m\<lparr>msg_position := pos + INITIAL_BUFFER_POSITION\<rparr>)
      else (False, m))"

definition getLengthHeader :: "'a net_message_scheme \<Rightarrow> u16" where
  "getLengthHeader m = ucast (buffer m 0) OR push_bit 8 (ucast (buffer m 1))"

text \<open>Returns the address of the body, and moves the position there.\<close>

definition getBodyBuffer :: "'a net_message_scheme \<Rightarrow> nat \<times> 'a net_message_scheme" where
  "getBodyBuffer m = (HEADER_LENGTH, m\<lparr>msg_position := 2\<rparr>)"

section \<open>Outgoing messages\<close>

record output_message = net_message +
  outputBufferStart :: u16

text \<open>\<open>add_header\<close>: None where the assertion of the code fails.\<close>

definition add_header :: "u8 list \<Rightarrow> output_message \<Rightarrow> output_message option" where
  "add_header bs m =
     (if unat (outputBufferStart m) \<ge> length bs
      then let start = outputBufferStart m - of_nat (length bs)
           in Some (m\<lparr>outputBufferStart := start,
                      buffer := put_bytes (unat start) bs (buffer m),
                      msg_length := msg_length m + of_nat (length bs)\<rparr>)
      else None)"

definition writeMessageLength :: "output_message \<Rightarrow> output_message option" where
  "writeMessageLength m = add_header (le16 (msg_length m)) m"

definition addCryptoHeader :: "bool \<Rightarrow> output_message \<Rightarrow> output_message option" where
  "addCryptoHeader addChecksum m =
     Option.bind
       (if addChecksum
        then add_header
          (le32 (adlerChecksum (buffer m) (unat (outputBufferStart m)) (unat (msg_length m)))) m
        else Some m)
       writeMessageLength"

text \<open>\<open>append\<close> copies the body of another message without a bounds check: None where it
  would leave the array.\<close>

definition append_msg :: "'a net_message_scheme \<Rightarrow> output_message \<Rightarrow> output_message option" where
  "append_msg msg m =
     (let msgLen = unat (msg_length msg)
      in if unat (msg_position m) + msgLen > NETWORKMESSAGE_MAXSIZE
            \<or> 8 + msgLen > NETWORKMESSAGE_MAXSIZE then None
         else Some (put_raw (bytes (buffer msg) 8 msgLen) m))"

definition make_output_message :: "mem \<Rightarrow> output_message" where
  "make_output_message buf =
     \<lparr>msg_length = 0, msg_position = INITIAL_BUFFER_POSITION, overrun = False, buffer = buf,
      outputBufferStart = INITIAL_BUFFER_POSITION\<rparr>"


section \<open>Bounds of reads and writes\<close>

lemma unat_u16_less [simp]: "unat (w :: u16) < 65536"
  using unsigned_less [of w, where 'a = nat] by simp

lemma unat_add_u16: "unat (a :: u16) + n < 65536 \<Longrightarrow> unat (a + of_nat n) = unat a + n"
  by (simp add: unat_word_ariths unat_of_nat)

lemma can_add_iff: "n < 2 ^ 63 \<Longrightarrow> can_add n m \<longleftrightarrow> unat (msg_position m) + n < 65536"
proof -
  assume "n < 2 ^ 63"
  then have "n + unat (msg_position m) < 2 ^ 63 + 65536"
    by (rule add_strict_mono) simp
  also have "\<dots> < 2 ^ 64" by simp
  finally have "n + unat (msg_position m) < 2 ^ 64" .
  then show ?thesis by (simp only: can_add_def mod_less) (auto simp: size_defs)
qed

lemma can_read_iff:
  "can_read (int n) m \<longleftrightarrow>
     unat (msg_position m) + n \<le> unat (msg_length m) + 8 \<and> unat (msg_position m) + n < 65550"
proof -
  obtain p l where "p = unat (msg_position m)" "l = unat (msg_length m)" by blast
  then have "uint (msg_position m) = int p" "uint (msg_length m) = int l" by simp_all
  then show ?thesis
    unfolding can_read_def size_defs \<open>p = _\<close> [symmetric] \<open>l = _\<close> [symmetric] by auto
qed

text \<open>A message being written: the position is behind the last byte of the body.\<close>

definition synced :: "'a net_message_scheme \<Rightarrow> bool" where
  "synced m \<longleftrightarrow> unat (msg_position m) = unat (msg_length m) + 8"

lemma put_raw_simps [simp]:
  "msg_position (put_raw bs m) = msg_position m + of_nat (length bs)"
  "msg_length (put_raw bs m) = msg_length m + of_nat (length bs)"
  "overrun (put_raw bs m) = overrun m"
  "buffer (put_raw bs m) = put_bytes (unat (msg_position m)) bs (buffer m)"
  by (simp_all add: put_raw_def)

lemma synced_put_raw:
  assumes "synced m" "unat (msg_position m) + length bs < 65536"
  shows "synced (put_raw bs m)"
proof -
  have "unat (msg_length m + of_nat (length bs)) = unat (msg_length m) + length bs"
    using assms by (intro unat_add_u16) (simp add: synced_def)
  then show ?thesis using assms by (simp add: synced_def unat_add_u16)
qed

lemma synced_add_raw: "synced m \<Longrightarrow> length bs < 2 ^ 63 \<Longrightarrow> synced (add_raw bs m)"
  by (auto simp: add_raw_def can_add_iff intro: synced_put_raw)

lemma synced_adds:
  assumes "synced m"
  shows "synced (addByte b m)" "synced (add_u16 w m)" "synced (add_u32 v m)"
    "synced (addPosition p m)"
  using assms by (auto simp: addByte_def add_u16_def add_u32_def addPosition_def intro!: synced_add_raw)

lemma synced_addBytes: "synced m \<Longrightarrow> synced (addBytes bs m)"
  by (auto simp: addBytes_def can_add_iff intro: synced_put_raw)

lemma synced_addString:
  assumes "synced m"
  shows "synced (addString f s m)"
proof -
  let ?n = "length (f s)"
  show ?thesis
  proof (cases "\<not> can_add (?n + 2) m \<or> ?n > 8192")
    case False
    then have "can_add (?n + 2) m" "?n + 2 < 2 ^ 63" by simp_all
    then have fits: "unat (msg_position m) + 2 + ?n < 65536" by (simp only: can_add_iff)
    have "add_u16 (of_nat ?n) m = put_raw (le16 (of_nat ?n)) m"
      using fits by (simp add: add_u16_def add_raw_def can_add_iff)
    moreover have "unat (msg_position m + 2) = unat (msg_position m) + 2"
      using fits unat_add_u16 [of "msg_position m" 2] by simp
    ultimately show ?thesis
      using fits False assms
      by (auto simp: addString_def Let_def intro!: synced_put_raw)
  qed (use assms in \<open>auto simp: addString_def Let_def\<close>)
qed

lemma synced_addItems:
  assumes "synced m"
  shows "synced (addItem types i c m)" "synced (addItem_object types i n f m)"
    "synced (addItemId types i m)"
  using assms
  by (simp_all add: addItem_def addItem_object_def addItemId_def Let_def synced_adds)

lemma synced_reset: "synced (reset m)" "synced (make_output_message buf)"
  by (simp_all add: reset_def make_output_message_def synced_def size_defs)

text \<open>A read that succeeds stays in the array, and moves the position without wrap-around when
  the length leaves room for the 8 bytes that \<open>canRead\<close> adds.\<close>

lemma get_raw_Some:
  assumes "get_raw n m = (Some bs, m')"
  shows "bs = bytes (buffer m) (unat (msg_position m)) n"
    and "m' = m\<lparr>msg_position := msg_position m + of_nat n\<rparr>"
    and "unat (msg_position m) + n \<le> unat (msg_length m) + 8"
    and "unat (msg_position m) + n < NETWORKMESSAGE_MAXSIZE"
  using assms by (auto simp: get_raw_def can_read_iff size_defs split: if_splits)

lemma get_raw_no_wrap:
  assumes "get_raw n m = (Some bs, m')" and "unat (msg_length m) \<le> 65527"
  shows "unat (msg_position m') = unat (msg_position m) + n"
  using get_raw_Some [OF assms(1)] assms(2) by (simp add: unat_add_u16)

lemma get_raw_ok:
  assumes "unat (msg_position m) + n \<le> unat (msg_length m) + 8"
    and "unat (msg_position m) + n < 65536"
  shows "get_raw n m = (Some (bytes (buffer m) (unat (msg_position m)) n),
                        m\<lparr>msg_position := msg_position m + of_nat n\<rparr>)"
  using assms by (simp add: get_raw_def can_read_iff)

lemma get_raw_None: "get_raw n m = (None, m') \<Longrightarrow> m' = m\<lparr>overrun := True\<rparr>"
  by (auto simp: get_raw_def split: if_splits)

section \<open>Fields\<close>

text \<open>The fields that protocols write and read, as data: to state that what is written by any
  sequence of writes is what the same sequence of reads returns.\<close>

datatype wire_field = FByte u8 | FU16 u16 | FU32 u32 | FString "u8 list" | FPosition position

datatype wire_kind = KByte | KU16 | KU32 | KString | KPosition

fun kind_of :: "wire_field \<Rightarrow> wire_kind" where
  "kind_of (FByte _) = KByte"
| "kind_of (FU16 _) = KU16"
| "kind_of (FU32 _) = KU32"
| "kind_of (FString _) = KString"
| "kind_of (FPosition _) = KPosition"

fun write_field ::
  "(u8 list \<Rightarrow> u8 list) \<Rightarrow> wire_field \<Rightarrow> 'a net_message_scheme \<Rightarrow> 'a net_message_scheme" where
  "write_field f (FByte b) m = addByte b m"
| "write_field f (FU16 w) m = add_u16 w m"
| "write_field f (FU32 w) m = add_u32 w m"
| "write_field f (FString s) m = addString f s m"
| "write_field f (FPosition p) m = addPosition p m"

fun read_field ::
  "(u8 list \<Rightarrow> u8 list) \<Rightarrow> wire_kind \<Rightarrow> 'a net_message_scheme \<Rightarrow> wire_field \<times> 'a net_message_scheme" where
  "read_field t KByte m = apfst FByte (getByte m)"
| "read_field t KU16 m = apfst FU16 (get_u16 m)"
| "read_field t KU32 m = apfst FU32 (get_u32 m)"
| "read_field t KString m = apfst FString (getString t 0 m)"
| "read_field t KPosition m = apfst FPosition (getPosition m)"

fun write_fields ::
  "(u8 list \<Rightarrow> u8 list) \<Rightarrow> wire_field list \<Rightarrow> 'a net_message_scheme \<Rightarrow> 'a net_message_scheme" where
  "write_fields f [] m = m"
| "write_fields f (x # xs) m = write_fields f xs (write_field f x m)"

fun read_fields ::
  "(u8 list \<Rightarrow> u8 list) \<Rightarrow> wire_kind list \<Rightarrow> 'a net_message_scheme \<Rightarrow>
     wire_field list \<times> 'a net_message_scheme" where
  "read_fields t [] m = ([], m)"
| "read_fields t (k # ks) m =
     (let (x, m) = read_field t k m; (xs, m) = read_fields t ks m in (x # xs, m))"

fun field_bytes :: "(u8 list \<Rightarrow> u8 list) \<Rightarrow> wire_field \<Rightarrow> u8 list" where
  "field_bytes f (FByte b) = [b]"
| "field_bytes f (FU16 w) = le16 w"
| "field_bytes f (FU32 w) = le32 w"
| "field_bytes f (FString s) = le16 (of_nat (length (f s))) @ f s"
| "field_bytes f (FPosition p) = le16 (px p) @ le16 (py p) @ [pz p]"

definition fields_bytes :: "(u8 list \<Rightarrow> u8 list) \<Rightarrow> wire_field list \<Rightarrow> u8 list" where
  "fields_bytes f xs = concat (map (field_bytes f) xs)"

fun strings_ok :: "(u8 list \<Rightarrow> u8 list) \<Rightarrow> wire_field list \<Rightarrow> bool" where
  "strings_ok f [] = True"
| "strings_ok f (FString s # xs) = (length (f s) \<le> 8192 \<and> strings_ok f xs)"
| "strings_ok f (_ # xs) = strings_ok f xs"

lemma put_raw_append: "unat (msg_position m) + length bs < 65536 \<Longrightarrow>
    put_raw cs (put_raw bs m) = put_raw (bs @ cs) m"
  by (simp add: put_raw_def put_bytes_append unat_add_u16 add.assoc)

lemma write_field_raw:
  assumes "unat (msg_position m) + length (field_bytes f x) < 65536" "strings_ok f [x]"
  shows "write_field f x m = put_raw (field_bytes f x) m"
proof (cases x)
  case (FString s)
  have "add_u16 (of_nat (length (f s))) m = put_raw (le16 (of_nat (length (f s)))) m"
    using assms FString by (simp add: add_u16_def add_raw_def can_add_iff)
  then show ?thesis
    using assms FString by (simp add: addString_def can_add_iff put_raw_append Let_def)
next
  case (FPosition p)
  have "unat (msg_position m + 2) = unat (msg_position m) + 2"
    "unat (msg_position m + 4) = unat (msg_position m) + 4"
    using assms FPosition unat_add_u16 [of "msg_position m" 2] unat_add_u16 [of "msg_position m" 4]
    by simp_all
  then show ?thesis
    using assms FPosition
    by (simp add: addPosition_def addByte_def add_u16_def add_raw_def can_add_iff put_raw_append)
qed (use assms in \<open>simp_all add: addByte_def add_u16_def add_u32_def add_raw_def can_add_iff\<close>)

lemma strings_ok_Cons: "strings_ok f (x # xs) \<longleftrightarrow> strings_ok f [x] \<and> strings_ok f xs"
  by (cases x) auto

lemma write_fields_raw:
  assumes "unat (msg_position m) + length (fields_bytes f xs) < 65536" "strings_ok f xs"
  shows "write_fields f xs m = put_raw (fields_bytes f xs) m"
  using assms
proof (induction xs arbitrary: m)
  case Nil
  then show ?case by (simp add: fields_bytes_def put_raw_def)
next
  case (Cons x xs)
  have fb: "fields_bytes f (x # xs) = field_bytes f x @ fields_bytes f xs"
    by (simp add: fields_bytes_def)
  have ok: "strings_ok f [x]" "strings_ok f xs" using Cons.prems(2) strings_ok_Cons [of f x xs] by blast+
  have w: "write_field f x m = put_raw (field_bytes f x) m"
    using Cons.prems(1) ok(1) by (intro write_field_raw) (auto simp: fb)
  have "write_fields f xs (put_raw (field_bytes f x) m) =
        put_raw (fields_bytes f xs) (put_raw (field_bytes f x) m)"
    using Cons.prems(1) ok(2) by (intro Cons.IH) (auto simp: fb unat_add_u16)
  then show ?case using Cons.prems(1) by (simp add: w fb put_raw_append)
qed

text \<open>What a reader sees: the encoding of the fields from its position on, inside the length.\<close>

definition has_bytes :: "u8 list \<Rightarrow> 'a net_message_scheme \<Rightarrow> bool" where
  "has_bytes bs m \<longleftrightarrow>
     bytes (buffer m) (unat (msg_position m)) (length bs) = bs \<and>
     unat (msg_position m) + length bs \<le> unat (msg_length m) + 8 \<and>
     unat (msg_position m) + length bs < 65536"

definition advance :: "nat \<Rightarrow> 'a net_message_scheme \<Rightarrow> 'a net_message_scheme" where
  "advance n m = m\<lparr>msg_position := msg_position m + of_nat n\<rparr>"

lemma advance_simps [simp]:
  "buffer (advance n m) = buffer m" "msg_length (advance n m) = msg_length m"
  "overrun (advance n m) = overrun m"
  by (simp_all add: advance_def)

lemma advance_advance: "advance k (advance n m) = advance (n + k) m"
  by (simp add: advance_def add.assoc)

lemma has_bytes_append:
  "has_bytes (bs @ cs) m \<longleftrightarrow> has_bytes bs m \<and> has_bytes cs (advance (length bs) m)"
proof (cases "unat (msg_position m) + length bs < 65536")
  case True
  have "unat (msg_position m + of_nat (length bs)) = unat (msg_position m) + length bs"
    using True by (rule unat_add_u16)
  then have adv: "has_bytes cs (advance (length bs) m) \<longleftrightarrow>
      bytes (buffer m) (unat (msg_position m) + length bs) (length cs) = cs \<and>
      unat (msg_position m) + length bs + length cs \<le> unat (msg_length m) + 8 \<and>
      unat (msg_position m) + length bs + length cs < 65536"
    by (simp add: has_bytes_def advance_def)
  have "bytes (buffer m) (unat (msg_position m)) (length bs + length cs) = bs @ cs \<longleftrightarrow>
      bytes (buffer m) (unat (msg_position m)) (length bs) = bs \<and>
      bytes (buffer m) (unat (msg_position m) + length bs) (length cs) = cs"
    by (simp add: bytes_add)
  with True show ?thesis
    unfolding adv by (auto simp only: has_bytes_def length_append add.assoc)
qed (simp add: has_bytes_def)

lemma get_raw_has_bytes:
  "has_bytes bs m \<Longrightarrow> get_raw (length bs) m = (Some bs, advance (length bs) m)"
  by (simp add: has_bytes_def get_raw_ok advance_def)

context byte_codec
begin

lemma get_raw_enc:
  assumes "has_bytes (enc v) m"
  shows "get_raw width m = (Some (enc v), advance width m)"
  using get_raw_has_bytes [OF assms] by simp

end

lemma getByte_has_bytes: "has_bytes [b] m \<Longrightarrow> getByte m = (b, advance 1 m)"
  using u8_codec.get_raw_enc [of b m] by (simp add: getByte_def)

lemma get_u16_has_bytes: "has_bytes (le16 w) m \<Longrightarrow> get_u16 m = (w, advance 2 m)"
  using u16_codec.get_raw_enc [of w m] by (simp add: get_u16_def)

lemma get_u32_has_bytes: "has_bytes (le32 w) m \<Longrightarrow> get_u32 m = (w, advance 4 m)"
  using u32_codec.get_raw_enc [of w m] by (simp add: get_u32_def)

lemma read_field_has_bytes:
  assumes "has_bytes (field_bytes f x) m" "strings_ok f [x]"
    and "\<And>s. x = FString s \<Longrightarrow> t (f s) = s"
    and "t [] = []"
  shows "read_field t (kind_of x) m = (x, advance (length (field_bytes f x)) m)"
proof (cases x)
  case (FString s)
  let ?n = "length (f s)"
  have hb: "has_bytes (le16 (of_nat ?n)) m" "has_bytes (f s) (advance 2 m)"
    using assms(1) FString by (auto simp: has_bytes_append)
  have n: "unat (of_nat ?n :: u16) = ?n"
    using assms(2) FString by (simp add: unat_of_nat)
  show ?thesis
    using FString get_u16_has_bytes [OF hb(1)] get_raw_has_bytes [OF hb(2)] assms(3)
    by (simp add: getString_def n advance_advance)
next
  case (FPosition p)
  have hb: "has_bytes (le16 (px p)) m" "has_bytes (le16 (py p)) (advance 2 m)"
    "has_bytes [pz p] (advance 4 m)"
    using assms(1) FPosition by (auto simp: has_bytes_append advance_advance)
  show ?thesis
    using FPosition get_u16_has_bytes [OF hb(1)] get_u16_has_bytes [OF hb(2)]
      getByte_has_bytes [OF hb(3)]
    by (simp add: getPosition_def advance_advance)
qed (use assms in \<open>simp_all add: getByte_has_bytes get_u16_has_bytes get_u32_has_bytes\<close>)

lemma read_fields_has_bytes:
  assumes "has_bytes (fields_bytes f xs) m" "strings_ok f xs"
    and "\<And>s. FString s \<in> set xs \<Longrightarrow> t (f s) = s" and "t [] = []"
  shows "read_fields t (map kind_of xs) m = (xs, advance (length (fields_bytes f xs)) m)"
  using assms(1-3)
proof (induction xs arbitrary: m)
  case Nil
  then show ?case by (simp add: fields_bytes_def advance_def)
next
  case (Cons x xs)
  have fb: "fields_bytes f (x # xs) = field_bytes f x @ fields_bytes f xs"
    by (simp add: fields_bytes_def)
  have hb: "has_bytes (field_bytes f x) m"
    "has_bytes (fields_bytes f xs) (advance (length (field_bytes f x)) m)"
    using Cons.prems(1) by (auto simp: fb has_bytes_append)
  have ok: "strings_ok f [x]" "strings_ok f xs" using Cons.prems(2) strings_ok_Cons [of f x xs] by blast+
  have "read_field t (kind_of x) m = (x, advance (length (field_bytes f x)) m)"
    using hb(1) ok(1) Cons.prems(3) assms(4) by (intro read_field_has_bytes) auto
  then show ?case
    using Cons.IH [OF hb(2) ok(2)] Cons.prems(3) by (simp add: fb advance_advance)
qed

lemma write_fields_has_bytes:
  assumes "synced m" "unat (msg_position m) + length (fields_bytes f xs) < 65536" "strings_ok f xs"
  shows "has_bytes (fields_bytes f xs) ((write_fields f xs m)\<lparr>msg_position := msg_position m\<rparr>)"
proof -
  have "synced (put_raw (fields_bytes f xs) m)"
    using assms(1,2) by (rule synced_put_raw)
  then have "unat (msg_length (put_raw (fields_bytes f xs) m)) + 8 =
      unat (msg_position m) + length (fields_bytes f xs)"
    using assms(2) by (simp add: synced_def unat_add_u16)
  then show ?thesis
    using assms(2)
    by (simp only: has_bytes_def write_fields_raw [OF assms(2,3)] put_raw_simps net_message.simps
        bytes_put_bytes_same) simp
qed

section \<open>Every read stays in bounds\<close>

definition reads_within :: "'a net_message_scheme \<Rightarrow> 'a net_message_scheme \<Rightarrow> bool" where
  "reads_within m m' \<longleftrightarrow>
     buffer m' = buffer m \<and> msg_length m' = msg_length m \<and>
     unat (msg_position m) \<le> unat (msg_position m') \<and>
     (unat (msg_position m) \<le> unat (msg_length m) + 8 \<longrightarrow>
      unat (msg_position m') \<le> unat (msg_length m) + 8)"

lemma reads_within_refl: "reads_within m m"
  by (simp add: reads_within_def)

lemma reads_within_trans: "reads_within m m' \<Longrightarrow> reads_within m' m'' \<Longrightarrow> reads_within m m''"
  by (auto simp: reads_within_def)

lemma get_raw_within:
  assumes "unat (msg_length m) \<le> 65527"
  shows "reads_within m (snd (get_raw n m))"
proof (cases "can_read (int n) m")
  case True
  then have "unat (msg_position m) + n \<le> unat (msg_length m) + 8"
    by (simp add: can_read_iff)
  moreover from this have "unat (msg_position m + of_nat n) = unat (msg_position m) + n"
    using assms by (intro unat_add_u16) linarith
  ultimately show ?thesis using True by (simp add: get_raw_def reads_within_def)
qed (simp add: get_raw_def reads_within_def)

lemma get_within:
  assumes "unat (msg_length m) \<le> 65527"
  shows "reads_within m (snd (getByte m))" "reads_within m (snd (get_u16 m))"
    "reads_within m (snd (get_u32 m))"
  using get_raw_within [OF assms]
  by (auto simp: getByte_def get_u16_def get_u32_def split: prod.splits option.splits)
     (metis snd_conv)+

lemma reads_within_length: "reads_within m m' \<Longrightarrow> msg_length m' = msg_length m"
  by (simp add: reads_within_def)

lemma getString_within:
  assumes "unat (msg_length m) \<le> 65527"
  shows "reads_within m (snd (getString t l m))"
proof -
  obtain l' m1 where 1: "(if l = 0 then get_u16 m else (l, m)) = (l', m1)" by fastforce
  then have w: "reads_within m m1"
    using get_within(2) [OF assms] by (auto simp: reads_within_refl split: if_splits)
  then have "unat (msg_length m1) \<le> 65527" using assms by (simp add: reads_within_length)
  then have "reads_within m1 (snd (get_raw (unat l') m1))" by (rule get_raw_within)
  with w have "reads_within m (snd (get_raw (unat l') m1))" by (rule reads_within_trans)
  then show ?thesis by (auto simp: getString_def 1 split: prod.splits option.splits)
qed

lemma getPosition_within:
  assumes "unat (msg_length m) \<le> 65527"
  shows "reads_within m (snd (getPosition m))"
proof -
  obtain x m1 where 1: "get_u16 m = (x, m1)" by fastforce
  obtain y m2 where 2: "get_u16 m1 = (y, m2)" by fastforce
  obtain z m3 where 3: "getByte m2 = (z, m3)" by fastforce
  have "reads_within m m1" using get_within(2) [OF assms] 1 by simp
  moreover from this have l1: "unat (msg_length m1) \<le> 65527"
    using assms by (simp add: reads_within_length)
  then have w2: "reads_within m1 m2" using get_within(2) [OF l1] 2 by simp
  moreover from this have "reads_within m2 m3"
    using get_within(1) [of m2] 3 l1 by (simp add: reads_within_length)
  ultimately show ?thesis by (simp add: getPosition_def 1 2 3) (metis reads_within_trans)
qed

lemma read_field_within:
  assumes "unat (msg_length m) \<le> 65527"
  shows "reads_within m (snd (read_field t k m))"
  using get_within [OF assms] getString_within [OF assms] getPosition_within [OF assms]
  by (cases k) simp_all

section \<open>Properties\<close>

text \<open>C10: Whatever fields a handler reads from a received message, and in whatever order, the
  position only moves forward and never passes the end of the body, so that every byte read
  comes from the message; buffer and length stay as they are. A read that does not fit moves
  nothing. The bound on the length is what keeps the 16-bit position from wrapping.\<close>

theorem reads_stay_in_body:
  assumes "unat (msg_length m) \<le> 65527"
    and "unat (msg_position m) \<le> unat (msg_length m) + 8"
  shows "let m' = snd (read_fields t ks m)
         in buffer m' = buffer m \<and> msg_length m' = msg_length m \<and>
         unat (msg_position m) \<le> unat (msg_position m') \<and>
         unat (msg_position m') \<le> unat (msg_length m') + 8"
proof -
  have "reads_within m (snd (read_fields t ks m))"
    using assms(1)
  proof (induction ks arbitrary: m)
    case (Cons k ks)
    obtain x m1 where 1: "read_field t k m = (x, m1)" by fastforce
    then have "reads_within m m1" using read_field_within [OF Cons.prems, of t k] by simp
    moreover from this have "reads_within m1 (snd (read_fields t ks m1))"
      using Cons.prems by (intro Cons.IH) (simp add: reads_within_length)
    ultimately show ?case by (simp add: 1 case_prod_unfold Let_def) (rule reads_within_trans)
  qed (simp add: reads_within_refl)
  then show ?thesis using assms by (simp add: reads_within_def Let_def)
qed

lemma reads_stay_in_body_witness:
  "let m = \<lparr>msg_length = 3, msg_position = 8, overrun = False, buffer = (\<lambda>_. 7)\<rparr>;
       m' = snd (read_fields (\<lambda>s. s) [KU16, KString] m)
   in buffer m' = buffer m \<and> msg_length m' = msg_length m \<and>
      unat (msg_position m) \<le> unat (msg_position m') \<and>
      unat (msg_position m') \<le> unat (msg_length m') + 8"
  unfolding Let_def by (rule reads_stay_in_body [unfolded Let_def]) simp_all

text \<open>C9: Any sequence of fields (bytes, 16- and 32-bit values, strings, positions) that is
  written to a message is what the reads of the same kinds, started where the writing started,
  return, and they stop where the writing stopped; provided it fits and no string is longer than
  the 8192 bytes that \<open>addString\<close> takes.\<close>

theorem fields_round_trip:
  assumes "synced m" and "unat (msg_position m) + length (fields_bytes f xs) < 65536"
    and "strings_ok f xs" and "\<And>s. FString s \<in> set xs \<Longrightarrow> t (f s) = s" and "t [] = []"
  shows "read_fields t (map kind_of xs) ((write_fields f xs m)\<lparr>msg_position := msg_position m\<rparr>) =
         (xs, write_fields f xs m)"
proof -
  let ?w = "(write_fields f xs m)\<lparr>msg_position := msg_position m\<rparr>"
  have "advance (length (fields_bytes f xs)) ?w = write_fields f xs m"
    by (simp add: advance_def write_fields_raw [OF assms(2,3)] put_raw_def)
  then show ?thesis
    using read_fields_has_bytes [OF write_fields_has_bytes [OF assms(1-3)] assms(3-5)] by simp
qed

lemma fields_round_trip_witness:
  "let m = make_output_message (\<lambda>_. 0);
       xs = [FByte 0xB4, FString [0x48, 0x69], FU32 70000, FPosition \<lparr>px = 100, py = 200, pz = 7\<rparr>]
   in read_fields (\<lambda>s. s) (map kind_of xs) ((write_fields (\<lambda>s. s) xs m)\<lparr>msg_position := msg_position m\<rparr>) =
      (xs, write_fields (\<lambda>s. s) xs m)"
  unfolding Let_def
  by (rule fields_round_trip)
     (simp_all add: synced_def fields_bytes_def make_output_message_def size_defs
        le16_def le32_def)

end
