(* ===== verification/Protocol_Stack.thy ===== *)
theory Protocol_Stack
  imports Net_Message
begin

text \<open>
  The protocol layer of \<open>src/protocol.{h,cpp}\<close>: what is done to a message between the game and
  the wire, in both directions (inner length, padding, XTEA, checksum, outer length), and the
  buffer that collects small messages until they fill one packet. RSA is a parameter, since
  the code calls OpenSSL for it.
\<close>

record protocol =
  key :: "u32 list"
  encryptionEnabled :: bool
  checksumEnabled :: bool
  rawMessages :: bool
  outputBuffer :: "output_message option"
  connected :: bool

definition enableXTEAEncryption :: "protocol \<Rightarrow> protocol" where
  "enableXTEAEncryption p = p\<lparr>encryptionEnabled := True\<rparr>"

definition setXTEAKey :: "u32 list \<Rightarrow> protocol \<Rightarrow> protocol" where
  "setXTEAKey k p = p\<lparr>key := expand_key k\<rparr>"

definition disableChecksum :: "protocol \<Rightarrow> protocol" where
  "disableChecksum p = p\<lparr>checksumEnabled := False\<rparr>"

definition setRawMessages :: "bool \<Rightarrow> protocol \<Rightarrow> protocol" where
  "setRawMessages v p = p\<lparr>rawMessages := v\<rparr>"

section \<open>Encryption of messages\<close>

definition XTEA_encrypt :: "u32 list \<Rightarrow> output_message \<Rightarrow> output_message" where
  "XTEA_encrypt k m =
     (let paddingBytes = unat (msg_length m) mod 8;
          m = (if paddingBytes \<noteq> 0 then addPaddingBytes (8 - paddingBytes) m else m)
      in m\<lparr>buffer := encrypt (unat (outputBufferStart m)) (unat (msg_length m)) k (buffer m)\<rparr>)"

text \<open>The length passed to the cipher is converted to \<open>size_t\<close>.\<close>

definition XTEA_decrypt :: "u32 list \<Rightarrow> 'a net_message_scheme \<Rightarrow> bool \<times> 'a net_message_scheme" where
  "XTEA_decrypt k m =
     (if ((uint (msg_length m) - 6) AND 7) \<noteq> 0 then (False, m)
      else
        let m = m\<lparr>buffer := decrypt (unat (msg_position m))
                    (nat ((uint (msg_length m) - 6) mod 2 ^ 64)) k (buffer m)\<rparr>;
            (innerLength, m) = get_u16 m
        in if uint innerLength + 8 > uint (msg_length m) then (False, m)
           else (True, m\<lparr>msg_length := innerLength\<rparr>))"

definition onSendMessage :: "protocol \<Rightarrow> output_message \<Rightarrow> output_message option" where
  "onSendMessage p m =
     (if \<not> rawMessages p then
        Option.bind (writeMessageLength m)
          (\<lambda>m. if encryptionEnabled p
               then addCryptoHeader (checksumEnabled p) (XTEA_encrypt (key p) m)
               else Some m)
      else Some m)"

text \<open>The message that \<open>parsePacket\<close> is called with, if it is called; and the message left.\<close>

definition onRecvMessage ::
  "protocol \<Rightarrow> 'a net_message_scheme \<Rightarrow> 'a net_message_scheme option \<times> 'a net_message_scheme" where
  "onRecvMessage p m =
     (if encryptionEnabled p
      then let (ok, m') = XTEA_decrypt (key p) m in (if ok then Some m' else None, m')
      else (Some m, m))"

section \<open>The output buffer\<close>

text \<open>\<open>send\<close> hands the message to the connection, if there still is one; the messages handed
  over are returned. \<open>fresh\<close> is the pool's next message.\<close>

definition send :: "protocol \<Rightarrow> output_message \<Rightarrow> output_message list" where
  "send p m = (if connected p then [m] else [])"

definition getOutputBuffer ::
  "output_message \<Rightarrow> int \<Rightarrow> protocol \<Rightarrow> protocol \<times> output_message list" where
  "getOutputBuffer fresh n p =
     (case outputBuffer p of
        None \<Rightarrow> (p\<lparr>outputBuffer := Some fresh\<rparr>, [])
      | Some b \<Rightarrow>
          if uint (msg_length b) + n > int MAX_PROTOCOL_BODY_LENGTH
          then (p\<lparr>outputBuffer := Some fresh\<rparr>, send p b)
          else (p, []))"

definition RSA_BUFFER_LENGTH :: nat where
  "RSA_BUFFER_LENGTH = 128"

definition RSA_decrypt ::
  "(u8 list \<Rightarrow> u8 list) \<Rightarrow> 'a net_message_scheme \<Rightarrow> bool \<times> 'a net_message_scheme" where
  "RSA_decrypt rsa m =
     (if unat (getRemainingBufferLength m) < RSA_BUFFER_LENGTH then (False, m)
      else
        let p = unat (msg_position m);
            m = m\<lparr>buffer := put_bytes p (rsa (bytes (buffer m) p RSA_BUFFER_LENGTH)) (buffer m)\<rparr>;
            (b, m) = getByte m
        in (b = 0, m))"

section \<open>The checksum of a received packet\<close>

text \<open>From \<open>Connection::parsePacket\<close>: a packet whose first four bytes are not its checksum is
  taken to have none, and the position steps back.\<close>

definition checkPacket :: "'a net_message_scheme \<Rightarrow> bool \<times> 'a net_message_scheme" where
  "checkPacket m =
     (let len = uint (msg_length m) - uint (msg_position m) - int CHECKSUM_LENGTH;
          checksum = (if len > 0
                      then adlerChecksum (buffer m) (unat (msg_position m) + CHECKSUM_LENGTH) (nat len)
                      else 0);
          (recvChecksum, m) = get_u32 m
      in if recvChecksum \<noteq> checksum
         then (False, skipBytes (- of_nat CHECKSUM_LENGTH) m)
         else (True, m))"

section \<open>What is sent is received\<close>

lemma adlerChecksum_cong:
  assumes "bytes m a n = bytes m' b n"
  shows "adlerChecksum m a n = adlerChecksum m' b n"
proof (cases "n \<le> NETWORKMESSAGE_MAXSIZE")
  case True
  then show ?thesis
    using assms by (intro word_unat_eq_iff [THEN iffD2]) (simp add: adlerChecksum_ref)
qed (simp add: adlerChecksum_def)

lemma add_header_Some:
  assumes "length bs \<le> unat (outputBufferStart m)" "unat (msg_length m) + length bs < 65536"
  shows "\<exists>m'. add_header bs m = Some m' \<and>
           unat (outputBufferStart m') = unat (outputBufferStart m) - length bs \<and>
           unat (msg_length m') = unat (msg_length m) + length bs \<and>
           msg_position m' = msg_position m \<and>
           buffer m' = put_bytes (unat (outputBufferStart m) - length bs) bs (buffer m)"
proof -
  have "(of_nat (length bs) :: u16) \<le> outputBufferStart m"
    using assms(1) by (simp add: word_le_nat_alt unat_of_nat mod_less_eq_dividend [THEN le_trans])
  then have "unat (outputBufferStart m - of_nat (length bs)) = unat (outputBufferStart m) - length bs"
    using assms(1) by (simp add: unat_sub unat_of_nat
        mod_less [OF le_less_trans [OF assms(1) unat_u16_less]])
  then show ?thesis
    using assms by (simp add: add_header_def Let_def unat_add_u16)
qed

definition padded :: "nat \<Rightarrow> nat" where
  "padded n = block_span (n + 2)"


lemma padded_bounds: "n + 2 \<le> padded n" "padded n \<le> n + 9" "\<exists>j. padded n = 8 * j"
proof -
  show "n + 2 \<le> padded n" using block_span_ge by (simp add: padded_def)
  show "padded n \<le> n + 9" unfolding padded_def block_span_def by presburger
  show "\<exists>j. padded n = 8 * j" unfolding padded_def block_span_def by blast
qed

lemma padded_le: "n \<le> 65526 \<Longrightarrow> padded n \<le> 65528"
proof -
  assume "n \<le> 65526"
  then have "(n + 9) div 8 \<le> (65526 + 9) div 8" by (intro div_le_mono) simp
  then show ?thesis by (simp add: padded_def block_span_def)
qed

lemma padded_mod: "padded n = (if (n + 2) mod 8 = 0 then n + 2 else n + 2 + (8 - (n + 2) mod 8))"
proof -
  obtain q r where n: "n + 2 = 8 * q + r" "r < 8"
    using div_mult_mod_eq [of "n + 2" 8] by (metis mod_less_divisor mult.commute zero_less_numeral)
  have "(8 * q + r + 7) div 8 = q + (r + 7) div 8" by simp
  moreover have "(r + 7) div 8 = (if r = 0 then 0 else 1)"
    using n(2) by (auto intro: div_nat_eqI)
  ultimately have "padded n = 8 * (q + (if r = 0 then 0 else 1))"
    by (simp only: padded_def block_span_def n(1))
  moreover have "(n + 2) mod 8 = r" using n by simp
  ultimately show ?thesis using n by (simp only: n(1)) auto
qed

text \<open>What the padding and the cipher do to a message whose inner length is written.\<close>

lemma XTEA_encrypt_padded:
  assumes len: "unat (msg_length m) = L + 2" and pos: "unat (msg_position m) = L + 8"
    and start: "unat (outputBufferStart m) = 6" and L: "L \<le> 65526"
  shows "\<exists>plain. XTEA_encrypt k m = m\<lparr>msg_length := of_nat (padded L),
             buffer := encrypt 6 (padded L) k plain\<rparr> \<and>
           bytes plain 0 (L + 8) = bytes (buffer m) 0 (L + 8)"
proof (cases "(L + 2) mod 8 = 0")
  case True
  then have "padded L = L + 2" by (simp add: padded_mod)
  moreover have "msg_length m = of_nat (L + 2)" by (metis len of_nat_unat ucast_id)
  ultimately show ?thesis
    using True len start by (intro exI [of _ "buffer m"]) (simp add: XTEA_encrypt_def)
next
  case False
  let ?n = "8 - (L + 2) mod 8"
  have pad: "padded L = L + 2 + ?n" using False by (simp add: padded_mod)
  then have fits: "L + 8 + ?n < 65536" using padded_le [OF L] by simp
  let ?plain = "put_bytes (L + 8) (replicate ?n 0x33) (buffer m)"
  have "can_add ?n m" using fits pos by (simp add: can_add_iff)
  moreover have ln: "msg_length m + of_nat ?n = of_nat (padded L)"
    unfolding pad by (metis len of_nat_add of_nat_unat ucast_id)
  moreover have "unat (of_nat (padded L) :: u16) = padded L"
    using padded_le [OF L] by (simp add: unat_of_nat)
  ultimately have "XTEA_encrypt k m = m\<lparr>msg_length := of_nat (padded L),
      buffer := encrypt 6 (padded L) k ?plain\<rparr>"
    using False len pos start by (simp add: XTEA_encrypt_def addPaddingBytes_def Let_def)
  moreover have "bytes ?plain 0 (L + 8) = bytes (buffer m) 0 (L + 8)"
    by (simp add: bytes_put_bytes_other)
  ultimately show ?thesis by blast
qed


text \<open>The packet on the wire: what \<open>async_write\<close> is given.\<close>

definition wire_bytes :: "output_message \<Rightarrow> u8 list" where
  "wire_bytes m = bytes (buffer m) (unat (outputBufferStart m)) (unat (msg_length m))"

text \<open>The layout of an encrypted, checksummed packet with body \<open>body\<close>: the length of the rest,
  the checksum of the cipher text, the cipher text of inner length, body and padding.\<close>

definition packet_layout :: "u32 list \<Rightarrow> u8 list \<Rightarrow> mem \<Rightarrow> bool" where
  "packet_layout k body m \<longleftrightarrow>
     (let P = padded (length body) in
        bytes m 0 2 = le16 (of_nat (P + 4)) \<and>
        bytes m 2 4 = le32 (adlerChecksum m 6 P) \<and>
        (\<exists>plain. bytes m 6 P = bytes (encrypt 6 P k plain) 6 P \<and>
                 bytes plain 6 (length body + 2) = le16 (of_nat (length body)) @ body))"

lemma onSendMessage_layout:
  assumes p: "\<not> rawMessages p" "encryptionEnabled p" "checksumEnabled p"
    and m: "synced m" "outputBufferStart m = 8" "unat (msg_length m) \<le> 65526"
  shows "\<exists>m'. onSendMessage p m = Some m' \<and> outputBufferStart m' = 0 \<and>
           unat (msg_length m') = padded (unat (msg_length m)) + 6 \<and>
           packet_layout (key p) (bytes (buffer m) 8 (unat (msg_length m))) (buffer m')"
proof -
  define L where "L = unat (msg_length m)"
  define P where "P = padded L"
  have L: "L \<le> 65526" using m(3) by (simp add: L_def)
  have P: "P \<le> 65528" "L + 2 \<le> P" using padded_le [OF L] padded_bounds(1) by (auto simp: P_def)
  have uP: "unat (of_nat P :: u16) = P" "unat (of_nat P + 4 :: u16) = P + 4"
    using P unat_add_u16 [of "of_nat P" 4] by (simp_all add: unat_of_nat)
  obtain m1 where m1: "writeMessageLength m = Some m1" "unat (outputBufferStart m1) = 6"
    "unat (msg_length m1) = L + 2" "msg_position m1 = msg_position m"
    "buffer m1 = put_bytes 6 (le16 (msg_length m)) (buffer m)"
    using add_header_Some [of "le16 (msg_length m)" m] m L
    by (auto simp: writeMessageLength_def L_def)
  have "unat (msg_position m1) = L + 8" using m(1) m1(4) by (simp add: synced_def L_def)
  from XTEA_encrypt_padded [OF m1(3) this m1(2) L, of "key p"] obtain plain where
    m2: "XTEA_encrypt (key p) m1 = m1\<lparr>msg_length := of_nat P, buffer := encrypt 6 P (key p) plain\<rparr>"
    and plain: "bytes plain 0 (L + 8) = bytes (buffer m1) 0 (L + 8)"
    by (auto simp: P_def)
  let ?m2 = "m1\<lparr>msg_length := of_nat P, buffer := encrypt 6 P (key p) plain\<rparr>"
  let ?ck = "le32 (adlerChecksum (buffer ?m2) 6 P)"
  obtain m3 where m3: "add_header ?ck ?m2 = Some m3" "unat (outputBufferStart m3) = 2"
    "unat (msg_length m3) = P + 4" "buffer m3 = put_bytes 2 ?ck (buffer ?m2)"
    using add_header_Some [of ?ck ?m2] m1(2) P uP by auto
  obtain m4 where m4: "writeMessageLength m3 = Some m4" "unat (outputBufferStart m4) = 0"
    "unat (msg_length m4) = P + 6" "buffer m4 = put_bytes 0 (le16 (msg_length m3)) (buffer m3)"
    using add_header_Some [of "le16 (msg_length m3)" m3] m3(2,3) P
    by (auto simp: writeMessageLength_def)
  have "onSendMessage p m = Some m4"
    using p m1(1,2) m2 m3(1) m4(1) uP by (simp add: onSendMessage_def addCryptoHeader_def)
  moreover have "msg_length m3 = of_nat (P + 4)" by (metis m3(3) of_nat_unat ucast_id)
  then have "packet_layout (key p) (bytes (buffer m) 8 L) (buffer m4)"
  proof -
    have tail: "bytes (buffer m4) 6 P = bytes (encrypt 6 P (key p) plain) 6 P"
      by (simp add: m4(4) m3(4) bytes_put_bytes_other)
    have "bytes plain 0 (L + 8) = bytes plain 0 6 @ bytes plain 6 (L + 2)"
      "bytes (buffer m1) 0 (L + 8) = bytes (buffer m1) 0 6 @ bytes (buffer m1) 6 (L + 2)"
      using bytes_add [of plain 0 6 "L + 2"] bytes_add [of "buffer m1" 0 6 "L + 2"]
      by (simp_all add: add.commute)
    then have "bytes plain 6 (L + 2) = bytes (buffer m1) 6 (L + 2)" using plain by simp
    also have "\<dots> = le16 (msg_length m) @ bytes (buffer m) 8 L"
      using bytes_add [of "buffer m1" 6 2 L] by (simp add: m1(5) bytes_put_bytes_other add.commute)
    also have "msg_length m = of_nat L" by (metis L_def of_nat_unat ucast_id)
    finally have inner: "bytes plain 6 (L + 2) = le16 (of_nat L) @ bytes (buffer m) 8 L" .
    have "bytes (buffer m4) 2 4 = ?ck" by (simp add: m4(4) m3(4) bytes_put_bytes_other)
    moreover have "adlerChecksum (buffer ?m2) 6 P = adlerChecksum (buffer m4) 6 P"
      using tail by (intro adlerChecksum_cong) simp
    moreover have "bytes (buffer m4) 0 2 = le16 (of_nat (P + 4))"
      by (simp only: m4(4) \<open>msg_length m3 = _\<close> bytes_put_bytes_same length_le)
    ultimately show ?thesis
      using tail inner
      unfolding packet_layout_def Let_def length_bytes P_def [symmetric]
      by (intro conjI exI [of _ plain]) simp_all
  qed
  moreover have "outputBufferStart m4 = 0" using m4(2) by (simp add: unat_eq_0)
  ultimately show ?thesis using m4(3) by (auto simp: L_def P_def)
qed

lemma packet_layout_cong:
  assumes "packet_layout k body m" and "bytes m' 0 (padded (length body) + 6) = bytes m 0 (padded (length body) + 6)"
  shows "packet_layout k body m'"
proof -
  let ?P = "padded (length body)"
  have split: "bytes m 0 (?P + 6) = bytes m 0 2 @ bytes m 2 4 @ bytes m 6 ?P" for m
  proof -
    have eq: "?P + 6 = 2 + (4 + ?P)" by simp
    show ?thesis unfolding eq unfolding bytes_add add_0 by simp
  qed
  then have "bytes m' 0 2 = bytes m 0 2" "bytes m' 2 4 = bytes m 2 4" "bytes m' 6 ?P = bytes m 6 ?P"
    using assms(2) by auto
  with assms(1) adlerChecksum_cong [of m' 6 ?P m 6] show ?thesis
    by (auto simp: packet_layout_def Let_def)
qed

text \<open>A receiver that has read the packet into its buffer, as \<open>parseHeader\<close> arranges it.\<close>

lemma checkPacket_layout:
  assumes "packet_layout k body (buffer r)" and "length body \<le> 65526"
    and "unat (msg_length r) = padded (length body) + 6" and "msg_position r = 2"
  shows "checkPacket r = (True, advance 4 r)"
proof -
  let ?P = "padded (length body)"
  have P: "2 \<le> ?P" "?P \<le> 65528" using padded_bounds(1) [of "length body"] padded_le assms(2) by auto
  have ulen: "uint (msg_length r) = int (?P + 6)" by (metis assms(3) uint_nat)
  have "has_bytes (le32 (adlerChecksum (buffer r) 6 ?P)) r"
    using assms(1,3,4) P by (simp add: has_bytes_def packet_layout_def Let_def)
  from get_u32_has_bytes [OF this] show ?thesis
    using P assms(4) by (simp add: checkPacket_def Let_def ulen size_defs)
qed

lemma XTEA_decrypt_layout:
  assumes lay: "packet_layout k body (buffer r)" and body: "length body \<le> 65526"
    and len: "unat (msg_length r) = padded (length body) + 6" and pos: "msg_position r = 6"
    and k: "even (length k)"
  shows "\<exists>buf. XTEA_decrypt k r = (True, r\<lparr>msg_length := of_nat (length body),
             msg_position := 8, buffer := buf\<rparr>) \<and> bytes buf 8 (length body) = body"
proof -
  let ?P = "padded (length body)" and ?L = "length body"
  obtain n where n: "?P = 8 * n" using padded_bounds(3) by blast
  have P: "?L + 2 \<le> ?P" "?P \<le> 65528" using padded_bounds(1) padded_le body by auto
  have ulen: "uint (msg_length r) = int ?P + 6" by (metis len uint_nat of_nat_add of_nat_numeral)
  obtain plain where plain: "bytes (buffer r) 6 ?P = bytes (encrypt 6 ?P k plain) 6 ?P"
    "bytes plain 6 (?L + 2) = le16 (of_nat ?L) @ body"
    using lay by (auto simp: packet_layout_def Let_def)
  let ?buf = "decrypt 6 ?P k (buffer r)" and ?r = "r\<lparr>buffer := decrypt 6 ?P k (buffer r)\<rparr>"
  have "bytes ?buf 6 ?P = bytes plain 6 ?P"
    using plain(1) unfolding n by (rule decrypt_bytes [OF k])
  moreover obtain d where "?P = (?L + 2) + d" using P(1) le_Suc_ex by blast
  then have "bytes x 6 ?P = bytes x 6 (?L + 2) @ bytes x (6 + (?L + 2)) d" for x
    by (simp only: bytes_add)
  ultimately have "bytes ?buf 6 (?L + 2) = le16 (of_nat ?L) @ body"
    using plain(2) by simp
  then have inner: "bytes ?buf 6 2 = le16 (of_nat ?L)" "bytes ?buf 8 ?L = body"
    using bytes_add [of ?buf 6 2 ?L] by (simp_all add: add.commute)
  have "has_bytes (le16 (of_nat ?L)) ?r"
    using inner(1) pos len by (simp add: has_bytes_def)
  from get_u16_has_bytes [OF this]
  have get: "get_u16 ?r = (of_nat ?L, ?r\<lparr>msg_position := 8\<rparr>)"
    by (simp add: advance_def pos)
  have "unat (of_nat ?L :: u16) = ?L" using body by (simp add: unat_of_nat)
  then have uL: "uint (of_nat ?L :: u16) = int ?L" by (metis uint_nat)
  have "(int ?P AND 7) = 0" by (simp add: n and_7_int)
  moreover have "nat (int ?P mod 2 ^ 64) = ?P" using P by simp
  ultimately have "XTEA_decrypt k r = (True, ?r\<lparr>msg_position := 8, msg_length := of_nat ?L\<rparr>)"
    using P get by (simp add: XTEA_decrypt_def Let_def ulen uL pos)
  then show ?thesis using inner(2) by (intro exI [of _ ?buf]) simp
qed

section \<open>Properties\<close>

text \<open>C14: The buffer that \<open>getOutputBuffer\<close> provides has room for the announced number of
  bytes below the largest body whose padded packet still fits, whatever it held before; a buffer
  that has no room is handed to the connection, and it is the only thing sent.\<close>

theorem getOutputBuffer_has_room:
  assumes "msg_length fresh = 0" and "0 \<le> n" "n \<le> int MAX_PROTOCOL_BODY_LENGTH"
  shows "\<exists>b' sent. getOutputBuffer fresh n p = (p\<lparr>outputBuffer := Some b'\<rparr>, sent) \<and>
           uint (msg_length b') + n \<le> int MAX_PROTOCOL_BODY_LENGTH \<and>
           (if b' = fresh \<and> outputBuffer p \<noteq> Some fresh
            then sent = (if connected p then case outputBuffer p of None \<Rightarrow> [] | Some b \<Rightarrow> [b] else [])
            else outputBuffer p = Some b' \<and> sent = [])"
  using assms
  by (cases p; cases "outputBuffer p") (auto simp: getOutputBuffer_def send_def)

lemma getOutputBuffer_has_room_witness:
  "let fresh = make_output_message (\<lambda>_. 0);
       p = \<lparr>key = [], encryptionEnabled = True, checksumEnabled = True, rawMessages = False,
            outputBuffer = Some (fresh\<lparr>msg_length := 65000\<rparr>), connected = True\<rparr>
   in \<exists>b' sent. getOutputBuffer fresh 1000 p = (p\<lparr>outputBuffer := Some b'\<rparr>, sent) \<and>
           uint (msg_length b') + 1000 \<le> int MAX_PROTOCOL_BODY_LENGTH \<and>
           (if b' = fresh \<and> outputBuffer p \<noteq> Some fresh
            then sent = (if connected p then case outputBuffer p of None \<Rightarrow> [] | Some b \<Rightarrow> [b] else [])
            else outputBuffer p = Some b' \<and> sent = [])"
  unfolding Let_def
  by (rule getOutputBuffer_has_room) (simp_all add: make_output_message_def size_defs)

end
