(* ===== verification/Connections.thy ===== *)
theory Connections
  imports Protocol_Stack "HOL-Library.Sublist"
begin

text \<open>
  Connections: \<open>src/connection.cpp\<close>, the choice of the protocol and the flood guard of
  \<open>src/server.cpp\<close>. Every handler is a function on the connection that returns the events it
  causes: the asynchronous operations it starts, and the messages it hands to the protocol.
  What runs them, asio, is the step relation at the end: one handler at a time, under the
  connection's lock. The clock, the result of an operation and whether it threw are inputs.
\<close>

datatype conn_event =
    AsyncReadHeader
  | AsyncReadBody nat nat
  | PostSend output_message
  | AsyncWrite "u8 list"
  | SocketClosed
  | ReleaseTask
  | FirstMessage net_message
  | RecvMessage net_message

record connection =
  c_msg :: net_message
  messageQueue :: "output_message list"
  c_protocol :: "protocol option"
  timeConnected :: int
  packetsSent :: u32
  closed :: bool
  receivedFirst :: bool
  socket_open :: bool
  registered :: bool
  readTimer :: bool
  writeTimer :: bool

section \<open>Closing\<close>

definition closeSocket :: "connection \<Rightarrow> connection \<times> conn_event list" where
  "closeSocket c =
     (if socket_open c
      then (c\<lparr>readTimer := False, writeTimer := False, socket_open := False\<rparr>, [SocketClosed])
      else (c, []))"

definition close :: "bool \<Rightarrow> connection \<Rightarrow> connection \<times> conn_event list" where
  "close force c =
     (let c = c\<lparr>registered := False\<rparr>
      in if closed c then (c, [])
         else
           let c = c\<lparr>closed := True\<rparr>;
               release = (if c_protocol c \<noteq> None then [ReleaseTask] else [])
           in if messageQueue c = [] \<or> force
              then apsnd ((@) release) (closeSocket c)
              else (c, release))"

definition handleTimeout :: "bool \<Rightarrow> connection \<Rightarrow> connection \<times> conn_event list" where
  "handleTimeout aborted c = (if aborted then (c, []) else close True c)"

section \<open>Reading\<close>

definition acceptRead :: "bool \<Rightarrow> connection \<Rightarrow> connection \<times> conn_event list" where
  "acceptRead throws c =
     (if throws then close True c else (c\<lparr>readTimer := True\<rparr>, [AsyncReadHeader]))"

definition time_passed :: "int \<Rightarrow> connection \<Rightarrow> u32" where
  "time_passed now c = max 1 (word_of_int ((now - timeConnected c) + 1))"

definition parseHeader :: "int \<Rightarrow> int \<Rightarrow> bool \<Rightarrow> bool \<Rightarrow> connection \<Rightarrow> connection \<times> conn_event list" where
  "parseHeader now max_packets throws error c =
     (let c = c\<lparr>readTimer := False\<rparr>
      in if error then close True c
         else if closed c then (c, [])
         else
           let timePassed = time_passed now c;
               c = c\<lparr>packetsSent := packetsSent c + 1\<rparr>
           in if packetsSent c div timePassed > word_of_int max_packets then close False c
              else
                let c = (if timePassed > 2 then c\<lparr>timeConnected := now, packetsSent := 0\<rparr> else c);
                    size' = getLengthHeader (c_msg c)
                in if size' = 0 \<or> int (unat size') \<ge> int NETWORKMESSAGE_MAXSIZE - 16 then close True c
                   else if throws then close True c
                   else
                     let m = (c_msg c)\<lparr>msg_length := size' + of_nat HEADER_LENGTH\<rparr>;
                         (body, m) = getBodyBuffer m
                     in (c\<lparr>readTimer := True, c_msg := m\<rparr>, [AsyncReadBody body (unat size')]))"

text \<open>\<open>ServicePort::make_protocol\<close>: the first service with the identifier that accepts the
  packet's checksum state.\<close>

record service =
  protocol_identifier :: u8
  is_checksummed :: bool
  is_single_socket :: bool
  new_protocol :: protocol

definition make_protocol ::
  "service list \<Rightarrow> bool \<Rightarrow> 'a net_message_scheme \<Rightarrow> protocol option \<times> 'a net_message_scheme" where
  "make_protocol services checksummed m =
     (let (protocolID, m) = getByte m
      in (map_option new_protocol
            (find (\<lambda>s. protocolID = protocol_identifier s \<and>
                       ((checksummed \<and> is_checksummed s) \<or> \<not> is_checksummed s)) services), m))"

text \<open>\<open>ServicePort::add_service\<close>\<close>

definition add_service :: "service \<Rightarrow> service list \<Rightarrow> bool \<times> service list" where
  "add_service new_svc services =
     (if list_ex is_single_socket services then (False, services) else (True, services @ [new_svc]))"

text \<open>The messages handed to the protocol are events; what its handlers do to the connection
  (send, disconnect) are further calls of the functions here.\<close>

definition parsePacket ::
  "service list \<Rightarrow> bool \<Rightarrow> bool \<Rightarrow> connection \<Rightarrow> connection \<times> conn_event list" where
  "parsePacket services throws error c =
     (let c = c\<lparr>readTimer := False\<rparr>
      in if error then close True c
         else if closed c then (c, [])
         else
           let (ok, m) = checkPacket (c_msg c)
           in if \<not> receivedFirst c then
                let c = c\<lparr>receivedFirst := True\<rparr>
                in case c_protocol c of
                     None \<Rightarrow>
                       let (pr, m) = make_protocol services ok m; c = c\<lparr>c_msg := m, c_protocol := pr\<rparr>
                       in if pr = None then close True c
                          else apsnd ((@) [FirstMessage m]) (acceptRead throws c)
                   | Some _ \<Rightarrow>
                       let m = skipBytes 1 m; c = c\<lparr>c_msg := m\<rparr>
                       in apsnd ((@) [FirstMessage m]) (acceptRead throws c)
              else
                let (parsed, m) = (case c_protocol c of Some p \<Rightarrow> onRecvMessage p m | None \<Rightarrow> (None, m));
                    c = c\<lparr>c_msg := m\<rparr>
                in apsnd ((@) (case parsed of Some m \<Rightarrow> [RecvMessage m] | None \<Rightarrow> []))
                     (acceptRead throws c))"

section \<open>Writing\<close>

definition send_message :: "bool \<Rightarrow> output_message \<Rightarrow> connection \<Rightarrow> connection \<times> conn_event list" where
  "send_message throws m c =
     (if closed c then (c, [])
      else
        let noPendingWrite = (messageQueue c = []); c = c\<lparr>messageQueue := messageQueue c @ [m]\<rparr>
        in if noPendingWrite
           then if throws then close True (c\<lparr>messageQueue := []\<rparr>) else (c, [PostSend m])
           else (c, []))"

text \<open>None: there is no protocol, or the message has no room for its headers.\<close>

definition internalSend :: "bool \<Rightarrow> output_message \<Rightarrow> connection \<Rightarrow> (connection \<times> conn_event list) option" where
  "internalSend throws m c =
     Option.bind (c_protocol c) (\<lambda>p.
       Option.bind (onSendMessage p m) (\<lambda>m.
         Some (if throws then close True c else (c\<lparr>writeTimer := True\<rparr>, [AsyncWrite (wire_bytes m)]))))"

text \<open>None: \<open>pop_front\<close> on an empty list, or a message that cannot be sent.\<close>

definition onWriteOperation ::
  "bool \<Rightarrow> bool \<Rightarrow> connection \<Rightarrow> (connection \<times> conn_event list) option" where
  "onWriteOperation throws error c =
     (case messageQueue c of
        [] \<Rightarrow> None
      | _ # rest \<Rightarrow>
          let c = c\<lparr>writeTimer := False, messageQueue := rest\<rparr>
          in if error then Some (close True (c\<lparr>messageQueue := []\<rparr>))
             else case rest of
                    m # _ \<Rightarrow> internalSend throws m c
                  | [] \<Rightarrow> Some (if closed c then closeSocket c else (c, [])))"

section \<open>The flood guard\<close>

record connect_block =
  lastAttempt :: u64
  blockTime :: u64
  count :: u32

definition acceptConnection ::
  "u64 \<Rightarrow> 'ip \<Rightarrow> ('ip \<rightharpoonup> connect_block) \<Rightarrow> bool \<times> ('ip \<rightharpoonup> connect_block)" where
  "acceptConnection currentTime ip ipConnectMap =
     (case ipConnectMap ip of
        None \<Rightarrow> (True, ipConnectMap(ip \<mapsto> \<lparr>lastAttempt = currentTime, blockTime = 0, count = 1\<rparr>))
      | Some cb \<Rightarrow>
          if blockTime cb > currentTime
          then (False, ipConnectMap(ip \<mapsto> cb\<lparr>blockTime := blockTime cb + 250\<rparr>))
          else
            let timeDiff = sint (currentTime - lastAttempt cb);
                cb = cb\<lparr>lastAttempt := currentTime\<rparr>
            in if timeDiff \<le> 5000 then
                 let cb = cb\<lparr>count := count cb + 1\<rparr>
                 in if count cb > 5 then
                      let cb = cb\<lparr>count := 0\<rparr>
                      in if timeDiff \<le> 500
                         then (False, ipConnectMap(ip \<mapsto> cb\<lparr>blockTime := currentTime + 3000\<rparr>))
                         else (True, ipConnectMap(ip \<mapsto> cb))
                    else (True, ipConnectMap(ip \<mapsto> cb))
               else (True, ipConnectMap(ip \<mapsto> cb\<lparr>count := 1\<rparr>)))"


section \<open>Handlers and the queue\<close>

text \<open>Events that start no write.\<close>

fun quiet :: "conn_event \<Rightarrow> bool" where
  "quiet (PostSend m) = False"
| "quiet (AsyncWrite bs) = False"
| "quiet _ = True"

definition keeps_queue :: "connection \<Rightarrow> connection \<times> conn_event list \<Rightarrow> bool" where
  "keeps_queue c h \<longleftrightarrow>
     messageQueue (fst h) = messageQueue c \<and> (closed c \<longrightarrow> closed (fst h)) \<and> (\<forall>ev \<in> set (snd h). quiet ev)"

lemma keeps_queue_apsnd [simp]:
  "keeps_queue c (apsnd ((@) evs) h) \<longleftrightarrow> keeps_queue c h \<and> (\<forall>ev \<in> set evs. quiet ev)"
  by (auto simp: keeps_queue_def)

lemma closeSocket_keeps: "keeps_queue c (closeSocket c)" "closed (fst (closeSocket c)) = closed c"
  by (simp_all add: closeSocket_def keeps_queue_def)

lemma close_keeps: "messageQueue d = messageQueue c \<Longrightarrow> keeps_queue c (close f d)" "closed (fst (close f c))"
  by (auto simp: close_def closeSocket_def keeps_queue_def Let_def)

lemma acceptRead_keeps: "messageQueue d = messageQueue c \<Longrightarrow> closed d = closed c \<Longrightarrow> keeps_queue c (acceptRead t d)"
  using close_keeps(1) [of d c True] by (simp add: acceptRead_def) (simp add: keeps_queue_def)

lemma handleTimeout_keeps: "keeps_queue c (handleTimeout a c)"
  using close_keeps(1) [of c c True] by (simp add: handleTimeout_def) (simp add: keeps_queue_def)

lemma parseHeader_keeps: "keeps_queue c (parseHeader now mx t e c)"
proof -
  have "keeps_queue c (d, evs)" if "messageQueue d = messageQueue c" "closed d = closed c" "\<forall>ev \<in> set evs. quiet ev" for d evs
    using that by (simp add: keeps_queue_def)
  then show ?thesis
    by (simp add: parseHeader_def Let_def close_keeps split: prod.splits)
qed

lemma parsePacket_keeps: "keeps_queue c (parsePacket ss t e c)"
proof -
  have "keeps_queue c (d, [])" if "messageQueue d = messageQueue c" "closed d = closed c" for d
    using that by (simp add: keeps_queue_def)
  then show ?thesis
    by (simp add: parsePacket_def Let_def close_keeps acceptRead_keeps split: prod.splits option.splits) auto
qed

section \<open>Runs\<close>

text \<open>
  asio runs the handlers, and the asynchronous operations complete, one at a time and in any order.
  What is pending is read off the events that the handlers return: a \<open>PostSend\<close> is pending until
  \<open>internalSend\<close> runs, an \<open>AsyncWrite\<close> until \<open>onWriteOperation\<close> does. The histories are \<open>accepted\<close>, the
  messages that an open connection was asked to send, and \<open>written\<close>, the bytes of every
  \<open>AsyncWrite\<close> with the protocol at the time. The protocol may change its keys and flags at any time.
\<close>

datatype operation = Posted output_message | Writing

record conn_run =
  conn :: connection
  pending :: "operation list"
  accepted :: "output_message list"
  written :: "(protocol option \<times> u8 list) list"

definition start_run :: "connection \<Rightarrow> conn_run" where
  "start_run c = \<lparr>conn = c, pending = [], accepted = [], written = []\<rparr>"

fun track :: "conn_event \<Rightarrow> conn_run \<Rightarrow> conn_run" where
  "track (PostSend m) r = r\<lparr>pending := pending r @ [Posted m]\<rparr>"
| "track (AsyncWrite bs) r =
     r\<lparr>pending := pending r @ [Writing], written := written r @ [(c_protocol (conn r), bs)]\<rparr>"
| "track _ r = r"

definition perform :: "connection \<times> conn_event list \<Rightarrow> conn_run \<Rightarrow> conn_run" where
  "perform h r = fold track (snd h) (r\<lparr>conn := fst h\<rparr>)"

inductive conn_step :: "conn_run \<Rightarrow> conn_run \<Rightarrow> bool" where
  send: "conn_step r (perform (send_message t m (conn r))
           (if closed (conn r) then r else r\<lparr>accepted := accepted r @ [m]\<rparr>))"
| run_posted: "Posted m \<in> set (pending r) \<Longrightarrow> internalSend t m (conn r) = Some h \<Longrightarrow>
     conn_step r (perform h (r\<lparr>pending := remove1 (Posted m) (pending r)\<rparr>))"
| write_done: "Writing \<in> set (pending r) \<Longrightarrow> onWriteOperation t e (conn r) = Some h \<Longrightarrow>
     conn_step r (perform h (r\<lparr>pending := remove1 Writing (pending r)\<rparr>))"
| protocol: "conn_step r (r\<lparr>conn := (conn r)\<lparr>c_protocol := Some p\<rparr>\<rparr>)"
| accept: "conn_step r (perform (acceptRead t (conn r)) r)"
| do_close: "conn_step r (perform (close f (conn r)) r)"
| timeout: "conn_step r (perform (handleTimeout a (conn r)) r)"
| header: "conn_step r (perform (parseHeader now mx t e (conn r)) r)"
| packet: "conn_step r (perform (parsePacket ss t e (conn r)) r)"

inductive conn_reach :: "connection \<Rightarrow> conn_run \<Rightarrow> bool" for c where
  init: "messageQueue c = [] \<Longrightarrow> conn_reach c (start_run c)"
| step: "conn_reach c r \<Longrightarrow> conn_step r r' \<Longrightarrow> conn_reach c r'"

text \<open>Bytes that are what a protocol makes of a message.\<close>

definition sent_as :: "output_message \<Rightarrow> protocol option \<times> u8 list \<Rightarrow> bool" where
  "sent_as m w \<longleftrightarrow>
     (case Option.bind (fst w) (\<lambda>p. onSendMessage p m) of None \<Rightarrow> False | Some m' \<Rightarrow> snd w = wire_bytes m')"

text \<open>The messages that are written, and those that wait, are the accepted ones in their order.\<close>

definition conn_inv :: "conn_run \<Rightarrow> bool" where
  "conn_inv r \<longleftrightarrow>
     (\<exists>sent left. accepted r = sent @ left \<and> list_all2 sent_as sent (written r) \<and>
        (case pending r of
           [] \<Rightarrow> closed (conn r) \<or> messageQueue (conn r) = [] \<and> left = []
         | [Posted m] \<Rightarrow> messageQueue (conn r) = left \<and> left \<noteq> [] \<and> m = hd left
         | [Writing] \<Rightarrow> messageQueue (conn r) \<noteq> [] \<and> left = tl (messageQueue (conn r))
         | _ \<Rightarrow> False))"

lemma conn_inv_cases [consumes 1, case_names idle posted writing]:
  assumes "conn_inv r"
  obtains sent left where "pending r = []" "accepted r = sent @ left" "list_all2 sent_as sent (written r)"
      "closed (conn r) \<or> messageQueue (conn r) = [] \<and> left = []"
  | sent m left where "pending r = [Posted m]" "accepted r = sent @ m # left" "list_all2 sent_as sent (written r)"
      "messageQueue (conn r) = m # left"
  | sent m left where "pending r = [Writing]" "accepted r = sent @ left" "list_all2 sent_as sent (written r)"
      "messageQueue (conn r) = m # left"
proof -
  obtain sent left where a: "accepted r = sent @ left" "list_all2 sent_as sent (written r)"
    and p: "case pending r of
           [] \<Rightarrow> closed (conn r) \<or> messageQueue (conn r) = [] \<and> left = []
         | [Posted m] \<Rightarrow> messageQueue (conn r) = left \<and> left \<noteq> [] \<and> m = hd left
         | [Writing] \<Rightarrow> messageQueue (conn r) \<noteq> [] \<and> left = tl (messageQueue (conn r))
         | _ \<Rightarrow> False"
    using assms unfolding conn_inv_def by blast
  show ?thesis
  proof (cases "pending r")
    case Nil
    then show ?thesis using a p that(1) by simp
  next
    case (Cons k ks)
    then have "ks = []" using p by (cases ks; cases k) simp_all
    show ?thesis
    proof (cases k)
      case (Posted m)
      then obtain l where "left = m # l" using p Cons \<open>ks = []\<close> by (cases left) auto
      then show ?thesis using that(2) [of m sent l] a p Posted Cons \<open>ks = []\<close> by simp
    next
      case Writing
      then obtain m l where "messageQueue (conn r) = m # l" using p Cons \<open>ks = []\<close> by (cases "messageQueue (conn r)") auto
      then show ?thesis using that(3) [of sent left m] a p Writing Cons \<open>ks = []\<close> by simp
    qed
  qed
qed

lemma conn_invI:
  "pending r = [] \<Longrightarrow> accepted r = sent @ left \<Longrightarrow> list_all2 sent_as sent (written r) \<Longrightarrow>
     closed (conn r) \<or> messageQueue (conn r) = [] \<and> left = [] \<Longrightarrow> conn_inv r"
  "pending r = [Posted m] \<Longrightarrow> accepted r = sent @ m # left \<Longrightarrow> list_all2 sent_as sent (written r) \<Longrightarrow>
     messageQueue (conn r) = m # left \<Longrightarrow> conn_inv r"
  "pending r = [Writing] \<Longrightarrow> accepted r = sent @ left \<Longrightarrow> list_all2 sent_as sent (written r) \<Longrightarrow>
     messageQueue (conn r) = m # left \<Longrightarrow> conn_inv r"
  by (auto simp: conn_inv_def)

lemma perform_quiet: "\<forall>ev \<in> set (snd h). quiet ev \<Longrightarrow> perform h r = r\<lparr>conn := fst h\<rparr>"
proof -
  have "\<forall>ev \<in> set evs. quiet ev \<Longrightarrow> fold track evs r = r" for evs r
  proof (induction evs)
    case (Cons ev evs)
    then have "track ev r = r" by (cases ev) simp_all
    then show ?case using Cons by simp
  qed simp
  then show "\<forall>ev \<in> set (snd h). quiet ev \<Longrightarrow> perform h r = r\<lparr>conn := fst h\<rparr>" by (simp add: perform_def)
qed

lemma conn_inv_conn:
  assumes "conn_inv r" and "messageQueue c = messageQueue (conn r)" and "closed (conn r) \<Longrightarrow> closed c"
  shows "conn_inv (r\<lparr>conn := c\<rparr>)"
  using assms(1)
proof (cases rule: conn_inv_cases)
  case (idle sent left)
  then show ?thesis using assms by (intro conn_invI(1) [of _ sent left]) auto
next
  case (posted sent m left)
  then show ?thesis using assms by (intro conn_invI(2) [of _ m sent left]) simp_all
next
  case (writing sent m left)
  then show ?thesis using assms by (intro conn_invI(3) [of _ sent left m]) simp_all
qed

lemma conn_inv_keeps: "conn_inv r \<Longrightarrow> keeps_queue (conn r) h \<Longrightarrow> conn_inv (perform h r)"
  by (simp add: keeps_queue_def perform_quiet conn_inv_conn)

text \<open>The start of a write of the next message.\<close>

lemma internalSend_inv:
  assumes "internalSend t m c = Some h" and "messageQueue c = m # left"
    and "pending r = []" and "accepted r = sent @ m # left" and "list_all2 sent_as sent (written r)"
  shows "conn_inv (perform h r)"
proof -
  obtain p m' where p: "c_protocol c = Some p" "onSendMessage p m = Some m'"
    and h: "h = (if t then close True c else (c\<lparr>writeTimer := True\<rparr>, [AsyncWrite (wire_bytes m')]))"
    using assms(1) by (auto simp: internalSend_def bind_eq_Some_conv)
  show ?thesis
  proof (cases t)
    case True
    have "keeps_queue c h" "closed (fst h)" using close_keeps(1) [of c c True] close_keeps(2) [of True c] True h by simp_all
    then show ?thesis using assms
      by (intro conn_invI(1) [of _ sent "m # left"]) (simp_all add: keeps_queue_def perform_quiet)
  next
    case False
    have "list_all2 sent_as (sent @ [m]) (written r @ [(Some p, wire_bytes m')])"
      using assms(5) p by (intro list_all2_appendI) (simp_all add: sent_as_def)
    then show ?thesis using assms p False h
      by (intro conn_invI(3) [of _ "sent @ [m]" left m]) (simp_all add: perform_def)
  qed
qed

lemma conn_step_inv: "conn_step r r' \<Longrightarrow> conn_inv r \<Longrightarrow> conn_inv r'"
proof (induction rule: conn_step.induct)
  case (send r t m)
  then show ?case
  proof (cases "closed (conn r)")
    case True
    with send show ?thesis by (simp add: send_message_def perform_def)
  next
    case False
    let ?r = "r\<lparr>accepted := accepted r @ [m]\<rparr>" and ?c = "conn r"
    from send show ?thesis
    proof (cases rule: conn_inv_cases)
      case (idle sent left)
      then have l: "left = []" "messageQueue ?c = []" using False by simp_all
      let ?d = "?c\<lparr>messageQueue := [m]\<rparr>"
      show ?thesis
      proof (cases t)
        case True
        have k: "keeps_queue (?c\<lparr>messageQueue := []\<rparr>) (close True (?c\<lparr>messageQueue := []\<rparr>))"
          by (rule close_keeps) simp
        have "closed (fst (close True (?c\<lparr>messageQueue := []\<rparr>)))" by (rule close_keeps)
        with k True False l idle show ?thesis
          by (intro conn_invI(1) [of _ sent "[m]"]) (simp_all add: send_message_def keeps_queue_def perform_quiet)
      next
        case f: False
        show ?thesis using idle l f False
          by (intro conn_invI(2) [of _ m sent "[]"]) (simp_all add: send_message_def perform_def)
      qed
    next
      case (posted sent k left)
      then show ?thesis using False
        by (intro conn_invI(2) [of _ k sent "left @ [m]"]) (simp_all add: send_message_def perform_def)
    next
      case (writing sent k left)
      then show ?thesis using False
        by (intro conn_invI(3) [of _ sent "left @ [m]" k]) (simp_all add: send_message_def perform_def)
    qed
  qed
next
  case (run_posted m r t h)
  from run_posted(3,1,2) show ?case
  proof (cases rule: conn_inv_cases)
    case (posted sent k left)
    then show ?thesis using run_posted(1,2)
      by (intro internalSend_inv [of t m "conn r" h left _ sent]) auto
  qed auto
next
  case (write_done r t e h)
  from write_done(3,1,2) show ?case
  proof (cases rule: conn_inv_cases)
    case (writing sent k left)
    let ?c = "(conn r)\<lparr>writeTimer := False, messageQueue := left\<rparr>" and ?r = "r\<lparr>pending := remove1 Writing (pending r)\<rparr>"
    have r: "pending ?r = []" "accepted ?r = sent @ left" "list_all2 sent_as sent (written ?r)" using writing by simp_all
    show ?thesis
    proof (cases "e \<or> left = []")
      case True
      let ?d = "if e then ?c\<lparr>messageQueue := []\<rparr> else ?c"
      have h: "h = (if e then close True ?d else if closed ?c then closeSocket ?c else (?c, []))"
        using write_done(2) writing True by (auto simp: onWriteOperation_def Let_def)
      have "keeps_queue ?d h \<and> (e \<longrightarrow> closed (fst h))"
        using h close_keeps(1) [of ?d ?d True] close_keeps(2) [of True ?d] closeSocket_keeps(1) [of ?c]
        by (cases e) (simp_all add: keeps_queue_def)
      then show ?thesis using r True
        by (intro conn_invI(1) [of _ sent left]) (auto simp: keeps_queue_def perform_quiet)
    next
      case False
      then obtain m ms where l: "left = m # ms" by (auto simp: neq_Nil_conv)
      have "internalSend t m ?c = Some h"
        using write_done(2) writing False l by (simp add: onWriteOperation_def Let_def)
      then show ?thesis using r l by (intro internalSend_inv [of t m ?c h ms _ sent]) simp_all
    qed
  qed auto
next
  case (protocol r p)
  then show ?case by (intro conn_inv_conn) simp_all
qed (auto intro: conn_inv_keeps acceptRead_keeps close_keeps handleTimeout_keeps parseHeader_keeps parsePacket_keeps)

lemma conn_reach_inv: "conn_reach c r \<Longrightarrow> conn_inv r"
proof (induction rule: conn_reach.induct)
  case init
  then show ?case by (simp add: conn_inv_def start_run_def)
next
  case (step r r')
  then show ?case by (blast intro: conn_step_inv)
qed


section \<open>The way of a packet\<close>

text \<open>The completion of an asynchronous read: the bytes are in the buffer.\<close>

definition fill_read :: "nat \<Rightarrow> u8 list \<Rightarrow> connection \<Rightarrow> connection" where
  "fill_read a bs c = c\<lparr>c_msg := (c_msg c)\<lparr>buffer := put_bytes a bs (buffer (c_msg c))\<rparr>\<rparr>"

lemma getLengthHeader_le16: "getLengthHeader m = of_le16 (bytes (buffer m) 0 2)"
  by (simp add: getLengthHeader_def bytes_def numeral_2_eq_2)

definition within_rate :: "int \<Rightarrow> int \<Rightarrow> connection \<Rightarrow> bool" where
  "within_rate now max_packets c \<longleftrightarrow>
     (packetsSent c + 1) div time_passed now c \<le> word_of_int max_packets"

lemma time_passed_update [simp]:
  "time_passed now (c\<lparr>readTimer := b\<rparr>) = time_passed now c"
  "time_passed now (c\<lparr>c_msg := m\<rparr>) = time_passed now c"
  by (simp_all add: time_passed_def)

lemma parseHeader_accepts:
  assumes "\<not> closed c" "within_rate now mx c"
    and "getLengthHeader (c_msg c) = of_nat n" "0 < n" "n < 65534"
  shows "\<exists>c'. parseHeader now mx False False c = (c', [AsyncReadBody 2 n]) \<and>
           c_msg c' = (c_msg c)\<lparr>msg_length := of_nat n + 2, msg_position := 2\<rparr> \<and>
           closed c' = closed c \<and> receivedFirst c' = receivedFirst c \<and> c_protocol c' = c_protocol c"
proof -
  have n: "unat (of_nat n :: u16) = n" using assms(5) by (simp add: unat_of_nat)
  then have z: "(of_nat n :: u16) \<noteq> 0" using assms(4) by (metis less_irrefl unat_0)
  define s :: u16 where "s = of_nat n"
  have s: "getLengthHeader (c_msg c) = s" "s \<noteq> 0" "unat s = n"
    using assms(3) n z by (simp_all add: s_def)
  have ui: "uint s = int n" using s(3) by (metis uint_nat)
  have rate: "\<not> word_of_int mx < (packetsSent c + 1) div time_passed now c"
    using assms(2) by (simp add: within_rate_def not_less)
  show ?thesis
    using assms(1,5) rate s(2,3) ui
    unfolding s_def [symmetric]
    by (simp add: parseHeader_def Let_def getBodyBuffer_def size_defs s(1))
qed

lemma receive_packet:
  assumes lay: "packet_layout k body mem" and body: "length body \<le> 65526" and k: "even (length k)"
    and w: "w = bytes mem 0 (padded (length body) + 6)"
    and c: "\<not> closed c" "receivedFirst c" "within_rate now mx c"
      "c_protocol c = Some q" "encryptionEnabled q" "key q = k"
    and c1: "(c1, ev1) = parseHeader now mx False False (fill_read 0 (take 2 w) c)"
    and c3: "(c3, ev3) = parsePacket ss False False (fill_read 2 (drop 2 w) c1)"
  shows "ev1 = [AsyncReadBody 2 (length w - 2)] \<and>
         (\<exists>rm. ev3 = [RecvMessage rm, AsyncReadHeader] \<and> msg_position rm = 8 \<and>
            msg_length rm = of_nat (length body) \<and> bytes (buffer rm) 8 (length body) = body)"
proof -
  let ?P = "padded (length body)"
  have P: "2 \<le> ?P" "?P \<le> 65528" using padded_bounds(1) [of "length body"] padded_le body by auto
  have eq: "?P + 6 = 2 + (?P + 4)" by simp
  have hd: "take 2 w = le16 (of_nat (?P + 4))" "drop 2 w = bytes mem 2 (?P + 4)"
    using lay unfolding w eq bytes_add add_0 by (simp_all add: packet_layout_def Let_def)
  have lw: "length w = ?P + 6" by (simp add: w)
  let ?c0 = "fill_read 0 (take 2 w) c"
  have "getLengthHeader (c_msg ?c0) = of_nat (?P + 4)"
    by (simp add: getLengthHeader_le16 fill_read_def hd(1))
  moreover have "\<not> closed ?c0" "within_rate now mx ?c0"
    using c by (simp_all add: fill_read_def within_rate_def)
  ultimately obtain c1' where
    h: "parseHeader now mx False False ?c0 = (c1', [AsyncReadBody 2 (?P + 4)])"
    "c_msg c1' = (c_msg ?c0)\<lparr>msg_length := of_nat (?P + 4) + 2, msg_position := 2\<rparr>"
    "closed c1' = closed ?c0" "receivedFirst c1' = receivedFirst ?c0" "c_protocol c1' = c_protocol ?c0"
    using parseHeader_accepts [of ?c0 now mx "?P + 4"] P by auto
  have c1': "c1 = c1'" "ev1 = [AsyncReadBody 2 (?P + 4)]" using c1 h(1) by auto
  define r where "r = c_msg (fill_read 2 (drop 2 w) c1)"
  have rl: "of_nat (?P + 4) + 2 = (of_nat (?P + 6) :: u16)" by simp
  have rl': "unat (of_nat (?P + 4) + 2 :: u16) = ?P + 6"
    unfolding rl unat_of_nat using P by simp
  have rpos: "msg_position r = 2" "unat (msg_length r) = ?P + 6"
    using rl' by (simp_all add: r_def fill_read_def c1' h(2))
  have "bytes (buffer r) 0 (?P + 6) = w"
  proof -
    have "bytes (buffer r) 0 2 = take 2 w" "bytes (buffer r) 2 (?P + 4) = drop 2 w"
      by (simp_all add: r_def fill_read_def c1' h(2) bytes_put_bytes_other hd)
    then show ?thesis unfolding eq bytes_add add_0 by simp
  qed
  then have "bytes (buffer r) 0 (?P + 6) = bytes mem 0 (?P + 6)" using w by (rule trans)
  with lay have layr: "packet_layout k body (buffer r)" by (rule packet_layout_cong)
  have chk: "checkPacket r = (True, advance 4 r)"
    using layr body rpos by (intro checkPacket_layout) auto
  have "\<exists>buf. XTEA_decrypt k (advance 4 r) = (True, (advance 4 r)\<lparr>msg_length := of_nat (length body),
             msg_position := 8, buffer := buf\<rparr>) \<and> bytes buf 8 (length body) = body"
    using layr body rpos k by (intro XTEA_decrypt_layout) (auto simp: advance_def)
  then obtain buf where dec: "XTEA_decrypt k (advance 4 r) = (True, (advance 4 r)\<lparr>msg_length := of_nat (length body),
             msg_position := 8, buffer := buf\<rparr>)" "bytes buf 8 (length body) = body" by blast
  have rr: "(c_msg c1')\<lparr>buffer := put_bytes 2 (drop 2 w) (buffer (c_msg c1'))\<rparr> = r"
    by (simp add: r_def fill_read_def c1'(1))
  have "ev3 = [RecvMessage ((advance 4 r)\<lparr>msg_length := of_nat (length body),
             msg_position := 8, buffer := buf\<rparr>), AsyncReadHeader]"
    using c3 c dec(1) chk h(3-5)
    by (simp add: parsePacket_def fill_read_def Let_def onRecvMessage_def acceptRead_def c1'(1) rr)
  then show ?thesis using c1' lw dec(2) by simp
qed


section \<open>The flood guard\<close>

fun attempts :: "'ip \<Rightarrow> u64 list \<Rightarrow> ('ip \<rightharpoonup> connect_block) \<Rightarrow> bool list \<times> ('ip \<rightharpoonup> connect_block)" where
  "attempts ip [] M = ([], M)"
| "attempts ip (t # ts) M =
     (let (ok, M) = acceptConnection t ip M; (oks, M) = attempts ip ts M in (ok # oks, M))"

lemma u64_diff:
  fixes t u :: u64
  assumes "u \<le> t" "unat t < 2 ^ 63"
  shows "sint (t - u) = int (unat t) - int (unat u)"
proof -
  have le: "unat u \<le> unat t" using assms(1) by (simp add: word_le_nat_alt)
  have d: "unat (t - u) = unat t - unat u" using assms(1) by (rule unat_sub)
  then have "unat (t - u) < 2 ^ 63" using assms(2) by linarith
  then have "int (unat (t - u)) < 2 ^ 63" by (simp only: of_nat_less_numeral_power_cancel_iff)
  then have "uint (t - u) < 2 ^ 63" by simp
  then have "signed_take_bit 63 (uint (t - u)) = uint (t - u)"
    by (intro signed_take_bit_int_eq_self) (simp_all add: order_trans [OF _ uint_nonnegative])
  then have "sint (t - u) = int (unat (t - u))" by (simp add: sint_uint)
  with d le show ?thesis by (simp add: of_nat_diff)
qed

fun gaps :: "(nat \<Rightarrow> bool) \<Rightarrow> u64 \<Rightarrow> u64 list \<Rightarrow> bool" where
  "gaps ok t [] = (unat t < 2 ^ 62)"
| "gaps ok t (t' # ts) = (t \<le> t' \<and> ok (unat t' - unat t) \<and> gaps ok t' ts)"

lemma gaps_bound: "gaps ok t ts \<Longrightarrow> unat t < 2 ^ 62"
  by (induction ts arbitrary: t) (auto simp: word_le_nat_alt intro: le_less_trans)

lemma accept_blocked:
  "M ip = Some cb \<Longrightarrow> t < blockTime cb \<Longrightarrow>
     acceptConnection t ip M = (False, M(ip \<mapsto> cb\<lparr>blockTime := blockTime cb + 250\<rparr>))"
  by (simp add: acceptConnection_def)

lemma hammering:
  assumes "M ip = Some cb" "t < blockTime cb" "gaps (\<lambda>d. d \<le> 250) t ts"
    and "unat (blockTime cb) + 250 * Suc (length ts) < 2 ^ 64"
  shows "fst (attempts ip (t # ts) M) = replicate (Suc (length ts)) False"
  using assms
proof (induction ts arbitrary: t M cb)
  case Nil
  then show ?case by (simp add: accept_blocked)
next
  case (Cons u ts)
  let ?cb = "cb\<lparr>blockTime := blockTime cb + 250\<rparr>"
  have b: "unat (blockTime cb + 250) = unat (blockTime cb) + 250"
    using Cons.prems(4) by (subst unat_plus_simple [THEN iffD1]) (simp_all add: word_le_nat_alt unat_word_ariths)
  have "u < blockTime cb + 250"
    using Cons.prems(2,3) b by (auto simp: word_less_nat_alt word_le_nat_alt)
  then have "fst (attempts ip (u # ts) (M(ip \<mapsto> ?cb))) = replicate (Suc (length ts)) False"
    using Cons.prems(3,4) b by (intro Cons.IH [of _ ?cb]) auto
  then show ?case
    using accept_blocked [of M ip cb t] Cons.prems(1,2) by (simp add: case_prod_unfold Let_def)
qed

lemma acceptConnection_open:
  assumes "M ip = Some cb" "blockTime cb \<le> t" "lastAttempt cb \<le> t" "unat t < 2 ^ 62"
  defines "d \<equiv> unat t - unat (lastAttempt cb)"
  shows "acceptConnection t ip M =
    (if d \<le> 5000 then
       if count cb + 1 > 5 then
         if d \<le> 500 then (False, M(ip \<mapsto> \<lparr>lastAttempt = t, blockTime = t + 3000, count = 0\<rparr>))
         else (True, M(ip \<mapsto> \<lparr>lastAttempt = t, blockTime = blockTime cb, count = 0\<rparr>))
       else (True, M(ip \<mapsto> \<lparr>lastAttempt = t, blockTime = blockTime cb, count = count cb + 1\<rparr>))
     else (True, M(ip \<mapsto> \<lparr>lastAttempt = t, blockTime = blockTime cb, count = 1\<rparr>)))"
proof -
  have "sint (t - lastAttempt cb) = int d"
    using u64_diff [OF assms(3)] assms(3,4) by (simp add: d_def word_le_nat_alt of_nat_diff)
  then show ?thesis using assms(1,2)
    by (cases cb) (auto simp: acceptConnection_def Let_def)
qed

lemma accept_new:
  "M ip = None \<Longrightarrow>
     acceptConnection t ip M = (True, M(ip \<mapsto> \<lparr>lastAttempt = t, blockTime = 0, count = 1\<rparr>))"
  by (simp add: acceptConnection_def)

lemma slow_run:
  assumes "M ip = Some cb" "blockTime cb = 0" "lastAttempt cb = t" "gaps (\<lambda>d. 500 < d) t ts"
  shows "fst (attempts ip ts M) = replicate (length ts) True"
  using assms
proof (induction ts arbitrary: t M cb)
  case (Cons u ts)
  have "unat u < 2 ^ 62" "t \<le> u" "500 < unat u - unat t" "gaps (\<lambda>d. 500 < d) u ts"
    using Cons.prems(4) by (auto dest: gaps_bound)
  then obtain cb' where "acceptConnection u ip M = (True, M(ip \<mapsto> cb'))"
    "blockTime cb' = 0" "lastAttempt cb' = u"
    using acceptConnection_open [of M ip cb u] Cons.prems(1-3)
    by (auto simp: not_le split: if_splits)
  moreover from this have "fst (attempts ip ts (M(ip \<mapsto> cb'))) = replicate (length ts) True"
    using \<open>gaps _ u ts\<close> by (intro Cons.IH [of _ cb' u]) auto
  ultimately show ?case by (simp add: case_prod_unfold Let_def)
qed simp

text \<open>The five attempts before the one that is refused.\<close>

lemma burst_run:
  assumes "M ip = Some \<lparr>lastAttempt = t, blockTime = 0, count = of_nat c\<rparr>" "c + length ts \<le> 5"
    and "gaps (\<lambda>d. d \<le> 5000) t (ts @ us)"
  shows "attempts ip ts M =
           (replicate (length ts) True,
            M(ip \<mapsto> \<lparr>lastAttempt = List.last (t # ts), blockTime = 0, count = of_nat (c + length ts)\<rparr>))"
  using assms
proof (induction ts arbitrary: t M c)
  case Nil
  then show ?case by (simp add: fun_upd_idem)
next
  case (Cons u ts)
  have u: "unat u < 2 ^ 62" "t \<le> u" "unat u - unat t \<le> 5000" "gaps (\<lambda>d. d \<le> 5000) u (ts @ us)"
    using Cons.prems(3) by (auto dest: gaps_bound)
  have c: "\<not> (of_nat c + 1 :: u32) > 5"
  proof -
    have "unat (of_nat (Suc c) :: u32) = Suc c"
      unfolding unat_of_nat using Cons.prems(2) by (intro mod_less) simp
    moreover have "unat (5 :: u32) = 5" by (rule unat_numeral [THEN trans]) (simp add: take_bit_eq_mod)
    ultimately have "unat (of_nat c + 1 :: u32) \<le> unat (5 :: u32)"
      using Cons.prems(2) by (simp del: unat_numeral add: add.commute)
    then show ?thesis by (simp only: not_less word_le_nat_alt)
  qed
  let ?M = "M(ip \<mapsto> \<lparr>lastAttempt = u, blockTime = 0, count = of_nat (Suc c)\<rparr>)"
  have "acceptConnection u ip M = (True, ?M)"
    using acceptConnection_open [of M ip _ u, OF Cons.prems(1)] u c by (simp add: add.commute)
  moreover have "attempts ip ts ?M = (replicate (length ts) True,
      ?M(ip \<mapsto> \<lparr>lastAttempt = List.last (u # ts), blockTime = 0, count = of_nat (Suc c + length ts)\<rparr>))"
    using Cons.prems(2) u(4) by (intro Cons.IH) auto
  ultimately show ?case by (auto simp: fun_eq_iff add.assoc)
qed

lemma attempts_append:
  "attempts ip (ts @ us) M =
     (let (a, M) = attempts ip ts M; (b, M) = attempts ip us M in (a @ b, M))"
  by (induction ts arbitrary: M) (simp_all add: case_prod_unfold Let_def)

lemma burst_blocks:
  assumes "M ip = None" "length ts = 4" "gaps (\<lambda>d. d \<le> 5000) t (ts @ [v])"
    and "unat v - unat (List.last (t # ts)) \<le> 500"
  shows "attempts ip (t # ts @ [v]) M =
           (replicate 5 True @ [False],
            M(ip \<mapsto> \<lparr>lastAttempt = v, blockTime = v + 3000, count = 0\<rparr>))"
proof -
  let ?M1 = "M(ip \<mapsto> \<lparr>lastAttempt = t, blockTime = 0, count = 1\<rparr>)"
  let ?l = "List.last (t # ts)"
  let ?M5 = "?M1(ip \<mapsto> \<lparr>lastAttempt = ?l, blockTime = 0, count = 5\<rparr>)"
  have 1: "attempts ip ts ?M1 = (replicate 4 True, ?M5)"
    using burst_run [of ?M1 ip t 1 ts "[v]"] assms(2,3) by simp
  have "gaps ok t (ts @ [v]) \<Longrightarrow> List.last (t # ts) \<le> v \<and> unat v < 2 ^ 62" for ok
    by (induction ts arbitrary: t) (auto intro: gaps_bound)
  with assms(3) have "?l \<le> v" "unat v < 2 ^ 62" by blast+
  then have "acceptConnection v ip ?M5 =
      (False, M(ip \<mapsto> \<lparr>lastAttempt = v, blockTime = v + 3000, count = 0\<rparr>))"
    using acceptConnection_open [of ?M5 ip "\<lparr>lastAttempt = ?l, blockTime = 0, count = 5\<rparr>" v] assms(4)
    by simp
  then show ?thesis
    using accept_new [of M ip t] assms(1) 1
    by (simp add: attempts_append eval_nat_numeral)
qed

section \<open>Properties\<close>

text \<open>C5: In every run of a connection, the bytes of the writes it starts are those of the messages it
  accepted, in their order, none twice and none skipped; at most one operation is pending; the completion of a
  write finds its message still queued, so that \<open>onWriteOperation\<close> never pops an empty list; and an open
  connection with nothing pending has written all it accepted, so that no message is left behind.
  Closes, timeouts, failures of asio, packets and changes of the protocol may come at any point.\<close>

theorem writes_in_order:
  assumes "conn_reach c r"
  shows "(\<exists>sent. prefix sent (accepted r) \<and> list_all2 sent_as sent (written r)) \<and> length (pending r) \<le> 1 \<and>
         (Writing \<in> set (pending r) \<longrightarrow> messageQueue (conn r) \<noteq> []) \<and>
         (\<not> closed (conn r) \<and> pending r = [] \<longrightarrow> length (written r) = length (accepted r))"
  using conn_reach_inv [OF assms]
proof (cases rule: conn_inv_cases)
  case (idle sent left)
  then have "\<exists>sent. prefix sent (accepted r) \<and> list_all2 sent_as sent (written r)" by (metis prefixI)
  with idle show ?thesis by (auto dest: list_all2_lengthD)
next
  case (posted sent m left)
  then have "\<exists>sent. prefix sent (accepted r) \<and> list_all2 sent_as sent (written r)" by (metis prefixI)
  with posted show ?thesis by simp
next
  case (writing sent m left)
  then have "\<exists>sent. prefix sent (accepted r) \<and> list_all2 sent_as sent (written r)" by (metis prefixI)
  with writing show ?thesis by simp
qed

definition idle_connection :: connection where
  "idle_connection =
     \<lparr>c_msg = \<lparr>msg_length = 0, msg_position = 8, overrun = False, buffer = (\<lambda>_. 0)\<rparr>,
      messageQueue = [], c_protocol = None, timeConnected = 0, packetsSent = 0, closed = False,
      receivedFirst = False, socket_open = True, registered = True, readTimer = False,
      writeTimer = False\<rparr>"

text \<open>A connection whose protocol adds nothing to its messages, after one message was sent.\<close>

definition raw_protocol :: protocol where
  "raw_protocol = \<lparr>key = [], encryptionEnabled = False, checksumEnabled = False, rawMessages = True,
     outputBuffer = None, connected = True\<rparr>"

definition sample_message :: output_message where
  "sample_message = make_output_message (\<lambda>_. 0)"

definition one_written :: conn_run where
  "one_written =
     \<lparr>conn = idle_connection\<lparr>c_protocol := Some raw_protocol, messageQueue := [sample_message], writeTimer := True\<rparr>,
      pending = [Writing], accepted = [sample_message],
      written = [(Some raw_protocol, wire_bytes sample_message)]\<rparr>"

lemma one_written_reached: "conn_reach (idle_connection\<lparr>c_protocol := Some raw_protocol\<rparr>) one_written"
proof -
  let ?c = "idle_connection\<lparr>c_protocol := Some raw_protocol\<rparr>"
  let ?r = "\<lparr>conn = ?c\<lparr>messageQueue := [sample_message]\<rparr>, pending = [Posted sample_message],
    accepted = [sample_message], written = []\<rparr>"
  have "conn_reach ?c (start_run ?c)" by (rule conn_reach.init) (simp add: idle_connection_def)
  moreover have "conn_step (start_run ?c) ?r"
    using conn_step.send [of "start_run ?c" False sample_message]
    by (simp add: send_message_def perform_def start_run_def idle_connection_def)
  moreover have "conn_step ?r one_written"
    using conn_step.run_posted [of sample_message ?r False]
    by (simp add: internalSend_def onSendMessage_def raw_protocol_def perform_def one_written_def idle_connection_def)
  ultimately show ?thesis by (blast intro: conn_reach.step)
qed

lemma writes_in_order_witness:
  "\<exists>sent. prefix sent [sample_message] \<and> list_all2 sent_as sent [(Some raw_protocol, wire_bytes sample_message)]"
  using writes_in_order [OF one_written_reached] by (simp add: one_written_def)

text \<open>C6: \<open>parseHeader\<close> never lets the network write outside the buffer: the body read that it
  starts begins behind the header, is not empty, and ends inside the array, and the length it
  records is the header's plus two without wrap-around. It starts at most one read, and none
  after an error, on a closed connection or above the packet rate.\<close>

theorem body_read_in_buffer:
  assumes "parseHeader now mx throws error c = (c', evs)" and "AsyncReadBody at n \<in> set evs"
  shows "evs = [AsyncReadBody at n] \<and> at = HEADER_LENGTH \<and> 0 < n \<and> at + n \<le> NETWORKMESSAGE_MAXSIZE - 14 \<and>
         unat (msg_length (c_msg c')) = n + 2 \<and> \<not> error \<and> \<not> throws \<and> \<not> closed c \<and>
         within_rate now mx c"
proof -
  have "AsyncReadBody at n \<notin> set (snd (close f d))" for f d
    by (simp add: close_def closeSocket_def Let_def)
  then have no: "close f d = (c', evs) \<Longrightarrow> False" for f d
    using assms(2) by (metis snd_conv)
  define s where "s = getLengthHeader (c_msg c)"
  have us: "unat s < 65534 \<Longrightarrow> unat (s + 2) = unat s + 2"
    using unat_add_u16 [of s 2] by simp
  have ui: "int (unat s) < 65534 \<Longrightarrow> unat s < 65534" by linarith
  show ?thesis
    using assms us ui
    by (auto simp: parseHeader_def Let_def getBodyBuffer_def size_defs within_rate_def not_less not_le
        s_def [symmetric] unat_gt_0 dest: no split: if_splits)
qed

lemma body_read_in_buffer_witness:
  "let c = idle_connection\<lparr>c_msg := (c_msg idle_connection)\<lparr>buffer := (\<lambda>i. if i = 0 then 5 else 0)\<rparr>\<rparr>;
       (c', evs) = parseHeader 0 25 False False c
   in evs = [AsyncReadBody 2 5] \<and> unat (msg_length (c_msg c')) = 7"
proof -
  let ?c = "idle_connection\<lparr>c_msg := (c_msg idle_connection)\<lparr>buffer := (\<lambda>i. if i = 0 then 5 else 0)\<rparr>\<rparr>"
  obtain c' where 1: "parseHeader 0 25 False False ?c = (c', [AsyncReadBody 2 5])"
    by (simp add: parseHeader_def idle_connection_def time_passed_def getLengthHeader_def
        getBodyBuffer_def size_defs Let_def)
  show ?thesis using body_read_in_buffer [OF 1, of 2 5] by (simp add: 1)
qed

text \<open>C7: A peer that connects six times in a row, each within five seconds of the one before and
  the last within half a second, is refused the sixth time; and as long as it goes on trying
  with pauses of at most 250 ms, it is refused every time: each refused attempt moves the end of
  the block by as much. Other addresses are not affected.\<close>

theorem flood_is_blocked:
  assumes "M ip = None" and "length ts = 4" and "gaps (\<lambda>d. d \<le> 5000) t (ts @ [v])"
    and "unat v - unat (List.last (t # ts)) \<le> 500" and "v \<le> u" and "unat u < unat v + 3000"
    and "gaps (\<lambda>d. d \<le> 250) u us" and "length us < 2 ^ 32"
  shows "fst (attempts ip (t # ts @ v # u # us) M) =
           replicate 5 True @ replicate (2 + length us) False"
proof -
  let ?cb = "\<lparr>lastAttempt = v, blockTime = v + 3000, count = 0\<rparr> :: connect_block"
  have v: "unat v < 2 ^ 62" using assms(7) gaps_bound assms(5) by (meson word_le_nat_alt le_less_trans)
  have bt: "unat (v + 3000) = unat v + 3000"
    using v by (simp add: unat_word_ariths)
  have "250 * Suc (length us) < 250 * 2 ^ 33" using assms(8) by simp
  then have "fst (attempts ip (u # us) (M(ip \<mapsto> ?cb))) = replicate (Suc (length us)) False"
    using v assms(6,7) by (intro hammering [of _ _ ?cb]) (simp_all add: bt word_less_nat_alt)
  moreover have "t # ts @ v # u # us = (t # ts @ [v]) @ u # us" by simp
  ultimately show ?thesis
    unfolding \<open>t # ts @ v # u # us = _\<close> attempts_append
      burst_blocks [where M = M and ip = ip, OF assms(1-4)]
    by (simp del: attempts.simps add: case_prod_unfold Let_def)
qed

lemma flood_is_blocked_witness:
  "fst (attempts (0 :: nat) (1000 # [1100, 1200, 1300, 1400] @ 1500 # 1700 # [1900, 2100]) Map.empty) =
     replicate 5 True @ replicate (2 + length [1900, 2100 :: u64]) False"
  by (rule flood_is_blocked) (simp_all add: word_le_nat_alt)

text \<open>C8: A peer that waits more than half a second between its attempts is never refused, however
  long it goes on.\<close>

theorem patient_peer_is_accepted:
  assumes "M ip = None" and "gaps (\<lambda>d. 500 < d) t ts"
  shows "fst (attempts ip (t # ts) M) = replicate (Suc (length ts)) True"
  using accept_new [of M ip t] assms
    slow_run [of "M(ip \<mapsto> \<lparr>lastAttempt = t, blockTime = 0, count = 1\<rparr>)" ip _ t ts]
  by (simp add: case_prod_unfold Let_def)

lemma patient_peer_is_accepted_witness:
  "fst (attempts (0 :: nat) (1000 # [1501, 2002]) Map.empty) =
     replicate (Suc (length [1501, 2002 :: u64])) True"
  by (rule patient_peer_is_accepted) (simp_all add: word_le_nat_alt)

end
