(* ===== verification/Float_Arith.thy ===== *)
theory Float_Arith
  imports Complex_Main Prelude "HOL-Library.Log_Nat"
begin

text \<open>
  The floating-point arithmetic of the code. A \<open>float\<close> or \<open>double\<close> that is not infinite or
  undefined is the rational number it stands for; an operation is the exact result rounded to
  24 or 53 significant bits, ties to even, as IEEE 754 prescribes on x86-64. Overflow and
  subnormal results, which the quantities of the game never reach, are not rendered.
\<close>

definition pow2 :: "int \<Rightarrow> rat" where
  "pow2 e = (if e \<ge> 0 then 2 ^ nat e else 1 / 2 ^ nat (- e))"

definition round_even :: "rat \<Rightarrow> int" where
  "round_even x =
     (let f = \<lfloor>x\<rfloor>; d = x - of_int f
      in if d < 1 / 2 then f else if d > 1 / 2 then f + 1 else if even f then f else f + 1)"

text \<open>The exponent \<open>e\<close> with \<open>2 ^ e \<le> x < 2 ^ (e + 1)\<close>, for a positive \<open>x\<close>.\<close>

definition exponent_of :: "rat \<Rightarrow> int" where
  "exponent_of x =
     (let (p, q) = quotient_of x;
          e = int (floorlog 2 (nat p)) - int (floorlog 2 (nat q))
      in if x < pow2 e then e - 1 else e)"

definition round_to :: "nat \<Rightarrow> rat \<Rightarrow> rat" where
  "round_to prec x =
     (if x = 0 then 0
      else let e = exponent_of \<bar>x\<bar> - (int prec - 1)
           in of_int (round_even (x / pow2 e)) * pow2 e)"

definition fl32 :: "rat \<Rightarrow> rat" where
  "fl32 = round_to 24"

definition fl64 :: "rat \<Rightarrow> rat" where
  "fl64 = round_to 53"

text \<open>The conversion to an integer type truncates.\<close>

definition to_integer :: "rat \<Rightarrow> int" where
  "to_integer x = (if x \<ge> 0 then \<lfloor>x\<rfloor> else \<lceil>x\<rceil>)"

text \<open>The value of the 32 bits of a \<open>float\<close>; None for the infinities and for NaN.\<close>

definition float_value :: "u32 \<Rightarrow> rat option" where
  "float_value w =
     (let s = (if bit w 31 then - 1 else 1);
          ex = uint (drop_bit 23 w AND 0xFF); m = uint (w AND 0x7FFFFF)
      in if ex = 255 then None
         else if ex = 0 then Some (s * of_int m * pow2 (- 149))
         else Some (s * of_int (2 ^ 23 + m) * pow2 (ex - 150)))"

lemma fl_0 [simp]: "fl32 0 = 0" "fl64 0 = 0"
  by (simp_all add: fl32_def fl64_def round_to_def)

lemma to_integer_of_int [simp]: "to_integer (of_int n) = n"
  by (simp add: to_integer_def)

lemma round_even_of_int [simp]: "round_even (of_int n) = n"
  by (simp add: round_even_def)

lemma pow2_pos [simp]: "0 < pow2 e"
  by (simp add: pow2_def)

lemma exponent_of_int:
  assumes "0 < n" and "n < 2 ^ prec"
  shows "exponent_of (of_int n) < int prec"
proof -
  have q: "quotient_of (of_int n) = (n, 1)" by simp
  have "floorlog 2 (nat n) \<le> prec"
    using assms by (intro floorlog_leI) (auto simp: nat_less_iff)
  moreover have "floorlog 2 (nat 1) = 1" by (simp add: compute_floorlog)
  ultimately show ?thesis by (auto simp: exponent_of_def q Let_def)
qed

text \<open>Integers of at most \<open>prec\<close> bits are represented exactly.\<close>

lemma round_to_int:
  assumes "\<bar>n\<bar> < 2 ^ prec" and "0 < prec"
  shows "round_to prec (of_int n) = of_int n"
proof (cases "n = 0")
  case False
  define e where "e = exponent_of \<bar>of_int n\<bar> - (int prec - 1)"
  have "exponent_of (of_int \<bar>n\<bar>) < int prec" using False assms by (intro exponent_of_int) auto
  then have "e \<le> 0" by (simp add: e_def)
  then have "of_int n / pow2 e = of_int (n * 2 ^ nat (- e))"
    by (cases "e = 0") (simp_all add: pow2_def)
  then have "of_int (round_even (of_int n / pow2 e)) * pow2 e = of_int n"
    by (metis round_even_of_int nonzero_eq_divide_eq order_less_irrefl pow2_pos)
  then show ?thesis using False by (simp add: round_to_def Let_def e_def)
qed (simp add: round_to_def)

section \<open>Order\<close>

text \<open>Rounding keeps the order of nonnegative numbers and changes nothing that is already rounded.\<close>

lemma pow2_powi: "pow2 e = 2 powi e"
  by (simp only: pow2_def power_int_def power_inverse divide_inverse mult_1)

lemma pow2_add: "pow2 (a + b) = pow2 a * pow2 b"
  by (simp add: pow2_powi power_int_add)

lemma pow2_mono: "a \<le> b \<Longrightarrow> pow2 a \<le> pow2 b"
  by (simp add: pow2_powi power_int_increasing)

lemma pow2_nat: "pow2 (int n) = of_int (2 ^ n)"
  by (simp add: pow2_def)

lemma floorlog_pow2:
  assumes "0 < p"
  shows "pow2 (int (floorlog 2 (nat p)) - 1) \<le> of_int p" and "of_int p < pow2 (int (floorlog 2 (nat p)))"
proof -
  let ?a = "floorlog 2 (nat p)"
  have b: "2 ^ (?a - 1) \<le> nat p" "nat p < 2 ^ ?a"
    using assms floorlog_bounds [of "nat p" 2] by auto
  have a: "0 < ?a" using assms by (simp add: floorlog_def)
  then have "int ?a - 1 = int (?a - 1)" by simp
  moreover have "int (2 ^ (?a - 1)) \<le> p" "p < int (2 ^ ?a)" using b assms by linarith+
  ultimately show "pow2 (int ?a - 1) \<le> of_int p" "of_int p < pow2 (int ?a)"
    unfolding pow2_nat by (simp_all only: pow2_nat of_int_le_iff of_int_less_iff of_nat_power of_nat_numeral)
qed

lemma exponent_of_bounds:
  assumes "0 < x"
  shows "pow2 (exponent_of x) \<le> x" and "x < pow2 (exponent_of x + 1)"
proof -
  obtain p q where pq: "quotient_of x = (p, q)" by (cases "quotient_of x")
  have x: "x = of_int p / of_int q" by (rule quotient_of_div [OF pq])
  have q: "0 < q" by (rule quotient_of_denom_pos [OF pq])
  have p: "0 < p" using assms x q by (simp add: zero_less_divide_iff)
  define a where "a = int (floorlog 2 (nat p))"
  define b where "b = int (floorlog 2 (nat q))"
  note P = floorlog_pow2 [OF p, folded a_def] and Q = floorlog_pow2 [OF q, folded b_def]
  have e: "exponent_of x = (if x < pow2 (a - b) then a - b - 1 else a - b)"
    by (simp add: exponent_of_def pq a_def b_def Let_def)
  have "pow2 (a - b - 1) * of_int q \<le> pow2 (a - b - 1) * pow2 b"
    using Q by (intro mult_left_mono) (simp_all add: less_imp_le)
  also have "\<dots> = pow2 (a - 1)" by (simp add: pow2_add [symmetric])
  finally have low: "pow2 (a - b - 1) \<le> x" using P(1) q by (simp add: x pos_le_divide_eq)
  have "of_int p < pow2 a" by (rule P(2))
  also have "pow2 a = pow2 (a - b + 1) * pow2 (b - 1)" by (simp add: pow2_add [symmetric])
  also have "\<dots> \<le> pow2 (a - b + 1) * of_int q"
    using Q(1) by (intro mult_left_mono) (simp_all add: less_imp_le)
  finally have high: "x < pow2 (a - b + 1)" using q by (simp add: x pos_divide_less_eq)
  show "pow2 (exponent_of x) \<le> x" "x < pow2 (exponent_of x + 1)"
    using low high by (auto simp: e)
qed

lemma round_even_mono: "x \<le> y \<Longrightarrow> round_even x \<le> round_even y"
proof -
  assume xy: "x \<le> y"
  then have f: "\<lfloor>x\<rfloor> \<le> \<lfloor>y\<rfloor>" by (rule floor_mono)
  have r: "\<lfloor>z\<rfloor> \<le> round_even z" "round_even z \<le> \<lfloor>z\<rfloor> + 1" for z
    by (simp_all add: round_even_def Let_def)
  show ?thesis
  proof (cases "\<lfloor>x\<rfloor> = \<lfloor>y\<rfloor>")
    case True
    then show ?thesis using xy by (auto simp: round_even_def Let_def)
  next
    case False
    with f have "\<lfloor>x\<rfloor> + 1 \<le> \<lfloor>y\<rfloor>" by simp
    then show ?thesis using r(2) [of x] r(1) [of y] by linarith
  qed
qed

lemma round_to_bounds:
  assumes "0 < x" and "0 < prec"
  shows "pow2 (exponent_of x) \<le> round_to prec x" and "round_to prec x \<le> pow2 (exponent_of x + 1)"
proof -
  let ?e = "exponent_of x - (int prec - 1)"
  have r: "round_to prec x = of_int (round_even (x / pow2 ?e)) * pow2 ?e"
    using assms by (simp add: round_to_def Let_def)
  have p: "pow2 (exponent_of x) = of_int (2 ^ (prec - 1)) * pow2 ?e"
    using assms(2) unfolding pow2_nat [symmetric] pow2_add [symmetric] by (simp add: of_nat_diff)
  have p1: "pow2 (exponent_of x + 1) = of_int (2 ^ prec) * pow2 ?e"
    unfolding pow2_nat [symmetric] pow2_add [symmetric] by simp
  have "of_int (2 ^ (prec - 1)) \<le> x / pow2 ?e"
    using exponent_of_bounds(1) [OF assms(1)] by (simp only: p pos_le_divide_eq [OF pow2_pos])
  from round_even_mono [OF this] show "pow2 (exponent_of x) \<le> round_to prec x"
    unfolding r p round_even_of_int by (intro mult_right_mono) (simp_all add: less_imp_le)
  have "x / pow2 ?e \<le> of_int (2 ^ prec)"
    using exponent_of_bounds(2) [OF assms(1)]
    by (simp only: p1 pos_divide_le_eq [OF pow2_pos] less_imp_le)
  from round_even_mono [OF this] show "round_to prec x \<le> pow2 (exponent_of x + 1)"
    unfolding r p1 round_even_of_int by (intro mult_right_mono) (simp_all add: less_imp_le)
qed

lemma round_to_nonneg: "0 \<le> x \<Longrightarrow> 0 < prec \<Longrightarrow> 0 \<le> round_to prec x"
  using order.trans [OF less_imp_le [OF pow2_pos] round_to_bounds(1) [of x prec]]
  by (cases "x = 0") (simp_all add: round_to_def [of _ 0])

lemma round_to_mono:
  assumes "0 \<le> x" and "x \<le> y" and "0 < prec"
  shows "round_to prec x \<le> round_to prec y"
proof (cases "x = 0")
  case True
  then show ?thesis using round_to_nonneg [of y prec] assms by (simp add: round_to_def [of _ 0])
next
  case False
  with assms have x: "0 < x" and y: "0 < y" by simp_all
  consider "exponent_of x = exponent_of y" | "exponent_of x < exponent_of y" | "exponent_of y < exponent_of x"
    by linarith
  then show ?thesis
  proof cases
    case 1
    let ?e = "exponent_of y - (int prec - 1)"
    have "round_even (x / pow2 ?e) \<le> round_even (y / pow2 ?e)"
      using assms(2) by (intro round_even_mono divide_right_mono) (simp_all add: less_imp_le)
    then have "of_int (round_even (x / pow2 ?e)) * pow2 ?e \<le> of_int (round_even (y / pow2 ?e)) * pow2 ?e"
      by (intro mult_right_mono) (simp_all add: less_imp_le)
    then show ?thesis using 1 x y by (simp add: round_to_def Let_def)
  next
    case 2
    then have "pow2 (exponent_of x + 1) \<le> pow2 (exponent_of y)" by (intro pow2_mono) simp
    then show ?thesis
      using round_to_bounds(2) [OF x assms(3)] round_to_bounds(1) [OF y assms(3)] by linarith
  next
    case 3
    then have "pow2 (exponent_of y + 1) \<le> pow2 (exponent_of x)" by (intro pow2_mono) simp
    then have "y < x" using exponent_of_bounds [OF x] exponent_of_bounds [OF y] by linarith
    then show ?thesis using assms(2) by simp
  qed
qed

lemma fl_mono: "0 \<le> x \<Longrightarrow> x \<le> y \<Longrightarrow> fl32 x \<le> fl32 y" "0 \<le> x \<Longrightarrow> x \<le> y \<Longrightarrow> fl64 x \<le> fl64 y"
  by (simp_all add: fl32_def fl64_def round_to_mono)

lemma fl_nonneg: "0 \<le> x \<Longrightarrow> 0 \<le> fl32 x" "0 \<le> x \<Longrightarrow> 0 \<le> fl64 x"
  by (simp_all add: fl32_def fl64_def round_to_nonneg)

lemma fl32_of_int: "\<bar>n\<bar> < 2 ^ 24 \<Longrightarrow> fl32 (of_int n) = of_int n"
  by (simp add: fl32_def round_to_int)

lemma exponent_of_unique:
  assumes "pow2 k \<le> x" and "x < pow2 (k + 1)"
  shows "exponent_of x = k"
proof -
  have x: "0 < x" using assms(1) pow2_pos [of k] by linarith
  have "\<not> exponent_of x + 1 \<le> k"
    using pow2_mono [of "exponent_of x + 1" k] exponent_of_bounds(2) [OF x] assms(1) by linarith
  moreover have "\<not> k + 1 \<le> exponent_of x"
    using pow2_mono [of "k + 1" "exponent_of x"] exponent_of_bounds(1) [OF x] assms(2) by linarith
  ultimately show ?thesis by simp
qed

lemma round_to_scaled:
  assumes "2 ^ (prec - 1) \<le> m" and "m < 2 ^ prec" and "0 < prec"
  shows "round_to prec (of_int m * pow2 e) = of_int m * pow2 e"
proof -
  let ?x = "of_int m * pow2 e"
  have "of_int (2 ^ (prec - 1)) * pow2 e \<le> ?x"
    by (intro mult_right_mono) (use assms(1) in \<open>simp_all only: of_int_le_iff less_imp_le [OF pow2_pos]\<close>)
  moreover have "?x < of_int (2 ^ prec) * pow2 e"
    by (intro mult_strict_right_mono) (use assms(2) in \<open>simp_all only: of_int_less_iff pow2_pos\<close>)
  ultimately have "exponent_of ?x = int (prec - 1) + e"
    using assms(3) by (intro exponent_of_unique) (simp_all only: pow2_nat [symmetric] pow2_add [symmetric] of_nat_diff,
      simp_all add: algebra_simps of_nat_diff)
  moreover have "0 < m" using less_le_trans [OF zero_less_power assms(1)] by simp
  then have "0 < ?x" by simp
  ultimately show ?thesis
    using assms(3) pow2_pos [of e] by (simp add: round_to_def Let_def of_nat_diff)
qed

lemma round_to_idem:
  assumes "0 \<le> x" and "0 < prec"
  shows "round_to prec (round_to prec x) = round_to prec x"
proof (cases "x = 0")
  case True
  then show ?thesis by (simp add: round_to_def)
next
  case False
  with assms have x: "0 < x" by simp
  let ?e = "exponent_of x - (int prec - 1)"
  let ?m = "round_even (x / pow2 ?e)"
  have r: "round_to prec x = of_int ?m * pow2 ?e" using x by (simp add: round_to_def Let_def)
  have p: "pow2 (exponent_of x) = of_int (2 ^ (prec - 1)) * pow2 ?e"
    using assms(2) unfolding pow2_nat [symmetric] pow2_add [symmetric] by (simp add: of_nat_diff)
  have p1: "pow2 (exponent_of x + 1) = of_int (2 ^ prec) * pow2 ?e"
    unfolding pow2_nat [symmetric] pow2_add [symmetric] by simp
  have low: "2 ^ (prec - 1) \<le> ?m"
    using round_to_bounds(1) [OF x assms(2)] unfolding r p mult_le_cancel_right_pos [OF pow2_pos] of_int_le_iff .
  have high: "?m \<le> 2 ^ prec"
    using round_to_bounds(2) [OF x assms(2)] unfolding r p1 mult_le_cancel_right_pos [OF pow2_pos] of_int_le_iff .
  show ?thesis
  proof (cases "?m = 2 ^ prec")
    case True
    have two: "(2 :: int) ^ prec = 2 ^ (prec - 1) * 2"
      using assms(2) by (simp flip: power_Suc2)
    have "pow2 (1 + ?e) = 2 * pow2 ?e"
      unfolding pow2_add by (simp add: pow2_def [of 1])
    then have "round_to prec x = of_int (2 ^ (prec - 1)) * pow2 (1 + ?e)"
      unfolding r True two of_int_mult by (simp only: mult.assoc of_int_numeral)
    moreover have "(2 :: int) ^ (prec - 1) < 2 ^ prec" using assms(2) by simp
    ultimately show ?thesis using round_to_scaled [of prec "2 ^ (prec - 1)" "1 + ?e"] assms(2) by simp
  next
    case False
    then have "?m < 2 ^ prec" using high by simp
    then show ?thesis unfolding r by (rule round_to_scaled [OF low _ assms(2)])
  qed
qed

lemma fl32_idem: "0 \<le> x \<Longrightarrow> fl32 (fl32 x) = fl32 x"
  by (simp add: fl32_def round_to_idem)

text \<open>Rounding does not depend on the place of the point.\<close>

lemma round_to_shift:
  assumes "0 < x"
  shows "round_to prec (x * pow2 k) = round_to prec x * pow2 k"
proof -
  have p: "0 < x * pow2 k" using assms by simp
  have "pow2 (exponent_of x + k) \<le> x * pow2 k" "x * pow2 k < pow2 (exponent_of x + k + 1)"
    using exponent_of_bounds [OF assms] pow2_add [of "exponent_of x" k] pow2_add [of "exponent_of x + 1" k]
    by (simp_all add: algebra_simps)
  then have e: "exponent_of (x * pow2 k) = exponent_of x + k" by (rule exponent_of_unique)
  have s: "pow2 (exponent_of x + k - (int prec - 1)) = pow2 (exponent_of x - (int prec - 1)) * pow2 k"
    by (simp only: pow2_add [symmetric]) (simp add: algebra_simps)
  have k: "pow2 k \<noteq> 0" using pow2_pos [of k] by linarith
  have a: "\<bar>x * pow2 k\<bar> = x * pow2 k" "\<bar>x\<bar> = x" using assms p by (simp_all only: abs_of_pos)
  have "x * pow2 k / (pow2 d * pow2 k) = x / pow2 d" for d using k by simp
  then show ?thesis using assms p k unfolding round_to_def Let_def a e s by simp
qed

lemma fl32_quarters:
  assumes "0 \<le> n" and "n < 2 ^ 24"
  shows "fl32 (of_int n / 4) = of_int n / 4"
proof (cases "n = 0")
  case False
  have q: "x / 4 = x * pow2 (- 2)" for x by (simp add: pow2_def)
  show ?thesis
    using round_to_shift [of "of_int n" 24 "- 2"] round_to_int [of n 24] False assms
    unfolding q fl32_def by simp
qed simp

text \<open>The ceiling of a third is exact while the quotient has two bits behind the point.\<close>

lemma ceiling_third:
  assumes "0 \<le> n" and "n < 2 ^ 23"
  shows "\<lceil>fl32 (of_int n / 3)\<rceil> = (n + 2) div 3"
proof -
  define q where "q = n div 3"
  define r where "r = n mod 3"
  have n: "n = 3 * q + r" and r: "r = 0 \<or> r = 1 \<or> r = 2" and q: "0 \<le> q" "q < 2 ^ 22"
    using assms by (auto simp: q_def r_def)
  show ?thesis
  proof (cases "r = 0")
    case True
    then have "of_int n / 3 = (of_int q :: rat)" by (simp add: n)
    moreover have "fl32 (of_int q) = of_int q" using q by (intro fl32_of_int) simp
    ultimately have "\<lceil>fl32 (of_int n / 3)\<rceil> = q" by simp
    then show ?thesis using True n by simp
  next
    case False
    have lower: "of_int (4 * q + 1) / 4 \<le> (of_int n / 3 :: rat)" and upper: "of_int n / 3 \<le> (of_int (q + 1) :: rat)"
      using False r by (auto simp: n field_simps)
    have "of_int (4 * q + 1) / 4 \<le> fl32 (of_int n / 3)"
      using fl_mono(1) [OF _ lower] fl32_quarters [of "4 * q + 1"] q by simp
    then have "of_int q < fl32 (of_int n / 3)" by simp
    moreover have "fl32 (of_int n / 3) \<le> of_int (q + 1)"
      using fl_mono(1) [OF _ upper] fl32_of_int [of "q + 1"] assms q by simp
    ultimately have "\<lceil>fl32 (of_int n / 3)\<rceil> = q + 1" by (intro ceiling_unique) simp_all
    then show ?thesis using False r n by auto
  qed
qed

end
