(* ===== verification/Party.thy ===== *)
theory Party
  imports Positions Float_Arith
begin

text \<open>
  Parties: \<open>src/party.{h,cpp}\<close>, the party part of \<open>src/player.cpp\<close> and the party requests
  of \<open>src/game.cpp\<close>. Players and parties point at each other (a player at its party and at the
  parties that invite it, a party at its leader, members and invitees), so the state is a store
  of both; a party that was deleted is not in the store, and an operation that reads a deleted
  party is None. The answers of the Lua events, the clock and the configured limit are in the
  environment. What is only shown to clients (messages, shields, skulls) is not in the state.
\<close>

section \<open>The store\<close>

type_synonym pid = nat
type_synonym ptid = nat

record party =
  leader :: pid
  memberList :: "pid list"
  inviteList :: "pid list"
  ticksMap :: "pid \<rightharpoonup> u64"
  sharedExpActive :: bool
  sharedExpEnabled :: bool

record party_player =
  p_party :: "ptid option"
  invitePartyList :: "ptid list"
  p_level :: nat
  p_position :: position
  notGainInFight :: bool

record party_world =
  pl :: "pid \<Rightarrow> party_player"
  parties :: "ptid \<rightharpoonup> party"
  online :: "pid \<Rightarrow> bool"

record party_env =
  now :: u64
  pz_locked :: u64
  onJoin :: "ptid \<Rightarrow> pid \<Rightarrow> bool"
  onLeave :: "ptid \<Rightarrow> pid \<Rightarrow> bool"
  onDisband :: "ptid \<Rightarrow> bool"
  onInvite :: "ptid \<Rightarrow> pid \<Rightarrow> bool"
  onRevokeInvitation :: "ptid \<Rightarrow> pid \<Rightarrow> bool"
  onPassLeadership :: "ptid \<Rightarrow> pid \<Rightarrow> bool"

definition setParty :: "ptid option \<Rightarrow> pid \<Rightarrow> party_world \<Rightarrow> party_world" where
  "setParty v p w = w\<lparr>pl := (pl w)(p := (pl w p)\<lparr>p_party := v\<rparr>)\<rparr>"

definition set_invites :: "ptid list \<Rightarrow> pid \<Rightarrow> party_world \<Rightarrow> party_world" where
  "set_invites v p w = w\<lparr>pl := (pl w)(p := (pl w p)\<lparr>invitePartyList := v\<rparr>)\<rparr>"

definition put_party :: "ptid \<Rightarrow> party \<Rightarrow> party_world \<Rightarrow> party_world" where
  "put_party pt P w = w\<lparr>parties := (parties w)(pt \<mapsto> P)\<rparr>"

definition delete_party :: "ptid \<Rightarrow> party_world \<Rightarrow> party_world" where
  "delete_party pt w = w\<lparr>parties := (parties w)(pt := None)\<rparr>"

definition new_party :: "ptid \<Rightarrow> pid \<Rightarrow> party_world \<Rightarrow> party_world" where
  "new_party pt p w =
     setParty (Some pt) p
       (put_party pt \<lparr>leader = p, memberList = [], inviteList = [], ticksMap = Map.empty,
          sharedExpActive = False, sharedExpEnabled = False\<rparr> w)"

definition party_empty :: "party \<Rightarrow> bool" where
  "party_empty P \<longleftrightarrow> memberList P = [] \<and> inviteList P = []"

definition isPlayerInvited :: "party \<Rightarrow> pid \<Rightarrow> bool" where
  "isPlayerInvited P p = (p \<in> set (inviteList P))"

section \<open>The player's side\<close>

definition addPartyInvitation :: "ptid \<Rightarrow> pid \<Rightarrow> party_world \<Rightarrow> party_world" where
  "addPartyInvitation pt p w =
     (if pt \<in> set (invitePartyList (pl w p)) then w
      else set_invites (pt # invitePartyList (pl w p)) p w)"

definition removePartyInvitation :: "ptid \<Rightarrow> pid \<Rightarrow> party_world \<Rightarrow> party_world" where
  "removePartyInvitation pt p w = set_invites (removeAll pt (invitePartyList (pl w p))) p w"

definition isInviting :: "party_world \<Rightarrow> pid \<Rightarrow> pid \<Rightarrow> bool option" where
  "isInviting w p q =
     (case p_party (pl w p) of
        None \<Rightarrow> Some False
      | Some pt \<Rightarrow> map_option (\<lambda>P. leader P = p \<and> isPlayerInvited P q) (parties w pt))"

definition isPartner :: "party_world \<Rightarrow> pid \<Rightarrow> pid \<Rightarrow> bool" where
  "isPartner w p q \<longleftrightarrow> p_party (pl w p) \<noteq> None \<and> q \<noteq> p \<and> p_party (pl w p) = p_party (pl w q)"

section \<open>Shared experience\<close>

datatype SharedExpStatus =
  SHAREDEXP_OK | SHAREDEXP_TOOFARAWAY | SHAREDEXP_LEVELDIFFTOOLARGE | SHAREDEXP_MEMBERINACTIVE
| SHAREDEXP_EMPTYPARTY

definition EXPERIENCE_SHARE_RANGE :: int where
  "EXPERIENCE_SHARE_RANGE = 30"

definition EXPERIENCE_SHARE_FLOORS :: int where
  "EXPERIENCE_SHARE_FLOORS = 1"

text \<open>The least level, \<open>ceil(2 * highest / 3)\<close>, computed with floats.\<close>

definition min_share_level :: "nat \<Rightarrow> nat" where
  "min_share_level highest = nat \<lceil>fl32 (fl32 (fl32 (of_nat highest) * 2) / 3)\<rceil>"

definition highest_level :: "party_world \<Rightarrow> party \<Rightarrow> nat" where
  "highest_level w P =
     fold (\<lambda>m h. if p_level (pl w m) > h then p_level (pl w m) else h) (memberList P)
       (p_level (pl w (leader P)))"

definition getMemberSharedExperienceStatus ::
  "party_env \<Rightarrow> party_world \<Rightarrow> party \<Rightarrow> pid \<Rightarrow> SharedExpStatus" where
  "getMemberSharedExperienceStatus env w P p =
     (if memberList P = [] then SHAREDEXP_EMPTYPARTY
      else if p_level (pl w p) < min_share_level (highest_level w P) then SHAREDEXP_LEVELDIFFTOOLARGE
      else if \<not> isInRange (p_position (pl w (leader P))) (p_position (pl w p))
                EXPERIENCE_SHARE_RANGE EXPERIENCE_SHARE_RANGE EXPERIENCE_SHARE_FLOORS
        then SHAREDEXP_TOOFARAWAY
      else if \<not> notGainInFight (pl w p) then
        case ticksMap P p of
          None \<Rightarrow> SHAREDEXP_MEMBERINACTIVE
        | Some t \<Rightarrow> if now env - t > pz_locked env then SHAREDEXP_MEMBERINACTIVE else SHAREDEXP_OK
      else SHAREDEXP_OK)"

fun first_status ::
  "party_env \<Rightarrow> party_world \<Rightarrow> party \<Rightarrow> pid list \<Rightarrow> SharedExpStatus" where
  "first_status env w P [] = SHAREDEXP_OK"
| "first_status env w P (m # ms) =
     (let s = getMemberSharedExperienceStatus env w P m
      in if s \<noteq> SHAREDEXP_OK then s else first_status env w P ms)"

definition getSharedExperienceStatus :: "party_env \<Rightarrow> party_world \<Rightarrow> party \<Rightarrow> SharedExpStatus" where
  "getSharedExperienceStatus env w P =
     (let leaderStatus = getMemberSharedExperienceStatus env w P (leader P)
      in if leaderStatus \<noteq> SHAREDEXP_OK then leaderStatus
         else first_status env w P (memberList P))"

definition canUseSharedExperience :: "party_env \<Rightarrow> party_world \<Rightarrow> party \<Rightarrow> pid \<Rightarrow> bool" where
  "canUseSharedExperience env w P p \<longleftrightarrow> getMemberSharedExperienceStatus env w P p = SHAREDEXP_OK"

text \<open>\<open>updateSharedExperience\<close> on the party; its icons are not in the state.\<close>

definition updated_shared :: "party_env \<Rightarrow> party_world \<Rightarrow> party \<Rightarrow> party" where
  "updated_shared env w P =
     (if sharedExpActive P then
        let result = (getSharedExperienceStatus env w P = SHAREDEXP_OK)
        in if result \<noteq> sharedExpEnabled P then P\<lparr>sharedExpEnabled := result\<rparr> else P
      else P)"

definition updateSharedExperience :: "party_env \<Rightarrow> ptid \<Rightarrow> party_world \<Rightarrow> party_world option" where
  "updateSharedExperience env pt w =
     map_option (\<lambda>P. put_party pt (updated_shared env w P) w) (parties w pt)"

definition clearPlayerPoints :: "party_env \<Rightarrow> ptid \<Rightarrow> pid \<Rightarrow> party_world \<Rightarrow> party_world option" where
  "clearPlayerPoints env pt p w =
     Option.bind (parties w pt)
       (\<lambda>P. if ticksMap P p \<noteq> None
             then updateSharedExperience env pt (put_party pt (P\<lparr>ticksMap := (ticksMap P)(p := None)\<rparr>) w)
             else Some w)"

definition updatePlayerTicks ::
  "party_env \<Rightarrow> ptid \<Rightarrow> pid \<Rightarrow> u32 \<Rightarrow> party_world \<Rightarrow> party_world option" where
  "updatePlayerTicks env pt p points w =
     Option.bind (parties w pt)
       (\<lambda>P. if points \<noteq> 0 \<and> \<not> notGainInFight (pl w p)
             then updateSharedExperience env pt (put_party pt (P\<lparr>ticksMap := (ticksMap P)(p \<mapsto> now env)\<rparr>) w)
             else Some w)"

definition setSharedExperience ::
  "party_env \<Rightarrow> ptid \<Rightarrow> pid option \<Rightarrow> bool \<Rightarrow> party_world \<Rightarrow> (bool \<times> party_world) option" where
  "setSharedExperience env pt player active w =
     map_option
       (\<lambda>P. if player = None \<or> player \<noteq> Some (leader P) then (False, w)
             else if sharedExpActive P = active then (True, w)
             else
               let P = P\<lparr>sharedExpActive := active\<rparr>
               in (True, put_party pt
                    (if active
                     then P\<lparr>sharedExpEnabled := (getSharedExperienceStatus env w P = SHAREDEXP_OK)\<rparr>
                     else P) w))
       (parties w pt)"

text \<open>The amounts handed to the players; \<open>onShareExperience\<close> is what the Lua event makes of it.\<close>

definition shareExperience :: "(u64 \<Rightarrow> u64) \<Rightarrow> u64 \<Rightarrow> party \<Rightarrow> (pid \<times> u64) list" where
  "shareExperience onShareExperience experience P =
     map (\<lambda>m. (m, onShareExperience experience)) (memberList P) @
     [(leader P, onShareExperience experience)]"

section \<open>Members and invitations\<close>

definition disband :: "party_env \<Rightarrow> ptid \<Rightarrow> party_world \<Rightarrow> party_world option" where
  "disband env pt w =
     map_option
       (\<lambda>P. if \<not> onDisband env pt then w
             else
               let w = setParty None (leader P) w;
                   w = fold (removePartyInvitation pt) (inviteList P) w;
                   w = fold (setParty None) (memberList P) w
               in delete_party pt w)
       (parties w pt)"

definition removeInvite ::
  "party_env \<Rightarrow> ptid \<Rightarrow> pid \<Rightarrow> bool \<Rightarrow> party_world \<Rightarrow> (bool \<times> party_world) option" where
  "removeInvite env pt p removeFromPlayer w =
     Option.bind (parties w pt)
       (\<lambda>P. if p \<notin> set (inviteList P) then Some (False, w)
             else
               let P = P\<lparr>inviteList := remove1 p (inviteList P)\<rparr>;
                   w = put_party pt P w;
                   w = (if removeFromPlayer then removePartyInvitation pt p w else w)
               in if party_empty P then map_option (Pair True) (disband env pt w)
                  else Some (True, w))"

fun clear_loop :: "party_env \<Rightarrow> pid \<Rightarrow> ptid list \<Rightarrow> party_world \<Rightarrow> party_world option" where
  "clear_loop env p [] w = Some w"
| "clear_loop env p (pt # pts) w =
     Option.bind (removeInvite env pt p False w) (\<lambda>(_, w). clear_loop env p pts w)"

definition clearPartyInvitations :: "party_env \<Rightarrow> pid \<Rightarrow> party_world \<Rightarrow> party_world option" where
  "clearPartyInvitations env p w =
     map_option (set_invites [] p) (clear_loop env p (invitePartyList (pl w p)) w)"

definition revokeInvitation :: "party_env \<Rightarrow> ptid \<Rightarrow> pid \<Rightarrow> party_world \<Rightarrow> party_world option" where
  "revokeInvitation env pt p w =
     (if \<not> onRevokeInvitation env pt p then Some w
      else map_option snd (removeInvite env pt p True w))"

definition invitePlayer :: "ptid \<Rightarrow> pid \<Rightarrow> party_world \<Rightarrow> (bool \<times> party_world) option" where
  "invitePlayer pt p w =
     map_option
       (\<lambda>P. if isPlayerInvited P p then (False, w)
             else (True, addPartyInvitation pt p
                           (put_party pt (P\<lparr>inviteList := inviteList P @ [p]\<rparr>) w)))
       (parties w pt)"

definition passPartyLeadership ::
  "party_env \<Rightarrow> ptid \<Rightarrow> pid option \<Rightarrow> bool \<Rightarrow> party_world \<Rightarrow> (bool \<times> party_world) option" where
  "passPartyLeadership env pt player forceRemove w =
     Option.bind (parties w pt)
       (\<lambda>P. case player of
               None \<Rightarrow> Some (False, w)
             | Some p \<Rightarrow>
                 if leader P = p \<or> p_party (pl w p) \<noteq> Some pt then Some (False, w)
                 else if \<not> onPassLeadership env pt p \<and> \<not> forceRemove then Some (False, w)
                 else map_option (Pair True)
                        (updateSharedExperience env pt
                          (put_party pt (P\<lparr>memberList := leader P # remove1 p (memberList P),
                                           leader := p\<rparr>) w)))"

text \<open>The second half of \<open>leaveParty\<close>, after the leadership was passed on.\<close>

definition leave_rest ::
  "party_env \<Rightarrow> ptid \<Rightarrow> pid \<Rightarrow> bool \<Rightarrow> party_world \<Rightarrow> party_world option" where
  "leave_rest env pt p missingLeader w =
     Option.bind (parties w pt)
       (\<lambda>P. let w = put_party pt (P\<lparr>memberList := remove1 p (memberList P)\<rparr>) w;
                w = setParty None p w
            in Option.bind (updateSharedExperience env pt w)
                 (\<lambda>w. Option.bind (clearPlayerPoints env pt p w)
                   (\<lambda>w. Option.bind (parties w pt)
                     (\<lambda>P. if missingLeader \<or> party_empty P then disband env pt w else Some w))))"

definition leaveParty ::
  "party_env \<Rightarrow> ptid \<Rightarrow> pid option \<Rightarrow> bool \<Rightarrow> party_world \<Rightarrow> (bool \<times> party_world) option" where
  "leaveParty env pt player forceRemove w =
     Option.bind (parties w pt)
       (\<lambda>P. case player of
               None \<Rightarrow> Some (False, w)
             | Some p \<Rightarrow>
                 if p_party (pl w p) \<noteq> Some pt \<and> leader P \<noteq> p then Some (False, w)
                 else if \<not> forceRemove \<and> \<not> onLeave env pt p then Some (False, w)
                 else
                   let missingLeader = (leader P = p \<and>
                         (memberList P = [] \<or> length (memberList P) = 1 \<and> inviteList P = []))
                   in Option.bind
                        (if leader P = p \<and> \<not> missingLeader
                         then map_option snd (passPartyLeadership env pt (Some (hd (memberList P))) True w)
                         else Some w)
                        (\<lambda>w. map_option (Pair True) (leave_rest env pt p missingLeader w)))"

definition joinParty :: "party_env \<Rightarrow> ptid \<Rightarrow> pid \<Rightarrow> party_world \<Rightarrow> (bool \<times> party_world) option" where
  "joinParty env pt p w =
     Option.bind (parties w pt)
       (\<lambda>P. if \<not> onJoin env pt p then Some (False, w)
             else
               Option.bind
                 (if memberList P = [] then clearPartyInvitations env (leader P) w else Some w)
                 (\<lambda>w. Option.bind (parties w pt)
                   (\<lambda>P. Option.bind
                      (clearPartyInvitations env p
                        (setParty (Some pt) p
                          (put_party pt (P\<lparr>memberList := memberList P @ [p]\<rparr>) w)))
                      (\<lambda>w. map_option (Pair True) (updateSharedExperience env pt w)))))"

definition canOpenCorpse :: "party_world \<Rightarrow> ptid \<Rightarrow> pid \<Rightarrow> bool option" where
  "canOpenCorpse w pt ownerId =
     map_option
       (\<lambda>P. online w ownerId \<and> (leader P = ownerId \<or> p_party (pl w ownerId) = Some pt))
       (parties w pt)"

section \<open>Shields\<close>

datatype PartyShields =
    SHIELD_NONE | SHIELD_WHITEYELLOW | SHIELD_WHITEBLUE | SHIELD_BLUE | SHIELD_YELLOW
  | SHIELD_BLUE_SHAREDEXP | SHIELD_YELLOW_SHAREDEXP | SHIELD_BLUE_NOSHAREDEXP_BLINK
  | SHIELD_YELLOW_NOSHAREDEXP_BLINK | SHIELD_BLUE_NOSHAREDEXP | SHIELD_YELLOW_NOSHAREDEXP
  | SHIELD_GRAY

text \<open>What is shown to a player who has no party with the other, or none that invites him.\<close>

definition outside_shield :: "party_world \<Rightarrow> pid \<Rightarrow> pid \<Rightarrow> PartyShields option" where
  "outside_shield w p q =
     map_option
       (\<lambda>inviting. if inviting then SHIELD_WHITEYELLOW
                   else if p_party (pl w q) \<noteq> None then SHIELD_GRAY else SHIELD_NONE)
       (isInviting w q p)"

definition getPartyShield ::
  "party_env \<Rightarrow> party_world \<Rightarrow> pid \<Rightarrow> pid option \<Rightarrow> PartyShields option" where
  "getPartyShield env w p player =
     (case player of
        None \<Rightarrow> Some SHIELD_NONE
      | Some q \<Rightarrow>
          (case p_party (pl w p) of
             None \<Rightarrow> outside_shield w p q
           | Some pt \<Rightarrow>
               Option.bind (parties w pt)
                 (\<lambda>P. if leader P = q then
                         Some (if sharedExpActive P then
                                 if sharedExpEnabled P then SHIELD_YELLOW_SHAREDEXP
                                 else if canUseSharedExperience env w P q
                                   then SHIELD_YELLOW_NOSHAREDEXP
                                 else SHIELD_YELLOW_NOSHAREDEXP_BLINK
                               else SHIELD_YELLOW)
                       else if p_party (pl w q) = Some pt then
                         Some (if sharedExpActive P then
                                 if sharedExpEnabled P then SHIELD_BLUE_SHAREDEXP
                                 else if canUseSharedExperience env w P q
                                   then SHIELD_BLUE_NOSHAREDEXP
                                 else SHIELD_BLUE_NOSHAREDEXP_BLINK
                               else SHIELD_BLUE)
                       else if isPlayerInvited P q then Some SHIELD_WHITEBLUE
                       else outside_shield w p q)))"

section \<open>Requests of the players\<close>

text \<open>\<open>fresh\<close> is where \<open>new Party\<close> is allocated.\<close>

definition playerInviteToParty ::
  "party_env \<Rightarrow> ptid \<Rightarrow> pid \<Rightarrow> pid \<Rightarrow> party_world \<Rightarrow> party_world option" where
  "playerInviteToParty env fresh p q w =
     (if p = q then Some w
      else if \<not> online w p then Some w
      else if \<not> online w q then Some w
      else Option.bind (isInviting w q p)
        (\<lambda>inviting.
           if inviting then Some w
           else if p_party (pl w q) \<noteq> None then Some w
           else
             let (pt, w) = (case p_party (pl w p) of
                              None \<Rightarrow> (fresh, new_party fresh p w)
                            | Some pt \<Rightarrow> (pt, w))
             in Option.bind (parties w pt)
                  (\<lambda>P. if leader P \<noteq> p then Some w
                        else if \<not> onInvite env pt q then
                          if party_empty P then Some (delete_party pt (setParty None p w)) else Some w
                        else map_option snd (invitePlayer pt q w))))"

definition playerJoinParty :: "party_env \<Rightarrow> pid \<Rightarrow> pid \<Rightarrow> party_world \<Rightarrow> party_world option" where
  "playerJoinParty env p l w =
     (if \<not> online w p then Some w
      else if \<not> online w l then Some w
      else Option.bind (isInviting w l p)
        (\<lambda>inviting.
           if \<not> inviting then Some w
           else case p_party (pl w l) of
             None \<Rightarrow> Some w
           | Some pt \<Rightarrow>
               Option.bind (parties w pt)
                 (\<lambda>P. if leader P \<noteq> l then Some w
                       else if p_party (pl w p) \<noteq> None then Some w
                       else map_option snd (joinParty env pt p w))))"

definition with_led_party ::
  "pid \<Rightarrow> party_world \<Rightarrow> (ptid \<Rightarrow> party_world option) \<Rightarrow> party_world option" where
  "with_led_party p w f =
     (case p_party (pl w p) of
        None \<Rightarrow> Some w
      | Some pt \<Rightarrow> Option.bind (parties w pt) (\<lambda>P. if leader P \<noteq> p then Some w else f pt))"

definition playerRevokePartyInvitation ::
  "party_env \<Rightarrow> pid \<Rightarrow> pid \<Rightarrow> party_world \<Rightarrow> party_world option" where
  "playerRevokePartyInvitation env p q w =
     (if \<not> online w p then Some w
      else with_led_party p w
        (\<lambda>pt. if \<not> online w q then Some w
               else Option.bind (isInviting w p q)
                 (\<lambda>inviting. if \<not> inviting then Some w else revokeInvitation env pt q w)))"

definition playerPassPartyLeadership ::
  "party_env \<Rightarrow> pid \<Rightarrow> pid \<Rightarrow> party_world \<Rightarrow> party_world option" where
  "playerPassPartyLeadership env p q w =
     (if \<not> online w p then Some w
      else with_led_party p w
        (\<lambda>pt. if \<not> online w q \<or> \<not> isPartner w p q then Some w
               else map_option snd (passPartyLeadership env pt (Some q) False w)))"

definition playerLeaveParty :: "party_env \<Rightarrow> bool \<Rightarrow> pid \<Rightarrow> party_world \<Rightarrow> party_world option" where
  "playerLeaveParty env infight p w =
     (if \<not> online w p then Some w
      else case p_party (pl w p) of
             None \<Rightarrow> Some w
           | Some pt \<Rightarrow> if infight then Some w else map_option snd (leaveParty env pt (Some p) False w))"

definition playerEnableSharedPartyExperience ::
  "party_env \<Rightarrow> bool \<Rightarrow> bool \<Rightarrow> pid \<Rightarrow> bool \<Rightarrow> party_world \<Rightarrow> party_world option" where
  "playerEnableSharedPartyExperience env infight in_protection_zone p active w =
     (if \<not> online w p then Some w
      else case p_party (pl w p) of
             None \<Rightarrow> Some w
           | Some pt \<Rightarrow> if infight \<and> \<not> in_protection_zone then Some w
                       else map_option snd (setSharedExperience env pt (Some p) active w))"

text \<open>From \<open>Player::onRemoveCreature\<close>; the player is not online afterwards.\<close>

definition player_removed :: "party_env \<Rightarrow> pid \<Rightarrow> party_world \<Rightarrow> party_world option" where
  "player_removed env p w =
     Option.bind (clearPartyInvitations env p w)
       (\<lambda>w. map_option (\<lambda>w. w\<lparr>online := (online w)(p := False)\<rparr>)
         (case p_party (pl w p) of
            None \<Rightarrow> Some w
          | Some pt \<Rightarrow> map_option snd (leaveParty env pt (Some p) True w)))"

section \<open>The links between players and parties\<close>

text \<open>The membership and the invitations of the players are those of the parties: \<open>M\<close> gives the
  party of each player, \<open>I\<close> the parties that invite him, \<open>Ps\<close> the parties.\<close>

definition party_linked :: "(pid \<Rightarrow> ptid option) \<Rightarrow> (pid \<Rightarrow> ptid set) \<Rightarrow> ptid \<Rightarrow> party \<Rightarrow> bool" where
  "party_linked M I pt P \<longleftrightarrow>
     distinct (leader P # memberList P) \<and> distinct (inviteList P) \<and>
     (\<forall>p. M p = Some pt \<longleftrightarrow> p = leader P \<or> p \<in> set (memberList P)) \<and>
     (\<forall>p. pt \<in> I p \<longleftrightarrow> p \<in> set (inviteList P))"

definition linked :: "(pid \<Rightarrow> ptid option) \<Rightarrow> (pid \<Rightarrow> ptid set) \<Rightarrow> (ptid \<rightharpoonup> party) \<Rightarrow> bool" where
  "linked M I Ps \<longleftrightarrow>
     (\<forall>pt P. Ps pt = Some P \<longrightarrow> party_linked M I pt P) \<and>
     (\<forall>p pt. M p = Some pt \<or> pt \<in> I p \<longrightarrow> Ps pt \<noteq> None)"

lemma linkedD: "linked M I Ps \<Longrightarrow> Ps pt = Some P \<Longrightarrow> party_linked M I pt P"
  by (auto simp: linked_def)

lemma linked_exists:
  "linked M I Ps \<Longrightarrow> M p = Some pt \<Longrightarrow> \<exists>P. Ps pt = Some P"
  "linked M I Ps \<Longrightarrow> pt \<in> I p \<Longrightarrow> \<exists>P. Ps pt = Some P"
  by (auto simp: linked_def)

lemma linked_update:
  assumes l: "linked M I Ps" "Ps pt = Some P \<or> Ps pt = None"
    and other: "\<And>q pt'. pt' \<noteq> pt \<Longrightarrow> (M' q = Some pt' \<longleftrightarrow> M q = Some pt') \<and> (pt' \<in> I' q \<longleftrightarrow> pt' \<in> I q)"
    and here: "party_linked M' I' pt P'"
  shows "linked M' I' (Ps(pt \<mapsto> P'))"
  unfolding linked_def
proof (intro conjI allI impI)
  fix pt' Q assume Q: "(Ps(pt \<mapsto> P')) pt' = Some Q"
  show "party_linked M' I' pt' Q"
  proof (cases "pt' = pt")
    case False
    with Q linkedD [OF l(1)] have "party_linked M I pt' Q" by simp
    then show ?thesis using other [OF False] by (simp add: party_linked_def)
  qed (use Q here in simp)
next
  fix q pt' assume "M' q = Some pt' \<or> pt' \<in> I' q"
  then show "(Ps(pt \<mapsto> P')) pt' \<noteq> None"
    using other [of pt' q] l(1) by (cases "pt' = pt") (auto simp: linked_def)
qed

lemma linked_cong:
  assumes "linked M I Ps" "Ps pt = Some P" "leader P' = leader P" "memberList P' = memberList P"
    "inviteList P' = inviteList P"
  shows "linked M I (Ps(pt \<mapsto> P'))"
  using assms linkedD [OF assms(1,2)] by (intro linked_update) (auto simp: party_linked_def)

lemma linked_disband:
  assumes "linked M I Ps" "Ps pt = Some P"
    and "\<And>p. M' p = (if M p = Some pt then None else M p)" "\<And>p. I' p = I p - {pt}"
  shows "linked M' I' (Ps(pt := None))"
proof -
  have "(M' q = Some pt' \<longleftrightarrow> M q = Some pt') \<and> (pt' \<in> I' q \<longleftrightarrow> pt' \<in> I q)" if "pt' \<noteq> pt" for q pt'
    using assms(3,4) that by (auto split: if_splits)
  then have "party_linked M' I' pt' Q \<longleftrightarrow> party_linked M I pt' Q" if "pt' \<noteq> pt" for pt' Q
    using that by (simp add: party_linked_def)
  then show ?thesis using assms by (auto simp: linked_def split: if_splits)
qed

lemma linked_invite:
  assumes "linked M I Ps" "Ps pt = Some P" "p \<notin> set (inviteList P)"
  shows "linked M (I(p := insert pt (I p))) (Ps(pt \<mapsto> P\<lparr>inviteList := inviteList P @ [p]\<rparr>))"
  using assms linkedD [OF assms(1,2)] by (intro linked_update [of M I]) (auto simp: party_linked_def)

lemma linked_uninvite:
  assumes "linked M I Ps" "Ps pt = Some P"
  shows "linked M (I(p := I p - {pt})) (Ps(pt \<mapsto> P\<lparr>inviteList := remove1 p (inviteList P)\<rparr>))"
  using assms linkedD [OF assms(1,2)]
  by (intro linked_update [of M I]) (auto simp: party_linked_def)

lemma linked_join:
  assumes "linked M I Ps" "Ps pt = Some P" "M p = None"
  shows "linked (M(p \<mapsto> pt)) I (Ps(pt \<mapsto> P\<lparr>memberList := memberList P @ [p]\<rparr>))"
proof -
  have "p \<noteq> leader P" "p \<notin> set (memberList P)"
    using linkedD [OF assms(1,2)] assms(3) by (metis option.distinct(1) party_linked_def)+
  then show ?thesis
    using assms linkedD [OF assms(1,2)]
    by (intro linked_update [of M I]) (auto simp: party_linked_def)
qed

lemma linked_leave:
  assumes "linked M I Ps" "Ps pt = Some P" "p \<noteq> leader P" "M p = Some pt"
  shows "linked (M(p := None)) I (Ps(pt \<mapsto> P\<lparr>memberList := remove1 p (memberList P)\<rparr>))"
  using assms linkedD [OF assms(1,2)]
  by (intro linked_update [of M I]) (auto simp: party_linked_def)

lemma linked_pass:
  assumes "linked M I Ps" "Ps pt = Some P" "p \<noteq> leader P" "M p = Some pt"
  shows "linked M I (Ps(pt \<mapsto> P\<lparr>memberList := leader P # remove1 p (memberList P), leader := p\<rparr>))"
  using assms linkedD [OF assms(1,2)]
  by (intro linked_update [of M I]) (auto simp: party_linked_def)

lemma linked_new:
  assumes "linked M I Ps" "Ps pt = None" "M p = None"
    and "leader P = p" "memberList P = []" "inviteList P = []"
  shows "linked (M(p \<mapsto> pt)) I (Ps(pt \<mapsto> P))"
proof -
  have "M q \<noteq> Some pt" "pt \<notin> I q" for q
    using linked_exists [OF assms(1)] assms(2) by (metis option.distinct(1))+
  then show ?thesis
    using assms by (intro linked_update [of M I]) (auto simp: party_linked_def)
qed

section \<open>What the operations do to the links\<close>

definition mem_of :: "party_world \<Rightarrow> pid \<Rightarrow> ptid option" where
  "mem_of w p = p_party (pl w p)"

definition inv_of :: "party_world \<Rightarrow> pid \<Rightarrow> ptid set" where
  "inv_of w p = set (invitePartyList (pl w p))"

abbreviation ilist :: "party_world \<Rightarrow> pid \<Rightarrow> ptid list" where
  "ilist w p \<equiv> invitePartyList (pl w p)"

lemma store_simps [simp]:
  "mem_of (setParty v p w) = (mem_of w)(p := v)"
  "ilist (setParty v p w) q = ilist w q" "parties (setParty v p w) = parties w"
  "online (setParty v p w) = online w"
  "mem_of (set_invites l p w) = mem_of w"
  "ilist (set_invites l p w) q = (if q = p then l else ilist w q)"
  "parties (set_invites l p w) = parties w" "online (set_invites l p w) = online w"
  "mem_of (put_party pt P w) = mem_of w" "ilist (put_party pt P w) q = ilist w q"
  "parties (put_party pt P w) = (parties w)(pt \<mapsto> P)" "online (put_party pt P w) = online w"
  "mem_of (delete_party pt w) = mem_of w" "ilist (delete_party pt w) q = ilist w q"
  "parties (delete_party pt w) = (parties w)(pt := None)" "online (delete_party pt w) = online w"
  "pl (put_party pt P w) = pl w"
  "mem_of (w\<lparr>online := on\<rparr>) = mem_of w"
  by (auto simp: mem_of_def setParty_def set_invites_def put_party_def delete_party_def fun_eq_iff)

lemma inv_of_simps [simp]:
  "inv_of (setParty v p w) = inv_of w" "inv_of (set_invites l p w) = (inv_of w)(p := set l)"
  "inv_of (put_party pt P w) = inv_of w" "inv_of (delete_party pt w) = inv_of w"
  "inv_of (w\<lparr>online := on\<rparr>) = inv_of w"
  by (auto simp: inv_of_def fun_eq_iff)

lemma mem_of_p_party [simp]: "p_party (pl w p) = mem_of w p"
  by (simp add: mem_of_def)

lemma fold_setParty [simp]:
  "mem_of (fold (setParty None) ms w) = (\<lambda>q. if q \<in> set ms then None else mem_of w q)"
  "ilist (fold (setParty None) ms w) q = ilist w q"
  "parties (fold (setParty None) ms w) = parties w" "online (fold (setParty None) ms w) = online w"
  by (induction ms arbitrary: w) (auto simp: fun_eq_iff)

lemma fold_removePartyInvitation [simp]:
  "mem_of (fold (removePartyInvitation pt) is w) = mem_of w"
  "ilist (fold (removePartyInvitation pt) is w) q =
     (if q \<in> set is then removeAll pt (ilist w q) else ilist w q)"
  "parties (fold (removePartyInvitation pt) is w) = parties w"
  "online (fold (removePartyInvitation pt) is w) = online w"
  by (induction "is" arbitrary: w) (auto simp: removePartyInvitation_def)

lemma disband_view:
  assumes "parties w pt = Some P" "onDisband env pt"
  shows "\<exists>w'. disband env pt w = Some w' \<and> parties w' = (parties w)(pt := None) \<and>
     mem_of w' = (\<lambda>q. if q = leader P \<or> q \<in> set (memberList P) then None else mem_of w q) \<and>
     (\<forall>q. ilist w' q = (if q \<in> set (inviteList P) then removeAll pt (ilist w q) else ilist w q)) \<and>
     online w' = online w"
  using assms by (auto simp: disband_def Let_def fun_eq_iff)

definition same_shape :: "party \<Rightarrow> party \<Rightarrow> bool" where
  "same_shape P Q \<longleftrightarrow> leader P = leader Q \<and> memberList P = memberList Q \<and> inviteList P = inviteList Q"

lemma updateShared_view:
  assumes "parties w pt = Some P"
  shows "\<exists>Q. updateSharedExperience env pt w = Some (put_party pt Q w) \<and> same_shape Q P"
  using assms by (auto simp: updateSharedExperience_def updated_shared_def same_shape_def Let_def)

lemma put_put [simp]: "put_party pt P (put_party pt Q w) = put_party pt P w"
  by (simp add: put_party_def)

lemma put_same: "parties w pt = Some P \<Longrightarrow> put_party pt P w = w"
  by (simp add: put_party_def fun_upd_idem)

lemma clearPoints_view:
  assumes "parties w pt = Some P"
  shows "\<exists>Q. clearPlayerPoints env pt p w = Some (put_party pt Q w) \<and> same_shape Q P"
proof (cases "ticksMap P p")
  case None
  then show ?thesis using assms put_same [OF assms]
    by (intro exI [of _ P]) (simp add: clearPlayerPoints_def same_shape_def)
next
  case (Some t)
  let ?P = "P\<lparr>ticksMap := (ticksMap P)(p := None)\<rparr>"
  obtain Q where "updateSharedExperience env pt (put_party pt ?P w) = Some (put_party pt Q (put_party pt ?P w))"
    "same_shape Q ?P"
    using updateShared_view [of "put_party pt ?P w" pt ?P env] by auto
  then show ?thesis using assms Some by (auto simp: clearPlayerPoints_def same_shape_def)
qed

section \<open>Well-formed stores\<close>

definition party_wf :: "(pid \<Rightarrow> ptid set) \<Rightarrow> party_world \<Rightarrow> bool" where
  "party_wf I w \<longleftrightarrow>
     linked (mem_of w) I (parties w) \<and>
     (\<forall>pt P. parties w pt = Some P \<longrightarrow> \<not> party_empty P) \<and>
     (\<forall>p. mem_of w p \<noteq> None \<or> I p \<noteq> {} \<longrightarrow> online w p) \<and>
     (\<forall>p. distinct (ilist w p))"

definition party_ok :: "party_world \<Rightarrow> bool" where
  "party_ok w \<longleftrightarrow> party_wf (inv_of w) w \<and> (\<forall>p pt. mem_of w p = Some pt \<longrightarrow> pt \<notin> inv_of w p)"

text \<open>Removing one invitation of \<open>p\<close>, with the list of \<open>p\<close> left to the caller.\<close>

lemma removeInvite_wf:
  assumes wf: "party_wf I w" and pt: "pt \<in> I p" and ev: "onDisband env pt"
  shows "\<exists>w' P. removeInvite env pt p False w = Some (True, w') \<and> parties w pt = Some P \<and>
     party_wf (I(p := I p - {pt})) w' \<and> ilist w' = ilist w \<and> online w' = online w \<and>
     (\<forall>qt. qt \<noteq> pt \<longrightarrow> parties w' qt = parties w qt \<and> (\<forall>q. mem_of w' q = Some qt \<longleftrightarrow> mem_of w q = Some qt)) \<and>
     (\<forall>q. mem_of w' q = None \<or> mem_of w' q = mem_of w q) \<and>
     (memberList P \<noteq> [] \<longrightarrow> mem_of w' = mem_of w \<and>
        parties w' pt = Some (P\<lparr>inviteList := remove1 p (inviteList P)\<rparr>))"
proof -
  have l: "linked (mem_of w) I (parties w)" using wf by (simp add: party_wf_def)
  obtain P where P: "parties w pt = Some P" using linked_exists(2) [OF l pt] by blast
  have pl: "party_linked (mem_of w) I pt P" using linkedD [OF l P] .
  then have p: "p \<in> set (inviteList P)" using pt by (simp add: party_linked_def)
  let ?P = "P\<lparr>inviteList := remove1 p (inviteList P)\<rparr>" and ?I = "I(p := I p - {pt})"
  let ?w = "put_party pt ?P w"
  have lw: "linked (mem_of ?w) ?I (parties ?w)" using linked_uninvite [OF l P, of p] by simp
  show ?thesis
  proof (cases "party_empty ?P")
    case False
    then have "party_wf ?I ?w" using wf lw by (auto simp: party_wf_def)
    then show ?thesis using P p False by (auto simp: removeInvite_def)
  next
    case True
    obtain w' where w': "disband env pt ?w = Some w'" "parties w' = (parties ?w)(pt := None)"
      "mem_of w' = (\<lambda>q. if q = leader P then None else mem_of w q)"
      "\<forall>q. ilist w' q = ilist w q" "online w' = online w"
      using disband_view [of ?w pt ?P env] ev True by (auto simp: party_empty_def cong: if_cong)
    have ld: "mem_of w q = Some pt \<longleftrightarrow> q = leader P" for q
      using pl True by (auto simp: party_linked_def party_empty_def)
    have "linked (mem_of w') ?I (parties w')"
      unfolding w'(2)
      using True ld linkedD [OF lw, of pt ?P]
      by (intro linked_disband [OF lw, of pt ?P])
         (auto simp: w'(3) party_empty_def party_linked_def)
    then have "party_wf ?I w'"
      using wf w'(2-5) by (auto simp: party_wf_def)
    moreover have "ilist w' = ilist w" using w'(4) by auto
    moreover have ml: "mem_of w (leader P) = Some pt" using ld by simp
    ultimately show ?thesis
      using w' P p True
      by (intro exI [of _ w'] exI [of _ P]) (auto simp: removeInvite_def party_empty_def)
  qed
qed

lemma clear_loop_wf:
  assumes "party_wf I w" "distinct pts" "set pts = I p" "\<And>pt. onDisband env pt"
  shows "\<exists>w'. clear_loop env p pts w = Some w' \<and> party_wf (I(p := {})) w' \<and>
     ilist w' = ilist w \<and> online w' = online w \<and>
     (\<forall>qt. qt \<notin> set pts \<longrightarrow> parties w' qt = parties w qt \<and> (\<forall>q. mem_of w' q = Some qt \<longleftrightarrow> mem_of w q = Some qt)) \<and>
     (\<forall>q. mem_of w' q = None \<or> mem_of w' q = mem_of w q) \<and>
     (\<forall>qt Q. parties w qt = Some Q \<longrightarrow> memberList Q \<noteq> [] \<longrightarrow>
        (\<forall>q. mem_of w q = Some qt \<longrightarrow> mem_of w' q = Some qt) \<and>
        (\<exists>Q'. parties w' qt = Some Q' \<and> leader Q' = leader Q \<and> memberList Q' = memberList Q))"
  using assms(1-3)
proof (induction pts arbitrary: I w)
  case Nil
  then have "I(p := {}) = I" by (simp add: fun_upd_idem)
  then show ?case using Nil by simp
next
  case (Cons pt pts)
  let ?I = "I(p := I p - {pt})"
  have pt: "pt \<in> I p" using Cons.prems(3) by auto
  obtain w1 P where 1: "removeInvite env pt p False w = Some (True, w1)" "parties w pt = Some P"
     "party_wf ?I w1" "ilist w1 = ilist w" "online w1 = online w"
     "\<forall>qt. qt \<noteq> pt \<longrightarrow> parties w1 qt = parties w qt \<and> (\<forall>q. mem_of w1 q = Some qt \<longleftrightarrow> mem_of w q = Some qt)"
     "\<forall>q. mem_of w1 q = None \<or> mem_of w1 q = mem_of w q"
     "memberList P \<noteq> [] \<longrightarrow> mem_of w1 = mem_of w \<and>
        parties w1 pt = Some (P\<lparr>inviteList := remove1 p (inviteList P)\<rparr>)"
    using removeInvite_wf [OF Cons.prems(1) pt assms(4)] by blast
  have "distinct pts" "set pts = ?I p" using Cons.prems(2,3) by auto
  from Cons.IH [OF 1(3) this]
  obtain w2 where 2: "clear_loop env p pts w1 = Some w2" "party_wf (?I(p := {})) w2"
     "ilist w2 = ilist w1" "online w2 = online w1"
     "\<forall>qt. qt \<notin> set pts \<longrightarrow> parties w2 qt = parties w1 qt \<and> (\<forall>q. mem_of w2 q = Some qt \<longleftrightarrow> mem_of w1 q = Some qt)"
     "\<forall>q. mem_of w2 q = None \<or> mem_of w2 q = mem_of w1 q"
     "\<forall>qt Q. parties w1 qt = Some Q \<longrightarrow> memberList Q \<noteq> [] \<longrightarrow>
        (\<forall>q. mem_of w1 q = Some qt \<longrightarrow> mem_of w2 q = Some qt) \<and>
        (\<exists>Q'. parties w2 qt = Some Q' \<and> leader Q' = leader Q \<and> memberList Q' = memberList Q)"
    by blast
  have surv: "(\<forall>q. mem_of w q = Some qt \<longrightarrow> mem_of w2 q = Some qt) \<and>
        (\<exists>Q'. parties w2 qt = Some Q' \<and> leader Q' = leader Q \<and> memberList Q' = memberList Q)"
    if Q: "parties w qt = Some Q" "memberList Q \<noteq> []" for qt Q
  proof (cases "qt = pt")
    case True
    then have "Q = P" using Q 1(2) by simp
    then have "parties w1 pt = Some (P\<lparr>inviteList := remove1 p (inviteList P)\<rparr>)" "mem_of w1 = mem_of w"
      using 1(8) Q(2) by auto
    then show ?thesis
      using 2(7) [rule_format, of pt "P\<lparr>inviteList := remove1 p (inviteList P)\<rparr>"] \<open>Q = P\<close> Q(2) True
      by simp
  next
    case False
    then show ?thesis using 1(6) 2(7) Q by auto
  qed
  show ?case
  proof (intro exI [of _ w2] conjI)
    show "party_wf (I(p := {})) w2" using 2(2) by (simp only: fun_upd_upd)
    show "clear_loop env p (pt # pts) w = Some w2" using 1(1) 2(1) by simp
    show "ilist w2 = ilist w" "online w2 = online w" using 1(4,5) 2(3,4) by simp_all
    show "\<forall>qt. qt \<notin> set (pt # pts) \<longrightarrow>
        parties w2 qt = parties w qt \<and> (\<forall>q. mem_of w2 q = Some qt \<longleftrightarrow> mem_of w q = Some qt)"
      using 1(6) 2(5) by simp
    show "\<forall>q. mem_of w2 q = None \<or> mem_of w2 q = mem_of w q"
      using 1(7) 2(6) by metis
    show "\<forall>qt Q. parties w qt = Some Q \<longrightarrow> memberList Q \<noteq> [] \<longrightarrow>
        (\<forall>q. mem_of w q = Some qt \<longrightarrow> mem_of w2 q = Some qt) \<and>
        (\<exists>Q'. parties w2 qt = Some Q' \<and> leader Q' = leader Q \<and> memberList Q' = memberList Q)"
      using surv by blast
  qed
qed

lemma clearPartyInvitations_wf:
  assumes "party_wf (inv_of w) w" "\<And>pt. onDisband env pt"
  shows "\<exists>w'. clearPartyInvitations env p w = Some w' \<and> party_wf (inv_of w') w' \<and>
     inv_of w' = (inv_of w)(p := {}) \<and> online w' = online w \<and>
     (\<forall>qt. qt \<notin> inv_of w p \<longrightarrow> parties w' qt = parties w qt \<and> (\<forall>q. mem_of w' q = Some qt \<longleftrightarrow> mem_of w q = Some qt)) \<and>
     (\<forall>q. mem_of w' q = None \<or> mem_of w' q = mem_of w q) \<and>
     (\<forall>qt Q. parties w qt = Some Q \<longrightarrow> memberList Q \<noteq> [] \<longrightarrow>
        (\<forall>q. mem_of w q = Some qt \<longrightarrow> mem_of w' q = Some qt) \<and>
        (\<exists>Q'. parties w' qt = Some Q' \<and> leader Q' = leader Q \<and> memberList Q' = memberList Q))"
proof -
  have d: "distinct (ilist w p)" "set (ilist w p) = inv_of w p"
    using assms(1) by (auto simp: party_wf_def inv_of_def)
  obtain w1 where 1: "clear_loop env p (ilist w p) w = Some w1" "party_wf ((inv_of w)(p := {})) w1"
     "ilist w1 = ilist w" "online w1 = online w"
     "\<forall>qt. qt \<notin> set (ilist w p) \<longrightarrow> parties w1 qt = parties w qt \<and> (\<forall>q. mem_of w1 q = Some qt \<longleftrightarrow> mem_of w q = Some qt)"
     "\<forall>q. mem_of w1 q = None \<or> mem_of w1 q = mem_of w q"
     "\<forall>qt Q. parties w qt = Some Q \<longrightarrow> memberList Q \<noteq> [] \<longrightarrow>
        (\<forall>q. mem_of w q = Some qt \<longrightarrow> mem_of w1 q = Some qt) \<and>
        (\<exists>Q'. parties w1 qt = Some Q' \<and> leader Q' = leader Q \<and> memberList Q' = memberList Q)"
    using clear_loop_wf [OF assms(1) d assms(2)] by blast
  have i: "inv_of (set_invites [] p w1) = (inv_of w)(p := {})"
    using 1(3) by (simp add: inv_of_def fun_eq_iff)
  have "party_wf ((inv_of w)(p := {})) (set_invites [] p w1)"
    using 1(2,3) by (auto simp: party_wf_def)
  then show ?thesis using 1 i d(2)
    by (intro exI [of _ "set_invites [] p w1"]) (simp add: clearPartyInvitations_def)
qed

section \<open>Each operation keeps the store well-formed\<close>

lemma party_okD:
  assumes "party_ok w"
  shows "party_wf (inv_of w) w" "linked (mem_of w) (inv_of w) (parties w)"
    "mem_of w p = Some pt \<Longrightarrow> pt \<notin> inv_of w p" "distinct (ilist w p)"
    "parties w pt = Some P \<Longrightarrow> \<not> party_empty P"
    "mem_of w p \<noteq> None \<or> inv_of w p \<noteq> {} \<Longrightarrow> online w p"
  using assms by (auto simp: party_ok_def party_wf_def)

text \<open>A store that differs in one party, whose shape is the same.\<close>

lemma party_ok_shape:
  assumes "party_ok w" "parties w pt = Some P" "same_shape Q P"
  shows "party_ok (put_party pt Q w)"
proof -
  have "linked (mem_of w) (inv_of w) ((parties w)(pt \<mapsto> Q))"
    using assms by (intro linked_cong [OF party_okD(2) assms(2)]) (auto simp: same_shape_def)
  then show ?thesis
    using assms party_okD(5) [OF assms(1,2)]
    by (auto simp: party_ok_def party_wf_def same_shape_def party_empty_def)
qed

lemma leave_rest_ok:
  assumes ok: "party_ok w" and P: "parties w pt = Some P" and p: "mem_of w p = Some pt"
    and ev: "onDisband env pt" and lead: "leader P = p \<longrightarrow> missing"
  shows "\<exists>w'. leave_rest env pt p missing w = Some w' \<and> party_ok w' \<and> mem_of w' p = None \<and>
     (\<forall>q. inv_of w' q \<subseteq> inv_of w q) \<and> online w' = online w"
proof -
  let ?P = "P\<lparr>memberList := remove1 p (memberList P)\<rparr>"
  let ?w = "setParty None p (put_party pt ?P w)"
  have pl: "party_linked (mem_of w) (inv_of w) pt P" using linkedD [OF party_okD(2) [OF ok] P] .
  obtain Q where Q: "updateSharedExperience env pt ?w = Some (put_party pt Q ?w)" "same_shape Q ?P"
    using updateShared_view [of ?w pt ?P env] by auto
  obtain R where R: "clearPlayerPoints env pt p (put_party pt Q ?w) = Some (put_party pt R ?w)"
    "same_shape R ?P"
    using clearPoints_view [of "put_party pt Q ?w" pt Q env p] Q(2) by (auto simp: same_shape_def)
  let ?v = "put_party pt R ?w"
  have rest: "leave_rest env pt p missing w =
      (if missing \<or> party_empty R then disband env pt ?v else Some ?v)"
    using P Q(1) R(1) by (simp add: leave_rest_def)
  show ?thesis
  proof (cases "missing \<or> party_empty R")
    case True
    obtain v where v: "disband env pt ?v = Some v" "parties v = (parties ?v)(pt := None)"
      "mem_of v = (\<lambda>q. if q = leader R \<or> q \<in> set (memberList R) then None else mem_of ?v q)"
      "\<forall>q. ilist v q = (if q \<in> set (inviteList R) then removeAll pt (ilist ?v q) else ilist ?v q)"
      "online v = online ?v"
      using disband_view [of ?v pt R env] ev by (auto cong: if_cong)
    have m: "mem_of v q = (if mem_of w q = Some pt then None else mem_of w q)" for q
      using pl R(2) p by (auto simp: v(3) same_shape_def party_linked_def)
    have i: "inv_of v q = inv_of w q - {pt}" for q
      using pl R(2) by (auto simp: inv_of_def v(4) same_shape_def party_linked_def)
    have "linked (mem_of v) (inv_of v) (parties v)"
      using linked_disband [OF party_okD(2) [OF ok] P, of "mem_of v" "inv_of v"] m i v(2) by simp
    then have "party_ok v"
      using ok v(2,4,5) m i
      by (auto simp: party_ok_def party_wf_def distinct_removeAll split: if_splits)
    then show ?thesis using True v(1,5) m [of p] p i by (auto simp: rest)
  next
    case False
    then have "p \<noteq> leader P" using lead by auto
    then have "linked (mem_of ?w) (inv_of w) (parties ?w)"
      using linked_leave [OF party_okD(2) [OF ok] P _ p] by simp
    then have "linked (mem_of ?w) (inv_of w) ((parties ?w)(pt \<mapsto> R))"
      using R(2) by (intro linked_cong [of _ _ _ _ ?P]) (auto simp: same_shape_def)
    then have "party_ok ?v"
      using ok False by (auto simp: party_ok_def party_wf_def split: if_splits)
    then show ?thesis using False rest by auto
  qed
qed

lemma passPartyLeadership_ok:
  assumes ok: "party_ok w" and P: "parties w pt = Some P"
  shows "\<exists>b w'. passPartyLeadership env pt player f w = Some (b, w') \<and> party_ok w' \<and>
     mem_of w' = mem_of w \<and> inv_of w' = inv_of w \<and> online w' = online w \<and>
     (b \<longrightarrow> (\<exists>P' p. player = Some p \<and> parties w' pt = Some P' \<and> leader P' = p \<and> leader P \<noteq> p)) \<and>
     (\<not> b \<longrightarrow> w' = w)"
proof (cases "\<exists>p. player = Some p \<and> leader P \<noteq> p \<and> mem_of w p = Some pt \<and> (onPassLeadership env pt p \<or> f)")
  case False
  then show ?thesis using ok P by (auto simp: passPartyLeadership_def split: option.splits)
next
  case True
  then obtain p where p: "player = Some p" "leader P \<noteq> p" "mem_of w p = Some pt"
    "onPassLeadership env pt p \<or> f" by blast
  let ?P = "P\<lparr>memberList := leader P # remove1 p (memberList P), leader := p\<rparr>"
  let ?w = "put_party pt ?P w"
  have "linked (mem_of ?w) (inv_of w) (parties ?w)"
    using linked_pass [OF party_okD(2) [OF ok] P _ p(3)] p(2) by simp
  then have okw: "party_ok ?w"
    using ok P by (auto simp: party_ok_def party_wf_def party_empty_def)
  obtain Q where Q: "updateSharedExperience env pt ?w = Some (put_party pt Q ?w)" "same_shape Q ?P"
    using updateShared_view [of ?w pt ?P env] by auto
  then have "party_ok (put_party pt Q ?w)" using party_ok_shape [OF okw, of pt ?P Q] by simp
  then show ?thesis using P p Q by (auto simp: passPartyLeadership_def same_shape_def)
qed

lemma leaveParty_ok:
  assumes ok: "party_ok w" and P: "parties w pt = Some P" and ev: "onDisband env pt"
  shows "\<exists>b w'. leaveParty env pt (Some p) f w = Some (b, w') \<and> party_ok w' \<and>
     (\<forall>q. inv_of w' q \<subseteq> inv_of w q) \<and> online w' = online w \<and>
     (mem_of w p = Some pt \<and> (f \<or> onLeave env pt p) \<longrightarrow> b \<and> mem_of w' p = None)"
proof (cases "mem_of w p = Some pt \<and> (f \<or> onLeave env pt p)")
  case False
  moreover have "mem_of w (leader P) = Some pt"
    using linkedD [OF party_okD(2) [OF ok] P] by (simp add: party_linked_def)
  ultimately show ?thesis using ok P by (auto simp: leaveParty_def)
next
  case True
  let ?missing = "leader P = p \<and> (memberList P = [] \<or> length (memberList P) = 1 \<and> inviteList P = [])"
  show ?thesis
  proof (cases "leader P = p \<and> \<not> ?missing")
    case False
    then show ?thesis
      using leave_rest_ok [OF ok P _ ev, of p ?missing] True P
      by (auto simp: leaveParty_def Let_def)
  next
    case lead: True
    let ?h = "hd (memberList P)"
    have h: "leader P \<noteq> ?h" "mem_of w ?h = Some pt"
      using lead linkedD [OF party_okD(2) [OF ok] P]
      by (cases "memberList P"; auto simp: party_linked_def)+
    obtain b w1 where w1: "passPartyLeadership env pt (Some ?h) True w = Some (b, w1)" "party_ok w1"
      "mem_of w1 = mem_of w" "inv_of w1 = inv_of w" "online w1 = online w"
      "b \<longrightarrow> (\<exists>P' q. Some ?h = Some q \<and> parties w1 pt = Some P' \<and> leader P' = q \<and> leader P \<noteq> q)"
      using passPartyLeadership_ok [OF ok P, of env "Some ?h" True] by metis
    have b
      using w1(1) P h by (auto simp: passPartyLeadership_def)
    then obtain P' where "parties w1 pt = Some P'" "leader P' \<noteq> p"
      using w1(6) lead by auto
    then show ?thesis
      using leave_rest_ok [OF w1(2) _ _ ev, of P' p ?missing] True lead w1 P
      by (auto simp: leaveParty_def Let_def)
  qed
qed

lemma remove_put_commute:
  "removePartyInvitation pt p (put_party pt P w) = put_party pt P (removePartyInvitation pt p w)"
  by (cases w) (simp add: removePartyInvitation_def set_invites_def put_party_def)

lemma removeInvite_pl:
  assumes "parties w pt = Some P"
  shows "removeInvite env pt p True w =
     (if p \<in> set (inviteList P) then removeInvite env pt p False (removePartyInvitation pt p w)
      else Some (False, w))"
  using assms
  by (simp add: removeInvite_def remove_put_commute Let_def)
     (simp add: removePartyInvitation_def)

lemma inv_of_remove [simp]:
  "inv_of (removePartyInvitation pt p w) = (inv_of w)(p := inv_of w p - {pt})"
  "mem_of (removePartyInvitation pt p w) = mem_of w"
  "parties (removePartyInvitation pt p w) = parties w"
  "online (removePartyInvitation pt p w) = online w"
  by (auto simp: removePartyInvitation_def inv_of_def fun_eq_iff)

lemma revoke_ok:
  assumes ok: "party_ok w" and P: "parties w pt = Some P" and ev: "onDisband env pt"
  shows "\<exists>w'. revokeInvitation env pt p w = Some w' \<and> party_ok w'"
proof (cases "onRevokeInvitation env pt p \<and> p \<in> set (inviteList P)")
  case False
  then show ?thesis using ok P by (auto simp: revokeInvitation_def removeInvite_def)
next
  case True
  let ?w = "removePartyInvitation pt p w"
  have pt: "pt \<in> inv_of w p"
    using linkedD [OF party_okD(2) [OF ok] P] True by (simp add: party_linked_def)
  have "party_wf (inv_of w) ?w"
    using party_okD(1) [OF ok]
    by (auto simp: party_wf_def removePartyInvitation_def distinct_removeAll)
  from removeInvite_wf [OF this pt ev]
  obtain w' where w': "removeInvite env pt p False ?w = Some (True, w')"
    "party_wf ((inv_of w)(p := inv_of w p - {pt})) w'" "ilist w' = ilist ?w"
    "\<forall>q. mem_of w' q = None \<or> mem_of w' q = mem_of ?w q" by blast
  have i: "inv_of w' = (inv_of w)(p := inv_of w p - {pt})"
  proof -
    have "inv_of w' = inv_of ?w" by (rule ext) (simp only: inv_of_def fun_cong [OF w'(3)])
    then show ?thesis by (simp only: inv_of_remove(1))
  qed
  have "party_ok w'"
    unfolding party_ok_def
  proof (intro conjI allI impI)
    show "party_wf (inv_of w') w'" using w'(2) by (simp add: i)
    fix q qt assume "mem_of w' q = Some qt"
    then have "qt \<notin> inv_of w q" using w'(4) party_okD(3) [OF ok] by (metis inv_of_remove(2) option.distinct(1))
    then show "qt \<notin> inv_of w' q" by (auto simp: i)
  qed
  then show ?thesis using w'(1) True P by (simp add: revokeInvitation_def removeInvite_pl)
qed

text \<open>The party may be new, and then still empty.\<close>

lemma invitePlayer_ok:
  assumes l: "linked (mem_of w) (inv_of w) (parties w)" and P: "parties w pt = Some P"
    and ne: "\<And>qt Q. qt \<noteq> pt \<Longrightarrow> parties w qt = Some Q \<Longrightarrow> \<not> party_empty Q"
    and on: "\<And>q. mem_of w q \<noteq> None \<or> inv_of w q \<noteq> {} \<Longrightarrow> online w q"
    and d: "\<And>q. distinct (ilist w q)"
    and self: "\<And>q qt. mem_of w q = Some qt \<Longrightarrow> qt \<notin> inv_of w q"
    and p: "mem_of w p = None" "online w p"
  shows "\<exists>b w'. invitePlayer pt p w = Some (b, w') \<and> party_ok w'"
proof (cases "p \<in> set (inviteList P)")
  case True
  then have "\<not> party_empty P" by (auto simp: party_empty_def)
  then have "party_ok w"
    using l P ne on d self unfolding party_ok_def party_wf_def by (metis option.inject)
  then show ?thesis using True P
    by (intro exI [of _ False] exI [of _ w]) (simp add: invitePlayer_def isPlayerInvited_def)
next
  case False
  let ?P = "P\<lparr>inviteList := inviteList P @ [p]\<rparr>"
  let ?w = "put_party pt ?P w"
  have "pt \<notin> inv_of w p"
    using linkedD [OF l P] False by (simp add: party_linked_def)
  then have add: "addPartyInvitation pt p ?w = set_invites (pt # ilist w p) p ?w" "pt \<notin> set (ilist w p)"
    by (simp_all add: addPartyInvitation_def inv_of_def)
  have i: "set (ilist w p) = inv_of w p" by (simp add: inv_of_def)
  have "linked (mem_of w) ((inv_of w)(p := insert pt (inv_of w p))) ((parties w)(pt \<mapsto> ?P))"
    using linked_invite [OF l P False] .
  moreover have "\<not> party_empty Q" if "((parties w)(pt \<mapsto> ?P)) qt = Some Q" for qt Q
    using that ne by (auto simp: party_empty_def split: if_splits)
  ultimately have "party_ok (addPartyInvitation pt p ?w)"
    using on d self p add(2) unfolding party_ok_def party_wf_def add(1) by (simp add: i)
  then show ?thesis using False P
    by (intro exI [of _ True] exI [of _ "addPartyInvitation pt p ?w"])
       (simp add: invitePlayer_def isPlayerInvited_def)
qed

lemma joinParty_ok:
  assumes ok: "party_ok w" and P: "parties w pt = Some P" and ev: "\<And>pt. onDisband env pt"
    and p: "mem_of w p = None" "online w p"
  shows "\<exists>b w'. joinParty env pt p w = Some (b, w') \<and> party_ok w' \<and>
           (b \<longrightarrow> mem_of w' p = Some pt \<and> inv_of w' p = {})"
proof (cases "onJoin env pt p")
  case False
  then show ?thesis using ok P
    by (intro exI [of _ False] exI [of _ w]) (simp add: joinParty_def)
next
  case True
  have lead: "mem_of w (leader P) = Some pt"
    using linkedD [OF party_okD(2) [OF ok] P] by (simp add: party_linked_def)
  have "\<exists>w1. (if memberList P = [] then clearPartyInvitations env (leader P) w else Some w) = Some w1 \<and>
      party_ok w1 \<and> parties w1 pt = Some P \<and> mem_of w1 p = None \<and> online w1 = online w"
  proof (cases "memberList P = []")
    case True
    have notin: "pt \<notin> inv_of w (leader P)" using party_okD(3) [OF ok lead] .
    obtain w1 where w1: "clearPartyInvitations env (leader P) w = Some w1" "party_wf (inv_of w1) w1"
      "inv_of w1 = (inv_of w)(leader P := {})" "online w1 = online w"
      "\<forall>qt. qt \<notin> inv_of w (leader P) \<longrightarrow> parties w1 qt = parties w qt"
      "\<forall>q. mem_of w1 q = None \<or> mem_of w1 q = mem_of w q"
      using clearPartyInvitations_wf [OF party_okD(1) [OF ok] ev, of "leader P"] by blast
    have "qt \<notin> inv_of w1 q" if "mem_of w1 q = Some qt" for q qt
      using that w1(3,6) party_okD(3) [OF ok, of q qt] by (metis empty_iff fun_upd_apply option.distinct(1))
    then have "party_ok w1" using w1(2) by (simp add: party_ok_def)
    moreover have "mem_of w1 p = None" using w1(6) p(1) by metis
    ultimately show ?thesis using True w1 P notin by auto
  qed (use ok P p in auto)
  then obtain w1 where w1: "(if memberList P = [] then clearPartyInvitations env (leader P) w else Some w) = Some w1"
    "party_ok w1" "parties w1 pt = Some P" "mem_of w1 p = None" "online w1 = online w" by blast
  let ?P = "P\<lparr>memberList := memberList P @ [p]\<rparr>"
  let ?w = "setParty (Some pt) p (put_party pt ?P w1)"
  have "linked (mem_of ?w) (inv_of ?w) (parties ?w)"
    using linked_join [OF party_okD(2) [OF w1(2)] w1(3,4)] by simp
  then have wf: "party_wf (inv_of ?w) ?w"
    using w1 p(2) by (auto simp: party_ok_def party_wf_def party_empty_def)
  obtain w2 where w2: "clearPartyInvitations env p ?w = Some w2" "party_wf (inv_of w2) w2"
    "inv_of w2 = (inv_of ?w)(p := {})" "\<forall>q. mem_of w2 q = None \<or> mem_of w2 q = mem_of ?w q"
    "\<forall>qt Q. parties ?w qt = Some Q \<longrightarrow> memberList Q \<noteq> [] \<longrightarrow>
        (\<forall>q. mem_of ?w q = Some qt \<longrightarrow> mem_of w2 q = Some qt) \<and>
        (\<exists>Q'. parties w2 qt = Some Q' \<and> leader Q' = leader Q \<and> memberList Q' = memberList Q)"
    using clearPartyInvitations_wf [OF wf ev, of p] by blast
  obtain Q where Q: "parties w2 pt = Some Q" "mem_of w2 p = Some pt"
    using w2(5) [rule_format, of pt ?P] by auto
  have "qt \<notin> inv_of w2 q" if "mem_of w2 q = Some qt" for q qt
  proof (cases "q = p")
    case False
    then have "mem_of w1 q = Some qt" using that w2(4) by (metis fun_upd_other option.distinct(1) store_simps(1,9))
    then show ?thesis using False party_okD(3) [OF w1(2), of q qt] by (simp add: w2(3))
  qed (simp add: w2(3))
  then have ok2: "party_ok w2" using w2(2) by (simp add: party_ok_def)
  obtain R where R: "updateSharedExperience env pt w2 = Some (put_party pt R w2)" "same_shape R Q"
    using updateShared_view [OF Q(1)] by blast
  have "joinParty env pt p w = Some (True, put_party pt R w2)"
    using P True w1(1,3) w2(1) R(1) by (simp add: joinParty_def split: if_splits)
  then show ?thesis using party_ok_shape [OF ok2 Q(1) R(2)] Q(2)
    by (intro exI [of _ True] exI [of _ "put_party pt R w2"]) (simp add: w2(3))
qed

lemma setSharedExperience_ok:
  assumes ok: "party_ok w" and P: "parties w pt = Some P"
  shows "\<exists>b w'. setSharedExperience env pt player a w = Some (b, w') \<and> party_ok w'"
  using party_ok_shape [OF ok P] ok P
  by (cases "player = None \<or> player \<noteq> Some (leader P)"; cases "sharedExpActive P = a")
     (auto simp: setSharedExperience_def same_shape_def Let_def)

lemma updatePlayerTicks_ok:
  assumes ok: "party_ok w" and P: "parties w pt = Some P"
  shows "\<exists>w'. updatePlayerTicks env pt p n w = Some w' \<and> party_ok w'"
proof (cases "n \<noteq> 0 \<and> \<not> notGainInFight (pl w p)")
  case True
  let ?P = "P\<lparr>ticksMap := (ticksMap P)(p \<mapsto> now env)\<rparr>"
  obtain Q where "updateSharedExperience env pt (put_party pt ?P w) = Some (put_party pt Q (put_party pt ?P w))"
    "same_shape Q ?P"
    using updateShared_view [of "put_party pt ?P w" pt ?P env] by auto
  then show ?thesis
    using True P party_ok_shape [OF ok P, of Q] by (simp add: updatePlayerTicks_def same_shape_def)
qed (use ok P in \<open>auto simp: updatePlayerTicks_def\<close>)

section \<open>Runs\<close>

text \<open>The requests of players, the removal of a player, and the experience that members gain, in
  any order, each with its own environment: the clock and what the Lua events answer.\<close>

datatype party_request =
    Invite ptid pid pid
  | Join pid pid
  | Revoke pid pid
  | Pass pid pid
  | Leave bool pid
  | EnableShared bool bool pid bool
  | Removed pid
  | Ticks pid u32
  | Login pid

fun handle_request :: "party_env \<Rightarrow> party_request \<Rightarrow> party_world \<Rightarrow> party_world option" where
  "handle_request env (Invite fresh p q) w = playerInviteToParty env fresh p q w"
| "handle_request env (Join p l) w = playerJoinParty env p l w"
| "handle_request env (Revoke p q) w = playerRevokePartyInvitation env p q w"
| "handle_request env (Pass p q) w = playerPassPartyLeadership env p q w"
| "handle_request env (Leave infight p) w = playerLeaveParty env infight p w"
| "handle_request env (EnableShared infight zone p a) w =
     playerEnableSharedPartyExperience env infight zone p a w"
| "handle_request env (Removed p) w = player_removed env p w"
| "handle_request env (Ticks p n) w =
     (case p_party (pl w p) of None \<Rightarrow> Some w | Some pt \<Rightarrow> updatePlayerTicks env pt p n w)"
| "handle_request env (Login p) w = Some (w\<lparr>online := (online w)(p := True)\<rparr>)"

fun fresh_for :: "party_request \<Rightarrow> party_world \<Rightarrow> bool" where
  "fresh_for (Invite fresh p q) w = (parties w fresh = None)"
| "fresh_for r w = True"

lemma online_ok: "party_ok w \<Longrightarrow> party_ok (w\<lparr>online := (online w)(p := True)\<rparr>)"
  by (auto simp: party_ok_def party_wf_def)

lemma offline_ok:
  "party_ok w \<Longrightarrow> mem_of w p = None \<Longrightarrow> inv_of w p = {} \<Longrightarrow>
     party_ok (w\<lparr>online := (online w)(p := False)\<rparr>)"
  by (auto simp: party_ok_def party_wf_def)

lemma with_led_party_ok:
  assumes "party_ok w"
    and "\<And>pt P. mem_of w p = Some pt \<Longrightarrow> parties w pt = Some P \<Longrightarrow> \<exists>w'. f pt = Some w' \<and> party_ok w'"
  shows "\<exists>w'. with_led_party p w f = Some w' \<and> party_ok w'"
  using assms linked_exists(1) [OF party_okD(2) [OF assms(1)], of p]
  by (auto simp: with_led_party_def split: option.splits)

lemma isInviting_ok:
  assumes "party_ok w"
  obtains b where "isInviting w p q = Some b"
    "b \<longrightarrow> (\<exists>pt P. mem_of w p = Some pt \<and> parties w pt = Some P \<and> leader P = p)"
  using linked_exists(1) [OF party_okD(2) [OF assms], of p] that
  by (cases "mem_of w p") (auto simp: isInviting_def)

lemma playerInviteToParty_ok:
  assumes ok: "party_ok w" and fresh: "parties w fresh = None"
  shows "\<exists>w'. playerInviteToParty env fresh p q w = Some w' \<and> party_ok w'"
proof -
  obtain b where b: "isInviting w q p = Some b" using isInviting_ok [OF ok, of q p] .
  show ?thesis
  proof (cases "p = q \<or> \<not> online w p \<or> \<not> online w q \<or> mem_of w q \<noteq> None \<or> b")
    case True
    then show ?thesis using ok b by (auto simp: playerInviteToParty_def)
  next
    case False
    show ?thesis
    proof (cases "mem_of w p")
    case None
    let ?P = "\<lparr>leader = p, memberList = [], inviteList = [], ticksMap = Map.empty,
          sharedExpActive = False, sharedExpEnabled = False\<rparr>"
    let ?w = "new_party fresh p w"
    have w: "parties ?w = (parties w)(fresh \<mapsto> ?P)" "mem_of ?w = (mem_of w)(p \<mapsto> fresh)"
      "inv_of ?w = inv_of w" "online ?w = online w" "\<And>r. ilist ?w r = ilist w r"
      by (simp_all add: new_party_def)
    have undo: "delete_party fresh (setParty None p ?w) = w"
      using None fresh
      by (cases w) (simp add: new_party_def delete_party_def setParty_def put_party_def mem_of_def
          fun_upd_idem)
    have "\<exists>b w'. invitePlayer fresh q ?w = Some (b, w') \<and> party_ok w'"
    proof (rule invitePlayer_ok [of _ _ ?P])
      show "linked (mem_of ?w) (inv_of ?w) (parties ?w)"
        unfolding w using linked_new [OF party_okD(2) [OF ok] fresh None, of ?P] by simp
      have nofresh: "fresh \<notin> inv_of w r" for r
        using linked_exists(2) [OF party_okD(2) [OF ok], of fresh r] fresh by auto
      show "qt \<notin> inv_of ?w r" if "mem_of ?w r = Some qt" for r qt
        using that nofresh party_okD(3) [OF ok, of r qt] by (auto simp: w split: if_splits)
    qed (use False ok party_okD [OF ok] in \<open>auto simp: w split: if_splits\<close>)
    then show ?thesis
      using False None b ok w(1) undo by (auto simp: playerInviteToParty_def party_empty_def)
  next
    case (Some pt)
    obtain P where P: "parties w pt = Some P"
      using linked_exists(1) [OF party_okD(2) [OF ok] Some] by blast
    have "\<exists>b w'. invitePlayer pt q w = Some (b, w') \<and> party_ok w'"
      using False party_okD [OF ok] by (intro invitePlayer_ok [OF _ P]) auto
    then show ?thesis
      using False Some b ok P party_okD(5) [OF ok P] by (auto simp: playerInviteToParty_def)
    qed
  qed
qed

lemma player_removed_ok:
  assumes ok: "party_ok w" and ev: "\<And>pt. onDisband env pt"
  shows "\<exists>w'. player_removed env p w = Some w' \<and> party_ok w' \<and>
           mem_of w' p = None \<and> inv_of w' p = {}"
proof -
  obtain w1 where w1: "clearPartyInvitations env p w = Some w1" "party_wf (inv_of w1) w1"
    "inv_of w1 = (inv_of w)(p := {})" "\<forall>q. mem_of w1 q = None \<or> mem_of w1 q = mem_of w q"
    using clearPartyInvitations_wf [OF party_okD(1) [OF ok] ev, of p] by blast
  have "qt \<notin> inv_of w1 q" if "mem_of w1 q = Some qt" for q qt
    using that w1(3,4) party_okD(3) [OF ok, of q qt] by (metis empty_iff fun_upd_apply option.distinct(1))
  then have ok1: "party_ok w1" using w1(2) by (simp add: party_ok_def)
  show ?thesis
  proof (cases "mem_of w1 p")
    case None
    then show ?thesis
      using w1(1,3) offline_ok [OF ok1 None] by (simp add: player_removed_def)
  next
    case (Some pt)
    then obtain P where "parties w1 pt = Some P"
      using linked_exists(1) [OF party_okD(2) [OF ok1]] by blast
    from leaveParty_ok [where f = True, OF ok1 this ev]
    obtain b w2 where w2: "leaveParty env pt (Some p) True w1 = Some (b, w2)" "party_ok w2"
      "\<forall>q. inv_of w2 q \<subseteq> inv_of w1 q" "mem_of w2 p = None"
      using Some by metis
    have "inv_of w2 p = {}" using w2(3) w1(3) by (metis fun_upd_same subset_empty)
    then show ?thesis
      using w1(1) w2 Some offline_ok [OF w2(2,4)] by (simp add: player_removed_def)
  qed
qed

lemma handle_request_ok:
  assumes ok: "party_ok w" and ev: "\<And>pt. onDisband env pt" and fresh: "fresh_for r w"
  shows "\<exists>w'. handle_request env r w = Some w' \<and> party_ok w'"
proof (cases r)
  case (Invite fresh p q)
  then show ?thesis using playerInviteToParty_ok [OF ok] fresh by simp
next
  case (Join p l)
  obtain b where b: "isInviting w l p = Some b"
    "b \<longrightarrow> (\<exists>pt P. mem_of w l = Some pt \<and> parties w pt = Some P \<and> leader P = l)"
    using isInviting_ok [OF ok, of l p] .
  show ?thesis
  proof (cases "online w p \<and> online w l \<and> b \<and> mem_of w p = None")
    case True
    then obtain pt P where P: "mem_of w l = Some pt" "parties w pt = Some P" "leader P = l"
      using b(2) by blast
    obtain c w' where "joinParty env pt p w = Some (c, w')" "party_ok w'"
      using joinParty_ok [where env = env, OF ok P(2) ev, of p] True by metis
    then show ?thesis using Join True b(1) P by (simp add: playerJoinParty_def)
  next
    case False
    then have "playerJoinParty env p l w = Some w"
      using b by (auto simp: playerJoinParty_def)
    then show ?thesis using Join ok by simp
  qed
next
  case (Revoke p q)
  obtain b where b: "isInviting w p q = Some b" using isInviting_ok [OF ok, of p q] .
  have "\<exists>w'. (if \<not> online w q then Some w else Option.bind (isInviting w p q)
          (\<lambda>inviting. if \<not> inviting then Some w else revokeInvitation env pt q w)) = Some w' \<and> party_ok w'"
    if "parties w pt = Some P" for pt P
    using revoke_ok [OF ok that ev, of q] ok by (auto simp: b)
  then show ?thesis
    using Revoke with_led_party_ok [OF ok, of p] ok by (simp add: playerRevokePartyInvitation_def)
next
  case (Pass p q)
  have "\<exists>w'. (if \<not> online w q \<or> \<not> isPartner w p q then Some w
       else map_option snd (passPartyLeadership env pt (Some q) False w)) = Some w' \<and> party_ok w'"
    if "parties w pt = Some P" for pt P
    using passPartyLeadership_ok [OF ok that, of env "Some q" False] ok by auto
  then show ?thesis
    using Pass with_led_party_ok [OF ok, of p] ok by (simp add: playerPassPartyLeadership_def)
next
  case (Leave infight p)
  have "\<exists>w'. map_option snd (leaveParty env pt (Some p) False w) = Some w' \<and> party_ok w'"
    if "mem_of w p = Some pt" for pt
    using linked_exists(1) [OF party_okD(2) [OF ok] that] leaveParty_ok [OF ok _ ev, of pt _ p False]
    by fastforce
  then show ?thesis using Leave ok by (auto simp: playerLeaveParty_def split: option.splits)
next
  case (EnableShared infight zone p a)
  have "\<exists>w'. map_option snd (setSharedExperience env pt (Some p) a w) = Some w' \<and> party_ok w'"
    if "mem_of w p = Some pt" for pt
    using linked_exists(1) [OF party_okD(2) [OF ok] that] setSharedExperience_ok [OF ok, of pt _ env "Some p" a]
    by fastforce
  then show ?thesis
    using EnableShared ok by (auto simp: playerEnableSharedPartyExperience_def split: option.splits)
next
  case (Removed p)
  then show ?thesis using player_removed_ok [OF ok ev, of p] by auto
next
  case (Ticks p n)
  have "\<exists>w'. updatePlayerTicks env pt p n w = Some w' \<and> party_ok w'" if "mem_of w p = Some pt" for pt
    using linked_exists(1) [OF party_okD(2) [OF ok] that] updatePlayerTicks_ok [OF ok] by blast
  then show ?thesis using Ticks ok by (auto split: option.splits)
next
  case (Login p)
  then show ?thesis using online_ok [OF ok] by simp
qed

inductive party_reach :: "party_world \<Rightarrow> bool" where
  start: "parties w = Map.empty \<Longrightarrow> (\<And>p. p_party (pl w p) = None) \<Longrightarrow>
     (\<And>p. invitePartyList (pl w p) = []) \<Longrightarrow> party_reach w"
| request: "party_reach w \<Longrightarrow> (\<And>pt. onDisband env pt) \<Longrightarrow> fresh_for r w \<Longrightarrow>
     handle_request env r w = Some w' \<Longrightarrow> party_reach w'"

lemma party_reach_ok: "party_reach w \<Longrightarrow> party_ok w"
proof (induction rule: party_reach.induct)
  case (start w)
  then show ?case
    by (simp add: party_ok_def party_wf_def linked_def inv_of_def)
next
  case (request w env r w')
  from handle_request_ok [OF request.IH request.hyps(2,3)] request.hyps(4) show ?case by simp
qed

section \<open>Shared experience\<close>

lemma fold_max_le:
  "fold (\<lambda>m h. if f m > h then f m else h) ms (h :: nat) \<le> k \<longleftrightarrow> h \<le> k \<and> (\<forall>m\<in>set ms. f m \<le> k)"
  by (induction ms arbitrary: h) auto

lemma highest_level_le:
  "2 * highest_level w P \<le> 3 * k \<longleftrightarrow>
     (\<forall>m\<in>set (leader P # memberList P). 2 * p_level (pl w m) \<le> 3 * k)"
proof -
  have half: "2 * a \<le> 3 * k \<longleftrightarrow> a \<le> (3 * k) div 2" for a :: nat by auto
  show ?thesis unfolding half highest_level_def fold_max_le by simp
qed

text \<open>The floats are exact for levels below 2 ^ 22.\<close>

lemma min_share_level_exact:
  assumes "k < 2 ^ 22"
  shows "min_share_level k = (k * 2 + 2) div 3"
proof -
  have k: "int k < 2 ^ 22" using assms by simp
  have "fl32 (of_nat k) = of_int (int k)" using fl32_of_int [of "int k"] k by simp
  then have two: "fl32 (of_nat k) * 2 = of_int (2 * int k)" by simp
  have "fl32 (of_int (2 * int k)) = of_int (2 * int k)" using k by (intro fl32_of_int) simp
  then have "min_share_level k = nat \<lceil>fl32 (of_int (2 * int k) / 3)\<rceil>" unfolding min_share_level_def two by simp
  also have "\<dots> = nat ((2 * int k + 2) div 3)" using k by (subst ceiling_third) simp_all
  also have "\<dots> = (k * 2 + 2) div 3" by linarith
  finally show ?thesis .
qed

text \<open>The levels of a party are such.\<close>

definition small_levels :: "party_world \<Rightarrow> party \<Rightarrow> bool" where
  "small_levels w P \<longleftrightarrow> (\<forall>m \<in> set (leader P # memberList P). p_level (pl w m) < 2 ^ 22)"

lemma highest_level_small: "small_levels w P \<Longrightarrow> highest_level w P < 2 ^ 22"
proof -
  have lt: "a < 2 ^ 22 \<longleftrightarrow> a \<le> 2 ^ 22 - 1" for a :: nat by auto
  show "small_levels w P \<Longrightarrow> highest_level w P < 2 ^ 22"
    unfolding small_levels_def highest_level_def lt fold_max_le by simp
qed

lemma first_status_OK:
  "first_status env w P ms = SHAREDEXP_OK \<longleftrightarrow>
     (\<forall>m\<in>set ms. getMemberSharedExperienceStatus env w P m = SHAREDEXP_OK)"
  by (induction ms) (auto simp: Let_def)

definition recently_active :: "party_env \<Rightarrow> party_world \<Rightarrow> party \<Rightarrow> pid \<Rightarrow> bool" where
  "recently_active env w P p \<longleftrightarrow>
     notGainInFight (pl w p) \<or> (\<exists>t. ticksMap P p = Some t \<and> now env - t \<le> pz_locked env)"

lemma member_status_OK:
  assumes "small_levels w P"
  shows "getMemberSharedExperienceStatus env w P p = SHAREDEXP_OK \<longleftrightarrow>
     memberList P \<noteq> [] \<and> 2 * highest_level w P \<le> 3 * p_level (pl w p) \<and>
     isInRange (p_position (pl w (leader P))) (p_position (pl w p)) 30 30 1 \<and> recently_active env w P p"
  using min_share_level_exact [OF highest_level_small [OF assms]]
  by (auto simp: getMemberSharedExperienceStatus_def recently_active_def
      EXPERIENCE_SHARE_RANGE_def EXPERIENCE_SHARE_FLOORS_def not_less
      split: if_splits option.splits)


section \<open>Properties\<close>

text \<open>C15: Whatever players request, in any order and interleaved with logins, logouts and gains
  of experience, players and parties agree with each other: a player's party is one that exists
  and has him as its leader or member, and he is in no other; the parties that invite him are
  exactly those with him on their list; no party is left without members and invitees; everyone
  in or invited to a party is online; and no request ever uses a party that was deleted. The Lua
  event \<open>onDisband\<close> is assumed to return true, as the default script does.\<close>

theorem parties_stay_linked:
  assumes "party_reach w" and "\<And>pt. onDisband env pt" and "fresh_for r w"
  shows "handle_request env r w \<noteq> None \<and>
     (\<forall>p pt. p_party (pl w p) = Some pt \<longleftrightarrow>
        (\<exists>P. parties w pt = Some P \<and> p \<in> set (leader P # memberList P))) \<and>
     (\<forall>p pt. pt \<in> set (invitePartyList (pl w p)) \<longleftrightarrow>
        (\<exists>P. parties w pt = Some P \<and> p \<in> set (inviteList P))) \<and>
     (\<forall>pt P. parties w pt = Some P \<longrightarrow> \<not> party_empty P \<and> distinct (leader P # memberList P)) \<and>
     (\<forall>p. p_party (pl w p) \<noteq> None \<or> invitePartyList (pl w p) \<noteq> [] \<longrightarrow> online w p)"
proof -
  note ok = party_reach_ok [OF assms(1)]
  note l = party_okD(2) [OF ok]
  have mem: "mem_of w p = Some pt \<longleftrightarrow> (\<exists>P. parties w pt = Some P \<and> p \<in> set (leader P # memberList P))"
    for p pt
    using linkedD [OF l, of pt] linked_exists(1) [OF l, of p pt] by (auto simp: party_linked_def)
  have inv: "pt \<in> inv_of w p \<longleftrightarrow> (\<exists>P. parties w pt = Some P \<and> p \<in> set (inviteList P))" for p pt
    using linkedD [OF l, of pt] linked_exists(2) [OF l, of pt p] by (auto simp: party_linked_def)
  have "\<not> party_empty P \<and> distinct (leader P # memberList P)" if "parties w pt = Some P" for pt P
    using party_okD(5) [OF ok that] linkedD [OF l that] by (simp add: party_linked_def)
  moreover have "handle_request env r w \<noteq> None"
    using handle_request_ok [OF ok assms(2,3)] by auto
  moreover have "online w p" if "mem_of w p \<noteq> None \<or> inv_of w p \<noteq> {}" for p
    using party_okD(6) [OF ok that] .
  ultimately show ?thesis
    using mem inv unfolding mem_of_p_party inv_of_def by blast
qed

text \<open>C16: While the levels of a party are below 4,194,304, it shares experience exactly when it has members
  and everybody in it, the leader included, has at least two thirds of everybody's level, is within 30
  squares and one floor of the leader, and was active lately or cannot gain experience.\<close>

theorem shared_experience_iff:
  assumes "small_levels w P"
  shows "getSharedExperienceStatus env w P = SHAREDEXP_OK \<longleftrightarrow>
     memberList P \<noteq> [] \<and>
     (\<forall>p\<in>set (leader P # memberList P).
        (\<forall>m\<in>set (leader P # memberList P). 2 * p_level (pl w m) \<le> 3 * p_level (pl w p)) \<and>
        isInRange (p_position (pl w (leader P))) (p_position (pl w p)) 30 30 1 \<and>
        recently_active env w P p)"
  by (auto simp: getSharedExperienceStatus_def Let_def first_status_OK member_status_OK [OF assms]
      highest_level_le)

section \<open>Witnesses\<close>

definition sample_world :: party_world where
  "sample_world =
     \<lparr>pl = (\<lambda>p. \<lparr>p_party = None, invitePartyList = [], p_level = 10 + p,
                 p_position = \<lparr>px = 100 + of_nat p, py = 100, pz = 7\<rparr>, notGainInFight = False\<rparr>),
      parties = Map.empty, online = (\<lambda>p. True)\<rparr>"

definition sample_env :: party_env where
  "sample_env =
     \<lparr>now = 5000, pz_locked = 60000, onJoin = (\<lambda>_ _. True), onLeave = (\<lambda>_ _. True),
      onDisband = (\<lambda>_. True), onInvite = (\<lambda>_ _. True), onRevokeInvitation = (\<lambda>_ _. True),
      onPassLeadership = (\<lambda>_ _. True)\<rparr>"

definition sample_invited :: party_world where
  "sample_invited = the (handle_request sample_env (Invite 0 1 2) sample_world)"

lemma sample_invite: "handle_request sample_env (Invite 0 1 2) sample_world = Some sample_invited"
  by (simp add: sample_invited_def playerInviteToParty_def isInviting_def mem_of_def sample_world_def
      new_party_def setParty_def put_party_def sample_env_def invitePlayer_def isPlayerInvited_def
      del: mem_of_p_party)

lemma parties_stay_linked_witness:
  "handle_request sample_env (Join 2 1) sample_invited \<noteq> None \<and>
   (\<forall>p pt. p_party (pl sample_invited p) = Some pt \<longleftrightarrow>
      (\<exists>P. parties sample_invited pt = Some P \<and> p \<in> set (leader P # memberList P)))"
proof -
  have ev: "onDisband sample_env pt" for pt by (simp add: sample_env_def)
  have "party_reach sample_world"
    by (rule party_reach.start) (simp_all add: sample_world_def del: mem_of_p_party)
  from party_reach.request [OF this ev _ sample_invite]
  have "party_reach sample_invited" by (simp add: sample_world_def)
  from parties_stay_linked [OF this ev, of "Join 2 1"] show ?thesis by simp
qed

lemma shared_experience_iff_witness:
  "getSharedExperienceStatus sample_env sample_world
     \<lparr>leader = 1, memberList = [2], inviteList = [], ticksMap = [1 \<mapsto> 4000, 2 \<mapsto> 5000],
      sharedExpActive = True, sharedExpEnabled = False\<rparr> = SHAREDEXP_OK"
  by (subst shared_experience_iff, simp add: small_levels_def sample_world_def) (simp add: sample_world_def sample_env_def isInRange_def getDistanceX_def getDistanceY_def
      getDistanceZ_def getOffsetX_def getOffsetY_def getOffsetZ_def recently_active_def)

text \<open>When the event \<open>onDisband\<close> returns false, the leader who leaves a party of two is without
  a party, and yet the party goes on existing with him as its leader.\<close>

lemma vetoed_disband:
  "let env = sample_env\<lparr>onDisband := (\<lambda>_. False)\<rparr>;
       w = new_party 0 1 sample_world;
       P = \<lparr>leader = 1, memberList = [2], inviteList = [], ticksMap = Map.empty,
            sharedExpActive = False, sharedExpEnabled = False\<rparr>;
       w = setParty (Some 0) 2 (put_party 0 P w)
   in \<exists>w'. leaveParty env 0 (Some 1) False w = Some (True, w') \<and>
           p_party (pl w' 1) = None \<and> map_option leader (parties w' 0) = Some 1"
  by (simp add: leaveParty_def leave_rest_def updateSharedExperience_def updated_shared_def
      clearPlayerPoints_def disband_def sample_env_def new_party_def Let_def)

end
