(* ===== verification/Prop_Stream.thy ===== *)
theory Prop_Stream
  imports Prelude
begin

text \<open>
  The property streams of \<open>src/fileloader.h\<close>: \<open>PropStream\<close>, which reads values from a byte
  buffer and refuses where too few bytes are left, and \<open>PropWriteStream\<close>, which appends them.
  A read is a function on the bytes that are left; a failed read leaves them as they are. A
  write is the list of bytes appended.
\<close>

type_synonym 'a reader = "u8 list \<Rightarrow> ('a \<times> u8 list) option"

definition read_bytes :: "nat \<Rightarrow> u8 list reader" where
  "read_bytes n bs = (if length bs < n then None else Some (take n bs, drop n bs))"

definition read_u8 :: "u8 reader" where
  "read_u8 bs = map_option (apfst hd) (read_bytes 1 bs)"

definition read_u16 :: "u16 reader" where
  "read_u16 bs = map_option (apfst of_le16) (read_bytes 2 bs)"

definition read_u32 :: "u32 reader" where
  "read_u32 bs = map_option (apfst of_le32) (read_bytes 4 bs)"

definition read_s32 :: "int reader" where
  "read_s32 bs = map_option (apfst sint) (read_u32 bs)"

definition readString :: "u8 list reader" where
  "readString bs =
     (case read_u16 bs of
        None \<Rightarrow> None
      | Some (strLen, bs) \<Rightarrow> read_bytes (unat strLen) bs)"

definition skip :: "nat \<Rightarrow> unit reader" where
  "skip n bs = map_option (apfst (\<lambda>_. ())) (read_bytes n bs)"

definition write_s32 :: "int \<Rightarrow> u8 list" where
  "write_s32 i = le32 (word_of_int i)"

definition writeString :: "u8 list \<Rightarrow> u8 list" where
  "writeString str =
     (let strLength = length str
      in if strLength > 65535 then le16 0 else le16 (of_nat strLength) @ str)"

section \<open>Reading what was written\<close>

lemma read_bytes_append [simp]: "length bs = n \<Longrightarrow> read_bytes n (bs @ cs) = Some (bs, cs)"
  by (simp add: read_bytes_def)

context byte_codec
begin

lemma read_enc: "map_option (apfst dec) (read_bytes width (enc v @ bs)) = Some (v, bs)"
  by simp

lemma read_short: "length bs < width \<Longrightarrow> map_option (apfst dec) (read_bytes width bs) = None"
  by (simp add: read_bytes_def)

end

lemma read_u8_Cons [simp]: "read_u8 (b # bs) = Some (b, bs)"
  using u8_codec.read_enc [of b bs] by (simp add: read_u8_def)

lemma read_u8_Nil [simp]: "read_u8 [] = None"
  by (simp add: read_u8_def read_bytes_def)

lemma read_u16_append [simp]: "read_u16 (le16 w @ bs) = Some (w, bs)"
  using u16_codec.read_enc [of w bs] by (simp add: read_u16_def)

lemma read_u32_append [simp]: "read_u32 (le32 w @ bs) = Some (w, bs)"
  using u32_codec.read_enc [of w bs] by (simp add: read_u32_def)

definition int32 :: "int \<Rightarrow> bool" where
  "int32 i \<longleftrightarrow> - (2 ^ 31) \<le> i \<and> i < 2 ^ 31"

lemma sint_word_of_int32: "int32 i \<Longrightarrow> sint (word_of_int i :: u32) = i"
  by (simp add: int32_def sint_sbintrunc' signed_take_bit_int_eq_self)

lemma read_s32_append [simp]: "read_s32 (write_s32 i @ bs) = Some (sint (word_of_int i :: u32), bs)"
  by (simp add: read_s32_def write_s32_def)

lemma length_write_s32 [simp]: "length (write_s32 i) = 4"
  by (simp add: write_s32_def)

text \<open>A read never invents bytes.\<close>

lemma read_bytes_Some: "read_bytes n bs = Some (x, cs) \<Longrightarrow> bs = x @ cs \<and> length x = n"
  by (auto simp: read_bytes_def split: if_splits)

lemma read_length:
  "read_u8 bs = Some (b, cs) \<Longrightarrow> length bs = length cs + 1"
  "read_u16 bs = Some (w, cs) \<Longrightarrow> length bs = length cs + 2"
  "read_u32 bs = Some (v, cs) \<Longrightarrow> length bs = length cs + 4"
  "read_s32 bs = Some (i, cs) \<Longrightarrow> length bs = length cs + 4"
  by (auto simp: read_u8_def read_u16_def read_u32_def read_s32_def dest!: read_bytes_Some)

section \<open>Strings\<close>

text \<open>A string is read back as it was written, whatever follows it in the stream, as long as
  its length fits 16 bits; a longer one is written as the empty string, and the stream stays
  readable.\<close>

lemma string_round_trip:
  "readString (writeString str @ bs) = Some (if length str \<le> 65535 then str else [], bs)"
proof (cases "length str \<le> 65535")
  case True
  then have "unat (of_nat (length str) :: u16) = length str" by (simp add: unat_of_nat)
  then show ?thesis using True by (simp add: readString_def writeString_def Let_def)
next
  case False
  then show ?thesis by (simp add: readString_def writeString_def read_bytes_def)
qed

end
