(* ===== verification/Conditions.thy ===== *)
theory Conditions
  imports Prop_Stream "HOL-Library.Signed_Division"
begin

text \<open>
  Conditions: \<open>src/condition.{h,cpp}\<close>, their data, parameters, and their form in the
  database (\<open>src/iologindata.cpp\<close> writes the persistent ones of a player one after the other and
  reads them back). The class hierarchy is the record of the base class with a datatype for the
  data of each subclass; a virtual call is a case distinction on it. Enumeration values that are
  written to the stream keep their numbers. Floats are their 32 bits; the time is in milliseconds.
\<close>

section \<open>Enumerations\<close>

abbreviation (input) CONDITION_POISON :: u32 where "CONDITION_POISON \<equiv> 1"
abbreviation (input) CONDITION_FIRE :: u32 where "CONDITION_FIRE \<equiv> 2"
abbreviation (input) CONDITION_ENERGY :: u32 where "CONDITION_ENERGY \<equiv> 4"
abbreviation (input) CONDITION_BLEEDING :: u32 where "CONDITION_BLEEDING \<equiv> 8"
abbreviation (input) CONDITION_HASTE :: u32 where "CONDITION_HASTE \<equiv> 16"
abbreviation (input) CONDITION_PARALYZE :: u32 where "CONDITION_PARALYZE \<equiv> 32"
abbreviation (input) CONDITION_OUTFIT :: u32 where "CONDITION_OUTFIT \<equiv> 64"
abbreviation (input) CONDITION_INVISIBLE :: u32 where "CONDITION_INVISIBLE \<equiv> 128"
abbreviation (input) CONDITION_LIGHT :: u32 where "CONDITION_LIGHT \<equiv> 256"
abbreviation (input) CONDITION_MANASHIELD :: u32 where "CONDITION_MANASHIELD \<equiv> 512"
abbreviation (input) CONDITION_INFIGHT :: u32 where "CONDITION_INFIGHT \<equiv> 1024"
abbreviation (input) CONDITION_DRUNK :: u32 where "CONDITION_DRUNK \<equiv> 2048"
abbreviation (input) CONDITION_EXHAUST_WEAPON :: u32 where "CONDITION_EXHAUST_WEAPON \<equiv> 4096"
abbreviation (input) CONDITION_REGENERATION :: u32 where "CONDITION_REGENERATION \<equiv> 8192"
abbreviation (input) CONDITION_SOUL :: u32 where "CONDITION_SOUL \<equiv> 16384"
abbreviation (input) CONDITION_DROWN :: u32 where "CONDITION_DROWN \<equiv> 32768"
abbreviation (input) CONDITION_MUTED :: u32 where "CONDITION_MUTED \<equiv> 65536"
abbreviation (input) CONDITION_CHANNELMUTEDTICKS :: u32 where "CONDITION_CHANNELMUTEDTICKS \<equiv> 131072"
abbreviation (input) CONDITION_YELLTICKS :: u32 where "CONDITION_YELLTICKS \<equiv> 262144"
abbreviation (input) CONDITION_ATTRIBUTES :: u32 where "CONDITION_ATTRIBUTES \<equiv> 524288"
abbreviation (input) CONDITION_FREEZING :: u32 where "CONDITION_FREEZING \<equiv> 1048576"
abbreviation (input) CONDITION_DAZZLED :: u32 where "CONDITION_DAZZLED \<equiv> 2097152"
abbreviation (input) CONDITION_CURSED :: u32 where "CONDITION_CURSED \<equiv> 4194304"
abbreviation (input) CONDITION_EXHAUST_COMBAT :: u32 where "CONDITION_EXHAUST_COMBAT \<equiv> 8388608"
abbreviation (input) CONDITION_EXHAUST_HEAL :: u32 where "CONDITION_EXHAUST_HEAL \<equiv> 16777216"
abbreviation (input) CONDITION_PACIFIED :: u32 where "CONDITION_PACIFIED \<equiv> 33554432"
abbreviation (input) CONDITION_SPELLCOOLDOWN :: u32 where "CONDITION_SPELLCOOLDOWN \<equiv> 67108864"
abbreviation (input) CONDITION_SPELLGROUPCOOLDOWN :: u32 where "CONDITION_SPELLGROUPCOOLDOWN \<equiv> 134217728"
abbreviation (input) CONDITION_ROOT :: u32 where "CONDITION_ROOT \<equiv> 268435456"

datatype ConditionParam =
    CONDITION_PARAM_OWNER
  | CONDITION_PARAM_TICKS
  | CONDITION_PARAM_HEALTHGAIN
  | CONDITION_PARAM_HEALTHTICKS
  | CONDITION_PARAM_MANAGAIN
  | CONDITION_PARAM_MANATICKS
  | CONDITION_PARAM_DELAYED
  | CONDITION_PARAM_SPEED
  | CONDITION_PARAM_LIGHT_LEVEL
  | CONDITION_PARAM_LIGHT_COLOR
  | CONDITION_PARAM_SOULGAIN
  | CONDITION_PARAM_SOULTICKS
  | CONDITION_PARAM_MINVALUE
  | CONDITION_PARAM_MAXVALUE
  | CONDITION_PARAM_STARTVALUE
  | CONDITION_PARAM_TICKINTERVAL
  | CONDITION_PARAM_FORCEUPDATE
  | CONDITION_PARAM_SKILL_MELEE
  | CONDITION_PARAM_SKILL_FIST
  | CONDITION_PARAM_SKILL_CLUB
  | CONDITION_PARAM_SKILL_SWORD
  | CONDITION_PARAM_SKILL_AXE
  | CONDITION_PARAM_SKILL_DISTANCE
  | CONDITION_PARAM_SKILL_SHIELD
  | CONDITION_PARAM_SKILL_FISHING
  | CONDITION_PARAM_STAT_MAXHITPOINTS
  | CONDITION_PARAM_STAT_MAXMANAPOINTS
  | CONDITION_PARAM_STAT_MAGICPOINTS
  | CONDITION_PARAM_STAT_MAXHITPOINTSPERCENT
  | CONDITION_PARAM_STAT_MAXMANAPOINTSPERCENT
  | CONDITION_PARAM_STAT_MAGICPOINTSPERCENT
  | CONDITION_PARAM_PERIODICDAMAGE
  | CONDITION_PARAM_SKILL_MELEEPERCENT
  | CONDITION_PARAM_SKILL_FISTPERCENT
  | CONDITION_PARAM_SKILL_CLUBPERCENT
  | CONDITION_PARAM_SKILL_SWORDPERCENT
  | CONDITION_PARAM_SKILL_AXEPERCENT
  | CONDITION_PARAM_SKILL_DISTANCEPERCENT
  | CONDITION_PARAM_SKILL_SHIELDPERCENT
  | CONDITION_PARAM_SKILL_FISHINGPERCENT
  | CONDITION_PARAM_BUFF_SPELL
  | CONDITION_PARAM_SUBID
  | CONDITION_PARAM_FIELD
  | CONDITION_PARAM_DISABLE_DEFENSE
  | CONDITION_PARAM_SPECIALSKILL_CRITICALHITCHANCE
  | CONDITION_PARAM_SPECIALSKILL_CRITICALHITAMOUNT
  | CONDITION_PARAM_SPECIALSKILL_LIFELEECHCHANCE
  | CONDITION_PARAM_SPECIALSKILL_LIFELEECHAMOUNT
  | CONDITION_PARAM_SPECIALSKILL_MANALEECHCHANCE
  | CONDITION_PARAM_SPECIALSKILL_MANALEECHAMOUNT
  | CONDITION_PARAM_AGGRESSIVE
  | CONDITION_PARAM_DRUNKENNESS

section \<open>Data\<close>

record interval_info =
  timeLeft :: int
  ival_value :: int
  ival_interval :: int

record attributes_data =
  skills :: "int list"
  skillsPercent :: "int list"
  specialSkills :: "int list"
  stats :: "int list"
  statsPercent :: "int list"
  currentSkill :: nat
  currentSpecialSkill :: nat
  currentStat :: nat
  disableDefense :: bool

record regeneration_data =
  internalHealthTicks :: u32
  internalManaTicks :: u32
  healthTicks :: u32
  manaTicks :: u32
  healthGain :: u32
  manaGain :: u32

record soul_data =
  internalSoulTicks :: u32
  soulTicks :: u32
  soulGain :: u32

record damage_data =
  maxDamage :: int
  minDamage :: int
  startDamage :: int
  periodDamage :: int
  periodDamageTick :: int
  tickInterval :: int
  initDamage :: int
  forceUpdate :: bool
  delayed :: bool
  field_damage :: bool
  owner :: u32
  damageList :: "interval_info list"

record speed_data =
  speedDelta :: int
  mina :: u32
  minb :: u32
  maxa :: u32
  maxb :: u32

record outfit =
  lookType :: u16
  lookTypeEx :: u16
  lookMount :: u16
  lookHead :: u8
  lookBody :: u8
  lookLegs :: u8
  lookFeet :: u8
  lookAddons :: u8

record light_data =
  light_level :: u8
  light_color :: u8
  internalLightTicks :: u32
  lightChangeInterval :: u32

datatype condition_data =
    Generic
  | Attributes attributes_data
  | Regeneration regeneration_data
  | Soul soul_data
  | Invisible
  | Damage damage_data
  | Speed speed_data
  | Outfit outfit
  | Light light_data
  | SpellCooldown
  | SpellGroupCooldown
  | Drunk u8

record condition =
  c_id :: "8 word"
  endTime :: int
  subId :: u32
  ticks :: int
  conditionType :: u32
  isBuff :: bool
  aggressive :: bool
  c_data :: condition_data

abbreviation set_data :: "condition \<Rightarrow> condition_data \<Rightarrow> condition" where
  "set_data c d \<equiv> c\<lparr>c_data := d\<rparr>"

definition INT64_MAX :: int where
  "INT64_MAX = 2 ^ 63 - 1"

text \<open>The constructor of the base class.\<close>

definition new_condition ::
  "8 word \<Rightarrow> u32 \<Rightarrow> int \<Rightarrow> bool \<Rightarrow> u32 \<Rightarrow> bool \<Rightarrow> condition_data \<Rightarrow> condition" where
  "new_condition i type t buff sub aggr d =
     \<lparr>c_id = i, endTime = (if t = -1 then INT64_MAX else 0), subId = sub, ticks = t,
      conditionType = type, isBuff = buff, aggressive = aggr, c_data = d\<rparr>"

definition new_attributes :: attributes_data where
  "new_attributes =
     \<lparr>skills = replicate 7 0, skillsPercent = replicate 7 0, specialSkills = replicate 6 0,
      stats = replicate 4 0, statsPercent = replicate 4 0, currentSkill = 0,
      currentSpecialSkill = 0, currentStat = 0, disableDefense = False\<rparr>"

definition new_regeneration :: regeneration_data where
  "new_regeneration =
     \<lparr>internalHealthTicks = 0, internalManaTicks = 0, healthTicks = 1000, manaTicks = 1000,
      healthGain = 0, manaGain = 0\<rparr>"

definition new_soul :: soul_data where
  "new_soul = \<lparr>internalSoulTicks = 0, soulTicks = 0, soulGain = 0\<rparr>"

definition new_damage :: damage_data where
  "new_damage =
     \<lparr>maxDamage = 0, minDamage = 0, startDamage = 0, periodDamage = 0, periodDamageTick = 0,
      tickInterval = 2000, initDamage = 0, forceUpdate = False, delayed = False,
      field_damage = False, owner = 0, damageList = []\<rparr>"

definition new_speed :: "int \<Rightarrow> speed_data" where
  "new_speed changeSpeed = \<lparr>speedDelta = changeSpeed, mina = 0, minb = 0, maxa = 0, maxb = 0\<rparr>"

definition new_outfit :: outfit where
  "new_outfit =
     \<lparr>lookType = 0, lookTypeEx = 0, lookMount = 0, lookHead = 0, lookBody = 0, lookLegs = 0,
      lookFeet = 0, lookAddons = 0\<rparr>"

definition new_light :: "u8 \<Rightarrow> u8 \<Rightarrow> light_data" where
  "new_light level color =
     \<lparr>light_level = level, light_color = color, internalLightTicks = 0, lightChangeInterval = 0\<rparr>"

definition new_drunk :: "u8 \<Rightarrow> condition_data" where
  "new_drunk d = Drunk (if d \<noteq> 0 then d else 25)"

section \<open>Creation\<close>

text \<open>\<open>createCondition(id, type, ticks, param, buff, subId, aggressive)\<close>; a null pointer is None.\<close>

definition createCondition ::
  "8 word \<Rightarrow> u32 \<Rightarrow> int \<Rightarrow> int \<Rightarrow> bool \<Rightarrow> u32 \<Rightarrow> bool \<Rightarrow> condition option" where
  "createCondition i type t param buff sub aggr =
     (let new = new_condition i type t buff sub aggr
      in if type \<in> {CONDITION_POISON, CONDITION_FIRE, CONDITION_ENERGY, CONDITION_DROWN,
                     CONDITION_FREEZING, CONDITION_DAZZLED, CONDITION_CURSED, CONDITION_BLEEDING}
         then Some (new_condition i type 0 buff sub aggr (Damage new_damage))
         else if type \<in> {CONDITION_HASTE, CONDITION_PARALYZE} then Some (new (Speed (new_speed param)))
         else if type = CONDITION_INVISIBLE then Some (new Invisible)
         else if type = CONDITION_OUTFIT then Some (new (Outfit new_outfit))
         else if type = CONDITION_LIGHT
           then Some (new (Light (new_light (word_of_int (param AND 0xFF))
                                     (word_of_int (drop_bit 8 (param AND 0xFF00))))))
         else if type = CONDITION_REGENERATION then Some (new (Regeneration new_regeneration))
         else if type = CONDITION_SOUL then Some (new (Soul new_soul))
         else if type = CONDITION_ATTRIBUTES then Some (new (Attributes new_attributes))
         else if type = CONDITION_SPELLCOOLDOWN then Some (new SpellCooldown)
         else if type = CONDITION_SPELLGROUPCOOLDOWN then Some (new SpellGroupCooldown)
         else if type = CONDITION_DRUNK then Some (new (new_drunk (word_of_int param)))
         else if type \<in> {CONDITION_INFIGHT, CONDITION_EXHAUST_WEAPON, CONDITION_EXHAUST_COMBAT,
                          CONDITION_EXHAUST_HEAL, CONDITION_MUTED, CONDITION_CHANNELMUTEDTICKS,
                          CONDITION_YELLTICKS, CONDITION_PACIFIED, CONDITION_MANASHIELD}
           then Some (new Generic)
         else if type = CONDITION_ROOT then Some (new Generic)
         else None)"

section \<open>Parameters\<close>

definition INT32_MAX :: int where
  "INT32_MAX = 2 ^ 31 - 1"

fun setParam_base :: "ConditionParam \<Rightarrow> int \<Rightarrow> condition \<Rightarrow> bool \<times> condition" where
  "setParam_base CONDITION_PARAM_TICKS v c = (True, c\<lparr>ticks := v\<rparr>)"
| "setParam_base CONDITION_PARAM_BUFF_SPELL v c = (True, c\<lparr>isBuff := (v \<noteq> 0)\<rparr>)"
| "setParam_base CONDITION_PARAM_SUBID v c = (True, c\<lparr>subId := word_of_int v\<rparr>)"
| "setParam_base CONDITION_PARAM_AGGRESSIVE v c = (True, c\<lparr>aggressive := (v \<noteq> 0)\<rparr>)"
| "setParam_base _ v c = (False, c)"

fun getParam_base :: "ConditionParam \<Rightarrow> condition \<Rightarrow> int" where
  "getParam_base CONDITION_PARAM_TICKS c = ticks c"
| "getParam_base CONDITION_PARAM_BUFF_SPELL c = (if isBuff c then 1 else 0)"
| "getParam_base CONDITION_PARAM_SUBID c = sint (subId c)"
| "getParam_base _ c = INT32_MAX"

text \<open>The parameters of \<open>ConditionAttributes\<close>, with the indices of \<open>skills_t\<close>, \<open>stats_t\<close>
  and \<open>SpecialSkills_t\<close>; None is the default case of the switch.\<close>

fun setParam_attributes :: "ConditionParam \<Rightarrow> int \<Rightarrow> attributes_data \<Rightarrow> attributes_data option" where
  "setParam_attributes CONDITION_PARAM_SKILL_MELEE v a =
     Some (a\<lparr>skills := (skills a)[1 := v, 3 := v, 2 := v]\<rparr>)"
| "setParam_attributes CONDITION_PARAM_SKILL_MELEEPERCENT v a =
     Some (a\<lparr>skillsPercent := (skillsPercent a)[1 := v, 3 := v, 2 := v]\<rparr>)"
| "setParam_attributes CONDITION_PARAM_SKILL_FIST v a = Some (a\<lparr>skills := (skills a)[0 := v]\<rparr>)"
| "setParam_attributes CONDITION_PARAM_SKILL_FISTPERCENT v a =
     Some (a\<lparr>skillsPercent := (skillsPercent a)[0 := v]\<rparr>)"
| "setParam_attributes CONDITION_PARAM_SKILL_CLUB v a = Some (a\<lparr>skills := (skills a)[1 := v]\<rparr>)"
| "setParam_attributes CONDITION_PARAM_SKILL_CLUBPERCENT v a =
     Some (a\<lparr>skillsPercent := (skillsPercent a)[1 := v]\<rparr>)"
| "setParam_attributes CONDITION_PARAM_SKILL_SWORD v a = Some (a\<lparr>skills := (skills a)[2 := v]\<rparr>)"
| "setParam_attributes CONDITION_PARAM_SKILL_SWORDPERCENT v a =
     Some (a\<lparr>skillsPercent := (skillsPercent a)[2 := v]\<rparr>)"
| "setParam_attributes CONDITION_PARAM_SKILL_AXE v a = Some (a\<lparr>skills := (skills a)[3 := v]\<rparr>)"
| "setParam_attributes CONDITION_PARAM_SKILL_AXEPERCENT v a =
     Some (a\<lparr>skillsPercent := (skillsPercent a)[3 := v]\<rparr>)"
| "setParam_attributes CONDITION_PARAM_SKILL_DISTANCE v a =
     Some (a\<lparr>skills := (skills a)[4 := v]\<rparr>)"
| "setParam_attributes CONDITION_PARAM_SKILL_DISTANCEPERCENT v a =
     Some (a\<lparr>skillsPercent := (skillsPercent a)[4 := v]\<rparr>)"
| "setParam_attributes CONDITION_PARAM_SKILL_SHIELD v a = Some (a\<lparr>skills := (skills a)[5 := v]\<rparr>)"
| "setParam_attributes CONDITION_PARAM_SKILL_SHIELDPERCENT v a =
     Some (a\<lparr>skillsPercent := (skillsPercent a)[5 := v]\<rparr>)"
| "setParam_attributes CONDITION_PARAM_SKILL_FISHING v a =
     Some (a\<lparr>skills := (skills a)[6 := v]\<rparr>)"
| "setParam_attributes CONDITION_PARAM_SKILL_FISHINGPERCENT v a =
     Some (a\<lparr>skillsPercent := (skillsPercent a)[6 := v]\<rparr>)"
| "setParam_attributes CONDITION_PARAM_STAT_MAXHITPOINTS v a =
     Some (a\<lparr>stats := (stats a)[0 := v]\<rparr>)"
| "setParam_attributes CONDITION_PARAM_STAT_MAXMANAPOINTS v a =
     Some (a\<lparr>stats := (stats a)[1 := v]\<rparr>)"
| "setParam_attributes CONDITION_PARAM_STAT_MAGICPOINTS v a =
     Some (a\<lparr>stats := (stats a)[3 := v]\<rparr>)"
| "setParam_attributes CONDITION_PARAM_STAT_MAXHITPOINTSPERCENT v a =
     Some (a\<lparr>statsPercent := (statsPercent a)[0 := max 0 v]\<rparr>)"
| "setParam_attributes CONDITION_PARAM_STAT_MAXMANAPOINTSPERCENT v a =
     Some (a\<lparr>statsPercent := (statsPercent a)[1 := max 0 v]\<rparr>)"
| "setParam_attributes CONDITION_PARAM_STAT_MAGICPOINTSPERCENT v a =
     Some (a\<lparr>statsPercent := (statsPercent a)[3 := max 0 v]\<rparr>)"
| "setParam_attributes CONDITION_PARAM_DISABLE_DEFENSE v a = Some (a\<lparr>disableDefense := (v \<noteq> 0)\<rparr>)"
| "setParam_attributes CONDITION_PARAM_SPECIALSKILL_CRITICALHITCHANCE v a =
     Some (a\<lparr>specialSkills := (specialSkills a)[0 := v]\<rparr>)"
| "setParam_attributes CONDITION_PARAM_SPECIALSKILL_CRITICALHITAMOUNT v a =
     Some (a\<lparr>specialSkills := (specialSkills a)[1 := v]\<rparr>)"
| "setParam_attributes CONDITION_PARAM_SPECIALSKILL_LIFELEECHCHANCE v a =
     Some (a\<lparr>specialSkills := (specialSkills a)[2 := v]\<rparr>)"
| "setParam_attributes CONDITION_PARAM_SPECIALSKILL_LIFELEECHAMOUNT v a =
     Some (a\<lparr>specialSkills := (specialSkills a)[3 := v]\<rparr>)"
| "setParam_attributes CONDITION_PARAM_SPECIALSKILL_MANALEECHCHANCE v a =
     Some (a\<lparr>specialSkills := (specialSkills a)[4 := v]\<rparr>)"
| "setParam_attributes CONDITION_PARAM_SPECIALSKILL_MANALEECHAMOUNT v a =
     Some (a\<lparr>specialSkills := (specialSkills a)[5 := v]\<rparr>)"
| "setParam_attributes _ v a = None"

fun getParam_attributes :: "ConditionParam \<Rightarrow> attributes_data \<Rightarrow> int option" where
  "getParam_attributes CONDITION_PARAM_SKILL_FIST a = Some (skills a ! 0)"
| "getParam_attributes CONDITION_PARAM_SKILL_FISTPERCENT a = Some (skillsPercent a ! 0)"
| "getParam_attributes CONDITION_PARAM_SKILL_CLUB a = Some (skills a ! 1)"
| "getParam_attributes CONDITION_PARAM_SKILL_CLUBPERCENT a = Some (skillsPercent a ! 1)"
| "getParam_attributes CONDITION_PARAM_SKILL_SWORD a = Some (skills a ! 2)"
| "getParam_attributes CONDITION_PARAM_SKILL_SWORDPERCENT a = Some (skillsPercent a ! 2)"
| "getParam_attributes CONDITION_PARAM_SKILL_AXE a = Some (skills a ! 3)"
| "getParam_attributes CONDITION_PARAM_SKILL_AXEPERCENT a = Some (skillsPercent a ! 3)"
| "getParam_attributes CONDITION_PARAM_SKILL_DISTANCE a = Some (skills a ! 4)"
| "getParam_attributes CONDITION_PARAM_SKILL_DISTANCEPERCENT a = Some (skillsPercent a ! 4)"
| "getParam_attributes CONDITION_PARAM_SKILL_SHIELD a = Some (skills a ! 5)"
| "getParam_attributes CONDITION_PARAM_SKILL_SHIELDPERCENT a = Some (skillsPercent a ! 5)"
| "getParam_attributes CONDITION_PARAM_SKILL_FISHING a = Some (skills a ! 6)"
| "getParam_attributes CONDITION_PARAM_SKILL_FISHINGPERCENT a = Some (skillsPercent a ! 6)"
| "getParam_attributes CONDITION_PARAM_STAT_MAXHITPOINTS a = Some (stats a ! 0)"
| "getParam_attributes CONDITION_PARAM_STAT_MAXMANAPOINTS a = Some (stats a ! 1)"
| "getParam_attributes CONDITION_PARAM_STAT_MAGICPOINTS a = Some (stats a ! 3)"
| "getParam_attributes CONDITION_PARAM_STAT_MAXHITPOINTSPERCENT a = Some (statsPercent a ! 0)"
| "getParam_attributes CONDITION_PARAM_STAT_MAXMANAPOINTSPERCENT a = Some (statsPercent a ! 1)"
| "getParam_attributes CONDITION_PARAM_STAT_MAGICPOINTSPERCENT a = Some (statsPercent a ! 3)"
| "getParam_attributes CONDITION_PARAM_DISABLE_DEFENSE a = Some (if disableDefense a then 1 else 0)"
| "getParam_attributes CONDITION_PARAM_SPECIALSKILL_CRITICALHITCHANCE a = Some (specialSkills a ! 0)"
| "getParam_attributes CONDITION_PARAM_SPECIALSKILL_CRITICALHITAMOUNT a = Some (specialSkills a ! 1)"
| "getParam_attributes CONDITION_PARAM_SPECIALSKILL_LIFELEECHCHANCE a = Some (specialSkills a ! 2)"
| "getParam_attributes CONDITION_PARAM_SPECIALSKILL_LIFELEECHAMOUNT a = Some (specialSkills a ! 3)"
| "getParam_attributes CONDITION_PARAM_SPECIALSKILL_MANALEECHCHANCE a = Some (specialSkills a ! 4)"
| "getParam_attributes CONDITION_PARAM_SPECIALSKILL_MANALEECHAMOUNT a = Some (specialSkills a ! 5)"
| "getParam_attributes _ a = None"

fun setParam_regeneration :: "ConditionParam \<Rightarrow> int \<Rightarrow> regeneration_data \<Rightarrow> regeneration_data option" where
  "setParam_regeneration CONDITION_PARAM_HEALTHGAIN v r = Some (r\<lparr>healthGain := word_of_int v\<rparr>)"
| "setParam_regeneration CONDITION_PARAM_HEALTHTICKS v r = Some (r\<lparr>healthTicks := word_of_int v\<rparr>)"
| "setParam_regeneration CONDITION_PARAM_MANAGAIN v r = Some (r\<lparr>manaGain := word_of_int v\<rparr>)"
| "setParam_regeneration CONDITION_PARAM_MANATICKS v r = Some (r\<lparr>manaTicks := word_of_int v\<rparr>)"
| "setParam_regeneration _ v r = None"

fun getParam_regeneration :: "ConditionParam \<Rightarrow> regeneration_data \<Rightarrow> int option" where
  "getParam_regeneration CONDITION_PARAM_HEALTHGAIN r = Some (sint (healthGain r))"
| "getParam_regeneration CONDITION_PARAM_HEALTHTICKS r = Some (sint (healthTicks r))"
| "getParam_regeneration CONDITION_PARAM_MANAGAIN r = Some (sint (manaGain r))"
| "getParam_regeneration CONDITION_PARAM_MANATICKS r = Some (sint (manaTicks r))"
| "getParam_regeneration _ r = None"

fun setParam_soul :: "ConditionParam \<Rightarrow> int \<Rightarrow> soul_data \<Rightarrow> soul_data option" where
  "setParam_soul CONDITION_PARAM_SOULGAIN v s = Some (s\<lparr>soulGain := word_of_int v\<rparr>)"
| "setParam_soul CONDITION_PARAM_SOULTICKS v s = Some (s\<lparr>soulTicks := word_of_int v\<rparr>)"
| "setParam_soul _ v s = None"

fun getParam_soul :: "ConditionParam \<Rightarrow> soul_data \<Rightarrow> int option" where
  "getParam_soul CONDITION_PARAM_SOULGAIN s = Some (sint (soulGain s))"
| "getParam_soul CONDITION_PARAM_SOULTICKS s = Some (sint (soulTicks s))"
| "getParam_soul _ s = None"

text \<open>The parameters of \<open>ConditionDamage\<close>; the flag tells the cases that return true from those
  that return the result of the base class.\<close>

fun setParam_damage :: "ConditionParam \<Rightarrow> int \<Rightarrow> damage_data \<Rightarrow> (bool \<times> damage_data) option" where
  "setParam_damage CONDITION_PARAM_OWNER v d = Some (True, d\<lparr>owner := word_of_int v\<rparr>)"
| "setParam_damage CONDITION_PARAM_FORCEUPDATE v d = Some (True, d\<lparr>forceUpdate := (v \<noteq> 0)\<rparr>)"
| "setParam_damage CONDITION_PARAM_DELAYED v d = Some (True, d\<lparr>delayed := (v \<noteq> 0)\<rparr>)"
| "setParam_damage CONDITION_PARAM_MAXVALUE v d = Some (False, d\<lparr>maxDamage := \<bar>v\<bar>\<rparr>)"
| "setParam_damage CONDITION_PARAM_MINVALUE v d = Some (False, d\<lparr>minDamage := \<bar>v\<bar>\<rparr>)"
| "setParam_damage CONDITION_PARAM_STARTVALUE v d = Some (False, d\<lparr>startDamage := \<bar>v\<bar>\<rparr>)"
| "setParam_damage CONDITION_PARAM_TICKINTERVAL v d = Some (False, d\<lparr>tickInterval := \<bar>v\<bar>\<rparr>)"
| "setParam_damage CONDITION_PARAM_PERIODICDAMAGE v d = Some (False, d\<lparr>periodDamage := v\<rparr>)"
| "setParam_damage CONDITION_PARAM_FIELD v d = Some (False, d\<lparr>field_damage := (v \<noteq> 0)\<rparr>)"
| "setParam_damage _ v d = None"

fun getParam_damage :: "ConditionParam \<Rightarrow> damage_data \<Rightarrow> int option" where
  "getParam_damage CONDITION_PARAM_OWNER d = Some (sint (owner d))"
| "getParam_damage CONDITION_PARAM_FORCEUPDATE d = Some (if forceUpdate d then 1 else 0)"
| "getParam_damage CONDITION_PARAM_DELAYED d = Some (if delayed d then 1 else 0)"
| "getParam_damage CONDITION_PARAM_MAXVALUE d = Some (maxDamage d)"
| "getParam_damage CONDITION_PARAM_MINVALUE d = Some (minDamage d)"
| "getParam_damage CONDITION_PARAM_STARTVALUE d = Some (startDamage d)"
| "getParam_damage CONDITION_PARAM_TICKINTERVAL d = Some (tickInterval d)"
| "getParam_damage CONDITION_PARAM_PERIODICDAMAGE d = Some (periodDamage d)"
| "getParam_damage CONDITION_PARAM_FIELD d = Some (if field_damage d then 1 else 0)"
| "getParam_damage _ d = None"

fun setParam_light :: "ConditionParam \<Rightarrow> int \<Rightarrow> light_data \<Rightarrow> light_data option" where
  "setParam_light CONDITION_PARAM_LIGHT_LEVEL v l =
     Some (l\<lparr>light_level := word_of_int (max 1 (if v > 0 then v else 1))\<rparr>)"
| "setParam_light CONDITION_PARAM_LIGHT_COLOR v l = Some (l\<lparr>light_color := word_of_int v\<rparr>)"
| "setParam_light _ v l = None"

fun getParam_light :: "ConditionParam \<Rightarrow> light_data \<Rightarrow> int option" where
  "getParam_light CONDITION_PARAM_LIGHT_LEVEL l = Some (uint (light_level l))"
| "getParam_light CONDITION_PARAM_LIGHT_COLOR l = Some (uint (light_color l))"
| "getParam_light _ l = None"

text \<open>The virtual functions.\<close>

definition setParam :: "ConditionParam \<Rightarrow> int \<Rightarrow> condition \<Rightarrow> bool \<times> condition" where
  "setParam param v c0 =
     (let (ret, c) = setParam_base param v c0
      in case c_data c of
           Attributes a \<Rightarrow>
             (case setParam_attributes param v a of
                Some a \<Rightarrow> (True, set_data c (Attributes a)) | None \<Rightarrow> (ret, c))
         | Regeneration r \<Rightarrow>
             (case setParam_regeneration param v r of
                Some r \<Rightarrow> (True, set_data c (Regeneration r)) | None \<Rightarrow> (ret, c))
         | Soul s \<Rightarrow>
             (case setParam_soul param v s of
                Some s \<Rightarrow> (True, set_data c (Soul s)) | None \<Rightarrow> (ret, c))
         | Damage d \<Rightarrow>
             (case setParam_damage param v d of
                Some (yes, d) \<Rightarrow> (yes \<or> ret, set_data c (Damage d)) | None \<Rightarrow> (False, c))
         | Speed s \<Rightarrow>
             if param \<noteq> CONDITION_PARAM_SPEED then (False, c)
             else (True, (set_data c (Speed (s\<lparr>speedDelta := v\<rparr>)))
                           \<lparr>conditionType := (if v > 0 then CONDITION_HASTE else CONDITION_PARALYZE)\<rparr>)
         | Light l \<Rightarrow>
             if ret then (False, c)
             else (case setParam_light param v l of
                     Some l \<Rightarrow> (True, set_data c (Light l)) | None \<Rightarrow> (False, c))
         | Drunk d \<Rightarrow>
             if param = CONDITION_PARAM_DRUNKENNESS then (True, set_data c (Drunk (word_of_int v)))
             else (ret, c)
         | _ \<Rightarrow> (ret, c))"

definition getParam :: "ConditionParam \<Rightarrow> condition \<Rightarrow> int" where
  "getParam param c =
     (let special = (case c_data c of
              Attributes a \<Rightarrow> getParam_attributes param a
            | Regeneration r \<Rightarrow> getParam_regeneration param r
            | Soul s \<Rightarrow> getParam_soul param s
            | Damage d \<Rightarrow> getParam_damage param d
            | Speed s \<Rightarrow> if param = CONDITION_PARAM_SPEED then Some (speedDelta s) else None
            | Light l \<Rightarrow> getParam_light param l
            | _ \<Rightarrow> None)
      in case special of Some v \<Rightarrow> v | None \<Rightarrow> getParam_base param c)"

section \<open>Time\<close>

text \<open>The number of ticks is an \<open>int32_t\<close> in the code: every caller passes a value it has as one, or a sum
  that it computes, which must be one.\<close>

definition setTicks :: "int \<Rightarrow> int \<Rightarrow> condition \<Rightarrow> condition" where
  "setTicks now newTicks c = c\<lparr>ticks := newTicks, endTime := newTicks + now\<rparr>"

definition executeCondition_base :: "int \<Rightarrow> int \<Rightarrow> condition \<Rightarrow> bool \<times> condition" where
  "executeCondition_base now interval c =
     (if ticks c = -1 then (True, c)
      else (endTime c \<ge> now, c\<lparr>ticks := max 0 (ticks c - interval)\<rparr>))"

definition startCondition_base :: "int \<Rightarrow> condition \<Rightarrow> condition" where
  "startCondition_base now c = (if ticks c > 0 then c\<lparr>endTime := ticks c + now\<rparr> else c)"

definition isPersistent :: "condition \<Rightarrow> bool" where
  "isPersistent c =
     (if ticks c = -1 then False
      else if \<not> (c_id c = -1 \<or> c_id c = 0 \<or> conditionType c = CONDITION_MUTED) then False
      else True)"

definition getTotalDamage :: "damage_data \<Rightarrow> int" where
  "getTotalDamage d =
     \<bar>if damageList d \<noteq> [] then sum_list (map ival_value (damageList d))
      else minDamage d + (maxDamage d - minDamage d) sdiv 2\<bar>"

text \<open>\<open>updateCondition\<close>: whether \<open>add\<close> replaces the time of \<open>c\<close>.\<close>

definition updateCondition_base :: "int \<Rightarrow> condition \<Rightarrow> condition \<Rightarrow> bool" where
  "updateCondition_base now c add =
     (if conditionType c \<noteq> conditionType add then False
      else if ticks c = -1 \<and> ticks add > 0 then False
      else if ticks add \<ge> 0 \<and> endTime c > now + ticks add then False
      else True)"

definition updateCondition_damage :: "condition \<Rightarrow> damage_data \<Rightarrow> condition \<Rightarrow> damage_data \<Rightarrow> bool" where
  "updateCondition_damage c d add e =
     (if forceUpdate e then True
      else if ticks c = -1 \<and> ticks add > 0 then False
      else getTotalDamage e > getTotalDamage d)"

section \<open>Icons\<close>

definition icons_base :: "condition \<Rightarrow> u32" where
  "icons_base c = (if isBuff c then 2 ^ 12 else 0)"

definition getIcons :: "condition \<Rightarrow> u32" where
  "getIcons c =
     (let t = conditionType c
      in case c_data c of
           Damage _ \<Rightarrow> icons_base c OR
             (if t = CONDITION_FIRE then 2 ^ 1 else if t = CONDITION_ENERGY then 2 ^ 2
              else if t = CONDITION_DROWN then 2 ^ 8 else if t = CONDITION_POISON then 2 ^ 0
              else if t = CONDITION_FREEZING then 2 ^ 9 else if t = CONDITION_DAZZLED then 2 ^ 10
              else if t = CONDITION_CURSED then 2 ^ 11 else if t = CONDITION_BLEEDING then 2 ^ 15
              else 0)
         | Speed _ \<Rightarrow> icons_base c OR
             (if t = CONDITION_HASTE then 2 ^ 6 else if t = CONDITION_PARALYZE then 2 ^ 5 else 0)
         | Drunk _ \<Rightarrow> 2 ^ 3
         | Outfit _ \<Rightarrow> icons_base c
         | Light _ \<Rightarrow> icons_base c
         | _ \<Rightarrow> icons_base c OR
             (if t = CONDITION_MANASHIELD then 2 ^ 4 else if t = CONDITION_INFIGHT then 2 ^ 7
              else if t = CONDITION_ROOT then 2 ^ 16 else 0))"

section \<open>The stored form\<close>

text \<open>The attributes of \<open>ConditionAttr_t\<close>.\<close>

abbreviation (input) ATTR_TYPE :: u8 where "ATTR_TYPE \<equiv> 1"
abbreviation (input) ATTR_ID :: u8 where "ATTR_ID \<equiv> 2"
abbreviation (input) ATTR_TICKS :: u8 where "ATTR_TICKS \<equiv> 3"
abbreviation (input) ATTR_HEALTHTICKS :: u8 where "ATTR_HEALTHTICKS \<equiv> 4"
abbreviation (input) ATTR_HEALTHGAIN :: u8 where "ATTR_HEALTHGAIN \<equiv> 5"
abbreviation (input) ATTR_MANATICKS :: u8 where "ATTR_MANATICKS \<equiv> 6"
abbreviation (input) ATTR_MANAGAIN :: u8 where "ATTR_MANAGAIN \<equiv> 7"
abbreviation (input) ATTR_DELAYED :: u8 where "ATTR_DELAYED \<equiv> 8"
abbreviation (input) ATTR_OWNER :: u8 where "ATTR_OWNER \<equiv> 9"
abbreviation (input) ATTR_INTERVALDATA :: u8 where "ATTR_INTERVALDATA \<equiv> 10"
abbreviation (input) ATTR_SPEEDDELTA :: u8 where "ATTR_SPEEDDELTA \<equiv> 11"
abbreviation (input) ATTR_FORMULA_MINA :: u8 where "ATTR_FORMULA_MINA \<equiv> 12"
abbreviation (input) ATTR_FORMULA_MINB :: u8 where "ATTR_FORMULA_MINB \<equiv> 13"
abbreviation (input) ATTR_FORMULA_MAXA :: u8 where "ATTR_FORMULA_MAXA \<equiv> 14"
abbreviation (input) ATTR_FORMULA_MAXB :: u8 where "ATTR_FORMULA_MAXB \<equiv> 15"
abbreviation (input) ATTR_LIGHTCOLOR :: u8 where "ATTR_LIGHTCOLOR \<equiv> 16"
abbreviation (input) ATTR_LIGHTLEVEL :: u8 where "ATTR_LIGHTLEVEL \<equiv> 17"
abbreviation (input) ATTR_LIGHTTICKS :: u8 where "ATTR_LIGHTTICKS \<equiv> 18"
abbreviation (input) ATTR_LIGHTINTERVAL :: u8 where "ATTR_LIGHTINTERVAL \<equiv> 19"
abbreviation (input) ATTR_SOULTICKS :: u8 where "ATTR_SOULTICKS \<equiv> 20"
abbreviation (input) ATTR_SOULGAIN :: u8 where "ATTR_SOULGAIN \<equiv> 21"
abbreviation (input) ATTR_SKILLS :: u8 where "ATTR_SKILLS \<equiv> 22"
abbreviation (input) ATTR_STATS :: u8 where "ATTR_STATS \<equiv> 23"
abbreviation (input) ATTR_OUTFIT :: u8 where "ATTR_OUTFIT \<equiv> 24"
abbreviation (input) ATTR_PERIODDAMAGE :: u8 where "ATTR_PERIODDAMAGE \<equiv> 25"
abbreviation (input) ATTR_ISBUFF :: u8 where "ATTR_ISBUFF \<equiv> 26"
abbreviation (input) ATTR_SUBID :: u8 where "ATTR_SUBID \<equiv> 27"
abbreviation (input) ATTR_ISAGGRESSIVE :: u8 where "ATTR_ISAGGRESSIVE \<equiv> 28"
abbreviation (input) ATTR_DISABLEDEFENSE :: u8 where "ATTR_DISABLEDEFENSE \<equiv> 29"
abbreviation (input) ATTR_SPECIALSKILLS :: u8 where "ATTR_SPECIALSKILLS \<equiv> 30"
abbreviation (input) ATTR_END :: u8 where "ATTR_END \<equiv> 254"

definition write_bool :: "bool \<Rightarrow> u8 list" where
  "write_bool b = [if b then 1 else 0]"

definition serialize_base :: "condition \<Rightarrow> u8 list" where
  "serialize_base c =
     [ATTR_TYPE] @ le32 (conditionType c) @
     [ATTR_ID] @ le32 (scast (c_id c)) @
     [ATTR_TICKS] @ write_s32 (ticks c) @
     [ATTR_ISBUFF] @ write_bool (isBuff c) @
     [ATTR_SUBID] @ le32 (subId c) @
     [ATTR_ISAGGRESSIVE] @ write_bool (aggressive c)"

text \<open>\<open>IntervalInfo\<close> and \<open>Outfit_t\<close> are copied as they lie in memory; the outfit has a byte of
  padding at the end, whose value is \<open>pad\<close>.\<close>

definition write_interval :: "interval_info \<Rightarrow> u8 list" where
  "write_interval i = write_s32 (timeLeft i) @ write_s32 (ival_value i) @ write_s32 (ival_interval i)"

definition write_outfit :: "u8 \<Rightarrow> outfit \<Rightarrow> u8 list" where
  "write_outfit pad o' =
     le16 (lookType o') @ le16 (lookTypeEx o') @ le16 (lookMount o') @
     [lookHead o', lookBody o', lookLegs o', lookFeet o', lookAddons o', pad]"

definition serialize_attributes :: "attributes_data \<Rightarrow> u8 list" where
  "serialize_attributes a =
     concat (map (\<lambda>v. [ATTR_SKILLS] @ write_s32 v) (skills a)) @
     concat (map (\<lambda>v. [ATTR_STATS] @ write_s32 v) (stats a)) @
     [ATTR_DISABLEDEFENSE] @ write_bool (disableDefense a) @
     concat (map (\<lambda>v. [ATTR_SPECIALSKILLS] @ write_s32 v) (specialSkills a))"

definition serialize :: "u8 \<Rightarrow> condition \<Rightarrow> u8 list" where
  "serialize pad c =
     serialize_base c @
     (case c_data c of
        Attributes a \<Rightarrow> serialize_attributes a
      | Regeneration r \<Rightarrow>
          [ATTR_HEALTHTICKS] @ le32 (healthTicks r) @ [ATTR_HEALTHGAIN] @ le32 (healthGain r) @
          [ATTR_MANATICKS] @ le32 (manaTicks r) @ [ATTR_MANAGAIN] @ le32 (manaGain r)
      | Soul s \<Rightarrow>
          [ATTR_SOULGAIN] @ le32 (soulGain s) @ [ATTR_SOULTICKS] @ le32 (soulTicks s)
      | Damage d \<Rightarrow>
          [ATTR_DELAYED] @ write_bool (delayed d) @ [ATTR_PERIODDAMAGE] @ write_s32 (periodDamage d) @
          concat (map (\<lambda>i. [ATTR_INTERVALDATA] @ write_interval i) (damageList d))
      | Speed s \<Rightarrow>
          [ATTR_SPEEDDELTA] @ write_s32 (speedDelta s) @ [ATTR_FORMULA_MINA] @ le32 (mina s) @
          [ATTR_FORMULA_MINB] @ le32 (minb s) @ [ATTR_FORMULA_MAXA] @ le32 (maxa s) @
          [ATTR_FORMULA_MAXB] @ le32 (maxb s)
      | Outfit o' \<Rightarrow> [ATTR_OUTFIT] @ write_outfit pad o'
      | Light l \<Rightarrow>
          [ATTR_LIGHTCOLOR] @ le32 (ucast (light_color l)) @
          [ATTR_LIGHTLEVEL] @ le32 (ucast (light_level l)) @
          [ATTR_LIGHTTICKS] @ le32 (internalLightTicks l) @
          [ATTR_LIGHTINTERVAL] @ le32 (lightChangeInterval l)
      | _ \<Rightarrow> [])"

text \<open>\<open>unserializeProp\<close>: the result of the call, the condition, and the bytes left; None where
  the code writes behind one of its arrays.\<close>

type_synonym unserialized = "(bool \<times> condition \<times> u8 list) option"

text \<open>The two shapes of a case: reading straight into a member, which keeps it when too few bytes
  are left, whatever the result.\<close>

definition read_into ::
  "'a reader \<Rightarrow> ('a \<Rightarrow> condition \<Rightarrow> condition) \<Rightarrow> condition \<Rightarrow> u8 list \<Rightarrow> unserialized" where
  "read_into rd set' c bs =
     Some (case rd bs of None \<Rightarrow> (False, c, bs) | Some (v, bs) \<Rightarrow> (True, set' v c, bs))"

definition read_bool :: "bool reader" where
  "read_bool bs = map_option (apfst (\<lambda>b. b \<noteq> 0)) (read_u8 bs)"

definition unserializeProp_base :: "u8 \<Rightarrow> condition \<Rightarrow> u8 list \<Rightarrow> unserialized" where
  "unserializeProp_base attr c bs =
     (if attr = ATTR_TYPE then read_into read_u32 (\<lambda>v c. c\<lparr>conditionType := v\<rparr>) c bs
      else if attr = ATTR_ID then read_into read_u32 (\<lambda>v c. c\<lparr>c_id := ucast v\<rparr>) c bs
      else if attr = ATTR_TICKS then read_into read_s32 (\<lambda>v c. c\<lparr>ticks := v\<rparr>) c bs
      else if attr = ATTR_ISBUFF then read_into read_bool (\<lambda>v c. c\<lparr>isBuff := v\<rparr>) c bs
      else if attr = ATTR_SUBID then read_into read_u32 (\<lambda>v c. c\<lparr>subId := v\<rparr>) c bs
      else if attr = ATTR_ISAGGRESSIVE then read_into read_bool (\<lambda>v c. c\<lparr>aggressive := v\<rparr>) c bs
      else if attr = ATTR_END then Some (True, c, bs)
      else Some (False, c, bs))"

text \<open>One array element, at the index that is counted up even when the read fails.\<close>

definition read_element ::
  "nat \<Rightarrow> int list \<Rightarrow> (int list \<Rightarrow> nat \<Rightarrow> condition_data) \<Rightarrow> condition \<Rightarrow> u8 list \<Rightarrow> unserialized" where
  "read_element i xs set' c bs =
     (case read_s32 bs of
        None \<Rightarrow> Some (False, set_data c (set' xs (i + 1)), bs)
      | Some (v, bs) \<Rightarrow>
          if i < length xs then Some (True, set_data c (set' (xs[i := v]) (i + 1)), bs) else None)"

definition read_interval :: "interval_info reader" where
  "read_interval bs =
     (case read_bytes 12 bs of
        None \<Rightarrow> None
      | Some (x, bs) \<Rightarrow>
          Some (\<lparr>timeLeft = sint (of_le32 (take 4 x)), ival_value = sint (of_le32 (take 4 (drop 4 x))),
                 ival_interval = sint (of_le32 (drop 8 x))\<rparr>, bs))"

definition read_outfit :: "outfit reader" where
  "read_outfit bs =
     (case read_bytes 12 bs of
        None \<Rightarrow> None
      | Some (x, bs) \<Rightarrow>
          Some (\<lparr>lookType = of_le16 (take 2 x), lookTypeEx = of_le16 (take 2 (drop 2 x)),
                 lookMount = of_le16 (take 2 (drop 4 x)), lookHead = x ! 6, lookBody = x ! 7,
                 lookLegs = x ! 8, lookFeet = x ! 9, lookAddons = x ! 10\<rparr>, bs))"

definition unserializeProp :: "int \<Rightarrow> u8 \<Rightarrow> condition \<Rightarrow> u8 list \<Rightarrow> unserialized" where
  "unserializeProp now attr c bs =
     (case c_data c of
        Attributes a \<Rightarrow>
          if attr = ATTR_SKILLS
          then read_element (currentSkill a) (skills a)
                 (\<lambda>xs i. Attributes (a\<lparr>skills := xs, currentSkill := i\<rparr>)) c bs
          else if attr = ATTR_SPECIALSKILLS
          then read_element (currentSpecialSkill a) (specialSkills a)
                 (\<lambda>xs i. Attributes (a\<lparr>specialSkills := xs, currentSpecialSkill := i\<rparr>)) c bs
          else if attr = ATTR_STATS
          then read_element (currentStat a) (stats a)
                 (\<lambda>xs i. Attributes (a\<lparr>stats := xs, currentStat := i\<rparr>)) c bs
          else if attr = ATTR_DISABLEDEFENSE
          then read_into read_bool (\<lambda>v c. set_data c (Attributes (a\<lparr>disableDefense := v\<rparr>))) c bs
          else unserializeProp_base attr c bs
      | Regeneration r \<Rightarrow>
          if attr = ATTR_HEALTHTICKS
          then read_into read_u32 (\<lambda>v c. set_data c (Regeneration (r\<lparr>healthTicks := v\<rparr>))) c bs
          else if attr = ATTR_HEALTHGAIN
          then read_into read_u32 (\<lambda>v c. set_data c (Regeneration (r\<lparr>healthGain := v\<rparr>))) c bs
          else if attr = ATTR_MANATICKS
          then read_into read_u32 (\<lambda>v c. set_data c (Regeneration (r\<lparr>manaTicks := v\<rparr>))) c bs
          else if attr = ATTR_MANAGAIN
          then read_into read_u32 (\<lambda>v c. set_data c (Regeneration (r\<lparr>manaGain := v\<rparr>))) c bs
          else unserializeProp_base attr c bs
      | Soul s \<Rightarrow>
          if attr = ATTR_SOULGAIN
          then read_into read_u32 (\<lambda>v c. set_data c (Soul (s\<lparr>soulGain := v\<rparr>))) c bs
          else if attr = ATTR_SOULTICKS
          then read_into read_u32 (\<lambda>v c. set_data c (Soul (s\<lparr>soulTicks := v\<rparr>))) c bs
          else unserializeProp_base attr c bs
      | Damage d \<Rightarrow>
          if attr = ATTR_DELAYED
          then read_into read_bool (\<lambda>v c. set_data c (Damage (d\<lparr>delayed := v\<rparr>))) c bs
          else if attr = ATTR_PERIODDAMAGE
          then read_into read_s32 (\<lambda>v c. set_data c (Damage (d\<lparr>periodDamage := v\<rparr>))) c bs
          else if attr = ATTR_OWNER then read_into (skip 4) (\<lambda>_ c. c) c bs
          else if attr = ATTR_INTERVALDATA
          then read_into read_interval
                 (\<lambda>i c. let c = set_data c (Damage (d\<lparr>damageList := damageList d @ [i]\<rparr>))
                        in if ticks c \<noteq> -1 then setTicks now (ticks c + ival_interval i) c else c) c bs
          else unserializeProp_base attr c bs
      | Speed s \<Rightarrow>
          if attr = ATTR_SPEEDDELTA
          then read_into read_s32 (\<lambda>v c. set_data c (Speed (s\<lparr>speedDelta := v\<rparr>))) c bs
          else if attr = ATTR_FORMULA_MINA
          then read_into read_u32 (\<lambda>v c. set_data c (Speed (s\<lparr>mina := v\<rparr>))) c bs
          else if attr = ATTR_FORMULA_MINB
          then read_into read_u32 (\<lambda>v c. set_data c (Speed (s\<lparr>minb := v\<rparr>))) c bs
          else if attr = ATTR_FORMULA_MAXA
          then read_into read_u32 (\<lambda>v c. set_data c (Speed (s\<lparr>maxa := v\<rparr>))) c bs
          else if attr = ATTR_FORMULA_MAXB
          then read_into read_u32 (\<lambda>v c. set_data c (Speed (s\<lparr>maxb := v\<rparr>))) c bs
          else unserializeProp_base attr c bs
      | Outfit o' \<Rightarrow>
          if attr = ATTR_OUTFIT then read_into read_outfit (\<lambda>v c. set_data c (Outfit v)) c bs
          else unserializeProp_base attr c bs
      | Light l \<Rightarrow>
          if attr = ATTR_LIGHTCOLOR
          then read_into read_u32 (\<lambda>v c. set_data c (Light (l\<lparr>light_color := ucast v\<rparr>))) c bs
          else if attr = ATTR_LIGHTLEVEL
          then read_into read_u32 (\<lambda>v c. set_data c (Light (l\<lparr>light_level := ucast v\<rparr>))) c bs
          else if attr = ATTR_LIGHTTICKS
          then read_into read_u32 (\<lambda>v c. set_data c (Light (l\<lparr>internalLightTicks := v\<rparr>))) c bs
          else if attr = ATTR_LIGHTINTERVAL
          then read_into read_u32 (\<lambda>v c. set_data c (Light (l\<lparr>lightChangeInterval := v\<rparr>))) c bs
          else unserializeProp_base attr c bs
      | _ \<Rightarrow> unserializeProp_base attr c bs)"

text \<open>No read gives back more bytes than there were.\<close>

definition shrinks :: "'a reader \<Rightarrow> bool" where
  "shrinks rd \<longleftrightarrow> (\<forall>bs v cs. rd bs = Some (v, cs) \<longrightarrow> length cs \<le> length bs)"

lemma shrinks_readers [simp]:
  "shrinks read_u32" "shrinks read_s32" "shrinks read_bool" "shrinks (skip n)"
  "shrinks read_interval" "shrinks read_outfit"
  by (auto simp: shrinks_def read_bool_def skip_def read_interval_def read_outfit_def
      dest!: read_length read_bytes_Some split: option.splits)

lemma read_into_length:
  "shrinks rd \<Longrightarrow> read_into rd f c bs = Some (b, c', bs') \<Longrightarrow> length bs' \<le> length bs"
  by (auto simp: read_into_def shrinks_def split: option.splits)

lemma read_element_length:
  "read_element i xs f c bs = Some (b, c', bs') \<Longrightarrow> length bs' \<le> length bs"
  by (auto simp: read_element_def dest!: read_length split: option.splits if_splits)

lemma unserializeProp_base_length:
  "unserializeProp_base attr c bs = Some (b, c', bs') \<Longrightarrow> length bs' \<le> length bs"
  by (auto simp: unserializeProp_base_def split: if_splits dest: read_into_length [rotated])

lemma unserializeProp_length:
  "unserializeProp now attr c bs = Some (b, c', bs') \<Longrightarrow> length bs' \<le> length bs"
  by (cases "c_data c")
     (auto simp: unserializeProp_def split: if_splits
        dest: read_into_length [rotated] read_element_length unserializeProp_base_length)

text \<open>The loop of \<open>Condition::unserialize\<close>.\<close>

function unserialize :: "int \<Rightarrow> condition \<Rightarrow> u8 list \<Rightarrow> unserialized" where
  "unserialize now c bs =
     (case read_u8 bs of
        None \<Rightarrow> Some (True, c, bs)
      | Some (attr, bs') \<Rightarrow>
          if attr = ATTR_END then Some (True, c, bs')
          else (case unserializeProp now attr c bs' of
                  None \<Rightarrow> None
                | Some (ok, c', bs'') \<Rightarrow>
                    if \<not> ok then Some (False, c', bs'') else unserialize now c' bs''))"
  by pat_completeness auto
termination
  by (relation "measure (\<lambda>(now, c, bs). length bs)")
     (auto dest!: unserializeProp_length read_length)

declare unserialize.simps [simp del]

text \<open>\<open>createCondition(PropStream)\<close>: the bytes consumed stay consumed when it gives up.\<close>

definition expect :: "u8 \<Rightarrow> u8 list \<Rightarrow> u8 list option" where
  "expect attr bs =
     (case read_u8 bs of None \<Rightarrow> None | Some (a, bs) \<Rightarrow> if a \<noteq> attr then None else Some bs)"

definition create_from_stream :: "u8 list \<Rightarrow> (condition \<times> u8 list) option" where
  "create_from_stream bs =
     Option.bind (expect ATTR_TYPE bs) (\<lambda>bs. Option.bind (read_u32 bs) (\<lambda>(type, bs).
     Option.bind (expect ATTR_ID bs) (\<lambda>bs. Option.bind (read_u32 bs) (\<lambda>(i, bs).
     Option.bind (expect ATTR_TICKS bs) (\<lambda>bs. Option.bind (read_u32 bs) (\<lambda>(t, bs).
     Option.bind (expect ATTR_ISBUFF bs) (\<lambda>bs. Option.bind (read_u8 bs) (\<lambda>(buff, bs).
     Option.bind (expect ATTR_SUBID bs) (\<lambda>bs. Option.bind (read_u32 bs) (\<lambda>(sub, bs).
     Option.bind (expect ATTR_ISAGGRESSIVE bs) (\<lambda>bs. Option.bind (read_u8 bs) (\<lambda>(aggr, bs).
       map_option (\<lambda>c. (c, bs))
         (createCondition (ucast i) type (sint t) 0 (buff \<noteq> 0) sub (aggr \<noteq> 0))))))))))))))"

section \<open>Saving and loading a player's conditions\<close>

definition save_conditions :: "u8 \<Rightarrow> condition list \<Rightarrow> u8 list" where
  "save_conditions pad cs =
     concat (map (\<lambda>c. serialize pad c @ [ATTR_END]) (filter isPersistent cs))"

text \<open>The list is built with \<open>push_front\<close>; None where an array was overrun.\<close>

lemma create_from_stream_length:
  "create_from_stream bs = Some (c, bs') \<Longrightarrow> length bs' < length bs"
  by (auto simp: create_from_stream_def expect_def bind_eq_Some_conv
      dest!: read_length split: option.splits if_splits)

lemma unserialize_length:
  "unserialize now c bs = Some (b, c', bs') \<Longrightarrow> length bs' \<le> length bs"
proof (induction now c bs rule: unserialize.induct)
  case (1 now c bs)
  show ?case
  proof (cases "read_u8 bs")
    case None
    then show ?thesis using 1(2) by (simp add: unserialize.simps [of now c bs])
  next
    case (Some p)
    obtain attr bs1 where p: "p = (attr, bs1)" by (cases p)
    have l: "length bs1 \<le> length bs" using Some by (auto simp: p dest!: read_length)
    show ?thesis
    proof (cases "attr = ATTR_END")
      case True
      then show ?thesis using 1(2) l Some by (simp add: unserialize.simps [of now c bs] p)
    next
      case False
      then obtain ok c2 bs2 where u: "unserializeProp now attr c bs1 = Some (ok, c2, bs2)"
        using 1(2) Some by (auto simp: unserialize.simps [of now c bs] p split: option.splits)
      have l2: "length bs2 \<le> length bs1" using unserializeProp_length [OF u] .
      show ?thesis
      proof (cases ok)
        case True
        then have "unserialize now c2 bs2 = Some (b, c', bs')"
          using 1(2) Some u False by (simp add: unserialize.simps [of now c bs] p)
        then have "length bs' \<le> length bs2"
          using 1(1) [OF Some p [symmetric] False u refl refl] True by simp
        then show ?thesis using l l2 by simp
      next
        case f: False
        then show ?thesis
          using 1(2) Some u False l l2 by (simp add: unserialize.simps [of now c bs] p)
      qed
    qed
  qed
qed

function load_conditions :: "int \<Rightarrow> condition list \<Rightarrow> u8 list \<Rightarrow> condition list option" where
  "load_conditions now acc bs =
     (case create_from_stream bs of
        None \<Rightarrow> Some acc
      | Some (c, bs') \<Rightarrow>
          (case unserialize now c bs' of
             None \<Rightarrow> None
           | Some (ok, c', bs'') \<Rightarrow> load_conditions now (if ok then c' # acc else acc) bs''))"
  by pat_completeness auto
termination
  by (relation "measure (\<lambda>(now, acc, bs). length bs)")
     (auto dest!: create_from_stream_length unserialize_length)

declare load_conditions.simps [simp del]

section \<open>What comes back\<close>

fun data_kind :: "condition_data \<Rightarrow> nat" where
  "data_kind Generic = 0"
| "data_kind (Attributes _) = 1"
| "data_kind (Regeneration _) = 2"
| "data_kind (Soul _) = 3"
| "data_kind Invisible = 4"
| "data_kind (Damage _) = 5"
| "data_kind (Speed _) = 6"
| "data_kind (Outfit _) = 7"
| "data_kind (Light _) = 8"
| "data_kind SpellCooldown = 9"
| "data_kind SpellGroupCooldown = 10"
| "data_kind (Drunk _) = 11"

definition fresh_like :: "condition \<Rightarrow> condition option" where
  "fresh_like c =
     createCondition (c_id c) (conditionType c) (ticks c) 0 (isBuff c) (subId c) (aggressive c)"

fun data_ok :: "condition_data \<Rightarrow> bool" where
  "data_ok (Attributes a) =
     (length (skills a) = 7 \<and> length (specialSkills a) = 6 \<and> length (stats a) = 4 \<and>
      list_all int32 (skills a @ specialSkills a @ stats a))"
| "data_ok (Damage d) =
     (int32 (periodDamage d) \<and>
      list_all (\<lambda>i. int32 (timeLeft i) \<and> int32 (ival_value i) \<and> int32 (ival_interval i) \<and>
                   0 \<le> ival_interval i) (damageList d))"
| "data_ok (Speed s) = int32 (speedDelta s)"
| "data_ok _ = True"

text \<open>A condition as the server makes them: of the class that its type has, with 32-bit values.\<close>

definition condition_ok :: "condition \<Rightarrow> bool" where
  "condition_ok c \<longleftrightarrow>
     int32 (ticks c) \<and> data_ok (c_data c) \<and>
     (case fresh_like c of None \<Rightarrow> False | Some c0 \<Rightarrow> data_kind (c_data c0) = data_kind (c_data c))"

definition total_interval :: "damage_data \<Rightarrow> int" where
  "total_interval d = sum_list (map ival_interval (damageList d))"

definition reloaded :: "int \<Rightarrow> condition \<Rightarrow> condition" where
  "reloaded now c =
     (let new = new_condition (c_id c) (conditionType c) (ticks c) (isBuff c) (subId c) (aggressive c)
      in case c_data c of
           Attributes a \<Rightarrow> new (Attributes (new_attributes\<lparr>skills := skills a, stats := stats a,
              specialSkills := specialSkills a, currentSkill := 7, currentStat := 4,
              currentSpecialSkill := 6, disableDefense := disableDefense a\<rparr>))
         | Regeneration r \<Rightarrow> new (Regeneration (r\<lparr>internalHealthTicks := 0, internalManaTicks := 0\<rparr>))
         | Soul s \<Rightarrow> new (Soul (s\<lparr>internalSoulTicks := 0\<rparr>))
         | Damage d \<Rightarrow>
             (new_condition (c_id c) (conditionType c) 0 (isBuff c) (subId c) (aggressive c)
                (Damage (new_damage\<lparr>delayed := delayed d, periodDamage := periodDamage d,
                                    damageList := damageList d\<rparr>)))
             \<lparr>ticks := total_interval d,
              endTime := (if damageList d = [] then 0 else total_interval d + now)\<rparr>
         | Drunk _ \<Rightarrow> new (Drunk 25)
         | d \<Rightarrow> new d)"

lemma unserialize_END [simp]: "unserialize now c (254 # bs) = Some (True, c, bs)"
  by (simp add: unserialize.simps [of now c])

lemma unserialize_step:
  "attr \<noteq> 254 \<Longrightarrow> unserializeProp now attr c bs = Some (True, c', bs') \<Longrightarrow>
     unserialize now c (attr # bs) = unserialize now c' bs'"
  by (simp add: unserialize.simps [of now c "attr # bs"])

lemma read_into_u32 [simp]: "read_into read_u32 f c (le32 w @ bs) = Some (True, f w c, bs)"
  by (simp add: read_into_def)

lemma read_into_s32 [simp]:
  "int32 i \<Longrightarrow> read_into read_s32 f c (write_s32 i @ bs) = Some (True, f i c, bs)"
  by (simp add: read_into_def sint_word_of_int32)

lemma read_into_bool [simp]:
  "read_into read_bool f c (write_bool b @ bs) = Some (True, f b c, bs)"
  by (simp add: read_into_def read_bool_def write_bool_def)

lemma read_interval_write [simp]:
  assumes "int32 (timeLeft i)" "int32 (ival_value i)" "int32 (ival_interval i)"
  shows "read_interval (write_interval i @ bs) = Some (i, bs)"
proof -
  have "read_bytes 12 (write_interval i @ bs) = Some (write_interval i, bs)"
    by (rule read_bytes_append) (simp add: write_interval_def)
  then show ?thesis
    using assms
    by (simp add: read_interval_def write_interval_def write_s32_def sint_word_of_int32)
qed

lemma read_outfit_write [simp]: "read_outfit (write_outfit pad o' @ bs) = Some (o', bs)"
proof -
  have "read_bytes 12 (write_outfit pad o' @ bs) = Some (write_outfit pad o', bs)"
    by (rule read_bytes_append) (simp add: write_outfit_def)
  moreover have "take 2 (le16 w @ xs) = le16 w" "drop 2 (le16 w @ xs) = xs" for w xs by simp_all
  moreover have "drop 4 (le16 v @ le16 w @ xs) = xs" "(le16 u @ le16 v @ le16 w @ xs) ! 6 = xs ! 0"
    "(le16 u @ le16 v @ le16 w @ xs) ! 7 = xs ! 1" "(le16 u @ le16 v @ le16 w @ xs) ! 8 = xs ! 2"
    "(le16 u @ le16 v @ le16 w @ xs) ! 9 = xs ! 3" "(le16 u @ le16 v @ le16 w @ xs) ! 10 = xs ! 4"
    for u v w xs
    by (simp_all add: nth_append)
  ultimately show ?thesis by (cases o') (simp add: read_outfit_def write_outfit_def)
qed

lemma ucast_scast_id: "ucast (scast (i :: 8 word) :: u32) = i"
  by (rule bit_word_eqI) (simp add: bit_simps)

lemma create_from_stream_base:
  assumes "int32 (ticks c)"
  shows "create_from_stream (serialize_base c @ bs) = map_option (\<lambda>c. (c, bs)) (fresh_like c)"
proof -
  have "read_u32 (write_s32 i @ bs) = Some (word_of_int i, bs)" for i bs
    by (simp add: write_s32_def)
  then show ?thesis
    using assms
    by (cases "isBuff c"; cases "aggressive c")
       (simp_all add: create_from_stream_def serialize_base_def expect_def write_bool_def
          fresh_like_def ucast_scast_id sint_word_of_int32)
qed

lemma read_element_write:
  "int32 v \<Longrightarrow> i < length xs \<Longrightarrow>
     read_element i xs f c (write_s32 v @ bs) = Some (True, set_data c (f (xs[i := v]) (i + 1)), bs)"
  by (simp add: read_element_def sint_word_of_int32)

text \<open>The elements of one array, one attribute each.\<close>

definition reads_array ::
  "u8 \<Rightarrow> (attributes_data \<Rightarrow> int list) \<Rightarrow> (attributes_data \<Rightarrow> nat) \<Rightarrow>
     (attributes_data \<Rightarrow> int list \<Rightarrow> nat \<Rightarrow> attributes_data) \<Rightarrow> bool" where
  "reads_array attr arr idx upd \<longleftrightarrow>
     attr \<noteq> 254 \<and>
     (\<forall>now c a bs. c_data c = Attributes a \<longrightarrow>
        unserializeProp now attr c bs =
        read_element (idx a) (arr a) (\<lambda>xs i. Attributes (upd a xs i)) c bs) \<and>
     (\<forall>a xs i. arr (upd a xs i) = xs \<and> idx (upd a xs i) = i) \<and>
     (\<forall>a xs i ys j. upd (upd a xs i) ys j = upd a ys j) \<and> (\<forall>a. upd a (arr a) (idx a) = a)"

lemma unserialize_array:
  assumes r: "reads_array attr arr idx upd"
    and "c_data c = Attributes a" "list_all int32 vs" "idx a + length vs \<le> length (arr a)"
  shows "unserialize now c (concat (map (\<lambda>v. [attr] @ write_s32 v) vs) @ bs) =
     unserialize now (set_data c (Attributes (upd a
       (take (idx a) (arr a) @ vs @ drop (idx a + length vs) (arr a)) (idx a + length vs)))) bs"
  using assms(2-4)
proof (induction vs arbitrary: c a)
  case Nil
  have "upd a (arr a) (idx a) = a" using r by (simp add: reads_array_def)
  then show ?case using Nil by (cases c) simp
next
  case (Cons v vs)
  let ?a = "upd a ((arr a)[idx a := v]) (Suc (idx a))"
  have i: "idx a < length (arr a)" "int32 v" using Cons.prems by auto
  have a: "arr ?a = (arr a)[idx a := v]" "idx ?a = Suc (idx a)"
    "\<And>ys j. upd ?a ys j = upd a ys j"
    using r by (simp_all add: reads_array_def)
  have "unserializeProp now attr c (write_s32 v @ xs) = Some (True, set_data c (Attributes ?a), xs)" for xs
    using r Cons.prems(1) read_element_write [OF i(2,1)] by (simp add: reads_array_def)
  moreover have "attr \<noteq> 254" using r by (simp add: reads_array_def)
  ultimately have "unserialize now c (concat (map (\<lambda>v. [attr] @ write_s32 v) (v # vs)) @ bs) =
      unserialize now (set_data c (Attributes ?a)) (concat (map (\<lambda>v. [attr] @ write_s32 v) vs) @ bs)"
    by (simp add: unserialize_step)
  also have "\<dots> = unserialize now (set_data (set_data c (Attributes ?a)) (Attributes (upd ?a
       (take (idx ?a) (arr ?a) @ vs @ drop (idx ?a + length vs) (arr ?a)) (idx ?a + length vs)))) bs"
    using Cons.prems a by (intro Cons.IH) auto
  also have "take (idx ?a) (arr ?a) @ vs @ drop (idx ?a + length vs) (arr ?a) =
      take (idx a) (arr a) @ (v # vs) @ drop (idx a + length (v # vs)) (arr a)"
    using i(1) by (simp add: a take_Suc_conv_app_nth)
  finally show ?case by (simp add: a)
qed

lemma reads_skills:
  "reads_array 22 skills currentSkill (\<lambda>a xs i. a\<lparr>skills := xs, currentSkill := i\<rparr>)"
  by (simp add: reads_array_def unserializeProp_def)

lemma reads_stats:
  "reads_array 23 stats currentStat (\<lambda>a xs i. a\<lparr>stats := xs, currentStat := i\<rparr>)"
  by (simp add: reads_array_def unserializeProp_def)

lemma reads_specialSkills:
  "reads_array 30 specialSkills currentSpecialSkill
     (\<lambda>a xs i. a\<lparr>specialSkills := xs, currentSpecialSkill := i\<rparr>)"
  by (simp add: reads_array_def unserializeProp_def)

lemma unserialize_attributes:
  assumes "c_data c = Attributes new_attributes" "data_ok (Attributes a)"
  shows "unserialize now c (serialize_attributes a @ 254 # bs) =
     Some (True, set_data c (Attributes (new_attributes\<lparr>skills := skills a, stats := stats a,
              specialSkills := specialSkills a, currentSkill := 7, currentStat := 4,
              currentSpecialSkill := 6, disableDefense := disableDefense a\<rparr>)), bs)"
proof -
  note ok = assms(2)
  let ?a1 = "new_attributes\<lparr>skills := skills a, currentSkill := 7\<rparr>"
  let ?a2 = "?a1\<lparr>stats := stats a, currentStat := 4\<rparr>"
  let ?a3 = "?a2\<lparr>disableDefense := disableDefense a\<rparr>"
  have 1: "unserialize now c (concat (map (\<lambda>v. [22] @ write_s32 v) (skills a)) @ xs) =
      unserialize now (set_data c (Attributes ?a1)) xs" for xs
    using unserialize_array [OF reads_skills assms(1), of "skills a" now xs] ok
    by (simp add: new_attributes_def)
  have 2: "unserialize now (set_data c (Attributes ?a1)) (concat (map (\<lambda>v. [23] @ write_s32 v) (stats a)) @ xs) =
      unserialize now (set_data c (Attributes ?a2)) xs" for xs
    using unserialize_array [OF reads_stats, of "set_data c (Attributes ?a1)" ?a1 "stats a" now xs] ok
    by (simp add: new_attributes_def)
  have 3: "unserialize now (set_data c (Attributes ?a2)) (29 # write_bool (disableDefense a) @ xs) =
      unserialize now (set_data c (Attributes ?a3)) xs" for xs
    by (rule unserialize_step [THEN trans]) (simp_all add: unserializeProp_def)
  have 4: "unserialize now (set_data c (Attributes ?a3))
        (concat (map (\<lambda>v. [30] @ write_s32 v) (specialSkills a)) @ xs) =
      unserialize now (set_data c (Attributes
        (?a3\<lparr>specialSkills := specialSkills a, currentSpecialSkill := 6\<rparr>))) xs" for xs
    using unserialize_array [OF reads_specialSkills, of "set_data c (Attributes ?a3)" ?a3 "specialSkills a" now xs] ok
    by (simp add: new_attributes_def)
  show ?thesis
    unfolding serialize_attributes_def append_assoc 1 2
    using 3 4 by simp
qed

lemma unserialize_intervals:
  assumes "c_data c = Damage d" "data_ok (Damage (d\<lparr>damageList := is\<rparr>))" "0 \<le> ticks c"
  shows "unserialize now c (concat (map (\<lambda>i. [10] @ write_interval i) is) @ 254 # bs) =
     Some (True, (set_data c (Damage (d\<lparr>damageList := damageList d @ is\<rparr>)))
       \<lparr>ticks := ticks c + sum_list (map ival_interval is),
        endTime := (if is = [] then endTime c
                    else ticks c + sum_list (map ival_interval is) + now)\<rparr>, bs)"
  using assms
proof (induction "is" arbitrary: c d)
  case Nil
  then show ?case by (cases c) simp
next
  case (Cons i "is")
  let ?c = "setTicks now (ticks c + ival_interval i)
              (set_data c (Damage (d\<lparr>damageList := damageList d @ [i]\<rparr>)))"
  have "unserializeProp now 10 c (write_interval i @ xs) = Some (True, ?c, xs)" for xs
    using Cons.prems by (simp add: unserializeProp_def read_into_def Let_def)
  then have "unserialize now c (concat (map (\<lambda>i. [10] @ write_interval i) (i # is)) @ 254 # bs) =
      unserialize now ?c (concat (map (\<lambda>i. [10] @ write_interval i) is) @ 254 # bs)"
    by (simp add: unserialize_step)
  also have "\<dots> = Some (True, (set_data ?c (Damage (d\<lparr>damageList := damageList d @ [i] @ is\<rparr>)))
       \<lparr>ticks := ticks ?c + sum_list (map ival_interval is),
        endTime := (if is = [] then endTime ?c
                    else ticks ?c + sum_list (map ival_interval is) + now)\<rparr>, bs)"
    using Cons.prems Cons.IH [of ?c "d\<lparr>damageList := damageList d @ [i]\<rparr>"]
    by (simp add: setTicks_def)
  finally show ?case by (simp add: setTicks_def)
qed

definition fresh_data :: "condition_data list" where
  "fresh_data =
     [Generic, Attributes new_attributes, Regeneration new_regeneration, Soul new_soul, Invisible,
      Damage new_damage, Speed (new_speed 0), Outfit new_outfit, Light (new_light 0 0),
      SpellCooldown, SpellGroupCooldown, Drunk 25]"

lemma createCondition_fresh:
  assumes "createCondition i t tk 0 b s g = Some c0"
  shows "c_data c0 \<in> set fresh_data \<and>
         c0 = new_condition i t (if data_kind (c_data c0) = 5 then 0 else tk) b s g (c_data c0)"
  using assms
  by (auto simp: createCondition_def Let_def fresh_data_def new_condition_def new_drunk_def
      split: if_splits)

lemma serialize_unserialize:
  assumes ok: "condition_ok c" and c0: "fresh_like c = Some c0"
  shows "unserialize now c0 (drop (length (serialize_base c)) (serialize pad c) @ 254 # bs) =
         Some (True, reloaded now c, bs)"
proof -
  have k: "data_kind (c_data c0) = data_kind (c_data c)" and d: "data_ok (c_data c)"
    using ok c0 by (auto simp: condition_ok_def)
  have f: "c_data c0 \<in> set fresh_data"
    "c0 = new_condition (c_id c) (conditionType c) (if data_kind (c_data c0) = 5 then 0 else ticks c)
        (isBuff c) (subId c) (aggressive c) (c_data c0)"
    using createCondition_fresh [OF c0 [unfolded fresh_like_def]] by auto
  let ?n = "new_condition (c_id c) (conditionType c) (ticks c) (isBuff c) (subId c) (aggressive c)"
  note [simp] = serialize_def reloaded_def unserialize_step unserializeProp_def fresh_data_def
    new_condition_def
  show ?thesis
  proof (cases "c_data c")
    case (Attributes a)
    then have "c0 = ?n (Attributes new_attributes)" using f k by auto
    then show ?thesis
      using Attributes unserialize_attributes [of "?n (Attributes new_attributes)" a now bs] d
      by (simp del: data_ok.simps)
  next
    case (Regeneration r)
    then have "c0 = ?n (Regeneration new_regeneration)" using f k by auto
    then show ?thesis using Regeneration by (cases r) (simp add: new_regeneration_def)
  next
    case (Soul s)
    then have "c0 = ?n (Soul new_soul)" using f k by auto
    then show ?thesis using Soul by (cases s) (simp add: new_soul_def)
  next
    case (Damage d')
    let ?d = "new_damage\<lparr>delayed := delayed d', periodDamage := periodDamage d'\<rparr>"
    let ?m = "new_condition (c_id c) (conditionType c) 0 (isBuff c) (subId c) (aggressive c)"
    have c0: "c0 = ?m (Damage new_damage)" using f k Damage by auto
    have "data_ok (Damage (?d\<lparr>damageList := damageList d'\<rparr>))" using d Damage by simp
    from unserialize_intervals [of "?m (Damage ?d)" ?d, OF _ this, of now bs]
    show ?thesis
      using Damage d by (simp add: c0 total_interval_def new_damage_def)
  next
    case (Speed s)
    then have "c0 = ?n (Speed (new_speed 0))" using f k by auto
    then show ?thesis using Speed d by (cases s) (simp add: new_speed_def)
  next
    case (Outfit o')
    then have "c0 = ?n (Outfit new_outfit)" using f k by auto
    then show ?thesis using Outfit by (simp add: read_into_def)
  next
    case (Light l)
    then have "c0 = ?n (Light (new_light 0 0))" using f k by auto
    moreover have "ucast (ucast (b :: u8) :: u32) = b" for b
      by (rule bit_word_eqI) (simp add: bit_simps)
    ultimately show ?thesis using Light by (cases l) (simp add: new_light_def)
  qed (use f k in auto)
qed

lemma serialize_split:
  "serialize pad c = serialize_base c @ drop (length (serialize_base c)) (serialize pad c)"
  by (simp add: serialize_def)

lemma load_one:
  assumes "condition_ok c"
  shows "load_conditions now acc (serialize pad c @ 254 # bs) =
         load_conditions now (reloaded now c # acc) bs"
proof -
  obtain c0 where c0: "fresh_like c = Some c0"
    using assms by (auto simp: condition_ok_def split: option.splits)
  let ?rest = "drop (length (serialize_base c)) (serialize pad c) @ 254 # bs"
  have eq: "serialize pad c @ 254 # bs = serialize_base c @ ?rest"
    by (subst serialize_split) simp
  have "create_from_stream (serialize_base c @ ?rest) = Some (c0, ?rest)"
    using create_from_stream_base [of c ?rest] assms c0 by (simp add: condition_ok_def)
  then show ?thesis
    unfolding eq using serialize_unserialize [OF assms c0, of now pad bs]
    by (simp add: load_conditions.simps [of now acc "serialize_base c @ ?rest"])
qed

lemma load_save_conditions:
  assumes "\<forall>c\<in>set cs. condition_ok c"
  shows "load_conditions now acc (save_conditions pad cs) =
         Some (rev (map (reloaded now) (filter isPersistent cs)) @ acc)"
  using assms
proof (induction cs arbitrary: acc)
  case Nil
  then show ?case
    by (simp add: save_conditions_def load_conditions.simps create_from_stream_def expect_def)
next
  case (Cons c cs)
  then show ?case by (simp add: save_conditions_def load_one)
qed

section \<open>Properties\<close>

text \<open>C18: The persistent conditions of a player survive the database: what is written one after
  the other is read back, in reverse order, each with its class, type, id, sub id, flags, and the
  stored members of its class; nothing is lost at the boundary of two conditions and no array is
  overrun. \<open>reloaded\<close> says what is not kept: the running counters, the percentages of an
  attribute condition, the owner and limits of damage, whose remaining time becomes the sum of
  its intervals, and the strength of drunkenness.\<close>

theorem conditions_survive_saving:
  assumes "\<forall>c\<in>set cs. condition_ok c"
  shows "load_conditions now [] (save_conditions pad cs) =
         Some (rev (map (reloaded now) (filter isPersistent cs)))"
  using load_save_conditions [OF assms, of now "[]" pad] by simp

definition sample_conditions :: "condition list" where
  "sample_conditions =
     [new_condition 0 CONDITION_FIRE 20000 False 0 True
        (Damage (new_damage\<lparr>damageList := [\<lparr>timeLeft = 1500, ival_value = -10, ival_interval = 2000\<rparr>]\<rparr>)),
      new_condition (-1) CONDITION_REGENERATION 5000 True 3 False
        (Regeneration (new_regeneration\<lparr>healthGain := 5\<rparr>))]"

lemma conditions_survive_saving_witness:
  "load_conditions 1000 [] (save_conditions 0 sample_conditions) =
     Some (rev (map (reloaded 1000) (filter isPersistent sample_conditions)))"
  by (rule conditions_survive_saving)
     (simp add: sample_conditions_def condition_ok_def fresh_like_def createCondition_def
        new_condition_def int32_def new_damage_def)

definition plain_params :: "ConditionParam list" where
  "plain_params =
     [CONDITION_PARAM_TICKS, CONDITION_PARAM_SUBID, CONDITION_PARAM_HEALTHGAIN,
      CONDITION_PARAM_HEALTHTICKS, CONDITION_PARAM_MANAGAIN, CONDITION_PARAM_MANATICKS,
      CONDITION_PARAM_SPEED, CONDITION_PARAM_SOULGAIN, CONDITION_PARAM_SOULTICKS,
      CONDITION_PARAM_OWNER, CONDITION_PARAM_SKILL_FIST, CONDITION_PARAM_SKILL_CLUB,
      CONDITION_PARAM_SKILL_SWORD, CONDITION_PARAM_SKILL_AXE, CONDITION_PARAM_SKILL_DISTANCE,
      CONDITION_PARAM_SKILL_SHIELD, CONDITION_PARAM_SKILL_FISHING,
      CONDITION_PARAM_SKILL_FISTPERCENT, CONDITION_PARAM_SKILL_CLUBPERCENT,
      CONDITION_PARAM_SKILL_SWORDPERCENT, CONDITION_PARAM_SKILL_AXEPERCENT,
      CONDITION_PARAM_SKILL_DISTANCEPERCENT, CONDITION_PARAM_SKILL_SHIELDPERCENT,
      CONDITION_PARAM_SKILL_FISHINGPERCENT, CONDITION_PARAM_STAT_MAXHITPOINTS,
      CONDITION_PARAM_STAT_MAXMANAPOINTS, CONDITION_PARAM_STAT_MAGICPOINTS,
      CONDITION_PARAM_SPECIALSKILL_CRITICALHITCHANCE, CONDITION_PARAM_SPECIALSKILL_CRITICALHITAMOUNT,
      CONDITION_PARAM_SPECIALSKILL_LIFELEECHCHANCE, CONDITION_PARAM_SPECIALSKILL_LIFELEECHAMOUNT,
      CONDITION_PARAM_SPECIALSKILL_MANALEECHCHANCE, CONDITION_PARAM_SPECIALSKILL_MANALEECHAMOUNT]"

definition arrays_ok :: "condition \<Rightarrow> bool" where
  "arrays_ok c \<longleftrightarrow>
     (case c_data c of
        Attributes a \<Rightarrow> length (skills a) = 7 \<and> length (skillsPercent a) = 7 \<and>
          length (specialSkills a) = 6 \<and> length (stats a) = 4
      | _ \<Rightarrow> True)"

text \<open>C19: A number that a script sets on a condition with \<open>setParam\<close>, when the call answers true,
  is what \<open>getParam\<close> returns afterwards, for every parameter that is stored as the number it is
  (flags, absolute values, colours and the combined melee skills are not).\<close>

theorem param_round_trip:
  assumes "param \<in> set plain_params" and "setParam param v c = (True, c')"
    and "int32 v" and "arrays_ok c"
  shows "getParam param c' = v"
proof -
  note [simp] = plain_params_def setParam_def getParam_def arrays_ok_def sint_word_of_int32
  show ?thesis
  proof (cases "c_data c")
    case (Attributes a)
    then show ?thesis using assms by (cases param) auto
  next
    case (Regeneration r)
    then show ?thesis using assms by (cases param) auto
  next
    case (Soul s)
    then show ?thesis using assms by (cases param) auto
  next
    case (Damage d)
    then show ?thesis using assms by (cases param) auto
  next
    case (Speed s)
    then show ?thesis using assms by (auto split: if_splits)
  next
    case (Light l)
    then show ?thesis using assms by (cases param) auto
  qed (use assms in \<open>cases param; force\<close>)+
qed

lemma param_round_trip_witness:
  "getParam CONDITION_PARAM_HEALTHGAIN
     (snd (setParam CONDITION_PARAM_HEALTHGAIN 12
        (new_condition 0 CONDITION_REGENERATION 5000 False 0 False (Regeneration new_regeneration)))) = 12"
  by (rule param_round_trip [of _ _
        "new_condition 0 CONDITION_REGENERATION 5000 False 0 False (Regeneration new_regeneration)"])
     (simp_all add: plain_params_def setParam_def new_condition_def int32_def arrays_ok_def)

end
