(* ===== verification/Otb_Loader.thy ===== *)
theory Otb_Loader
  imports Prop_Stream
begin

text \<open>
  The OTB tree format of \<open>src/fileloader.cpp\<close>, in which the items and maps of the server are
  stored: a node is a start byte, a type byte, property bytes in which the three reserved values
  are escaped, its children, and an end byte. \<open>parseTree\<close> is the loop over the file with its
  stack of open nodes; an exception is None. The iterators into the file that a node keeps are
  the bytes between them.
\<close>

definition ESCAPE :: u8 where "ESCAPE = 0xFD"
definition START :: u8 where "START = 0xFE"
definition END_NODE :: u8 where "END_NODE = 0xFF"

lemmas node_chars = ESCAPE_def START_def END_NODE_def

datatype otb_node = Node (type: u8) (props: "u8 list") (children: "otb_node list")

text \<open>\<open>Loader::Loader\<close>: the size and the identifier; the wildcard identifier is four zeros.\<close>

definition wildcard :: "u8 list" where
  "wildcard = [0, 0, 0, 0]"

definition loader :: "u8 list \<Rightarrow> u8 list \<Rightarrow> bool" where
  "loader acceptedIdentifier file \<longleftrightarrow>
     \<not> length file \<le> 4 + 1 + 1 + 1 \<and>
     (take 4 file = acceptedIdentifier \<or> take 4 file = wildcard)"

text \<open>The loop: the stack of open nodes, innermost first, each with the bytes up to its first
  child and the children closed so far, and the root once it is closed.\<close>

fun add_byte :: "u8 \<Rightarrow> otb_node list \<Rightarrow> otb_node list" where
  "add_byte b [] = []"
| "add_byte b (Node t ps cs # st) = Node t (if cs = [] then ps @ [b] else ps) cs # st"

fun parse_loop :: "otb_node list \<Rightarrow> otb_node option \<Rightarrow> u8 list \<Rightarrow> otb_node option" where
  "parse_loop st root [] = (if st \<noteq> [] then None else root)"
| "parse_loop st root (b # bs) =
     (if b = START then
        (if st = [] then None
         else case bs of
                [] \<Rightarrow> None
              | t # bs \<Rightarrow> parse_loop (Node t [] [] # st) root bs)
      else if b = END_NODE then
        (case st of
           [] \<Rightarrow> None
         | [n] \<Rightarrow> parse_loop [] (Some n) bs
         | n # Node t ps cs # st \<Rightarrow> parse_loop (Node t ps (cs @ [n]) # st) root bs)
      else if b = ESCAPE then
        (case bs of
           [] \<Rightarrow> None
         | c # bs \<Rightarrow> parse_loop (add_byte c (add_byte b st)) root bs)
      else parse_loop (add_byte b st) root bs)"

definition parseTree :: "u8 list \<Rightarrow> otb_node option" where
  "parseTree file =
     (case drop 4 file of
        b # t # bs \<Rightarrow> if b \<noteq> START then None else parse_loop [Node t [] []] None bs
      | _ \<Rightarrow> None)"

text \<open>\<open>getProps\<close>: the bytes without the escapes; the flag is \<open>lastEscaped\<close>.\<close>

fun unescape :: "bool \<Rightarrow> u8 list \<Rightarrow> u8 list" where
  "unescape lastEscaped [] = []"
| "unescape lastEscaped (b # bs) =
     (let lastEscaped = (b = ESCAPE \<and> \<not> lastEscaped)
      in if \<not> lastEscaped then b # unescape lastEscaped bs else unescape lastEscaped bs)"

definition getProps :: "otb_node \<Rightarrow> u8 list option" where
  "getProps n = (if length (props n) = 0 then None else Some (unescape False (props n)))"

section \<open>The format\<close>

text \<open>What a writer of the format emits, as the reference: reserved property bytes escaped.\<close>

fun escape :: "u8 list \<Rightarrow> u8 list" where
  "escape [] = []"
| "escape (b # bs) =
     (if b = ESCAPE \<or> b = START \<or> b = END_NODE then ESCAPE # b # escape bs else b # escape bs)"

fun encode_node :: "otb_node \<Rightarrow> u8 list" where
  "encode_node (Node t ps cs) = START # t # escape ps @ concat (map encode_node cs) @ [END_NODE]"

fun escaped_node :: "otb_node \<Rightarrow> otb_node" where
  "escaped_node (Node t ps cs) = Node t (escape ps) (map escaped_node cs)"

lemma node_chars_neq [simp]:
  "START \<noteq> END_NODE" "START \<noteq> ESCAPE" "END_NODE \<noteq> ESCAPE"
  "END_NODE \<noteq> START" "ESCAPE \<noteq> START" "ESCAPE \<noteq> END_NODE"
  by (simp_all add: node_chars)

lemma unescape_escape [simp]: "unescape False (escape ps) = ps"
  by (induction ps rule: escape.induct) (auto simp: Let_def)

lemma escape_Nil_iff [simp]: "escape ps = [] \<longleftrightarrow> ps = []"
  by (cases ps) auto

lemma parse_escaped:
  "parse_loop (Node t qs [] # st) root (escape ps @ bs) =
     parse_loop (Node t (qs @ escape ps) [] # st) root bs"
proof (induction ps arbitrary: qs)
  case (Cons b ps)
  then show ?case
    by (cases "b = ESCAPE \<or> b = START \<or> b = END_NODE") (auto simp del: parse_loop.simps(1))
qed simp

lemma parse_node:
  "parse_loop (Node t' ps' cs' # st) root (encode_node n @ bs) =
     parse_loop (Node t' ps' (cs' @ [escaped_node n]) # st) root bs"
proof (induction n arbitrary: t' ps' cs' st bs rule: encode_node.induct)
  case (1 t ps cs)
  have children: "parse_loop (Node t qs ds # st') root (concat (map encode_node es) @ bs') =
      parse_loop (Node t qs (ds @ map escaped_node es) # st') root bs'"
    if "set es \<subseteq> set cs" for qs ds es st' bs'
    using that
  proof (induction es arbitrary: ds)
    case (Cons e es)
    then show ?case using 1 [of e] by simp
  qed simp
  show ?case
    using children [where es = cs and qs = "escape ps" and ds = "[]"
        and st' = "Node t' ps' cs' # st" and bs' = "END_NODE # bs"]
    by (simp add: parse_escaped)
qed

text \<open>Property bytes after the root are skipped; they must not be reserved.\<close>

lemma parse_trailing:
  "START \<notin> set bs \<Longrightarrow> END_NODE \<notin> set bs \<Longrightarrow> ESCAPE \<notin> set bs \<Longrightarrow>
     parse_loop [] root bs = root"
  by (induction bs) auto

section \<open>Properties\<close>

text \<open>C20: A tree written in the format is parsed to the same tree, of any depth and width, with
  any type bytes and any property bytes, reserved ones included; and the properties that the
  loader then hands out are those that were written (false for a node without any).\<close>

theorem tree_round_trip:
  assumes "length ident = 4" and "ident = accepted \<or> ident = wildcard"
    and "n = Node t ps cs"
  shows "let file = ident @ encode_node n
         in (ps \<noteq> [] \<or> cs \<noteq> [] \<longrightarrow> loader accepted file) \<and>
            parseTree file = Some (escaped_node n) \<and>
            (\<forall>m. getProps (escaped_node m) = (if props m = [] then None else Some (props m)))"
proof -
  have children: "parse_loop [Node t qs ds] None (concat (map encode_node es) @ bs) =
      parse_loop [Node t qs (ds @ map escaped_node es)] None bs" for qs ds es bs
    by (induction es arbitrary: ds) (simp_all add: parse_node)
  have "parseTree (ident @ encode_node n) = Some (escaped_node n)"
    using assms(1) by (simp add: parseTree_def assms(3) parse_escaped children)
  moreover have "getProps (escaped_node m) = (if props m = [] then None else Some (props m))" for m
    by (cases m) (simp add: getProps_def)
  moreover have "loader accepted (ident @ encode_node n)" if "ps \<noteq> [] \<or> cs \<noteq> []"
  proof -
    have "0 < length (escape ps) + length (concat (map encode_node cs))"
    proof (cases cs)
      case Nil
      then show ?thesis using that by simp
    next
      case (Cons c cs')
      then show ?thesis by (cases c) simp
    qed
    then show ?thesis using assms(1,2) by (auto simp: loader_def assms(3))
  qed
  ultimately show ?thesis by (simp add: Let_def)
qed

lemma tree_round_trip_witness:
  "parseTree ([0, 0, 0, 0] @ encode_node (Node 0xFE [1, 0xFD, 0xFF] [Node 5 [] [], Node 6 [0xFE] []])) =
     Some (escaped_node (Node 0xFE [1, 0xFD, 0xFF] [Node 5 [] [], Node 6 [0xFE] []]))"
  using tree_round_trip [where ident = "[0, 0, 0, 0]" and accepted = "[0, 0, 0, 0]" and t = "0xFE"
      and ps = "[1, 0xFD, 0xFF]" and cs = "[Node 5 [] [], Node 6 [0xFE] []]"]
  by (simp add: Let_def)

end
