(* ===== verification/Matrix_Area.thy ===== *)
theory Matrix_Area
  imports Positions
begin

text \<open>
  The areas of spells: \<open>src/matrixarea.{h,cpp}\<close> and the class \<open>AreaCombat\<close> of
  \<open>src/combat.cpp\<close>. A matrix is a flat array, as the \<open>std::valarray\<close> of the code, read and
  written through slices; rows, columns and centre are 32-bit words. Writing outside of the
  array, which C++ leaves undefined, is None. The lemmas give each rotation by the
  cell it reads, from which the group laws and the geometry follow.
\<close>

section \<open>Slices of a valarray\<close>

definition slice_indices :: "nat \<Rightarrow> nat \<Rightarrow> nat \<Rightarrow> nat list" where
  "slice_indices start n stride = map (\<lambda>k. start + k * stride) [0..<n]"

definition slice_get :: "'a list \<Rightarrow> nat list \<Rightarrow> 'a list" where
  "slice_get xs is = map (nth xs) is"

fun slice_assign :: "'a list \<Rightarrow> nat list \<Rightarrow> 'a list \<Rightarrow> 'a list" where
  "slice_assign xs (i # is) (v # vs) = slice_assign (xs[i := v]) is vs"
| "slice_assign xs _ _ = xs"

section \<open>MatrixArea\<close>

record matrix_area =
  arr :: "bool list"
  center :: "u32 \<times> u32"
  rows :: u32
  cols :: u32

definition empty_area :: matrix_area where
  "empty_area = \<lparr>arr = [], center = (0, 0), rows = 0, cols = 0\<rparr>"

definition new_area :: "u32 \<Rightarrow> u32 \<Rightarrow> matrix_area" where
  "new_area r c =
     \<lparr>arr = replicate (unat (r * c)) False, center = (0, 0), rows = r, cols = c\<rparr>"

definition area_get :: "matrix_area \<Rightarrow> u32 \<Rightarrow> u32 \<Rightarrow> bool option" where
  "area_get a row col =
     (let i = unat (row * cols a + col) in if i < length (arr a) then Some (arr a ! i) else None)"

definition area_set :: "matrix_area \<Rightarrow> u32 \<Rightarrow> u32 \<Rightarrow> bool \<Rightarrow> matrix_area option" where
  "area_set a row col b =
     (let i = unat (row * cols a + col)
      in if i < length (arr a) then Some (a\<lparr>arr := (arr a)[i := b]\<rparr>) else None)"

definition setCenter :: "u32 \<Rightarrow> u32 \<Rightarrow> matrix_area \<Rightarrow> matrix_area" where
  "setCenter y x a = a\<lparr>center := (x, y)\<rparr>"

definition area_bool :: "matrix_area \<Rightarrow> bool" where
  "area_bool a \<longleftrightarrow> rows a = 0 \<or> cols a = 0"

definition rotate90 :: "matrix_area \<Rightarrow> matrix_area" where
  "rotate90 a =
     (let R = unat (rows a); C = unat (cols a)
      in \<lparr>arr = fold (\<lambda>i new. slice_assign new (slice_indices i C R)
                  (slice_get (arr a)
                     (slice_indices (unat ((rows a - word_of_nat i - 1) * cols a)) C 1)))
                [0..<R] (replicate (length (arr a)) False),
          center = (rows a - snd (center a) - 1, fst (center a)), rows = cols a, cols = rows a\<rparr>)"

definition rotate180 :: "matrix_area \<Rightarrow> matrix_area" where
  "rotate180 a =
     \<lparr>arr = rev (arr a),
      center = (cols a - fst (center a) - 1, rows a - snd (center a) - 1),
      rows = rows a, cols = cols a\<rparr>"

definition rotate270 :: "matrix_area \<Rightarrow> matrix_area" where
  "rotate270 a =
     (let R = unat (rows a); C = unat (cols a)
      in \<lparr>arr = fold (\<lambda>i new. slice_assign new (slice_indices (unat (word_of_nat i * rows a)) R 1)
                  (slice_get (arr a) (slice_indices (unat (cols a - word_of_nat i - 1)) R C)))
                [0..<C] (replicate (length (arr a)) False),
          center = (snd (center a), cols a - fst (center a) - 1), rows = cols a, cols = rows a\<rparr>)"

text \<open>The loop of \<open>createArea\<close>, with its running column and row.\<close>

fun createArea_from :: "u32 list \<Rightarrow> u32 \<Rightarrow> u32 \<Rightarrow> matrix_area \<Rightarrow> matrix_area option" where
  "createArea_from [] x y a = Some a"
| "createArea_from (v # vs) x y a =
     (case (if v = 1 \<or> v = 3 then area_set a y x True else Some a) of
        None \<Rightarrow> None
      | Some a1 \<Rightarrow>
          let a2 = (if v = 2 \<or> v = 3 then setCenter y x a1 else a1); x' = x + 1
          in if cols a = x' then createArea_from vs 0 (y + 1) a2 else createArea_from vs x' y a2)"

definition createArea :: "u32 list \<Rightarrow> u32 \<Rightarrow> matrix_area option" where
  "createArea vec r =
     (let c = (if r = 0 then 0 else word_of_nat (length vec div unat r))
      in createArea_from vec 0 0 (new_area r c))"

section \<open>AreaCombat\<close>

record area_combat =
  areas :: "matrix_area list"
  hasExtArea :: bool

definition new_area_combat :: area_combat where
  "new_area_combat = \<lparr>areas = [], hasExtArea = False\<rparr>"

definition resize_areas :: "nat \<Rightarrow> matrix_area list \<Rightarrow> matrix_area list" where
  "resize_areas n as = take n as @ replicate (n - length as) empty_area"

definition direction_index :: "Direction \<Rightarrow> nat" where
  "direction_index d = unat (direction_code d)"

definition setupArea :: "u32 list \<Rightarrow> u32 \<Rightarrow> area_combat \<Rightarrow> area_combat option" where
  "setupArea vec r ac =
     (case createArea vec r of
        None \<Rightarrow> None
      | Some area \<Rightarrow>
          let as = (if length (areas ac) = 0 then resize_areas 4 (areas ac) else areas ac)
          in Some (ac\<lparr>areas :=
               as[direction_index DIRECTION_EAST := rotate90 area,
                  direction_index DIRECTION_SOUTH := rotate180 area,
                  direction_index DIRECTION_WEST := rotate270 area,
                  direction_index DIRECTION_NORTH := area]\<rparr>))"

definition setupExtArea :: "u32 list \<Rightarrow> u32 \<Rightarrow> area_combat \<Rightarrow> area_combat option" where
  "setupExtArea vec r ac =
     (if vec = [] then Some ac
      else case createArea vec r of
        None \<Rightarrow> None
      | Some area \<Rightarrow>
          Some (ac\<lparr>hasExtArea := True,
               areas := (resize_areas 8 (areas ac))
                 [direction_index DIRECTION_NORTHEAST := rotate90 area,
                  direction_index DIRECTION_SOUTHEAST := rotate180 area,
                  direction_index DIRECTION_SOUTHWEST := rotate270 area,
                  direction_index DIRECTION_NORTHWEST := area]\<rparr>))"

text \<open>The rows of a beam: row \<open>y\<close> counts from 1, \<open>colSpread\<close> is its running width. The
  divisions have a positive divisor; \<open>length\<close> and \<open>spread\<close> are non-negative.\<close>

definition beam_cell :: "int \<Rightarrow> int \<Rightarrow> int \<Rightarrow> int \<Rightarrow> int \<Rightarrow> u32" where
  "beam_cell r c colSpread y x =
     (let mincol = c - colSpread + 1; maxcol = c - (c - colSpread)
      in if y = r \<and> x = (c - c mod 2) div 2 + 1 then 3
         else if mincol \<le> x \<and> x \<le> maxcol then 1 else 0)"

fun beam_rows :: "nat \<Rightarrow> int \<Rightarrow> int \<Rightarrow> int \<Rightarrow> int \<Rightarrow> int \<Rightarrow> u32 list" where
  "beam_rows 0 r c spread colSpread y = []"
| "beam_rows (Suc n) r c spread colSpread y =
     map (beam_cell r c colSpread y) [1..c] @
     beam_rows n r c spread
       (if spread > 0 \<and> y mod spread = 0 then colSpread - 1 else colSpread) (y + 1)"

definition beam_cols :: "nat \<Rightarrow> nat \<Rightarrow> int" where
  "beam_cols len spread =
     (if spread \<noteq> 0 then (int len - int len mod int spread) div int spread * 2 + 1 else 1)"

definition beam_vec :: "nat \<Rightarrow> nat \<Rightarrow> u32 list" where
  "beam_vec len spread =
     (let c = beam_cols len spread in beam_rows len (int len) c (int spread) c 1)"

definition setupArea_beam :: "nat \<Rightarrow> nat \<Rightarrow> area_combat \<Rightarrow> area_combat option" where
  "setupArea_beam len spread = setupArea (beam_vec len spread) (word_of_nat len)"

definition circle_table :: "int list list" where
  "circle_table =
    [[0, 0, 0, 0, 0, 0, 8, 0, 0, 0, 0, 0, 0],
     [0, 0, 0, 0, 8, 8, 7, 8, 8, 0, 0, 0, 0],
     [0, 0, 0, 8, 7, 6, 6, 6, 7, 8, 0, 0, 0],
     [0, 0, 8, 7, 6, 5, 5, 5, 6, 7, 8, 0, 0],
     [0, 8, 7, 6, 5, 4, 4, 4, 5, 6, 7, 8, 0],
     [0, 8, 6, 5, 4, 3, 2, 3, 4, 5, 6, 8, 0],
     [8, 7, 6, 5, 4, 2, 1, 2, 4, 5, 6, 7, 8],
     [0, 8, 6, 5, 4, 3, 2, 3, 4, 5, 6, 8, 0],
     [0, 8, 7, 6, 5, 4, 4, 4, 5, 6, 7, 8, 0],
     [0, 0, 8, 7, 6, 5, 5, 5, 6, 7, 8, 0, 0],
     [0, 0, 0, 8, 7, 6, 6, 6, 7, 8, 0, 0, 0],
     [0, 0, 0, 0, 8, 8, 7, 8, 8, 0, 0, 0, 0],
     [0, 0, 0, 0, 0, 0, 8, 0, 0, 0, 0, 0, 0]]"

definition circle_cell :: "int \<Rightarrow> int \<Rightarrow> u32" where
  "circle_cell radius cell = (if cell = 1 then 3 else if cell > 0 \<and> cell \<le> radius then 1 else 0)"

definition circle_vec :: "int \<Rightarrow> u32 list" where
  "circle_vec radius = map (circle_cell radius) (concat circle_table)"

definition setupArea_circle :: "int \<Rightarrow> area_combat \<Rightarrow> area_combat option" where
  "setupArea_circle radius = setupArea (circle_vec radius) 13"

definition ring_table :: "int list list" where
  "ring_table =
    [[0, 0, 0, 0, 0, 7, 7, 7, 0, 0, 0, 0, 0],
     [0, 0, 0, 0, 7, 6, 6, 6, 7, 0, 0, 0, 0],
     [0, 0, 0, 7, 6, 5, 5, 5, 6, 7, 0, 0, 0],
     [0, 0, 7, 6, 5, 4, 4, 4, 5, 6, 7, 0, 0],
     [0, 7, 6, 5, 4, 3, 3, 3, 4, 5, 6, 7, 0],
     [7, 6, 5, 4, 3, 2, 0, 2, 3, 4, 5, 6, 7],
     [7, 6, 5, 4, 3, 0, 1, 0, 3, 4, 5, 6, 7],
     [7, 6, 5, 4, 3, 2, 0, 2, 3, 4, 5, 6, 7],
     [0, 7, 6, 5, 4, 3, 3, 3, 4, 5, 6, 7, 0],
     [0, 0, 7, 6, 5, 4, 4, 4, 5, 6, 7, 0, 0],
     [0, 0, 0, 7, 6, 5, 5, 5, 6, 7, 0, 0, 0],
     [0, 0, 0, 0, 7, 6, 6, 6, 7, 0, 0, 0, 0],
     [0, 0, 0, 0, 0, 7, 7, 7, 0, 0, 0, 0, 0]]"

definition ring_cell :: "int \<Rightarrow> int \<Rightarrow> u32" where
  "ring_cell ring cell = (if cell = 1 then 3 else if cell > 0 \<and> cell = ring then 1 else 0)"

definition ring_vec :: "int \<Rightarrow> u32 list" where
  "ring_vec ring = map (ring_cell ring) (concat ring_table)"

definition setupAreaRing :: "int \<Rightarrow> area_combat \<Rightarrow> area_combat option" where
  "setupAreaRing ring = setupArea (ring_vec ring) 13"

definition area_direction :: "area_combat \<Rightarrow> position \<Rightarrow> position \<Rightarrow> Direction" where
  "area_direction ac centerPos targetPos =
     (let dx = getOffsetX targetPos centerPos; dy = getOffsetY targetPos centerPos;
          dir = (if dx < 0 then DIRECTION_WEST else if dx > 0 then DIRECTION_EAST
                 else if dy < 0 then DIRECTION_NORTH else DIRECTION_SOUTH)
      in if \<not> hasExtArea ac then dir
         else if dx < 0 \<and> dy < 0 then DIRECTION_NORTHWEST
         else if dx > 0 \<and> dy < 0 then DIRECTION_NORTHEAST
         else if dx < 0 \<and> dy > 0 then DIRECTION_SOUTHWEST
         else if dx > 0 \<and> dy > 0 then DIRECTION_SOUTHEAST
         else dir)"

definition getArea :: "area_combat \<Rightarrow> position \<Rightarrow> position \<Rightarrow> matrix_area" where
  "getArea ac centerPos targetPos =
     (let i = direction_index (area_direction ac centerPos targetPos)
      in if i \<ge> length (areas ac) then empty_area else areas ac ! i)"

section \<open>Rotations cell by cell\<close>

definition area_ok :: "matrix_area \<Rightarrow> bool" where
  "area_ok a \<longleftrightarrow>
     length (arr a) = unat (rows a) * unat (cols a) \<and> unat (rows a) * unat (cols a) < 2 ^ 32"

lemma length_slice_assign [simp]: "length (slice_assign xs is vs) = length xs"
  by (induction xs "is" vs rule: slice_assign.induct) auto

lemma slice_assign_append:
  "slice_assign xs (is @ [i]) (map f (is @ [i])) = (slice_assign xs is (map f is))[i := f i]"
  by (induction "is" arbitrary: xs) auto

lemma nth_slice_assign:
  "k < length xs \<Longrightarrow> slice_assign xs is (map f is) ! k = (if k \<in> set is then f k else xs ! k)"
proof (induction "is" rule: rev_induct)
  case (snoc i "is")
  then show ?case by (cases "i = k") (simp_all only: slice_assign_append length_slice_assign nth_list_update, auto)
qed simp

lemma in_column_less:
  assumes "i < (s :: nat)"
  shows "k \<in> set (slice_indices i n s) \<longleftrightarrow> k mod s = i \<and> k div s < n"
proof -
  have "k \<in> set (slice_indices i n s) \<longleftrightarrow> (\<exists>j<n. k = i + j * s)"
    by (auto simp: slice_indices_def)
  also have "\<dots> \<longleftrightarrow> k mod s = i \<and> k div s < n"
    using assms by (auto intro!: exI [of _ "k div s"])
  finally show ?thesis .
qed

lemma in_row:
  assumes "0 < (n :: nat)"
  shows "k \<in> set (slice_indices (i * n) n 1) \<longleftrightarrow> k div n = i"
proof -
  have "k \<in> set (slice_indices (i * n) n 1) \<longleftrightarrow> i * n \<le> k \<and> k < i * n + n"
    by (auto simp: slice_indices_def image_iff intro!: bexI [of _ "k - i * n"])
  also have "\<dots> \<longleftrightarrow> k div n = i"
    using assms by (auto simp: div_nat_eqI dividend_less_times_div algebra_simps)
  finally show ?thesis .
qed

lemma slice_get_column:
  assumes "i < s"
  shows "slice_get xs (slice_indices j n 1) =
    map (\<lambda>k. xs ! (j + k div s)) (slice_indices i n s)"
  using assms by (auto simp: slice_get_def slice_indices_def)

lemma slice_get_row:
  assumes "0 < n"
  shows "slice_get xs (slice_indices j n s) =
    map (\<lambda>k. xs ! (j + (k mod n) * s)) (slice_indices (i * n) n 1)"
  using assms by (auto simp: slice_get_def slice_indices_def)

lemma length_fold_slice [simp]:
  "length (fold (\<lambda>i new. slice_assign new (f i) (g i)) is xs) = length xs"
  by (induction "is" arbitrary: xs) auto

lemma unat_row_start:
  assumes "i < unat (r :: u32)" and "unat r * unat (c :: u32) < 2 ^ 32"
  shows "unat ((r - word_of_nat i - 1) * c) = (unat r - 1 - i) * unat c"
proof -
  have 1: "unat (word_of_nat i :: u32) = i"
    using assms(1) unsigned_less [of r, where 'a = nat] by (simp add: unat_of_nat)
  have 2: "unat (r - word_of_nat i - 1) = unat r - 1 - i"
    using assms(1) 1 by (subst unat_sub, simp add: word_le_nat_alt unat_sub)
      (simp add: word_le_nat_alt unat_sub)
  have "(unat r - 1 - i) * unat c \<le> unat r * unat c" by simp
  then have "(unat r - 1 - i) * unat c < 2 ^ 32" using assms(2) by linarith
  then show ?thesis by (simp add: unat_word_ariths 2)
qed

lemma unat_col_start:
  assumes "i < unat (c :: u32)"
  shows "unat (c - word_of_nat i - 1) = unat c - 1 - i"
  using unat_row_start [of i c 1] assms unsigned_less [of c, where 'a = nat] by simp

lemma unat_row_offset:
  assumes "i < unat (c :: u32)" and "unat (r :: u32) * unat c < 2 ^ 32"
  shows "unat (word_of_nat i * r) = i * unat r"
proof -
  have "unat (word_of_nat i :: u32) = i"
    using assms(1) unsigned_less [of c, where 'a = nat] by (simp add: unat_of_nat)
  moreover have "i * unat r \<le> unat c * unat r" using assms(1) by (simp add: mult_le_mono1)
  then have "i * unat r < 2 ^ 32" using assms(2) mult.commute [of "unat r" "unat c"] by linarith
  ultimately show ?thesis by (simp add: unat_word_ariths)
qed

lemma nth_assign_column:
  assumes "m < R" and "k < length xs"
  shows "slice_assign xs (slice_indices m C R) (slice_get ys (slice_indices j C 1)) ! k =
         (if k mod R = m \<and> k div R < C then ys ! (j + k div R) else xs ! k)"
  by (subst slice_get_column [OF assms(1)], subst nth_slice_assign [OF assms(2)])
     (simp add: in_column_less [OF assms(1)])

lemma nth_assign_row:
  assumes "0 < R" and "k < length xs"
  shows "slice_assign xs (slice_indices (m * R) R 1) (slice_get ys (slice_indices j R C)) ! k =
         (if k div R = m then ys ! (j + (k mod R) * C) else xs ! k)"
  by (subst slice_get_row [OF assms(1), where i = m], subst nth_slice_assign [OF assms(2)],
      subst in_row [OF assms(1)]) simp

lemma fold_columns:
  assumes "m \<le> R" and "k < length xs" and "k < R * C"
  shows "fold (\<lambda>i new. slice_assign new (slice_indices i C R) (slice_get ys (slice_indices (g i) C 1)))
           [0..<m] xs ! k =
         (if k mod R < m then ys ! (g (k mod R) + k div R) else xs ! k)"
  using assms(1)
proof (induction m)
  case (Suc m)
  have "k div R < C" using assms(3) by (simp add: less_mult_imp_div_less mult.commute)
  moreover have "m < R" using Suc.prems by simp
  ultimately show ?case
    using Suc by (simp add: nth_assign_column [unfolded One_nat_def] assms(2) less_Suc_eq)
qed simp

lemma fold_rows:
  assumes "k < length xs" and "0 < R"
  shows "fold (\<lambda>i new. slice_assign new (slice_indices (i * R) R 1) (slice_get ys (slice_indices (g i) R C)))
           [0..<m] xs ! k =
         (if k div R < m then ys ! (g (k div R) + (k mod R) * C) else xs ! k)"
  by (induction m) (simp_all add: nth_assign_row [unfolded One_nat_def] assms less_Suc_eq)

lemma fold_cong_upt:
  "(\<And>i. i < n \<Longrightarrow> f i = g i) \<Longrightarrow> fold f [0..<n] xs = fold g [0..<n] xs"
  by (rule fold_cong) auto

lemma length_rotate [simp]:
  "length (arr (rotate90 a)) = length (arr a)"
  "length (arr (rotate180 a)) = length (arr a)"
  "length (arr (rotate270 a)) = length (arr a)"
  by (simp_all add: rotate90_def rotate180_def rotate270_def Let_def)

lemma rows_rotate [simp]:
  "rows (rotate90 a) = cols a" "rows (rotate180 a) = rows a" "rows (rotate270 a) = cols a"
  "cols (rotate90 a) = rows a" "cols (rotate180 a) = cols a" "cols (rotate270 a) = rows a"
  by (simp_all add: rotate90_def rotate180_def rotate270_def Let_def)

lemma center_rotate [simp]:
  "center (rotate90 a) = (rows a - snd (center a) - 1, fst (center a))"
  "center (rotate180 a) = (cols a - fst (center a) - 1, rows a - snd (center a) - 1)"
  "center (rotate270 a) = (snd (center a), cols a - fst (center a) - 1)"
  by (simp_all add: rotate90_def rotate180_def rotate270_def Let_def)

lemma area_ok_rotate [simp]:
  assumes "area_ok a"
  shows "area_ok (rotate90 a)" "area_ok (rotate180 a)" "area_ok (rotate270 a)"
  using assms by (simp_all add: area_ok_def mult.commute)

lemma nth_rotate90:
  assumes "area_ok a" and "k < length (arr a)"
  shows "arr (rotate90 a) ! k =
         arr a ! ((unat (rows a) - 1 - k mod unat (rows a)) * unat (cols a) + k div unat (rows a))"
proof -
  let ?R = "unat (rows a)" and ?C = "unat (cols a)"
  have R: "0 < ?R" and k: "k < ?R * ?C" using assms by (auto simp: area_ok_def intro: Nat.gr0I)
  have eq: "arr (rotate90 a) =
      fold (\<lambda>i new. slice_assign new (slice_indices i ?C ?R)
        (slice_get (arr a) (slice_indices ((?R - 1 - i) * ?C) ?C 1)))
      [0..<?R] (replicate (length (arr a)) False)"
    using assms unfolding rotate90_def Let_def
    by (simp, intro fold_cong_upt) (simp add: unat_row_start area_ok_def)
  show ?thesis
    unfolding eq using R k assms(2) by (subst fold_columns) auto
qed

lemma nth_rotate180:
  assumes "k < length (arr a)"
  shows "arr (rotate180 a) ! k = arr a ! (length (arr a) - 1 - k)"
  using assms by (simp add: rotate180_def rev_nth)

lemma nth_rotate270:
  assumes "area_ok a" and "k < length (arr a)"
  shows "arr (rotate270 a) ! k =
         arr a ! (unat (cols a) - 1 - k div unat (rows a) + (k mod unat (rows a)) * unat (cols a))"
proof -
  let ?R = "unat (rows a)" and ?C = "unat (cols a)"
  have R: "0 < ?R" and k: "k < ?C * ?R" using assms by (auto simp: area_ok_def mult.commute intro: Nat.gr0I)
  have eq: "arr (rotate270 a) =
      fold (\<lambda>i new. slice_assign new (slice_indices (i * ?R) ?R 1)
        (slice_get (arr a) (slice_indices (?C - 1 - i) ?R ?C)))
      [0..<?C] (replicate (length (arr a)) False)"
    using assms unfolding rotate270_def Let_def
    by (simp, intro fold_cong_upt) (simp add: unat_row_offset unat_col_start area_ok_def)
  have "k div ?R < ?C" using k by (simp add: less_mult_imp_div_less)
  then show ?thesis
    unfolding eq using R assms(2) by (subst fold_rows) auto
qed

section \<open>Cells\<close>

definition cell :: "matrix_area \<Rightarrow> nat \<Rightarrow> nat \<Rightarrow> bool" where
  "cell a x y \<longleftrightarrow> x < unat (cols a) \<and> y < unat (rows a) \<and> arr a ! (y * unat (cols a) + x)"

lemma cell_index_less: "x < (c :: nat) \<Longrightarrow> y < r \<Longrightarrow> y * c + x < r * c"
proof -
  assume "x < c" "y < r"
  then have "y * c + x < Suc y * c" by simp
  also have "\<dots> \<le> r * c" using \<open>y < r\<close> by (intro mult_le_mono1) simp
  finally show ?thesis .
qed

lemma cell_rotate90:
  assumes "area_ok a" and "x < unat (rows a)"
  shows "cell (rotate90 a) x y = cell a y (unat (rows a) - 1 - x)"
proof (cases "y < unat (cols a)")
  case True
  have "y * unat (rows a) + x < length (arr a)"
    using assms True cell_index_less [of x "unat (rows a)" y "unat (cols a)"]
    by (simp add: area_ok_def mult.commute)
  with assms show ?thesis by (simp add: cell_def nth_rotate90)
qed (simp add: cell_def)

lemma cell_rotate180:
  assumes "area_ok a" and "x < unat (cols a)" and "y < unat (rows a)"
  shows "cell (rotate180 a) x y = cell a (unat (cols a) - 1 - x) (unat (rows a) - 1 - y)"
proof -
  let ?R = "unat (rows a)" and ?C = "unat (cols a)"
  have less: "y * ?C + x < ?R * ?C" using cell_index_less assms(2,3) .
  obtain r c where "?R = Suc (y + r)" and "?C = Suc (x + c)"
    using assms(2,3) less_iff_Suc_add by metis
  then have "?R * ?C - 1 - (y * ?C + x) = (?R - 1 - y) * ?C + (?C - 1 - x)"
    by (simp add: add_mult_distrib)
  then show ?thesis
    using assms less by (simp add: cell_def nth_rotate180 area_ok_def)
qed

lemma cell_rotate270:
  assumes "area_ok a" and "y < unat (cols a)"
  shows "cell (rotate270 a) x y = cell a (unat (cols a) - 1 - y) x"
proof (cases "x < unat (rows a)")
  case True
  have "y * unat (rows a) + x < length (arr a)"
    using assms True cell_index_less [of x "unat (rows a)" y "unat (cols a)"]
    by (simp add: area_ok_def mult.commute)
  with assms True show ?thesis by (simp add: cell_def nth_rotate270 add.commute)
qed (simp add: cell_def)

lemma area_eqI:
  assumes "area_ok a" and "area_ok b" and "rows a = rows b" and "cols a = cols b"
    and "center a = center b"
    and cells: "\<And>x y. x < unat (cols a) \<Longrightarrow> y < unat (rows a) \<Longrightarrow> cell a x y = cell b x y"
  shows "a = b"
proof -
  have "arr a = arr b"
  proof (rule nth_equalityI)
    show "length (arr a) = length (arr b)" using assms(1-4) by (simp add: area_ok_def)
    fix k assume "k < length (arr a)"
    then have k: "k < unat (rows a) * unat (cols a)" using assms(1) by (simp add: area_ok_def)
    then have C: "0 < unat (cols a)" by (intro Nat.gr0I) simp
    have "k mod unat (cols a) < unat (cols a)" "k div unat (cols a) < unat (rows a)"
      using k C by (simp_all add: less_mult_imp_div_less)
    from cells [OF this] this show "arr a ! k = arr b ! k" by (simp add: cell_def assms(3,4))
  qed
  with assms(3-5) show ?thesis by simp
qed

lemma rotate90_rotate90: "area_ok a \<Longrightarrow> rotate90 (rotate90 a) = rotate180 a"
  by (rule area_eqI) (simp_all add: cell_rotate90 cell_rotate180)

lemma rotate90_rotate180: "area_ok a \<Longrightarrow> rotate90 (rotate180 a) = rotate270 a"
  by (rule area_eqI) (simp_all add: cell_rotate90 cell_rotate180 cell_rotate270)

lemma rotate90_rotate270: "area_ok a \<Longrightarrow> rotate90 (rotate270 a) = a"
  by (rule area_eqI) (simp_all add: cell_rotate90 cell_rotate270)

text \<open>A cell by its offset from the centre.\<close>

definition area_at :: "matrix_area \<Rightarrow> int \<Rightarrow> int \<Rightarrow> bool" where
  "area_at a ox oy \<longleftrightarrow>
     (let x = uint (fst (center a)) + ox; y = uint (snd (center a)) + oy
      in 0 \<le> x \<and> 0 \<le> y \<and> cell a (nat x) (nat y))"

definition center_in :: "matrix_area \<Rightarrow> bool" where
  "center_in a \<longleftrightarrow> fst (center a) < cols a \<and> snd (center a) < rows a"

lemma uint_mirror: "(c :: u32) < r \<Longrightarrow> uint (r - c - 1) = uint r - 1 - uint c"
  by (subst uint_sub_lem [THEN iffD1], simp add: word_le_def word_less_def uint_sub_lem [THEN iffD1])
     (simp add: word_less_def word_le_def uint_sub_lem [THEN iffD1])

lemma center_in_rotate90 [simp]: "center_in a \<Longrightarrow> center_in (rotate90 a)"
  using uint_ge_0 [of "snd (center a)"]
  by (simp add: center_in_def word_less_def uint_mirror del: uint_ge_0 unsigned_greater_eq)

lemma cell_row: "cell a x y \<Longrightarrow> int y < uint (rows a)"
  by (simp add: cell_def flip: of_nat_less_iff [where 'a = int])

lemma cell_column: "cell a x y \<Longrightarrow> int x < uint (cols a)"
  by (simp add: cell_def flip: of_nat_less_iff [where 'a = int])

lemma area_at_rotate90:
  assumes "area_ok a" and "center_in a"
  shows "area_at (rotate90 a) (- oy) ox = area_at a ox oy"
proof -
  let ?R = "uint (rows a)" and ?cy = "uint (snd (center a))"
  have cy: "0 \<le> ?cy" "?cy < ?R" using assms(2) by (simp_all add: center_in_def word_less_def)
  have at90: "area_at (rotate90 a) (- oy) ox \<longleftrightarrow>
      0 \<le> ?R - 1 - ?cy - oy \<and> 0 \<le> uint (fst (center a)) + ox \<and>
      cell (rotate90 a) (nat (?R - 1 - ?cy - oy)) (nat (uint (fst (center a)) + ox))"
    using assms(2) by (simp add: area_at_def Let_def center_in_def uint_mirror)
  show ?thesis
  proof (cases "0 \<le> ?cy + oy \<and> ?cy + oy < ?R")
    case True
    then have x: "0 \<le> ?R - 1 - ?cy - oy" "nat (?R - 1 - ?cy - oy) < unat (rows a)"
      "unat (rows a) - 1 - nat (?R - 1 - ?cy - oy) = nat (?cy + oy)"
      using cy unfolding unat_eq_nat_uint by (simp, linarith, linarith)
    show ?thesis
      unfolding at90 cell_rotate90 [OF assms(1) x(2)] x(3) using True x(1)
      by (auto simp: area_at_def Let_def)
  next
    case False
    have "\<not> area_at a ox oy"
    proof
      assume "area_at a ox oy"
      then have "0 \<le> ?cy + oy" "cell a (nat (uint (fst (center a)) + ox)) (nat (?cy + oy))"
        by (simp_all add: area_at_def Let_def)
      with False cell_row [OF this(2)] show False by simp
    qed
    moreover have "\<not> area_at (rotate90 a) (- oy) ox"
    proof
      assume "area_at (rotate90 a) (- oy) ox"
      then have "0 \<le> ?R - 1 - ?cy - oy" "int (nat (?R - 1 - ?cy - oy)) < ?R"
        unfolding at90 by (auto dest: cell_column)
      with False show False by linarith
    qed
    ultimately show ?thesis by simp
  qed
qed

section \<open>The matrix that createArea reads\<close>

definition marked :: "u32 \<Rightarrow> bool" where
  "marked v \<longleftrightarrow> v = 1 \<or> v = 3"

definition centers :: "u32 \<Rightarrow> bool" where
  "centers v \<longleftrightarrow> v = 2 \<or> v = 3"

fun center_of :: "nat \<Rightarrow> nat \<Rightarrow> u32 list \<Rightarrow> u32 \<times> u32 \<Rightarrow> u32 \<times> u32" where
  "center_of C i [] c = c"
| "center_of C i (v # vs) c =
     center_of C (Suc i) vs
       (if centers v then (word_of_nat (i mod C), word_of_nat (i div C)) else c)"

lemma center_of_none: "\<forall>v\<in>set vs. \<not> centers v \<Longrightarrow> center_of C i vs c = c"
  by (induction vs arbitrary: i) auto

lemma center_of_last:
  assumes "\<forall>v\<in>set ws. \<not> centers v" and "centers v"
  shows "center_of C i (us @ v # ws) c =
         (word_of_nat ((i + length us) mod C), word_of_nat ((i + length us) div C))"
  using assms by (induction us arbitrary: i c) (auto simp: center_of_none)

lemma unat_cell:
  assumes "n < 2 ^ 32"
  shows "unat ((word_of_nat (n div C) :: u32) * word_of_nat C + word_of_nat (n mod C)) = n"
proof -
  have "(word_of_nat (n div C) :: u32) * word_of_nat C + word_of_nat (n mod C) = word_of_nat n"
    by (simp flip: of_nat_mult of_nat_add)
  then show ?thesis using assms by (simp add: unat_of_nat)
qed

definition put_cell :: "nat \<Rightarrow> nat \<Rightarrow> u32 \<Rightarrow> matrix_area \<Rightarrow> matrix_area" where
  "put_cell C i v a =
     (if centers v then setCenter (word_of_nat (i div C)) (word_of_nat (i mod C)) else id)
       (if marked v then a\<lparr>arr := (arr a)[i := True]\<rparr> else a)"

lemma put_cell_simps [simp]:
  "cols (put_cell C i v a) = cols a" "rows (put_cell C i v a) = rows a"
  "arr (put_cell C i v a) = (if marked v then (arr a)[i := True] else arr a)"
  "center (put_cell C i v a) =
     (if centers v then (word_of_nat (i mod C), word_of_nat (i div C)) else center a)"
  by (simp_all add: put_cell_def setCenter_def)

lemma createArea_from_step:
  assumes "i < 2 ^ 32" and "0 < C" and "C < 2 ^ 32" and "cols a = word_of_nat C"
  shows "createArea_from (v # vs) (word_of_nat (i mod C)) (word_of_nat (i div C)) a =
         (if marked v \<and> length (arr a) \<le> i then None
          else createArea_from vs (word_of_nat (Suc i mod C)) (word_of_nat (Suc i div C))
                 (put_cell C i v a))"
proof -
  let ?x = "word_of_nat (i mod C) :: u32" and ?y = "word_of_nat (i div C) :: u32"
  have idx: "unat (?y * cols a + ?x) = i"
    using unat_cell [OF assms(1)] by (simp add: assms(4))
  have "(word_of_nat (Suc (i mod C)) :: u32) = word_of_nat C \<longleftrightarrow> Suc (i mod C) = C"
    using assms(2,3) mod_less_divisor [OF assms(2), of i]
    by (subst word_unat_eq_iff) (simp add: unat_of_nat del: of_nat_Suc)
  then have wrap: "cols a = ?x + 1 \<longleftrightarrow> Suc (i mod C) = C"
    using assms(4) by (auto simp: add.commute)
  have next': "?x + 1 = word_of_nat (Suc (i mod C))" "?y + 1 = word_of_nat (Suc (i div C))"
    by (simp_all add: add.commute)
  show ?thesis
  proof (cases "marked v \<and> length (arr a) \<le> i")
    case True
    then show ?thesis using idx by (auto simp: area_set_def Let_def marked_def)
  next
    case False
    then have set1: "(if v = 1 \<or> v = 3 then area_set a ?y ?x True else Some a) =
        Some (if marked v then a\<lparr>arr := (arr a)[i := True]\<rparr> else a)"
      using idx by (auto simp: area_set_def Let_def marked_def)
    then show ?thesis
      using wrap unfolding if_not_P [OF False] createArea_from.simps set1 next' put_cell_def
      by (simp add: Let_def centers_def setCenter_def mod_Suc div_Suc del: of_nat_Suc)
  qed
qed

lemma createArea_from_eq:
  assumes "length pre + length vs = n" and "n < 2 ^ 32" and "0 < C" and "C \<le> n"
    and "cols a = word_of_nat C" and "arr a = map marked pre @ replicate (length vs) False"
  shows "createArea_from vs (word_of_nat (length pre mod C)) (word_of_nat (length pre div C)) a =
         Some (a\<lparr>arr := map marked (pre @ vs), center := center_of C (length pre) vs (center a)\<rparr>)"
  using assms(1,5,6)
proof (induction vs arbitrary: pre a)
  case (Cons v vs)
  let ?a = "put_cell C (length pre) v a"
  have "createArea_from (v # vs) (word_of_nat (length pre mod C)) (word_of_nat (length pre div C)) a =
      createArea_from vs (word_of_nat (length (pre @ [v]) mod C))
        (word_of_nat (length (pre @ [v]) div C)) ?a"
    using Cons.prems assms(2-4) by (subst createArea_from_step) simp_all
  also have "\<dots> = Some (?a\<lparr>arr := map marked ((pre @ [v]) @ vs),
      center := center_of C (length (pre @ [v])) vs (center ?a)\<rparr>)"
    using Cons.prems by (intro Cons.IH) (simp_all add: list_update_append)
  finally show ?case by (simp add: put_cell_def setCenter_def)
qed simp

lemma createArea_eq:
  assumes "length vec = unat r * C" and "length vec < 2 ^ 32" and "0 < length vec"
  shows "createArea vec r =
         Some \<lparr>arr = map marked vec, center = center_of C 0 vec (0, 0), rows = r,
               cols = word_of_nat C\<rparr>"
proof -
  have r: "0 < unat r" "0 < C" using assms(1,3) by auto
  then have "r \<noteq> 0" by auto
  have c: "length vec div unat r = C" using assms(1) r by simp
  have "C \<le> length vec" using assms(1) r by simp
  then have C: "unat (word_of_nat C :: u32) = C" using assms(2) by (simp add: unat_of_nat)
  have len: "unat (r * word_of_nat C) = length vec"
    using assms(1,2) C by (simp add: unat_word_ariths)
  show ?thesis
    using createArea_from_eq [of "[]" vec "length vec" C "new_area r (word_of_nat C)"] assms(2) r
      \<open>C \<le> length vec\<close> \<open>r \<noteq> 0\<close>
    by (simp add: createArea_def Let_def c new_area_def len)
qed

lemma createArea_ok:
  assumes "length vec = unat r * C" and "length vec < 2 ^ 32" and "0 < length vec"
    and "createArea vec r = Some a"
  shows "area_ok a" and "rows a = r" and "unat (cols a) = C"
proof -
  have "0 < unat r" "C \<le> length vec" using assms(1,3) by auto
  then have C: "unat (word_of_nat C :: u32) = C" using assms(2) by (simp add: unat_of_nat)
  show "rows a = r" "unat (cols a) = C" using createArea_eq [OF assms(1-3)] assms(4) C by auto
  show "area_ok a" using createArea_eq [OF assms(1-3)] assms C by (auto simp: area_ok_def)
qed

lemma cell_createArea:
  assumes "length vec = unat r * C" and "length vec < 2 ^ 32" and "0 < length vec"
    and "createArea vec r = Some a" and "x < C" and "y < unat r"
  shows "cell a x y \<longleftrightarrow> marked (vec ! (y * C + x))"
proof -
  have "y * C + x < length vec" using cell_index_less [OF assms(5,6)] assms(1) by simp
  moreover have "arr a = map marked vec" using createArea_eq [OF assms(1-3)] assms(4) by auto
  ultimately show ?thesis using createArea_ok [OF assms(1-4)] assms(5,6) by (simp add: cell_def)
qed

lemma center_in_createArea:
  assumes "length vec = unat r * C" and "length vec < 2 ^ 32" and "v \<in> set vec" and "centers v"
    and "createArea vec r = Some a"
  shows "center_in a"
proof -
  have len: "0 < length vec" using assms(3) by (cases vec) auto
  then have C: "0 < C" "C \<le> length vec" using assms(1) by auto
  obtain us w ws where vec: "vec = us @ w # ws" "centers w" "\<forall>v\<in>set ws. \<not> centers v"
    using split_list_last_prop [of vec centers] assms(3,4) by blast
  have a: "a = \<lparr>arr = map marked vec, center = center_of C 0 vec (0, 0), rows = r, cols = word_of_nat C\<rparr>"
    using createArea_eq [OF assms(1,2) len] assms(5) by simp
  have us: "length us < unat r * C" using assms(1) vec(1) by simp
  then have "length us div C < unat r" by (simp add: less_mult_imp_div_less)
  moreover have "length us mod C < C" using C by simp
  moreover have "length us div C \<le> length us" by simp
  moreover have small: "unat (word_of_nat k :: u32) = k" if "k \<le> length vec" for k
    using that assms(2) by (simp add: unat_of_nat)
  moreover have "length us mod C \<le> length us" "length us < length vec" using us assms(1) by simp_all
  ultimately have "unat (word_of_nat (length us mod C) :: u32) < unat (word_of_nat C :: u32)"
    "unat (word_of_nat (length us div C) :: u32) < unat r"
    by (simp_all only: small C(2) less_imp_le order.trans [OF _ less_imp_le])
  then show ?thesis
    using vec by (simp add: a center_in_def center_of_last word_less_nat_alt)
qed

lemma createArea_from_empty:
  "arr a = [] \<Longrightarrow> createArea_from vs x y a = None \<longleftrightarrow> (\<exists>v\<in>set vs. marked v)"
proof (induction vs arbitrary: x y a)
  case (Cons v vs)
  then show ?case by (auto simp: Let_def area_set_def marked_def setCenter_def)
qed simp

lemma createArea_from_None:
  assumes "i + length vs < 2 ^ 32" and "0 < C" and "C < 2 ^ 32" and "cols a = word_of_nat C"
  shows "createArea_from vs (word_of_nat (i mod C)) (word_of_nat (i div C)) a = None \<longleftrightarrow>
         (\<exists>j<length vs. marked (vs ! j) \<and> length (arr a) \<le> i + j)"
  using assms(1,4)
proof (induction vs arbitrary: i a)
  case (Cons v vs)
  have i: "i < 2 ^ 32" using Cons.prems by simp
  have "createArea_from vs (word_of_nat (Suc i mod C)) (word_of_nat (Suc i div C))
          (put_cell C i v a) = None \<longleftrightarrow>
        (\<exists>j<length vs. marked (vs ! j) \<and> length (arr a) \<le> Suc i + j)"
    using Cons.prems by (subst Cons.IH) simp_all
  then show ?case
    unfolding createArea_from_step [OF i assms(2,3) Cons.prems(2)] by (auto simp: Ex_less_Suc2)
qed simp


section \<open>Invariant of AreaCombat\<close>

definition area_combat_ok :: "area_combat \<Rightarrow> bool" where
  "area_combat_ok ac \<longleftrightarrow>
     (if hasExtArea ac then length (areas ac) = 8 else length (areas ac) = 0 \<or> length (areas ac) = 4)"

lemmas direction_indices = direction_index_def direction_code.simps

lemma area_combat_ok_new: "area_combat_ok new_area_combat"
  by (simp add: area_combat_ok_def new_area_combat_def)

lemma area_combat_ok_setupArea:
  "area_combat_ok ac \<Longrightarrow> setupArea vec r ac = Some ac' \<Longrightarrow> area_combat_ok ac'"
  by (auto simp: area_combat_ok_def setupArea_def Let_def resize_areas_def split: option.splits if_splits)

lemma area_combat_ok_setupExtArea:
  "area_combat_ok ac \<Longrightarrow> setupExtArea vec r ac = Some ac' \<Longrightarrow> area_combat_ok ac'"
  by (auto simp: area_combat_ok_def setupExtArea_def resize_areas_def split: option.splits if_splits)

lemma setupArea_areas:
  assumes "setupArea vec r ac = Some ac'" and "area_combat_ok ac"
  obtains a where "createArea vec r = Some a" and "hasExtArea ac' = hasExtArea ac"
    and "areas ac' ! direction_index DIRECTION_NORTH = a"
    and "areas ac' ! direction_index DIRECTION_EAST = rotate90 a"
    and "areas ac' ! direction_index DIRECTION_SOUTH = rotate180 a"
    and "areas ac' ! direction_index DIRECTION_WEST = rotate270 a"
    and "4 \<le> length (areas ac')"
proof -
  obtain a where a: "createArea vec r = Some a" using assms(1) by (auto simp: setupArea_def split: option.splits)
  define as where "as = (if length (areas ac) = 0 then resize_areas 4 (areas ac) else areas ac)"
  have as: "4 \<le> length as"
    using assms(2) by (auto simp: as_def area_combat_ok_def resize_areas_def split: if_splits)
  have ac': "ac' = ac\<lparr>areas := as[1 := rotate90 a, 2 := rotate180 a, 3 := rotate270 a, 0 := a]\<rparr>"
    using assms(1) a by (simp add: setupArea_def Let_def as_def direction_indices)
  have "as \<noteq> []" using as by auto
  with as show ?thesis by (intro that [OF a]) (simp_all add: ac' direction_indices)
qed

lemma getArea_straight:
  assumes "4 \<le> length (areas ac)" and "\<not> hasExtArea ac"
  shows "getArea ac p q = areas ac ! direction_index (area_direction ac p q)"
  using assms by (auto simp: getArea_def area_direction_def Let_def direction_indices)


section \<open>The shape of a beam\<close>

lemma length_beam_rows: "0 \<le> c \<Longrightarrow> length (beam_rows n r c s cs y) = n * nat c"
  by (induction n arbitrary: cs y) simp_all

lemma int_pred_div:
  assumes "0 < (s :: int)"
  shows "(y - 1) div s = (if y mod s = 0 then y div s - 1 else y div s)"
proof -
  have y: "y = s * (y div s) + y mod s" "0 \<le> y mod s" "y mod s < s" using assms by simp_all
  show ?thesis
  proof (cases "y mod s = 0")
    case True
    with y assms have "y - 1 = s * (y div s - 1) + (s - 1)" by (simp add: algebra_simps)
    then have "(y - 1) div s = y div s - 1" by (rule int_div_pos_eq) (use assms in simp_all)
    with True show ?thesis by simp
  next
    case False
    with y have "y - 1 = s * (y div s) + (y mod s - 1)" by simp
    then have "(y - 1) div s = y div s" by (rule int_div_pos_eq) (use False y in simp_all)
    with False show ?thesis by simp
  qed
qed

lemma beam_rows_nth:
  assumes "j < n" and "x < nat c" and "0 \<le> s" and "1 \<le> y"
    and "cs = (if s = 0 then c else c - (y - 1) div s)"
  shows "beam_rows n r c s cs y ! (j * nat c + x) =
         beam_cell r c (if s = 0 then c else c - (y + int j - 1) div s) (y + int j) (int x + 1)"
  using assms(1,4,5)
proof (induction n arbitrary: j cs y)
  case (Suc n)
  have len: "length (map (beam_cell r c cs y) [1..c]) = nat c" by simp
  show ?case
  proof (cases j)
    case 0
    then show ?thesis using assms(2) Suc.prems by (simp add: nth_append add.commute)
  next
    case (Suc j')
    let ?cs = "if s > 0 \<and> y mod s = 0 then cs - 1 else cs"
    have cs: "?cs = (if s = 0 then c else c - (y + 1 - 1) div s)"
    proof (cases "s = 0")
      case False
      then have "s > 0" using assms(3) by simp
      then show ?thesis using Suc.prems(3) False by (simp add: int_pred_div)
    qed (use Suc.prems(3) in simp)
    have "beam_rows n r c s ?cs (y + 1) ! (j' * nat c + x) =
        beam_cell r c (if s = 0 then c else c - (y + 1 + int j' - 1) div s) (y + 1 + int j') (int x + 1)"
      using Suc.prems Suc.prems cs Suc by (intro Suc.IH) simp_all
    then show ?thesis
      using Suc len by (simp add: nth_append algebra_simps)
  qed
qed simp


definition beam_width :: "nat \<Rightarrow> nat \<Rightarrow> int \<Rightarrow> int" where
  "beam_width len spread d =
     (if spread = 0 then 0 else int (len div spread) - (int len - 1 - d) div int spread)"

lemma beam_cols_eq: "beam_cols len spread = 2 * int (len div spread) + 1"
proof (cases "spread = 0")
  case False
  have "(int len - int len mod int spread) div int spread = int len div int spread"
    using False by (simp add: minus_mod_eq_mult_div)
  then show ?thesis by (simp add: beam_cols_def zdiv_int)
qed (simp add: beam_cols_def)

lemma beam_width_le: "d < int len \<Longrightarrow> beam_width len spread d \<le> int (len div spread)"
  by (simp add: beam_width_def pos_imp_zdiv_nonneg_iff)

lemma beam_width_axis: "0 < len \<Longrightarrow> 0 \<le> beam_width len spread 0"
  by (simp add: beam_width_def zdiv_int zdiv_mono1)

lemma beam_vec_nth:
  assumes "j < len" and "x < nat (beam_cols len spread)"
  shows "length (beam_vec len spread) = len * nat (beam_cols len spread)"
    and "beam_vec len spread ! (j * nat (beam_cols len spread) + x) =
         (if Suc j = len \<and> x = len div spread then 3
          else if \<bar>int x - int (len div spread)\<bar> \<le> beam_width len spread (int len - 1 - int j) then 1 else 0)"
proof -
  let ?c = "beam_cols len spread" and ?q = "int (len div spread)"
  have c: "?c = 2 * ?q + 1" "0 \<le> ?c" by (simp_all add: beam_cols_eq)
  show "length (beam_vec len spread) = len * nat ?c"
    using c by (simp add: beam_vec_def Let_def length_beam_rows)
  have "beam_vec len spread ! (j * nat ?c + x) =
      beam_cell (int len) ?c (if int spread = 0 then ?c else ?c - (1 + int j - 1) div int spread) (1 + int j) (int x + 1)"
    unfolding beam_vec_def Let_def
    by (rule beam_rows_nth) (use assms in \<open>simp_all\<close>)
  also have "\<dots> = (if Suc j = len \<and> x = len div spread then 3
      else if \<bar>int x - ?q\<bar> \<le> beam_width len spread (int len - 1 - int j) then 1 else 0)"
  proof -
    have 1: "int x + 1 = (?c - ?c mod 2) div 2 + 1 \<longleftrightarrow> x = len div spread"
      unfolding c(1) by simp
    have 2: "1 + int j = int len \<longleftrightarrow> Suc j = len" by auto
    show ?thesis
      unfolding beam_cell_def Let_def 1 2 beam_width_def using assms(2)
      by (auto simp: beam_cols_eq abs_le_iff)
  qed
  finally show "beam_vec len spread ! (j * nat ?c + x) = \<dots>" .
qed


lemma beam_vec_split:
  assumes "0 < len"
  obtains us ws where "beam_vec len spread = us @ 3 # ws" and "\<forall>v\<in>set ws. \<not> centers v"
    and "length us = (len - 1) * nat (beam_cols len spread) + len div spread"
proof -
  let ?c = "nat (beam_cols len spread)" and ?v = "beam_vec len spread"
  let ?i = "(len - 1) * ?c + len div spread"
  have c: "?c = 2 * (len div spread) + 1" by (simp add: beam_cols_eq)
  have len: "length ?v = len * ?c" using beam_vec_nth(1) [OF assms, of 0] c by simp
  have i: "?i < length ?v" unfolding len by (rule cell_index_less) (use c assms in simp_all)
  have at: "?v ! ?i = 3" using beam_vec_nth(2) [of "len - 1" len "len div spread" spread] assms c by simp
  have no: "\<not> centers v" if "v \<in> set (drop (Suc ?i) ?v)" for v
  proof -
    from that obtain k where k: "k < length ?v - Suc ?i" "v = ?v ! (Suc ?i + k)"
      by (auto simp: in_set_conv_nth)
    let ?x = "len div spread + Suc k"
    have "len * ?c = (len - 1) * ?c + ?c" using assms by (cases len) simp_all
    then have "?x < ?c" using k(1) len by linarith
    then have "?v ! ((len - 1) * ?c + ?x) \<noteq> 3 \<and> ?v ! ((len - 1) * ?c + ?x) \<noteq> 2"
      using beam_vec_nth(2) [of "len - 1" len ?x spread] assms by simp
    then show ?thesis using k(2) by (simp add: centers_def add.assoc)
  qed
  show ?thesis
    using id_take_nth_drop [OF i] no i at by (intro that [of "take ?i ?v" "drop (Suc ?i) ?v"]) auto
qed

section \<open>Properties\<close>

text \<open>C22: A beam of a given length and spread is the cone it should be: seen from the centre, a
  square at distance \<open>d\<close> ahead is hit exactly if it is within the length and its sideways
  offset is at most \<open>length / spread - (length - 1 - d) / spread\<close> (0 for a spread of 0), so the
  beam is symmetric, always holds its axis, never hits behind the caster, and the matrix is
  never written out of range.\<close>

theorem beam_shape:
  assumes "0 < len" and "len * (2 * (len div spread) + 1) < 2 ^ 32"
  shows "\<exists>a. createArea (beam_vec len spread) (word_of_nat len) = Some a \<and>
             (\<forall>dx d. area_at a dx (- d) \<longleftrightarrow>
                0 \<le> d \<and> d < int len \<and> \<bar>dx\<bar> \<le> beam_width len spread d)"
proof -
  let ?q = "len div spread" and ?c = "nat (beam_cols len spread)"
  have c: "?c = 2 * ?q + 1" by (simp add: beam_cols_eq)
  have "len * 1 \<le> len * (2 * ?q + 1)" "1 * (2 * ?q + 1) \<le> len * (2 * ?q + 1)"
    by (rule mult_le_mono2, simp) (rule mult_le_mono1, use assms(1) in simp)
  from this [THEN le_less_trans, OF assms(2)] have small: "len < 2 ^ 32" "?c < 2 ^ 32"
    by (simp_all add: c)
  have r: "unat (word_of_nat len :: u32) = len" using small by (simp add: unat_of_nat)
  have len: "length (beam_vec len spread) = unat (word_of_nat len :: u32) * ?c"
    using beam_vec_nth(1) [OF assms(1), of 0 spread] c r by simp
  have len': "length (beam_vec len spread) < 2 ^ 32" "0 < length (beam_vec len spread)"
    using assms c unfolding len r by simp_all
  obtain a where a: "createArea (beam_vec len spread) (word_of_nat len) = Some a"
    using createArea_eq [OF len len'] by simp
  note ok = createArea_ok [OF len len' a]
  obtain us ws where split: "beam_vec len spread = us @ 3 # ws" "\<forall>v\<in>set ws. \<not> centers v"
    "length us = (len - 1) * ?c + ?q" using beam_vec_split [OF assms(1)] .
  have "center a = (word_of_nat (length us mod ?c), word_of_nat (length us div ?c))"
    using createArea_eq [OF len len'] a center_of_last [OF split(2), of 3 ?c 0 us "(0, 0)"]
    by (auto simp: split(1) centers_def)
  moreover have "?q < ?c" by (simp add: c)
  then have "length us mod ?c = ?q" "length us div ?c = len - 1" by (simp_all add: split(3))
  moreover have "?q < 2 ^ 32" using \<open>?q < ?c\<close> small(2) by linarith
  ultimately have center: "uint (fst (center a)) = int ?q" "uint (snd (center a)) = int len - 1"
    using small(1) assms(1)
    by (simp_all add: unsigned_of_nat take_bit_nat_eq_self int_ops(6) del: of_nat_diff)
  have "area_at a dx (- d) \<longleftrightarrow> 0 \<le> d \<and> d < int len \<and> \<bar>dx\<bar> \<le> beam_width len spread d" for dx d
  proof (cases "0 \<le> d \<and> d < int len \<and> \<bar>dx\<bar> \<le> int ?q")
    case True
    define x where "x = nat (int ?q + dx)"
    define y where "y = nat (int len - 1 - d)"
    have xy: "x < ?c" "y < unat (word_of_nat len :: u32)" "y < len" "int len - 1 - int y = d"
      "int x - int ?q = dx" "Suc y = len \<longleftrightarrow> d = 0" "x = ?q \<longleftrightarrow> dx = 0"
      using True c r by (auto simp: x_def y_def)
    have "area_at a dx (- d) \<longleftrightarrow> cell a x y"
      using True by (auto simp: area_at_def Let_def center x_def y_def)
    also have "\<dots> \<longleftrightarrow> marked (beam_vec len spread ! (y * ?c + x))"
      by (rule cell_createArea [OF len len' a xy(1,2)])
    also have "\<dots> \<longleftrightarrow> \<bar>dx\<bar> \<le> beam_width len spread d"
      using beam_width_axis [OF assms(1), of spread]
      unfolding beam_vec_nth(2) [OF xy(3,1)] xy(4-7) by (auto simp: marked_def)
    finally show ?thesis using True by simp
  next
    case False
    have "\<not> area_at a dx (- d)"
    proof
      assume "area_at a dx (- d)"
      then have "0 \<le> int ?q + dx" "0 \<le> int len - 1 - d"
        "cell a (nat (int ?q + dx)) (nat (int len - 1 - d))"
        by (simp_all add: area_at_def Let_def center)
      moreover from this(3) have "nat (int ?q + dx) < ?c" "nat (int len - 1 - d) < len"
        by (simp_all add: cell_def ok(2,3) r)
      ultimately show False using False c by linarith
    qed
    moreover have "\<not> (0 \<le> d \<and> d < int len \<and> \<bar>dx\<bar> \<le> beam_width len spread d)"
      using False beam_width_le [of d len spread] by linarith
    ultimately show ?thesis by blast
  qed
  with a show ?thesis by blast
qed


lemma beam_shape_witness:
  "\<exists>a. createArea (beam_vec 5 3) 5 = Some a \<and>
       (\<forall>dx d. area_at a dx (- d) \<longleftrightarrow> 0 \<le> d \<and> d < 5 \<and> \<bar>dx\<bar> \<le> beam_width 5 3 d)"
  using beam_shape [of 5 3] by simp

text \<open>C23: Reading a matrix from a list of numbers fails, by writing outside of its array, exactly when
  a number that marks a square stands behind the last complete row; a list that fills its rows
  is always read.\<close>

theorem createArea_overrun:
  assumes "length vec < 2 ^ 32"
  shows "createArea vec r = None \<longleftrightarrow>
         (\<exists>i<length vec. marked (vec ! i) \<and> unat r * (length vec div unat r) \<le> i)"
proof (cases "r = 0 \<or> length vec < unat r")
  case True
  then have "createArea vec r = createArea_from vec 0 0 (new_area r 0)"
    by (auto simp: createArea_def)
  then have "createArea vec r = None \<longleftrightarrow> (\<exists>v\<in>set vec. marked v)"
    using createArea_from_empty [of "new_area r 0" vec 0 0] by (simp add: new_area_def)
  then show ?thesis using True by (auto simp: in_set_conv_nth Bex_def)
next
  case False
  let ?C = "length vec div unat r"
  have r: "0 < unat r" "unat r \<le> length vec" using False by (auto simp: unat_gt_0)
  have C: "0 < ?C" "?C < 2 ^ 32"
    using r assms by (simp add: div_greater_zero_iff, simp add: div_less_mono le_less_trans [OF div_le_dividend])
  have "unat r * ?C \<le> length vec" by simp
  then have len: "unat (r * word_of_nat ?C) = unat r * ?C"
    using le_less_trans [OF _ assms, of "unat r * ?C"] C(2) by (simp add: unat_word_ariths unat_of_nat)
  show ?thesis
    using createArea_from_None [of 0 vec ?C "new_area r (word_of_nat ?C)"] assms C False
    by (auto simp: createArea_def Let_def new_area_def len)
qed

lemma createArea_overrun_witness:
  "createArea [0, 1, 1] 2 = None \<and> createArea [1, 1, 0] 2 \<noteq> None"
proof
  have "(2 :: nat) < length [0, 1, 1 :: u32]" "marked ([0, 1, 1 :: u32] ! 2)"
    by (simp_all add: marked_def)
  then show "createArea [0, 1, 1] 2 = None"
    by (subst createArea_overrun) (auto intro!: exI [of _ 2])
  have "\<not> marked ([1, 1, 0 :: u32] ! i)" if "i < 3" "2 \<le> i" for i
    using that by (cases "i = 2") (simp_all add: marked_def)
  then have "\<not> (\<exists>i<length [1, 1, 0 :: u32]. marked ([1, 1, 0 :: u32] ! i) \<and> 2 \<le> i)"
    by (metis One_nat_def Suc_1 length_Cons list.size(3) numeral_3_eq_3)
  then show "createArea [1, 1, 0] 2 \<noteq> None"
    by (subst createArea_overrun) simp_all
qed

fun turn :: "Direction \<Rightarrow> int \<Rightarrow> int \<Rightarrow> int \<times> int" where
  "turn DIRECTION_EAST x y = (- y, x)"
| "turn DIRECTION_SOUTH x y = (- x, - y)"
| "turn DIRECTION_WEST x y = (y, - x)"
| "turn _ x y = (x, y)"

text \<open>C21: The area of a spell turns with its caster: whichever way the target lies, the matrix that
  \<open>getArea\<close> picks covers the square at an offset turned that way (a quarter turn per
  direction, about the centre) exactly if the matrix as written covers it at the offset itself.\<close>

theorem area_turns_with_caster:
  assumes "length vec = unat r * C" and "length vec < 2 ^ 32" and "\<exists>v\<in>set vec. centers v"
    and "setupArea vec r ac = Some ac'" and "area_combat_ok ac" and "\<not> hasExtArea ac"
  shows "\<exists>a. createArea vec r = Some a \<and>
             (\<forall>ox oy. (case turn (area_direction ac' p q) ox oy of (tx, ty) \<Rightarrow>
                        area_at (getArea ac' p q) tx ty) = area_at a ox oy)"
proof -
  obtain a where a: "createArea vec r = Some a" "hasExtArea ac' = hasExtArea ac"
    "areas ac' ! direction_index DIRECTION_NORTH = a"
    "areas ac' ! direction_index DIRECTION_EAST = rotate90 a"
    "areas ac' ! direction_index DIRECTION_SOUTH = rotate180 a"
    "areas ac' ! direction_index DIRECTION_WEST = rotate270 a"
    "4 \<le> length (areas ac')" using setupArea_areas [OF assms(4,5)] .
  have "0 < length vec" using assms(3) by (cases vec) auto
  with assms a have ok: "area_ok a" "center_in a"
    using createArea_ok(1) center_in_createArea by blast+
  have 90: "area_at (rotate90 a) (- y) x = area_at a x y" for x y using ok by (rule area_at_rotate90)
  have 180: "area_at (rotate180 a) (- x) (- y) = area_at a x y" for x y
    using ok area_at_rotate90 [of "rotate90 a" x "- y"] 90
    by (simp flip: rotate90_rotate90)
  have 270: "area_at (rotate270 a) y (- x) = area_at a x y" for x y
    using ok area_at_rotate90 [of "rotate180 a" "- y" "- x"] 180
    by (simp flip: rotate90_rotate90 rotate90_rotate180)
  have "area_direction ac' p q \<in> {DIRECTION_NORTH, DIRECTION_EAST, DIRECTION_SOUTH, DIRECTION_WEST}"
    using a(2) assms(6) by (simp add: area_direction_def Let_def)
  then have "(case turn (area_direction ac' p q) ox oy of (tx, ty) \<Rightarrow>
      area_at (getArea ac' p q) tx ty) = area_at a ox oy" for ox oy
    using a assms(6) 90 180 270 by (auto simp: getArea_straight)
  with a(1) show ?thesis by blast
qed


definition sample_wave :: "u32 list" where
  "sample_wave = [1, 1, 1, 0, 3, 0]"

lemma area_turns_with_caster_witness:
  "\<exists>a. createArea sample_wave 2 = Some a \<and>
     (\<forall>ox oy. area_at (getArea (the (setupArea sample_wave 2 new_area_combat))
         \<lparr>px = 100, py = 100, pz = 7\<rparr> \<lparr>px = 103, py = 101, pz = 7\<rparr>) (- oy) ox = area_at a ox oy)"
proof -
  have len: "length sample_wave = unat (2 :: u32) * 3" "length sample_wave < 2 ^ 32"
    "0 < length sample_wave" by (simp_all add: sample_wave_def)
  have v: "3 \<in> set sample_wave" "centers 3" by (simp_all add: sample_wave_def centers_def)
  have "createArea sample_wave 2 \<noteq> None" using createArea_eq [OF len] by simp
  then obtain ac where ac: "setupArea sample_wave 2 new_area_combat = Some ac"
    by (auto simp: setupArea_def)
  have "\<not> hasExtArea ac" using ac by (auto simp: setupArea_def new_area_combat_def Let_def split: option.splits)
  then have "area_direction ac \<lparr>px = 100, py = 100, pz = 7\<rparr> \<lparr>px = 103, py = 101, pz = 7\<rparr> = DIRECTION_EAST"
    by (simp add: area_direction_def getOffsetX_def getOffsetY_def)
  with area_turns_with_caster [OF len(1,2) _ ac area_combat_ok_new, of
      "\<lparr>px = 100, py = 100, pz = 7\<rparr>" "\<lparr>px = 103, py = 101, pz = 7\<rparr>"] v ac
  show ?thesis by (auto simp: new_area_combat_def)
qed

lemma table_turns:
  assumes "\<forall>k<169. t ! k = t ! ((12 - k mod 13) * 13 + k div 13)" and "length t = 169"
    and "setupArea (map (f :: int \<Rightarrow> u32) t) 13 new_area_combat = Some ac"
    and "center_of 13 0 (map f t) (0, 0) = (6, 6)"
  shows "areas ac = replicate 4 (areas ac ! 0)"
proof -
  obtain a where a: "createArea (map f t) 13 = Some a" "areas ac ! 0 = a"
    "areas ac ! 1 = rotate90 a" "areas ac ! 2 = rotate180 a" "areas ac ! 3 = rotate270 a"
    using setupArea_areas [OF assms(3) area_combat_ok_new] by (auto simp: direction_indices)
  have len: "length (map f t) = unat (13 :: u32) * 13" "length (map f t) < 2 ^ 32" "0 < length (map f t)"
    using assms(2) by simp_all
  have a': "a = \<lparr>arr = map f' t, center = (6, 6), rows = 13, cols = 13\<rparr>" if "f' = marked \<circ> f" for f'
    using createArea_eq [OF len] a(1) assms(4) that by simp
  have ok: "area_ok a" using createArea_ok [OF len a(1)] by simp
  have "rotate90 a = a"
  proof (rule area_eqI)
    show "area_ok (rotate90 a)" "area_ok a" using ok by simp_all
    fix x y assume "x < unat (cols (rotate90 a))" "y < unat (rows (rotate90 a))"
    then have xy: "x < 13" "y < 13" by (simp_all add: a' [OF refl])
    then have "y * 13 + x < 169" by simp
    with assms(1) have "t ! (y * 13 + x) = t ! ((12 - (y * 13 + x) mod 13) * 13 + (y * 13 + x) div 13)"
      by blast
    also have "\<dots> = t ! ((12 - x) * 13 + y)" using xy by simp
    finally have "cell a x y = cell a y (12 - x)"
      using xy assms(2) diff_le_self [of 12 x, THEN le_imp_less_Suc] by (simp add: cell_def a' [OF refl])
    then show "cell (rotate90 a) x y = cell a x y"
      using ok xy by (simp add: cell_rotate90 a' [OF refl])
  qed (simp_all add: a' [OF refl])
  then have same: "rotate90 a = a" "rotate180 a = a" "rotate270 a = a"
    using ok by (simp_all flip: rotate90_rotate90 rotate90_rotate180)
  have len4: "length (areas ac) = 4"
    using assms(3) by (auto simp: setupArea_def Let_def new_area_combat_def resize_areas_def
        split: option.splits)
  have eq: "areas ac ! i = areas ac ! 0" if "i < 4" for i
  proof -
    have "i = 0 \<or> i = 1 \<or> i = 2 \<or> i = 3" using that by auto
    then show ?thesis
      using a(2-5) unfolding same by (elim disjE) (simp_all only:)
  qed
  show ?thesis
  proof (rule nth_equalityI)
    fix i assume "i < length (areas ac)"
    then show "areas ac ! i = replicate 4 (areas ac ! 0) ! i" using eq [of i] len4 by simp
  qed (simp add: len4)
qed

lemma setupArea_table:
  assumes "length t = 169"
  shows "\<exists>ac. setupArea (map f t) 13 new_area_combat = Some ac"
  using createArea_eq [of "map f t" 13 13] assms by (simp add: setupArea_def Let_def)

lemma centers_round: "centers (circle_cell r c) \<longleftrightarrow> c = 1" "centers (ring_cell r c) \<longleftrightarrow> c = 1"
  by (simp_all add: centers_def circle_cell_def ring_cell_def)

lemma circle_table_turns:
  "\<forall>k<169. concat circle_table ! k = concat circle_table ! ((12 - k mod 13) * 13 + k div 13)"
proof -
  have "list_all (\<lambda>k. concat circle_table ! k = concat circle_table ! ((12 - k mod 13) * 13 + k div 13)) [0..<169]"
    by code_simp
  then show ?thesis by (simp add: list_all_iff)
qed

lemma ring_table_turns:
  "\<forall>k<169. concat ring_table ! k = concat ring_table ! ((12 - k mod 13) * 13 + k div 13)"
proof -
  have "list_all (\<lambda>k. concat ring_table ! k = concat ring_table ! ((12 - k mod 13) * 13 + k div 13)) [0..<169]"
    by code_simp
  then show ?thesis by (simp add: list_all_iff)
qed

lemma center_circle: "center_of 13 0 (map (circle_cell r) (concat circle_table)) (0, 0) = (6, 6)"
  by (simp add: circle_table_def centers_round)

lemma center_ring: "center_of 13 0 (map (ring_cell r) (concat ring_table)) (0, 0) = (6, 6)"
  by (simp add: ring_table_def centers_round)

text \<open>C24: The round areas of a radius and of a ring look the same in all four directions: setting one up
  always succeeds, and the four matrices are one.\<close>

theorem round_areas:
  "(\<exists>a. map_option areas (setupArea_circle radius new_area_combat) = Some (replicate 4 a)) \<and>
   (\<exists>a. map_option areas (setupAreaRing ring new_area_combat) = Some (replicate 4 a))"
proof
  have len: "length (concat circle_table) = 169" "length (concat ring_table) = 169"
    by (simp_all add: circle_table_def ring_table_def)
  obtain c where "setupArea_circle radius new_area_combat = Some c"
    using setupArea_table [OF len(1)] by (auto simp: setupArea_circle_def circle_vec_def)
  then show "\<exists>a. map_option areas (setupArea_circle radius new_area_combat) = Some (replicate 4 a)"
    using table_turns [OF circle_table_turns len(1) _ center_circle]
    by (auto simp: setupArea_circle_def circle_vec_def)
  obtain r where "setupAreaRing ring new_area_combat = Some r"
    using setupArea_table [OF len(2)] by (auto simp: setupAreaRing_def ring_vec_def)
  then show "\<exists>a. map_option areas (setupAreaRing ring new_area_combat) = Some (replicate 4 a)"
    using table_turns [OF ring_table_turns len(2) _ center_ring]
    by (auto simp: setupAreaRing_def ring_vec_def)
qed

end
