(* ===== verification/Wildcard.thy ===== *)
theory Wildcard
  imports Return_Values "HOL-Library.AList" "HOL-Library.Sublist"
begin

text \<open>
  The tree of the names of the players that are online: \<open>src/wildcardtree.{h,cpp}\<close>, which
  completes a name of which only the beginning is given. A \<open>std::map\<close> of children is an
  association list (its order is never observed: the code looks at the first child only when
  there is one); a pointer into the tree is the path that leads to the node, and an assignment
  through a pointer is \<open>update_at\<close> that path. What a user of the tree relies on is the locale
  \<open>name_index\<close>.
\<close>

section \<open>The contract\<close>

definition completions :: "string set \<Rightarrow> string \<Rightarrow> string set" where
  "completions ws q = {w \<in> ws. prefix q w}"

locale name_index =
  fixes empty_index :: 't
    and add :: "string \<Rightarrow> 't \<Rightarrow> 't option"
    and del :: "string \<Rightarrow> 't \<Rightarrow> 't"
    and find_one :: "string \<Rightarrow> 't \<Rightarrow> ReturnValue \<times> string"
    and names :: "'t \<Rightarrow> string set"
    and ok :: "'t \<Rightarrow> bool"
  assumes names_empty: "ok empty_index" "names empty_index = {}"
    and add_Some: "w \<noteq> [] \<Longrightarrow> \<exists>t'. add w t = Some t'"
    and names_add: "ok t \<Longrightarrow> add w t = Some t' \<Longrightarrow> w \<noteq> [] \<Longrightarrow> ok t' \<and> names t' = insert w (names t)"
    and names_del: "ok t \<Longrightarrow> w \<noteq> [] \<Longrightarrow> ok (del w t) \<and> names (del w t) = names t - {w}"
    and find_results: "fst (find_one q t) \<in> {RETURNVALUE_NOERROR,
      RETURNVALUE_PLAYERWITHTHISNAMEISNOTONLINE, RETURNVALUE_NAMEISTOOAMBIGUOUS}"
    and find_found: "ok t \<Longrightarrow> names t \<noteq> {} \<Longrightarrow>
      find_one q t = (RETURNVALUE_NOERROR, r) \<longleftrightarrow> completions (names t) q = {r}"
    and find_none: "ok t \<Longrightarrow> names t \<noteq> {} \<Longrightarrow>
      fst (find_one q t) = RETURNVALUE_PLAYERWITHTHISNAMEISNOTONLINE \<longleftrightarrow> completions (names t) q = {}"
begin

lemma find_ambiguous:
  assumes "ok t" and "names t \<noteq> {}"
  shows "fst (find_one q t) = RETURNVALUE_NAMEISTOOAMBIGUOUS \<longleftrightarrow>
         (\<exists>v\<in>completions (names t) q. \<exists>w\<in>completions (names t) q. v \<noteq> w)"
proof -
  consider "fst (find_one q t) = RETURNVALUE_NOERROR"
    | "fst (find_one q t) = RETURNVALUE_PLAYERWITHTHISNAMEISNOTONLINE"
    | "fst (find_one q t) = RETURNVALUE_NAMEISTOOAMBIGUOUS"
    using find_results [of q t] by auto
  then show ?thesis
  proof cases
    case 1
    then have "completions (names t) q = {snd (find_one q t)}"
      using find_found [OF assms, of q "snd (find_one q t)"] by (metis prod.collapse)
    with 1 show ?thesis by simp
  next
    case 2
    then show ?thesis using find_none [OF assms, of q] by simp
  next
    case 3
    then have "completions (names t) q \<noteq> {}" "\<And>r. completions (names t) q \<noteq> {r}"
      using find_none [OF assms, of q] find_found [OF assms, of q, THEN iffD2]
      by (auto dest: arg_cong [of _ _ fst])
    then show ?thesis using 3 by (metis is_singletonI' is_singletonE)
  qed
qed

lemma del_add:
  assumes "ok t" and "w \<noteq> []" and "add w t = Some t'" and "w \<notin> names t"
  shows "names (del w t') = names t"
  using names_add [OF assms(1,3,2)] names_del [of t' w] assms(2,4) by auto

end

section \<open>Nodes\<close>

datatype wnode = WNode (breakpoint: bool) (children: "(char \<times> wnode) list")

definition getChild :: "wnode \<Rightarrow> char \<Rightarrow> wnode option" where
  "getChild n ch = map_of (children n) ch"

definition addChild :: "char \<Rightarrow> bool \<Rightarrow> wnode \<Rightarrow> wnode" where
  "addChild ch bp n =
     (case getChild n ch of
        Some child \<Rightarrow>
          if bp \<and> \<not> breakpoint child
          then WNode (breakpoint n) (AList.update ch (WNode True (children child)) (children n)) else n
      | None \<Rightarrow> WNode (breakpoint n) (AList.update ch (WNode bp []) (children n)))"

text \<open>The node a pointer refers to, and an assignment through it.\<close>

fun node_at :: "string \<Rightarrow> wnode \<Rightarrow> wnode option" where
  "node_at [] n = Some n"
| "node_at (c # cs) n = (case getChild n c of None \<Rightarrow> None | Some m \<Rightarrow> node_at cs m)"

fun update_at :: "string \<Rightarrow> (wnode \<Rightarrow> wnode) \<Rightarrow> wnode \<Rightarrow> wnode" where
  "update_at [] f n = f n"
| "update_at (c # cs) f n =
     (case getChild n c of
        None \<Rightarrow> n
      | Some m \<Rightarrow> WNode (breakpoint n) (AList.update c (update_at cs f m) (children n)))"

definition new_tree :: wnode where
  "new_tree = WNode False []"

text \<open>\<open>insert\<close>; for the empty string the code computes the length \<open>0 - 1\<close> and reads out of range.\<close>

fun insert_from :: "string \<Rightarrow> string \<Rightarrow> wnode \<Rightarrow> wnode" where
  "insert_from cur [] t = t"
| "insert_from cur [c] t = update_at cur (addChild c True) t"
| "insert_from cur (c # cs) t = insert_from (cur @ [c]) cs (update_at cur (addChild c False) t)"

definition wt_insert :: "string \<Rightarrow> wnode \<Rightarrow> wnode option" where
  "wt_insert str t = (if str = [] then None else Some (insert_from [] str t))"

text \<open>The second loop of \<open>remove\<close>: its stack of nodes is the path to the top one.\<close>

definition eraseChild :: "char \<Rightarrow> wnode \<Rightarrow> wnode" where
  "eraseChild c n = WNode (breakpoint n) (AList.delete c (children n))"

function climb :: "string \<Rightarrow> wnode \<Rightarrow> wnode" where
  "climb path t =
     (case node_at path t of
        None \<Rightarrow> t
      | Some cur \<Rightarrow>
          if children cur \<noteq> [] \<or> breakpoint cur \<or> path = [] then t
          else climb (butlast path) (update_at (butlast path) (eraseChild (last path)) t))"
  by pat_completeness auto
termination
  by (relation "measure (\<lambda>(path, t). length path)") auto

declare climb.simps [simp del]

definition wt_remove :: "string \<Rightarrow> wnode \<Rightarrow> wnode" where
  "wt_remove str t =
     (case node_at str t of
        None \<Rightarrow> t
      | Some _ \<Rightarrow> climb str (update_at str (\<lambda>n. WNode False (children n)) t))"

text \<open>The second loop of \<open>findOne\<close>, with the result it appends to.\<close>

fun findOne_from :: "wnode \<Rightarrow> string \<Rightarrow> ReturnValue \<times> string" where
  "findOne_from (WNode b []) result = (RETURNVALUE_NOERROR, result)"
| "findOne_from (WNode b [(c, n)]) result =
     (if b then (RETURNVALUE_NAMEISTOOAMBIGUOUS, result) else findOne_from n (result @ [c]))"
| "findOne_from (WNode b (x # y # zs)) result = (RETURNVALUE_NAMEISTOOAMBIGUOUS, result)"

definition wt_findOne :: "string \<Rightarrow> wnode \<Rightarrow> ReturnValue \<times> string" where
  "wt_findOne query t =
     (case node_at query t of
        None \<Rightarrow> (RETURNVALUE_PLAYERWITHTHISNAMEISNOTONLINE, [])
      | Some cur \<Rightarrow> findOne_from cur query)"

section \<open>The tree seen through its paths\<close>

definition has :: "string \<Rightarrow> wnode \<Rightarrow> bool" where
  "has p t \<longleftrightarrow> node_at p t \<noteq> None"

definition isin :: "string \<Rightarrow> wnode \<Rightarrow> bool" where
  "isin p t \<longleftrightarrow> (case node_at p t of None \<Rightarrow> False | Some n \<Rightarrow> breakpoint n)"

definition words :: "wnode \<Rightarrow> string set" where
  "words t = {w. isin w t}"

lemma has_Nil [simp]: "has [] t"
  by (simp add: has_def)

lemma has_Cons: "has (c # p) t \<longleftrightarrow> (\<exists>n. getChild t c = Some n \<and> has p n)"
  by (auto simp: has_def split: option.splits)

lemma isin_Nil: "isin [] t = breakpoint t"
  by (simp add: isin_def)

lemma isin_Cons: "isin (c # p) t \<longleftrightarrow> (\<exists>n. getChild t c = Some n \<and> isin p n)"
  by (auto simp: isin_def split: option.splits)

lemma isin_has: "isin p t \<Longrightarrow> has p t"
  by (auto simp: isin_def has_def split: option.splits)

lemma node_at_append:
  "node_at (p @ q) t = (case node_at p t of None \<Rightarrow> None | Some n \<Rightarrow> node_at q n)"
  by (induction p arbitrary: t) (auto split: option.splits)

lemma has_append_Some: "node_at q t = Some n \<Longrightarrow> has (q @ p) t = has p n"
  by (simp add: has_def node_at_append)

lemma has_prefix: "has (p @ q) t \<Longrightarrow> has p t"
  by (auto simp: has_def node_at_append split: option.splits)

lemma getChild_simps [simp]:
  "getChild (WNode b (AList.update c m (children t))) d = (if d = c then Some m else getChild t d)"
  "getChild (WNode b (AList.delete c (children t))) d = (if d = c then None else getChild t d)"
  "getChild (WNode b (children t)) d = getChild t d" "getChild (WNode b []) d = None"
  by (simp_all add: getChild_def update_conv delete_conv)

lemma children_has: "children n = [] \<longleftrightarrow> (\<forall>c. \<not> has [c] n)"
  by (cases "children n") (auto simp: has_Cons getChild_def split: if_splits)

text \<open>What the three assignments of the code do to the paths.\<close>

lemma update_mark:
  assumes "has q t"
  shows "has p (update_at q (\<lambda>n. WNode b (children n)) t) = has p t"
    and "isin p (update_at q (\<lambda>n. WNode b (children n)) t) = (if p = q then b else isin p t)"
  using assms
proof (induction q arbitrary: p t)
  case Nil
  { case 1 show ?case by (cases p) (simp_all add: has_Cons) }
  { case 2 show ?case by (cases p) (simp_all add: isin_Nil isin_Cons) }
next
  case (Cons c q)
  { case 1 then show ?case using Cons.IH by (cases p) (auto simp: has_Cons split: if_splits) }
  { case 2 then show ?case using Cons.IH by (cases p) (auto simp: has_Cons isin_Cons isin_Nil split: if_splits) }
qed

lemma update_erase:
  assumes "has q t"
  shows "has p (update_at q (eraseChild c) t) = (has p t \<and> \<not> prefix (q @ [c]) p)"
    and "isin p (update_at q (eraseChild c) t) = (isin p t \<and> \<not> prefix (q @ [c]) p)"
  using assms
proof (induction q arbitrary: p t)
  case Nil
  { case 1 show ?case by (cases p) (auto simp: has_Cons eraseChild_def) }
  { case 2 show ?case by (cases p) (auto simp: isin_Nil isin_Cons eraseChild_def) }
next
  case (Cons d q)
  { case 1 then show ?case using Cons.IH by (cases p) (auto simp: has_Cons split: if_splits) }
  { case 2 then show ?case using Cons.IH by (cases p) (auto simp: has_Cons isin_Cons isin_Nil split: if_splits) }
qed

lemma addChild_has: "has p (addChild c b t) \<longleftrightarrow> has p t \<or> p = [c]"
proof (cases p)
  case (Cons d ps)
  then show ?thesis
    by (cases ps) (auto simp: has_Cons addChild_def split: option.splits)
qed simp

lemma addChild_isin: "isin p (addChild c b t) \<longleftrightarrow> isin p t \<or> b \<and> p = [c]"
proof (cases p)
  case Nil
  then show ?thesis by (simp add: isin_Nil addChild_def split: option.split)
next
  case (Cons d ps)
  then show ?thesis
    by (cases ps) (auto simp: isin_Cons isin_Nil addChild_def split: option.splits)
qed

lemma update_addChild:
  assumes "has q t"
  shows "has p (update_at q (addChild c b) t) = (has p t \<or> p = q @ [c])"
    and "isin p (update_at q (addChild c b) t) = (isin p t \<or> b \<and> p = q @ [c])"
  using assms
proof (induction q arbitrary: p t)
  case Nil
  { case 1 show ?case by (simp add: addChild_has) }
  { case 2 show ?case by (simp add: addChild_isin) }
next
  case (Cons d q)
  { case 1 then show ?case using Cons.IH by (cases p) (auto simp: has_Cons split: if_splits) }
  { case 2 then show ?case using Cons.IH by (cases p) (auto simp: has_Cons isin_Cons isin_Nil split: if_splits) }
qed

section \<open>The invariant\<close>

fun dist :: "wnode \<Rightarrow> bool" where
  "dist (WNode b cs) \<longleftrightarrow> distinct (map fst cs) \<and> (\<forall>x\<in>set cs. dist (snd x))"

definition live_but :: "string option \<Rightarrow> wnode \<Rightarrow> bool" where
  "live_but q t \<longleftrightarrow>
     (\<forall>p. has p t \<longrightarrow> p \<noteq> [] \<longrightarrow> Some p \<noteq> q \<longrightarrow> isin p t \<or> (\<exists>c. has (p @ [c]) t))"

definition trie_ok :: "wnode \<Rightarrow> bool" where
  "trie_ok t \<longleftrightarrow> live_but None t \<and> dist t \<and> \<not> breakpoint t"

lemma dist_alt: "dist n \<longleftrightarrow> distinct (map fst (children n)) \<and> (\<forall>x\<in>set (children n). dist (snd x))"
  by (cases n) simp

lemma dist_leaf [simp]: "dist (WNode b [])"
  by simp

lemma dist_mark: "dist n \<Longrightarrow> dist (WNode b (children n))"
  by (cases n) simp

lemma dist_child: "dist n \<Longrightarrow> getChild n c = Some m \<Longrightarrow> dist m"
  by (auto simp: dist_alt [of n] getChild_def dest!: map_of_SomeD)

lemma set_update: "set (AList.update c m cs) \<subseteq> insert (c, m) (set cs)"
  by (induction cs) auto

lemma dist_update: "dist n \<Longrightarrow> dist m \<Longrightarrow> dist (WNode b (AList.update c m (children n)))"
  using set_update [of c m "children n"] by (auto simp: dist_alt [of n] distinct_update)

lemma dist_erase: "dist n \<Longrightarrow> dist (eraseChild c n)"
  using distinct_delete [of "children n" c]
  by (auto simp: dist_alt [of n] eraseChild_def AList.delete_eq)

declare dist.simps [simp del]

lemma dist_addChild: "dist n \<Longrightarrow> dist (addChild c b n)"
  by (simp add: addChild_def dist_update dist_mark dist_child split: option.split)

lemma dist_update_at: "(\<And>n. dist n \<Longrightarrow> dist (f n)) \<Longrightarrow> dist t \<Longrightarrow> dist (update_at q f t)"
  by (induction q f t rule: update_at.induct) (auto simp: dist_update dist_child split: option.split)

lemma has_update_addChild: "has cur t \<Longrightarrow> has (cur @ [c]) (update_at cur (addChild c b) t)"
  by (simp add: update_addChild)

lemma prefix_between:
  "prefix cur p \<and> prefix p (cur @ c # cs) \<longleftrightarrow>
   p = cur \<or> prefix (cur @ [c]) p \<and> prefix p (cur @ c # cs)"
proof (cases "prefix cur p")
  case True
  then obtain z where "p = cur @ z" by (auto simp: prefix_def)
  then show ?thesis by (cases z) auto
next
  case False
  then show ?thesis using append_prefixD [of cur "[c]" p] by auto
qed

lemma insert_from_paths:
  assumes "has cur t"
  shows "has p (insert_from cur rest t) \<longleftrightarrow> has p t \<or> prefix cur p \<and> prefix p (cur @ rest)"
    and "isin p (insert_from cur rest t) \<longleftrightarrow> isin p t \<or> rest \<noteq> [] \<and> p = cur @ rest"
proof -
  have "(has p (insert_from cur rest t) \<longleftrightarrow> has p t \<or> prefix cur p \<and> prefix p (cur @ rest)) \<and>
        (isin p (insert_from cur rest t) \<longleftrightarrow> isin p t \<or> rest \<noteq> [] \<and> p = cur @ rest)"
    using assms
  proof (induction cur rest t rule: insert_from.induct)
    case (1 cur t)
    then show ?case by (auto dest: prefix_order.antisym)
  next
    case (2 cur c t)
    have "prefix cur p \<and> prefix p (cur @ [c]) \<longleftrightarrow> p = cur \<or> p = cur @ [c]"
      using prefix_between [of cur p c "[]"] by (auto dest: prefix_order.antisym)
    with 2 show ?case by (auto simp: update_addChild)
  next
    case (3 cur c d cs t)
    have "has (cur @ [c]) (update_at cur (addChild c False) t)" using 3(2) by (rule has_update_addChild)
    note IH = 3(1) [OF this]
    define t1 where "t1 = update_at cur (addChild c False) t"
    have 1: "has p t1 = (has p t \<or> p = cur @ [c])" "isin p t1 = isin p t"
      using update_addChild [OF 3(2), of p c False] by (simp_all add: t1_def)
    have "prefix cur p \<and> prefix p (cur @ c # d # cs) \<longleftrightarrow>
        p = cur \<or> prefix (cur @ [c]) p \<and> prefix p (cur @ c # d # cs)"
      by (rule prefix_between)
    moreover have "p = cur @ [c] \<Longrightarrow> prefix (cur @ [c]) p \<and> prefix p (cur @ c # d # cs)"
      by (simp add: prefix_def)
    moreover have "p = cur \<Longrightarrow> has p t" using 3(2) by simp
    moreover have "has p (insert_from cur (c # d # cs) t) \<longleftrightarrow>
        has p t1 \<or> prefix (cur @ [c]) p \<and> prefix p (cur @ c # d # cs)"
      using IH by (simp add: t1_def)
    ultimately have "has p (insert_from cur (c # d # cs) t) \<longleftrightarrow>
        has p t \<or> prefix cur p \<and> prefix p (cur @ c # d # cs)" using 1 by blast
    moreover have "isin p (insert_from cur (c # d # cs) t) \<longleftrightarrow> isin p t \<or> p = cur @ c # d # cs"
      using IH 1 by (simp add: t1_def)
    ultimately show ?case by simp
  qed
  then show "has p (insert_from cur rest t) \<longleftrightarrow> has p t \<or> prefix cur p \<and> prefix p (cur @ rest)"
    and "isin p (insert_from cur rest t) \<longleftrightarrow> isin p t \<or> rest \<noteq> [] \<and> p = cur @ rest" by auto
qed

lemma dist_insert_from: "dist t \<Longrightarrow> dist (insert_from cur rest t)"
  by (induction cur rest t rule: insert_from.induct) (simp_all add: dist_update_at dist_addChild)

lemma wt_insert_ok:
  assumes "trie_ok t" and "wt_insert w t = Some t'"
  shows "trie_ok t'" and "words t' = insert w (words t)"
proof -
  have w: "w \<noteq> []" "t' = insert_from [] w t" using assms(2) by (auto simp: wt_insert_def split: if_splits)
  have has': "has p t' \<longleftrightarrow> has p t \<or> prefix p w" and isin': "isin p t' \<longleftrightarrow> isin p t \<or> p = w" for p
    using w by (simp_all add: insert_from_paths)
  have "live_but None t'"
    unfolding live_but_def
  proof (intro allI impI)
    fix p assume p: "has p t'" "p \<noteq> []"
    show "isin p t' \<or> (\<exists>c. has (p @ [c]) t')"
    proof (cases "has p t")
      case True
      then show ?thesis using p assms(1) by (auto simp: trie_ok_def live_but_def has' isin')
    next
      case False
      then obtain z where z: "w = p @ z" using p by (auto simp: has' prefix_def)
      then show ?thesis by (cases z) (auto simp: has' isin' intro: exI [of _ "hd z"])
    qed
  qed
  moreover have "\<not> breakpoint t'" using isin' [of "[]"] assms(1) w(1) by (simp add: isin_Nil trie_ok_def)
  ultimately show "trie_ok t'" using assms(1) w(2) by (simp add: trie_ok_def dist_insert_from)
  show "words t' = insert w (words t)" by (auto simp: words_def isin')
qed

lemma climb_ok:
  assumes "has path t" and "live_but (Some path) t" and "dist t"
  shows "live_but None (climb path t) \<and> dist (climb path t) \<and> (\<forall>p. isin p (climb path t) = isin p t)"
  using assms
proof (induction path t rule: climb.induct)
  case (1 path t)
  obtain cur where cur: "node_at path t = Some cur" using "1.prems"(1) by (auto simp: has_def)
  show ?case
  proof (cases "children cur \<noteq> [] \<or> breakpoint cur \<or> path = []")
    case True
    then have "path = [] \<or> isin path t \<or> (\<exists>c. has (path @ [c]) t)"
      using cur by (auto simp: isin_def children_has has_append_Some)
    then have "live_but None t" using "1.prems"(2) by (auto simp: live_but_def)
    with True cur "1.prems"(3) show ?thesis by (simp add: climb.simps)
  next
    case False
    define q c where "q = butlast path" and "c = last path"
    define t' where "t' = update_at q (eraseChild c) t"
    have path: "path = q @ [c]" using False by (simp add: q_def c_def)
    have q: "has q t" using "1.prems"(1) has_prefix path by blast
    note paths = update_erase [OF q, of _ c, folded t'_def]
    have leaf: "\<not> isin (path @ z) t" and leaf': "has (path @ z) t \<Longrightarrow> z = []" for z
    proof -
      have none: "\<not> has (d # y) cur" for d y using False has_prefix [of "[d]" y cur] by (auto simp: children_has)
      then show "has (path @ z) t \<Longrightarrow> z = []" using has_append_Some [OF cur, of z] by (cases z) auto
      then show "\<not> isin (path @ z) t" using isin_has [of "path @ z" t] cur False by (auto simp: isin_def)
    qed
    have same: "isin p t' = isin p t" for p
      using leaf by (auto simp: paths(2) path prefix_def)
    have "live_but (Some q) t'"
      unfolding live_but_def
    proof (intro allI impI)
      fix p assume p: "has p t'" "p \<noteq> []" "Some p \<noteq> Some q"
      then have "has p t" "p \<noteq> path" by (auto simp: paths(1) path)
      then consider "isin p t" | d where "has (p @ [d]) t" using "1.prems"(2) p by (auto simp: live_but_def)
      then show "isin p t' \<or> (\<exists>c. has (p @ [c]) t')"
      proof cases
        case 2
        have "\<not> prefix path (p @ [d])"
        proof
          assume "prefix path (p @ [d])"
          then obtain z where "p @ [d] = path @ z" by (auto simp: prefix_def)
          with 2 leaf' [of z] have "p @ [d] = path" by simp
          then show False using p(3) path by simp
        qed
        with 2 show ?thesis by (auto simp: paths(1) path)
      qed (simp add: same)
    qed
    moreover have "has q t'" using q by (auto simp: paths(1) prefix_def)
    moreover have "dist t'" unfolding t'_def using "1.prems"(3) by (intro dist_update_at dist_erase)
    ultimately have "live_but None (climb q t') \<and> dist (climb q t') \<and> (\<forall>p. isin p (climb q t') = isin p t')"
      using 1(1) [OF cur False] by (simp add: q_def t'_def c_def)
    moreover have "climb path t = climb q t'"
      using cur False by (subst climb.simps) (simp add: q_def c_def t'_def)
    ultimately show ?thesis by (simp add: same)
  qed
qed

lemma wt_remove_ok:
  assumes "trie_ok t" and "w \<noteq> []"
  shows "trie_ok (wt_remove w t)" and "words (wt_remove w t) = words t - {w}"
proof -
  have "trie_ok (wt_remove w t) \<and> words (wt_remove w t) = words t - {w}"
  proof (cases "has w t")
    case True
    define t' where "t' = update_at w (\<lambda>n. WNode False (children n)) t"
    note paths = update_mark [OF True, of _ False, folded t'_def]
    have "live_but (Some w) t'" using assms(1) by (auto simp: trie_ok_def live_but_def paths)
    moreover have "dist t'" unfolding t'_def
      using assms(1) by (intro dist_update_at dist_mark) (simp_all add: trie_ok_def)
    ultimately have "live_but None (climb w t') \<and> dist (climb w t') \<and> (\<forall>p. isin p (climb w t') = isin p t')"
      using True by (intro climb_ok) (simp_all add: paths)
    moreover have "wt_remove w t = climb w t'" using True by (auto simp: wt_remove_def has_def t'_def)
    moreover have "\<not> breakpoint (climb w t')" if "\<forall>p. isin p (climb w t') = isin p t'"
      using that [rule_format, of "[]"] assms by (simp add: isin_Nil [symmetric] paths trie_ok_def)
    ultimately show ?thesis by (auto simp: trie_ok_def words_def paths)
  next
    case False
    then have "wt_remove w t = t" "\<not> isin w t"
      using isin_has [of w t] by (auto simp: wt_remove_def has_def)
    with assms show ?thesis by (auto simp: words_def)
  qed
  then show "trie_ok (wt_remove w t)" "words (wt_remove w t) = words t - {w}" by auto
qed

section \<open>Completing a name\<close>

lemma isin_append: "node_at q t = Some n \<Longrightarrow> isin (q @ p) t = isin p n"
  by (simp add: isin_def node_at_append)

lemma live_sub: "live_but None t \<Longrightarrow> node_at q t = Some n \<Longrightarrow> live_but None n"
  unfolding live_but_def
proof (intro allI impI)
  fix p assume t: "\<forall>p. has p t \<longrightarrow> p \<noteq> [] \<longrightarrow> Some p \<noteq> None \<longrightarrow> isin p t \<or> (\<exists>c. has (p @ [c]) t)"
    and n: "node_at q t = Some n" and p: "has p n" "p \<noteq> []"
  from n p have "has (q @ p) t" "q @ p \<noteq> []" by (simp_all add: has_append_Some)
  with t have "isin (q @ p) t \<or> (\<exists>c. has ((q @ p) @ [c]) t)" by blast
  with n show "isin p n \<or> (\<exists>c. has (p @ [c]) n)" by (simp add: has_append_Some isin_append)
qed

definition alive :: "wnode \<Rightarrow> bool" where
  "alive n \<longleftrightarrow> breakpoint n \<or> children n \<noteq> []"

lemma alive_at:
  assumes "live_but None t" and "node_at q t = Some n" and "q \<noteq> []"
  shows "alive n"
proof -
  have "has q t" using assms(2) by (simp add: has_def)
  with assms have "isin q t \<or> (\<exists>c. has (q @ [c]) t)" by (auto simp: live_but_def)
  with assms(2) show ?thesis
    by (auto simp: alive_def children_has has_append_Some isin_def)
qed

lemma child_node: "(c, m) \<in> set (children n) \<Longrightarrow> dist n \<Longrightarrow> node_at [c] n = Some m"
  by (auto simp: getChild_def dist_alt [of n])

lemma node_child: "getChild n c = Some m \<Longrightarrow> (c, m) \<in> set (children n)"
  by (auto simp: getChild_def dest: map_of_SomeD)

lemma dist_node: "dist n \<Longrightarrow> node_at [c] n = Some m \<Longrightarrow> dist m"
  by (auto split: option.splits dest: dist_child)

lemma words_child: "node_at [c] n = Some m \<Longrightarrow> c # w \<in> words n \<longleftrightarrow> w \<in> words m"
  using isin_append [of "[c]" n m w] by (simp add: words_def)

lemma words_cases:
  assumes "w \<in> words n"
  obtains "w = []" "breakpoint n" | c m v where "w = c # v" "getChild n c = Some m" "v \<in> words m"
  using assms by (cases w) (auto simp: words_def isin_Nil isin_Cons)

lemma size_child: "(c, m) \<in> set cs \<Longrightarrow> size m < size (WNode b cs)"
  by (induction cs) auto

lemma words_nonempty: "live_but None n \<Longrightarrow> dist n \<Longrightarrow> alive n \<Longrightarrow> words n \<noteq> {}"
proof (induction n rule: measure_induct_rule [of size])
  case (less n)
  show ?case
  proof (cases "breakpoint n")
    case True
    then show ?thesis by (auto simp: words_def isin_Nil intro!: exI [of _ "[]"])
  next
    case False
    then obtain c m where cm: "(c, m) \<in> set (children n)"
      using less.prems(3) by (cases "children n") (auto simp: alive_def)
    note m = child_node [OF cm less.prems(2)]
    have "words m \<noteq> {}"
      using size_child [OF cm, of "breakpoint n"] live_sub [OF less.prems(1) m] alive_at [OF less.prems(1) m]
        dist_node [OF less.prems(2) m] by (intro less.IH) simp_all
    then show ?thesis using words_child [OF m] by blast
  qed
qed

lemma image_singleton:
  assumes "inj f"
  shows "f ` A = {r} \<longleftrightarrow> (\<exists>s. A = {s} \<and> r = f s)"
proof
  assume eq: "f ` A = {r}"
  then obtain s where "s \<in> A" "f s = r" by blast
  moreover from this have "A = {s}" using assms eq by (blast dest: injD)
  ultimately show "\<exists>s. A = {s} \<and> r = f s" by blast
qed auto

lemma findOne_from_spec:
  assumes "live_but None n" and "dist n" and "alive n"
  shows "findOne_from n q = (RETURNVALUE_NOERROR, r) \<longleftrightarrow> (\<exists>s. words n = {s} \<and> r = q @ s)"
    and "fst (findOne_from n q) \<noteq> RETURNVALUE_PLAYERWITHTHISNAMEISNOTONLINE"
proof -
  have "(findOne_from n q = (RETURNVALUE_NOERROR, r) \<longleftrightarrow> (\<exists>s. words n = {s} \<and> r = q @ s)) \<and>
      fst (findOne_from n q) \<noteq> RETURNVALUE_PLAYERWITHTHISNAMEISNOTONLINE"
    using assms
  proof (induction n q rule: findOne_from.induct)
    case (1 b q)
    have "isin w (WNode b []) \<longleftrightarrow> w = []" for w
      using 1 by (cases w) (simp_all add: isin_Nil isin_Cons alive_def)
    then have "words (WNode b []) = {[]}" by (simp add: words_def)
    then show ?case by auto
  next
    case (2 b c n q)
    let ?n = "WNode b [(c, n)]"
    have cn: "node_at [c] ?n = Some n" by (simp add: getChild_def)
    have only: "d = c \<and> m = n" if "getChild ?n d = Some m" for d m
      using that by (auto simp: getChild_def split: if_splits)
    note n = live_sub [OF 2(2) cn] dist_node [OF 2(3) cn] alive_at [OF 2(2) cn]
    have words: "words ?n = (if b then {[]} else {}) \<union> Cons c ` words n"
    proof (intro equalityI subsetI)
      fix w assume "w \<in> words ?n"
      then show "w \<in> (if b then {[]} else {}) \<union> Cons c ` words n"
        by (cases rule: words_cases) (auto dest: only)
    qed (auto simp: words_child [OF cn], auto simp: words_def isin_Nil split: if_splits)
    show ?case
    proof (cases b)
      case True
      obtain w where "w \<in> words n" using words_nonempty [OF n] by blast
      then have "[] \<in> words ?n" "c # w \<in> words ?n" unfolding words using True by simp_all
      then have "words ?n \<noteq> {s}" for s by (metis list.distinct(1) singletonD)
      then show ?thesis using True by simp
    next
      case False
      then have "words ?n = {s} \<longleftrightarrow> (\<exists>v. words n = {v} \<and> s = c # v)" for s
        using image_singleton [of "Cons c" "words n" s] unfolding words by simp
      then have "(\<exists>s. words ?n = {s} \<and> r = q @ s) \<longleftrightarrow> (\<exists>s. words n = {s} \<and> r = (q @ [c]) @ s)"
        by auto
      then show ?thesis using False 2(1) [OF False n] by simp
    qed
  next
    case (3 b x y zs q)
    let ?n = "WNode b (x # y # zs)"
    obtain c m d k where xy: "x = (c, m)" "y = (d, k)" by (cases x; cases y)
    have m: "node_at [c] ?n = Some m" and k: "node_at [d] ?n = Some k"
      by (rule child_node [OF _ 3(2)]; simp add: xy)+
    have "c \<noteq> d" using 3(2) by (simp add: xy dist.simps)
    have "words m \<noteq> {}" "words k \<noteq> {}"
      by (rule words_nonempty [OF live_sub [OF 3(1) m] dist_node [OF 3(2) m] alive_at [OF 3(1) m]], simp)
        (rule words_nonempty [OF live_sub [OF 3(1) k] dist_node [OF 3(2) k] alive_at [OF 3(1) k]], simp)
    then obtain u v where "u \<in> words m" "v \<in> words k" by blast
    then have "c # u \<in> words ?n" "d # v \<in> words ?n"
      using words_child [OF m] words_child [OF k] by simp_all
    with \<open>c \<noteq> d\<close> have "words ?n \<noteq> {s}" for s by (metis list.inject singletonD)
    then show ?case by simp
  qed
  then show "findOne_from n q = (RETURNVALUE_NOERROR, r) \<longleftrightarrow> (\<exists>s. words n = {s} \<and> r = q @ s)"
    "fst (findOne_from n q) \<noteq> RETURNVALUE_PLAYERWITHTHISNAMEISNOTONLINE" by auto
qed

lemma dist_at: "dist t \<Longrightarrow> node_at q t = Some n \<Longrightarrow> dist n"
  by (induction q t rule: node_at.induct) (auto split: option.splits dest: dist_child)

lemma completions_at:
  "node_at q t = Some n \<Longrightarrow> completions (words t) q = (@) q ` words n"
  by (auto simp: completions_def words_def prefix_def isin_append)

lemma wt_findOne_spec:
  assumes "trie_ok t" and "words t \<noteq> {}"
  shows "wt_findOne q t = (RETURNVALUE_NOERROR, r) \<longleftrightarrow> completions (words t) q = {r}"
    and "fst (wt_findOne q t) = RETURNVALUE_PLAYERWITHTHISNAMEISNOTONLINE \<longleftrightarrow>
         completions (words t) q = {}"
proof -
  have "(wt_findOne q t = (RETURNVALUE_NOERROR, r) \<longleftrightarrow> completions (words t) q = {r}) \<and>
    (fst (wt_findOne q t) = RETURNVALUE_PLAYERWITHTHISNAMEISNOTONLINE \<longleftrightarrow> completions (words t) q = {})"
  proof (cases "node_at q t")
    case None
    then have "completions (words t) q = {}"
      by (auto simp: completions_def words_def prefix_def isin_def node_at_append)
    with None show ?thesis by (simp add: wt_findOne_def)
  next
    case (Some n)
    have n: "live_but None n" "dist n"
      using assms(1) Some live_sub dist_at by (auto simp: trie_ok_def)
    have "alive n"
    proof (cases "q = []")
      case True
      obtain w where "w \<in> words t" using assms(2) by blast
      then show ?thesis using Some True
        by (cases rule: words_cases) (auto simp: alive_def dest: node_child)
    next
      case False
      then show ?thesis using alive_at Some assms(1) by (auto simp: trie_ok_def)
    qed
    note spec = findOne_from_spec [OF n this, of q] words_nonempty [OF n this]
    have "(\<exists>s. words n = {s} \<and> r = q @ s) \<longleftrightarrow> (@) q ` words n = {r}"
      by (rule image_singleton [symmetric]) (simp add: inj_def)
    then show ?thesis using Some spec by (simp add: wt_findOne_def completions_at)
  qed
  then show "wt_findOne q t = (RETURNVALUE_NOERROR, r) \<longleftrightarrow> completions (words t) q = {r}"
    and "fst (wt_findOne q t) = RETURNVALUE_PLAYERWITHTHISNAMEISNOTONLINE \<longleftrightarrow>
         completions (words t) q = {}" by auto
qed

lemma wt_findOne_empty:
  assumes "trie_ok t" and "words t = {}"
  shows "fst (wt_findOne q t) \<noteq> RETURNVALUE_NAMEISTOOAMBIGUOUS"
proof -
  have "\<not> alive t" using words_nonempty [of t] assms by (auto simp: trie_ok_def)
  then have t: "children t = []" "\<not> breakpoint t" by (simp_all add: alive_def)
  then have "t = WNode False []" by (cases t) simp
  then show ?thesis by (cases q) (simp_all add: wt_findOne_def)
qed

lemma trie_ok_new: "trie_ok new_tree" "words new_tree = {}"
proof -
  have "has p new_tree \<longleftrightarrow> p = []" "\<not> isin p new_tree" for p
    by (cases p; simp add: new_tree_def has_Cons isin_Cons isin_Nil)+
  then show "trie_ok new_tree" "words new_tree = {}"
    by (simp_all add: trie_ok_def live_but_def words_def) (simp_all add: new_tree_def)
qed

lemma wt_findOne_results:
  "fst (wt_findOne q t) \<in> {RETURNVALUE_NOERROR, RETURNVALUE_PLAYERWITHTHISNAMEISNOTONLINE,
     RETURNVALUE_NAMEISTOOAMBIGUOUS}"
proof -
  have "fst (findOne_from n r) \<in> {RETURNVALUE_NOERROR, RETURNVALUE_NAMEISTOOAMBIGUOUS}" for n r
    by (induction n r rule: findOne_from.induct) auto
  then show ?thesis by (auto simp: wt_findOne_def split: option.split)
qed

interpretation wt: name_index new_tree wt_insert wt_remove wt_findOne words trie_ok
proof unfold_locales
  show "trie_ok new_tree" "words new_tree = {}" by (rule trie_ok_new)+
  show "\<exists>t'. wt_insert w t = Some t'" if "w \<noteq> []" for w t using that by (simp add: wt_insert_def)
  show "trie_ok t' \<and> words t' = insert w (words t)" if "trie_ok t" "wt_insert w t = Some t'" for t t' w
    using wt_insert_ok [OF that] by simp
qed (simp_all add: wt_remove_ok wt_findOne_spec wt_findOne_results [simplified])


section \<open>Properties\<close>

datatype tree_op = Insert string | Remove string

fun tree_run :: "tree_op list \<Rightarrow> wnode \<Rightarrow> wnode option" where
  "tree_run [] t = Some t"
| "tree_run (Insert w # ops) t =
     (case wt_insert w t of None \<Rightarrow> None | Some t' \<Rightarrow> tree_run ops t')"
| "tree_run (Remove w # ops) t = tree_run ops (wt_remove w t)"

fun set_run :: "tree_op list \<Rightarrow> string set \<Rightarrow> string set" where
  "set_run [] ws = ws"
| "set_run (Insert w # ops) ws = set_run ops (insert w ws)"
| "set_run (Remove w # ops) ws = set_run ops (ws - {w})"

lemma tree_run_ok:
  assumes "trie_ok t" and "\<forall>w. Insert w \<in> set ops \<or> Remove w \<in> set ops \<longrightarrow> w \<noteq> []"
  shows "\<exists>t'. tree_run ops t = Some t' \<and> trie_ok t' \<and> words t' = set_run ops (words t)"
  using assms
proof (induction ops t rule: tree_run.induct)
  case (2 w ops t)
  then have w: "w \<noteq> []" by auto
  obtain t' where t': "wt_insert w t = Some t'" using wt.add_Some [OF w] by blast
  with 2 wt.names_add [OF 2(2) t' w] show ?case by simp
next
  case (3 w ops t)
  then have "w \<noteq> []" by auto
  with 3 wt.names_del [OF 3(2)] show ?case by simp
qed simp

text \<open>C25: The tree of names implements the set of names: any sequence of insertions and removals of
  non-empty names succeeds, and afterwards \<open>findOne\<close> answers from the beginning of a name exactly
  what that set says: the name itself when one alone begins so, \<open>not online\<close> when none
  does, and otherwise \<open>too ambiguous\<close>, also when one of them is the query itself. Shared
  beginnings, re-insertion and the pruning of dead branches never show.\<close>

theorem tree_implements_set:
  assumes "\<forall>w. Insert w \<in> set ops \<or> Remove w \<in> set ops \<longrightarrow> w \<noteq> []"
    and "set_run ops {} \<noteq> {}"
  shows "\<exists>t. tree_run ops new_tree = Some t \<and> trie_ok t \<and>
     (let ws = completions (set_run ops {}) q; a = wt_findOne q t
      in (\<forall>r. a = (RETURNVALUE_NOERROR, r) \<longleftrightarrow> ws = {r}) \<and>
         (fst a = RETURNVALUE_PLAYERWITHTHISNAMEISNOTONLINE \<longleftrightarrow> ws = {}) \<and>
         (fst a = RETURNVALUE_NAMEISTOOAMBIGUOUS \<longleftrightarrow> (\<exists>v\<in>ws. \<exists>w\<in>ws. v \<noteq> w)))"
proof -
  obtain t where t: "tree_run ops new_tree = Some t" "trie_ok t" "words t = set_run ops {}"
    using tree_run_ok [OF trie_ok_new(1) assms(1)] trie_ok_new(2) by auto
  then have "words t \<noteq> {}" using assms(2) by simp
  note wt.find_found [OF t(2) this] wt.find_none [OF t(2) this] wt.find_ambiguous [OF t(2) this]
  then show ?thesis using t by (auto simp: Let_def)
qed

lemma tree_implements_set_witness:
  "\<exists>t. tree_run [Insert ''bob'', Insert ''bobby'', Remove ''bob''] new_tree = Some t \<and>
       wt_findOne ''bo'' t = (RETURNVALUE_NOERROR, ''bobby'')"
proof -
  have "completions (set_run [Insert ''bob'', Insert ''bobby'', Remove ''bob''] {}) ''bo'' = {''bobby''}"
    by (auto simp: completions_def)
  with tree_implements_set [of "[Insert ''bob'', Insert ''bobby'', Remove ''bob'']" "''bo''"]
  show ?thesis by (auto simp: Let_def)
qed

end
