(* ===== verification/Player_Index.thy ===== *)
theory Player_Index
  imports Wildcard
begin

text \<open>
  Who is online: the maps of \<open>Game\<close> (\<open>src/game.{h,cpp}\<close>) from identifiers, account-wide
  ids and names to players, the tree of names beside them, and the lookups that chat and
  spells use. A player is known here by its identifier, its guid and its name. Lower case is the
  library's \<open>boost::algorithm::to_lower_copy\<close>, a parameter that is only assumed to be
  idempotent and to keep the length.
\<close>

section \<open>State and operations\<close>

record player_ref =
  pid :: u32
  guid :: u32
  pname :: string

record registry =
  players :: "u32 \<rightharpoonup> player_ref"
  mappedPlayerNames :: "string \<rightharpoonup> player_ref"
  mappedPlayerGuids :: "u32 \<rightharpoonup> player_ref"
  wildcardTree :: wnode

definition empty_registry :: registry where
  "empty_registry =
     \<lparr>players = Map.empty, mappedPlayerNames = Map.empty, mappedPlayerGuids = Map.empty,
      wildcardTree = new_tree\<rparr>"

definition PLAYER_NAME_LENGTH :: nat where
  "PLAYER_NAME_LENGTH = 25"

definition addPlayer :: "(string \<Rightarrow> string) \<Rightarrow> player_ref \<Rightarrow> registry \<Rightarrow> registry option" where
  "addPlayer lower p g =
     (case wt_insert (lower (pname p)) (wildcardTree g) of
        None \<Rightarrow> None
      | Some t \<Rightarrow>
          Some (g\<lparr>mappedPlayerNames := (mappedPlayerNames g)(lower (pname p) \<mapsto> p),
                  mappedPlayerGuids := (mappedPlayerGuids g)(guid p \<mapsto> p),
                  wildcardTree := t,
                  players := (players g)(pid p \<mapsto> p)\<rparr>))"

definition removePlayer :: "(string \<Rightarrow> string) \<Rightarrow> player_ref \<Rightarrow> registry \<Rightarrow> registry" where
  "removePlayer lower p g =
     g\<lparr>mappedPlayerNames := (mappedPlayerNames g)(lower (pname p) := None),
       mappedPlayerGuids := (mappedPlayerGuids g)(guid p := None),
       wildcardTree := wt_remove (lower (pname p)) (wildcardTree g),
       players := (players g)(pid p := None)\<rparr>"

definition getPlayerByID :: "u32 \<Rightarrow> registry \<Rightarrow> player_ref option" where
  "getPlayerByID i g = (if i = 0 then None else players g i)"

definition getPlayerByName :: "(string \<Rightarrow> string) \<Rightarrow> string \<Rightarrow> registry \<Rightarrow> player_ref option" where
  "getPlayerByName lower s g = (if s = [] then None else mappedPlayerNames g (lower s))"

definition getPlayerByGUID :: "u32 \<Rightarrow> registry \<Rightarrow> player_ref option" where
  "getPlayerByGUID i g = (if i = 0 then None else mappedPlayerGuids g i)"

text \<open>The last argument is what the caller's pointer holds before the call.\<close>

definition getPlayerByNameWildcard ::
  "(string \<Rightarrow> string) \<Rightarrow> string \<Rightarrow> registry \<Rightarrow> player_ref option \<Rightarrow> ReturnValue \<times> player_ref option" where
  "getPlayerByNameWildcard lower s g player =
     (let found = (\<lambda>p. (if p = None then RETURNVALUE_PLAYERWITHTHISNAMEISNOTONLINE
                        else RETURNVALUE_NOERROR, p))
      in if length s = 0 \<or> length s > PLAYER_NAME_LENGTH
         then (RETURNVALUE_PLAYERWITHTHISNAMEISNOTONLINE, player)
         else if last s = CHR ''~''
         then let (ret, result) = wt_findOne (lower (butlast s)) (wildcardTree g)
              in if ret \<noteq> RETURNVALUE_NOERROR then (ret, player)
                 else found (getPlayerByName lower result g)
         else found (getPlayerByName lower s g))"

section \<open>Logins and logouts\<close>

datatype reg_event = Login player_ref | Logout player_ref

fun reg_run :: "(string \<Rightarrow> string) \<Rightarrow> reg_event list \<Rightarrow> registry \<Rightarrow> registry option" where
  "reg_run lower [] g = Some g"
| "reg_run lower (Login p # es) g =
     (case addPlayer lower p g of None \<Rightarrow> None | Some g' \<Rightarrow> reg_run lower es g')"
| "reg_run lower (Logout p # es) g = reg_run lower es (removePlayer lower p g)"

text \<open>Who is online after the events; a login is admissible when neither the identifier, the guid nor
  the name (in lower case) is in use, as the login code checks, and a logout when the player is
  online.\<close>

fun online :: "reg_event list \<Rightarrow> player_ref set \<Rightarrow> player_ref set" where
  "online [] ps = ps"
| "online (Login p # es) ps = online es (insert p ps)"
| "online (Logout p # es) ps = online es (ps - {p})"

definition clash :: "(string \<Rightarrow> string) \<Rightarrow> player_ref \<Rightarrow> player_ref \<Rightarrow> bool" where
  "clash lower p q \<longleftrightarrow> pid p = pid q \<or> guid p = guid q \<or> lower (pname p) = lower (pname q)"

fun admissible :: "(string \<Rightarrow> string) \<Rightarrow> reg_event list \<Rightarrow> player_ref set \<Rightarrow> bool" where
  "admissible lower [] ps \<longleftrightarrow> True"
| "admissible lower (Login p # es) ps \<longleftrightarrow>
     pname p \<noteq> [] \<and> pid p \<noteq> 0 \<and> guid p \<noteq> 0 \<and> (\<forall>q\<in>ps. \<not> clash lower p q) \<and>
     admissible lower es (insert p ps)"
| "admissible lower (Logout p # es) ps \<longleftrightarrow> p \<in> ps \<and> admissible lower es (ps - {p})"

section \<open>The maps agree with who is online\<close>

definition lower_ok :: "(string \<Rightarrow> string) \<Rightarrow> bool" where
  "lower_ok lower \<longleftrightarrow> (\<forall>s. lower (lower s) = lower s \<and> length (lower s) = length s)"

definition reg_ok :: "(string \<Rightarrow> string) \<Rightarrow> player_ref set \<Rightarrow> registry \<Rightarrow> bool" where
  "reg_ok lower ps g \<longleftrightarrow>
     (\<forall>p\<in>ps. \<forall>q\<in>ps. clash lower p q \<longrightarrow> p = q) \<and>
     (\<forall>p\<in>ps. pname p \<noteq> [] \<and> pid p \<noteq> 0 \<and> guid p \<noteq> 0) \<and>
     (\<forall>i p. players g i = Some p \<longleftrightarrow> p \<in> ps \<and> pid p = i) \<and>
     (\<forall>i p. mappedPlayerGuids g i = Some p \<longleftrightarrow> p \<in> ps \<and> guid p = i) \<and>
     (\<forall>n p. mappedPlayerNames g n = Some p \<longleftrightarrow> p \<in> ps \<and> lower (pname p) = n) \<and>
     trie_ok (wildcardTree g) \<and> words (wildcardTree g) = (\<lambda>p. lower (pname p)) ` ps"

lemma lower_Nil: "lower_ok lower \<Longrightarrow> lower s = [] \<longleftrightarrow> s = []"
  by (metis length_0_conv lower_ok_def)

lemma reg_ok_empty: "reg_ok lower {} empty_registry"
  by (simp add: reg_ok_def empty_registry_def trie_ok_new)

lemma reg_ok_add:
  assumes "reg_ok lower ps g" and "lower_ok lower" and "pname p \<noteq> []" "pid p \<noteq> 0" "guid p \<noteq> 0"
    and "\<forall>q\<in>ps. \<not> clash lower p q"
  shows "\<exists>g'. addPlayer lower p g = Some g' \<and> reg_ok lower (insert p ps) g'"
proof -
  have n: "lower (pname p) \<noteq> []" using assms(2,3) by (simp add: lower_Nil)
  obtain t where t: "wt_insert (lower (pname p)) (wildcardTree g) = Some t" using wt.add_Some [OF n] by blast
  have "trie_ok t \<and> words t = insert (lower (pname p)) (words (wildcardTree g))"
    using assms(1) t n by (intro wt.names_add) (simp_all add: reg_ok_def)
  with t assms show ?thesis by (auto simp: addPlayer_def reg_ok_def clash_def)
qed

lemma reg_ok_uniq: "reg_ok lower ps g \<Longrightarrow> p \<in> ps \<Longrightarrow> q \<in> ps \<Longrightarrow> clash lower p q \<Longrightarrow> p = q"
  unfolding reg_ok_def by (elim conjE) blast

lemma reg_ok_maps:
  assumes "reg_ok lower ps g"
  shows "players g i = Some p \<longleftrightarrow> p \<in> ps \<and> pid p = i"
    and "mappedPlayerGuids g j = Some p \<longleftrightarrow> p \<in> ps \<and> guid p = j"
    and "mappedPlayerNames g n = Some p \<longleftrightarrow> p \<in> ps \<and> lower (pname p) = n"
  using assms by (simp_all add: reg_ok_def)

lemma reg_ok_remove:
  assumes "reg_ok lower ps g" and "lower_ok lower" and "p \<in> ps"
  shows "reg_ok lower (ps - {p}) (removePlayer lower p g)"
proof -
  have n: "lower (pname p) \<noteq> []" using assms by (simp add: lower_Nil reg_ok_def)
  have t: "trie_ok (wt_remove (lower (pname p)) (wildcardTree g)) \<and>
      words (wt_remove (lower (pname p)) (wildcardTree g)) = words (wildcardTree g) - {lower (pname p)}"
    using assms(1) n by (intro wt.names_del) (simp_all add: reg_ok_def)
  have uniq: "\<And>q. q \<in> ps \<Longrightarrow> clash lower p q \<Longrightarrow> q = p"
    by (rule reg_ok_uniq [OF assms(1,3), symmetric])
  note maps = reg_ok_maps [OF assms(1)]
  have "(\<lambda>p. lower (pname p)) ` ps - {lower (pname p)} = (\<lambda>p. lower (pname p)) ` (ps - {p})"
    using uniq by (auto simp: clash_def)
  with t assms(1) have "words (wt_remove (lower (pname p)) (wildcardTree g)) = (\<lambda>p. lower (pname p)) ` (ps - {p})"
    by (simp add: reg_ok_def)
  moreover have "(if pid p = i then None else players g i) = Some q \<longleftrightarrow> q \<in> ps - {p} \<and> pid q = i" for i q
    using uniq [of q] by (auto simp: maps clash_def)
  moreover have "(if guid p = i then None else mappedPlayerGuids g i) = Some q \<longleftrightarrow>
      q \<in> ps - {p} \<and> guid q = i" for i q
    using uniq [of q] by (auto simp: maps clash_def)
  moreover have "(if lower (pname p) = n then None else mappedPlayerNames g n) = Some q \<longleftrightarrow>
      q \<in> ps - {p} \<and> lower (pname q) = n" for n q
    using uniq [of q] by (auto simp: maps clash_def)
  moreover have "\<forall>q\<in>ps - {p}. \<forall>r\<in>ps - {p}. clash lower q r \<longrightarrow> q = r"
    using reg_ok_uniq [OF assms(1)] by blast
  moreover have "\<forall>q\<in>ps - {p}. pname q \<noteq> [] \<and> pid q \<noteq> 0 \<and> guid q \<noteq> 0"
    using assms(1) by (simp add: reg_ok_def)
  ultimately show ?thesis
    using t by (simp add: removePlayer_def reg_ok_def eq_commute [of _ "pid p"]
        eq_commute [of _ "guid p"] eq_commute [of _ "lower (pname p)"])
qed

lemma reg_ok_run:
  assumes "lower_ok lower"
  shows "reg_ok lower ps g \<Longrightarrow> admissible lower es ps \<Longrightarrow>
         \<exists>g'. reg_run lower es g = Some g' \<and> reg_ok lower (online es ps) g'"
proof (induction es ps arbitrary: g rule: online.induct)
  case (2 p es ps)
  then obtain g' where "addPlayer lower p g = Some g'" "reg_ok lower (insert p ps) g'"
    using reg_ok_add [OF 2(2) assms, of p] by auto
  with 2 show ?case by auto
next
  case (3 p es ps)
  then have "reg_ok lower (ps - {p}) (removePlayer lower p g)"
    using reg_ok_remove [OF 3(2) assms] by simp
  with 3 show ?case by auto
qed simp


lemma reg_ok_lookups:
  assumes "reg_ok lower ps g"
  shows "getPlayerByID i g = Some p \<longleftrightarrow> p \<in> ps \<and> pid p = i"
    and "getPlayerByGUID i g = Some p \<longleftrightarrow> p \<in> ps \<and> guid p = i"
    and "lower_ok lower \<Longrightarrow> getPlayerByName lower s g = Some p \<longleftrightarrow> p \<in> ps \<and> lower (pname p) = lower s"
  using assms lower_Nil [of lower s] lower_Nil [of lower "pname p"]
  by (auto simp: getPlayerByID_def getPlayerByGUID_def getPlayerByName_def reg_ok_def)

definition matching :: "(string \<Rightarrow> string) \<Rightarrow> string \<Rightarrow> player_ref set \<Rightarrow> player_ref set" where
  "matching lower q ps = {p \<in> ps. prefix (lower q) (lower (pname p))}"

lemma completions_matching:
  "completions ((\<lambda>p. lower (pname p)) ` ps) (lower q) = (\<lambda>p. lower (pname p)) ` matching lower q ps"
  by (auto simp: completions_def matching_def)

lemma wildcard_lookup:
  assumes ok: "reg_ok lower ps g" and lower: "lower_ok lower" and len: "length q < PLAYER_NAME_LENGTH"
  shows "getPlayerByNameWildcard lower (q @ ''~'') g None =
         (if matching lower q ps = {} then (RETURNVALUE_PLAYERWITHTHISNAMEISNOTONLINE, None)
          else if is_singleton (matching lower q ps)
          then (RETURNVALUE_NOERROR, Some (the_elem (matching lower q ps)))
          else (RETURNVALUE_NAMEISTOOAMBIGUOUS, None))"
proof -
  let ?t = "wildcardTree g" and ?m = "matching lower q ps" and ?f = "\<lambda>p. lower (pname p)"
  have t: "trie_ok ?t" "words ?t = ?f ` ps" using ok by (simp_all add: reg_ok_def)
  have inj: "inj_on ?f ?m" using reg_ok_uniq [OF ok] by (auto simp: clash_def matching_def inj_on_def)
  have unfold: "getPlayerByNameWildcard lower (q @ ''~'') g None =
      (let (ret, result) = wt_findOne (lower q) ?t; p = getPlayerByName lower result g
       in if ret \<noteq> RETURNVALUE_NOERROR then (ret, None)
          else (if p = None then RETURNVALUE_PLAYERWITHTHISNAMEISNOTONLINE else RETURNVALUE_NOERROR, p))"
    using len by (simp add: getPlayerByNameWildcard_def Let_def)
  show ?thesis
  proof (cases "ps = {}")
    case True
    then have no: "getPlayerByName lower s g = None" for s
      using reg_ok_lookups(3) [OF ok lower] by (cases "getPlayerByName lower s g") auto
    have words: "words ?t = {}" using t True by simp
    then have "fst (wt_findOne (lower q) ?t) \<noteq> RETURNVALUE_NAMEISTOOAMBIGUOUS"
      using wt_findOne_empty [OF t(1) words] by simp
    then show ?thesis unfolding unfold using True no wt.find_results [of "lower q" ?t]
      by (auto simp: matching_def Let_def split: prod.splits)
  next
    case False
    then have ne: "words ?t \<noteq> {}" using t by simp
    note found = wt.find_found [OF t(1) ne, of "lower q", unfolded t(2) completions_matching]
    note none = wt.find_none [OF t(1) ne, of "lower q", unfolded t(2) completions_matching]
    note amb = wt.find_ambiguous [OF t(1) ne, of "lower q", unfolded t(2) completions_matching]
    show ?thesis
    proof -
      consider (1) "fst (wt_findOne (lower q) ?t) = RETURNVALUE_NOERROR"
        | (2) "fst (wt_findOne (lower q) ?t) = RETURNVALUE_PLAYERWITHTHISNAMEISNOTONLINE"
        | (3) "fst (wt_findOne (lower q) ?t) = RETURNVALUE_NAMEISTOOAMBIGUOUS"
        using wt.find_results [of "lower q" ?t] by auto
      then show ?thesis
      proof cases
      case 1
      then obtain r where r: "wt_findOne (lower q) ?t = (RETURNVALUE_NOERROR, r)" by (metis prod.collapse)
      then have "?f ` ?m = {r}" using found by simp
      then obtain p where p: "?m = {p}" "r = ?f p"
      proof -
        obtain p where p: "p \<in> ?m" "r = ?f p" using \<open>?f ` ?m = {r}\<close> by blast
        have "x = p" if "x \<in> ?m" for x
          using inj_onD [OF inj _ that p(1)] \<open>?f ` ?m = {r}\<close> that p(2) by blast
        with p that show thesis by blast
      qed
      then have "getPlayerByName lower r g = Some p"
        using reg_ok_lookups(3) [OF ok lower] lower by (auto simp: matching_def lower_ok_def)
      then show ?thesis unfolding unfold using r p by simp
    next
      case 2
      then have "?m = {}" using none by simp
      then show ?thesis unfolding unfold using 2
        by (simp add: split_beta Let_def)
    next
      case 3
      then have "?m \<noteq> {}" "\<not> is_singleton ?m" using amb by (auto elim!: is_singletonE)
      then show ?thesis unfolding unfold using 3
        by (simp add: split_beta Let_def)
      qed
    qed
  qed
qed


section \<open>Properties\<close>

text \<open>C26: After any sequence of logins and logouts, every way to look up a player agrees on who is
  online: by identifier, by guid and by name (in any case) exactly the player that is online
  with it is found, and by the beginning of a name followed by a tilde the one player whose
  name begins so; when there is none or more than one, the caller is told which, and its pointer
  stays null.\<close>

theorem lookups_agree:
  assumes "lower_ok lower" and "admissible lower es {}" and "length q < PLAYER_NAME_LENGTH"
  shows "\<exists>g. reg_run lower es empty_registry = Some g \<and>
    (let ps = online es {}; m = matching lower q ps
     in (\<forall>p. (getPlayerByID (pid p) g = Some p) = (p \<in> ps)) \<and>
        (\<forall>p. (getPlayerByGUID (guid p) g = Some p) = (p \<in> ps)) \<and>
        (\<forall>s p. (getPlayerByName lower s g = Some p) = (p \<in> ps \<and> lower (pname p) = lower s)) \<and>
        getPlayerByNameWildcard lower (q @ ''~'') g None =
          (if m = {} then (RETURNVALUE_PLAYERWITHTHISNAMEISNOTONLINE, None)
           else if is_singleton m then (RETURNVALUE_NOERROR, Some (the_elem m))
           else (RETURNVALUE_NAMEISTOOAMBIGUOUS, None)))"
proof -
  obtain g where g: "reg_run lower es empty_registry = Some g" "reg_ok lower (online es {}) g"
    using reg_ok_run [OF assms(1) reg_ok_empty assms(2)] by blast
  show ?thesis
    using g(1) reg_ok_lookups [OF g(2)] assms(1) wildcard_lookup [OF g(2) assms(1,3)]
    by (auto simp: Let_def)
qed

definition anna :: player_ref where
  "anna = \<lparr>pid = 7, guid = 70, pname = ''anna''\<rparr>"

definition ann :: player_ref where
  "ann = \<lparr>pid = 8, guid = 80, pname = ''ann''\<rparr>"

lemma lookups_agree_witness:
  "\<exists>g. reg_run id [Login ann, Login anna, Logout ann] empty_registry = Some g \<and>
       getPlayerByNameWildcard id ''an~'' g None = (RETURNVALUE_NOERROR, Some anna)"
proof -
  have 1: "lower_ok id" by (simp add: lower_ok_def)
  have 2: "admissible id [Login ann, Login anna, Logout ann] {}"
    by (simp add: ann_def anna_def clash_def)
  have 3: "online [Login ann, Login anna, Logout ann] {} = {anna}" by (auto simp: ann_def anna_def)
  have "matching id ''an'' {anna} = {anna}" by (auto simp: matching_def anna_def)
  with lookups_agree [OF 1 2, of "''an''"] 3 show ?thesis
    by (auto simp: PLAYER_NAME_LENGTH_def Let_def)
qed

end
