(* ===== verification/Condition_Effects.thy ===== *)
theory Condition_Effects
  imports Conditions Float_Arith
begin

text \<open>
  What conditions do to a creature: the operations \<open>startCondition\<close>, \<open>executeCondition\<close>,
  \<open>addCondition\<close> (a refresh) and \<open>endCondition\<close> of every class of \<open>src/condition.cpp\<close>, and the
  list of conditions that \<open>src/creature.cpp\<close> keeps and runs. The creature is the state they
  read and write. What they ask of parts that are not modelled is in the environment: the clock,
  the random numbers, whether combat lets a hit through, the delay of the current step, the
  answer of the outfit event. What they tell other parts (a walk to stop, a hit, a cooldown for
  the client) is appended to the log of the creature; updates of the client's display are not.
  Undefined behaviour is None.
\<close>

section \<open>The creature\<close>

datatype creature_kind = A_Player | A_Monster | An_Npc

datatype creature_log =
    StopEventWalk
  | AddEventWalk
  | Hit u32 int
  | ChangeVisible bool
  | SpellCooldownSent u32 int
  | SpellGroupCooldownSent u32 int
  | ScheduleAddCondition condition int
  | ScheduleRemoveCondition u32 int
  | UpdateIdleStatus
  | Dismount
  | EndOfFight
  | ExecuteDeath

record creature =
  kind :: creature_kind
  ghost :: bool
  baseSpeed :: int
  varSpeed :: int
  cancelNextWalk :: bool
  walkDirs :: bool
  health :: int
  healthMax :: int
  drunkenness :: u8
  currentOutfit :: outfit
  defaultOutfit :: outfit
  internalLight :: "u8 \<times> u8"
  itemsLight :: "u8 \<times> u8"
  normalLight :: "u8 \<times> u8"
  canUseDefense :: bool
  ignoreFieldDamage :: bool
  suppressions :: u32
  immunities :: u32
  fieldCombatType :: "u32 option"
  protectionZone :: bool
  conditions :: "condition list"
  baseSkills :: "int list"
  varSkills :: "int list"
  varSpecialSkills :: "int list"
  varStats :: "int list"
  mana :: int
  manaMax :: int
  infiniteMana :: bool
  baseMagicLevel :: int
  soul :: int
  soulMax :: int
  log_of :: "creature_log list"

record effect_env =
  e_now :: int
  e_random :: "int \<Rightarrow> int \<Rightarrow> int"
  e_hit :: "u32 \<Rightarrow> int \<Rightarrow> bool"
  e_attackerIsPlayer :: "u32 \<Rightarrow> bool"
  e_outfitAllowed :: "outfit \<Rightarrow> bool"
  e_walkDelay :: int

abbreviation tell :: "creature_log \<Rightarrow> creature \<Rightarrow> creature" where
  "tell e cr \<equiv> cr\<lparr>log_of := log_of cr @ [e]\<rparr>"

definition getSpeed :: "creature \<Rightarrow> int" where
  "getSpeed cr = baseSpeed cr + varSpeed cr"

definition setSpeed :: "int \<Rightarrow> creature \<Rightarrow> creature" where
  "setSpeed varSpeedDelta cr =
     (let oldSpeed = getSpeed cr; cr = cr\<lparr>varSpeed := varSpeedDelta\<rparr>
      in if getSpeed cr \<le> 0 then (tell StopEventWalk cr)\<lparr>cancelNextWalk := True\<rparr>
         else if oldSpeed \<le> 0 \<and> walkDirs cr then tell AddEventWalk cr else cr)"

definition changeSpeed :: "int \<Rightarrow> creature \<Rightarrow> creature" where
  "changeSpeed varSpeedDelta cr =
     (let v = getSpeed cr - baseSpeed cr in setSpeed (v + varSpeedDelta) cr)"

definition getMaxHealth :: "creature \<Rightarrow> int" where
  "getMaxHealth cr =
     (if kind cr = A_Player then max 1 (healthMax cr + varStats cr ! 0) else healthMax cr)"

definition getMaxMana :: "creature \<Rightarrow> int" where
  "getMaxMana cr = max 0 (manaMax cr + varStats cr ! 1)"

definition changeHealth :: "int \<Rightarrow> creature \<Rightarrow> creature" where
  "changeHealth healthChange cr =
     (let cr = cr\<lparr>health := (if healthChange > 0
                   then health cr + min healthChange (getMaxHealth cr - health cr)
                   else max 0 (health cr + healthChange))\<rparr>
      in if health cr \<le> 0 then tell ExecuteDeath cr else cr)"

definition changeMana :: "int \<Rightarrow> creature \<Rightarrow> creature" where
  "changeMana manaChange cr =
     (if infiniteMana cr then cr
      else cr\<lparr>mana := (if manaChange > 0 then mana cr + min manaChange (getMaxMana cr - mana cr)
                       else max 0 (mana cr + manaChange))\<rparr>)"

definition changeSoul :: "int \<Rightarrow> creature \<Rightarrow> creature" where
  "changeSoul soulChange cr =
     cr\<lparr>soul := (if soulChange > 0 then soul cr + min soulChange (soulMax cr - soul cr)
                 else max 0 (soul cr + soulChange))\<rparr>"

definition setVarSkill :: "nat \<Rightarrow> int \<Rightarrow> creature \<Rightarrow> creature" where
  "setVarSkill i m cr = cr\<lparr>varSkills := (varSkills cr)[i := varSkills cr ! i + m]\<rparr>"

definition setVarSpecialSkill :: "nat \<Rightarrow> int \<Rightarrow> creature \<Rightarrow> creature" where
  "setVarSpecialSkill i m cr =
     cr\<lparr>varSpecialSkills := (varSpecialSkills cr)[i := varSpecialSkills cr ! i + m]\<rparr>"

definition setVarStats :: "nat \<Rightarrow> int \<Rightarrow> creature \<Rightarrow> creature" where
  "setVarStats i m cr =
     (let cr = cr\<lparr>varStats := (varStats cr)[i := varStats cr ! i + m]\<rparr>
      in if i = 0 then
           (if health cr > getMaxHealth cr then changeHealth (getMaxHealth cr - health cr) cr else cr)
         else if i = 1 then
           (if mana cr > getMaxMana cr then changeMana (getMaxMana cr - mana cr) cr else cr)
         else cr)"

definition isInvisible :: "creature \<Rightarrow> bool" where
  "isInvisible cr \<longleftrightarrow> (\<exists>c\<in>set (conditions cr). conditionType c = CONDITION_INVISIBLE)"

definition isSuppress :: "u32 \<Rightarrow> creature \<Rightarrow> bool" where
  "isSuppress t cr \<longleftrightarrow> t AND (if kind cr = A_Player then suppressions cr else 0) \<noteq> 0"

definition isImmune :: "u32 \<Rightarrow> creature \<Rightarrow> bool" where
  "isImmune t cr \<longleftrightarrow> t AND immunities cr \<noteq> 0"

definition getCreatureLight :: "creature \<Rightarrow> u8 \<times> u8" where
  "getCreatureLight cr =
     (if kind cr = A_Player \<and> \<not> fst (internalLight cr) > fst (itemsLight cr)
      then itemsLight cr else internalLight cr)"

definition setNormalCreatureLight :: "creature \<Rightarrow> creature" where
  "setNormalCreatureLight cr =
     cr\<lparr>internalLight := (if kind cr = A_Monster then normalLight cr else (0, 215))\<rparr>"

definition internalCreatureChangeOutfit :: "effect_env \<Rightarrow> outfit \<Rightarrow> creature \<Rightarrow> creature" where
  "internalCreatureChangeOutfit env out cr =
     (if \<not> e_outfitAllowed env out then cr else cr\<lparr>currentOutfit := out\<rparr>)"

section \<open>Attribute conditions\<close>

text \<open>A share in percent, computed with floats; None where the result has no value in 32 bits.\<close>

definition percent_of :: "int \<Rightarrow> int \<Rightarrow> int option" where
  "percent_of base pct =
     (let v = to_integer (fl32 (fl32 (of_int base) * fl32 (fl32 (of_int (pct - 100)) / 100)))
      in if int32 (pct - 100) \<and> int32 v then Some v else None)"

definition updatePercentSkills :: "creature \<Rightarrow> attributes_data \<Rightarrow> attributes_data option" where
  "updatePercentSkills cr a =
     map_option (\<lambda>xs. a\<lparr>skills := xs\<rparr>)
       (those (map (\<lambda>i. if skillsPercent a ! i = 0 then Some (skills a ! i)
                         else percent_of (baseSkills cr ! i) (skillsPercent a ! i)) [0..<7]))"

definition updatePercentStats :: "creature \<Rightarrow> attributes_data \<Rightarrow> attributes_data option" where
  "updatePercentStats cr a =
     map_option (\<lambda>xs. a\<lparr>stats := xs\<rparr>)
       (those (map (\<lambda>i. if statsPercent a ! i = 0 then Some (stats a ! i)
                         else if i = 0 then percent_of (getMaxHealth cr) (statsPercent a ! i)
                         else if i = 1 then percent_of (getMaxMana cr) (statsPercent a ! i)
                         else if i = 3 then percent_of (baseMagicLevel cr) (statsPercent a ! i)
                         else Some (stats a ! i)) [0..<4]))"

definition updateSkills :: "attributes_data \<Rightarrow> creature \<Rightarrow> creature" where
  "updateSkills a cr =
     fold (\<lambda>i cr. if specialSkills a ! i \<noteq> 0 then setVarSpecialSkill i (specialSkills a ! i) cr else cr) [0..<6]
       (fold (\<lambda>i cr. if skills a ! i \<noteq> 0 then setVarSkill i (skills a ! i) cr else cr) [0..<7] cr)"

definition updateStats :: "attributes_data \<Rightarrow> creature \<Rightarrow> creature" where
  "updateStats a cr =
     fold (\<lambda>i cr. if stats a ! i \<noteq> 0 then setVarStats i (stats a ! i) cr else cr) [0..<4] cr"

text \<open>The four updates in the order of \<open>startCondition\<close> and \<open>addCondition\<close>, for a player.\<close>

definition apply_attributes :: "attributes_data \<Rightarrow> creature \<Rightarrow> (attributes_data \<times> creature) option" where
  "apply_attributes a cr =
     (if kind cr = A_Player then
        (case updatePercentSkills cr a of
           None \<Rightarrow> None
         | Some a \<Rightarrow>
             let cr = updateSkills a cr
             in map_option (\<lambda>a. (a, updateStats a cr)) (updatePercentStats cr a))
      else Some (a, cr))"

definition endCondition_attributes :: "attributes_data \<Rightarrow> creature \<Rightarrow> creature" where
  "endCondition_attributes a cr =
     (let cr =
        (if kind cr = A_Player then
           fold (\<lambda>i cr. if stats a ! i \<noteq> 0 then setVarStats i (- (stats a ! i)) cr else cr) [0..<4]
             (fold (\<lambda>i cr. if specialSkills a ! i \<noteq> 0
                            then setVarSpecialSkill i (- (specialSkills a ! i)) cr else cr) [0..<6]
               (fold (\<lambda>i cr. if skills a ! i \<noteq> 0 \<or> skillsPercent a ! i \<noteq> 0
                              then setVarSkill i (- (skills a ! i)) cr else cr) [0..<7] cr))
         else cr)
      in if disableDefense a then cr\<lparr>canUseDefense := True\<rparr> else cr)"

section \<open>Speed\<close>

text \<open>\<open>getFormulaValues\<close> with \<open>std::fma\<close> on doubles; the random choice between its two values.\<close>

definition formula_value :: "int \<Rightarrow> u32 \<Rightarrow> u32 \<Rightarrow> int option" where
  "formula_value var a b =
     (case (float_value a, float_value b) of
        (Some x, Some y) \<Rightarrow>
          let v = to_integer (fl64 (of_int var * x + y))
          in if - (2 ^ 31) \<le> v \<and> v < 2 ^ 31 then Some v else None
      | _ \<Rightarrow> None)"

definition chosen_speed :: "effect_env \<Rightarrow> creature \<Rightarrow> speed_data \<Rightarrow> speed_data option" where
  "chosen_speed env cr s =
     (if speedDelta s = 0 then
        case (formula_value (baseSpeed cr) (mina s) (minb s), formula_value (baseSpeed cr) (maxa s) (maxb s)) of
          (Some lo, Some hi) \<Rightarrow> Some (s\<lparr>speedDelta := e_random env lo hi\<rparr>)
        | _ \<Rightarrow> None
      else Some s)"

section \<open>Damage\<close>

definition onTickCondition :: "u32 \<Rightarrow> creature \<Rightarrow> bool \<Rightarrow> bool" where
  "onTickCondition t cr bRemove =
     (case fieldCombatType cr of
        None \<Rightarrow> bRemove
      | Some f \<Rightarrow>
          if t = CONDITION_FIRE then f \<noteq> 8
          else if t = CONDITION_ENERGY then f \<noteq> 2
          else if t = CONDITION_POISON then f \<noteq> 4
          else if t = CONDITION_FREEZING then f \<noteq> 512
          else if t = CONDITION_DAZZLED then f \<noteq> 1024
          else if t = CONDITION_CURSED then f \<noteq> 2048
          else if t = CONDITION_DROWN then f \<noteq> 256
          else if t = CONDITION_BLEEDING then f \<noteq> 1
          else bRemove)"

definition half_away :: "int \<Rightarrow> int" where
  "half_away v = (if v \<ge> 0 then (v + 1) div 2 else - ((- v + 1) div 2))"

text \<open>\<open>doDamage\<close>; whether the target can be hit and the hit is not blocked is \<open>e_hit\<close>.\<close>

definition doDamage :: "effect_env \<Rightarrow> u32 \<Rightarrow> damage_data \<Rightarrow> int \<Rightarrow> creature \<Rightarrow> bool \<times> creature" where
  "doDamage env t d healthChange cr =
     (if isSuppress t cr \<or> isImmune t cr then (False, cr)
      else
        let v = (if field_damage d \<and> kind cr = A_Player \<and> e_attackerIsPlayer env (owner d)
                 then half_away healthChange else healthChange)
        in (e_hit env t v, tell (Hit t v) cr))"

definition EVENT_CREATURE_THINK_INTERVAL :: int where
  "EVENT_CREATURE_THINK_INTERVAL = 1000"

text \<open>\<open>addDamage\<close> on a condition with damage data \<open>d\<close>: the condition with its new data. None: a number
  of ticks that has no value in 32 bits.\<close>

fun add_ticks :: "effect_env \<Rightarrow> int \<Rightarrow> nat \<Rightarrow> condition \<Rightarrow> condition option" where
  "add_ticks env time 0 c = Some c"
| "add_ticks env time (Suc k) c =
     (if ticks c = -1 then add_ticks env time k c
      else if int32 (ticks c + time) then add_ticks env time k (setTicks (e_now env) (ticks c + time) c)
      else None)"

definition addDamage ::
  "effect_env \<Rightarrow> int \<Rightarrow> int \<Rightarrow> int \<Rightarrow> condition \<times> damage_data \<Rightarrow> (bool \<times> condition \<times> damage_data) option" where
  "addDamage env rounds time v cd =
     (let (c, d) = cd; time = max time EVENT_CREATURE_THINK_INTERVAL
      in if rounds = -1 then Some (True, c\<lparr>ticks := -1\<rparr>, d\<lparr>periodDamage := v, tickInterval := time\<rparr>)
         else if periodDamage d > 0 then Some (False, c, d)
         else
           map_option
             (\<lambda>c. (True, c, d\<lparr>damageList := damageList d @
                replicate (nat rounds) \<lparr>timeLeft = time, ival_value = v, ival_interval = time\<rparr>\<rparr>))
             (add_ticks env time (nat rounds) c))"

text \<open>\<open>generateDamageList\<close>: the inner loop pushes \<open>i\<close> until the sum is nearest to \<open>med\<close>. Sums and
  products are \<open>int32_t\<close>; None: one of them overflows.\<close>

definition nearer_with :: "int \<Rightarrow> int \<Rightarrow> int \<Rightarrow> bool" where
  "nearer_with med acc i \<longleftrightarrow>
     med \<noteq> 0 \<and>
     fl64 \<bar>1 - fl32 (fl32 (fl32 (of_int acc) + fl32 (of_int i)) / fl32 (of_int med))\<bar>
       < fl64 \<bar>1 - fl32 (fl32 (of_int acc) / fl32 (of_int med))\<bar>"

partial_function (option) push_until :: "int \<Rightarrow> int \<Rightarrow> int \<Rightarrow> int list \<Rightarrow> (int \<times> int list) option" where
  "push_until med i acc ls =
     (let acc' = acc + i; ls' = ls @ [i]
      in if \<not> int32 acc' then None
         else if nearer_with med acc' i then push_until med i acc' ls' else Some (acc', ls'))"

fun damage_rounds :: "nat \<Rightarrow> int \<Rightarrow> int \<Rightarrow> int \<Rightarrow> int list \<Rightarrow> int list option" where
  "damage_rounds 0 amount start acc ls = Some ls"
| "damage_rounds (Suc k) amount start acc ls =
     (let i = int (Suc k); n = start + 1 - i; med = (n * amount) sdiv start
      in if \<not> int32 (start + 1) \<or> \<not> int32 (n * amount) then None
         else case push_until med i acc ls of
           None \<Rightarrow> None
         | Some (acc', ls') \<Rightarrow> damage_rounds k amount start acc' ls')"

definition generateDamageList :: "int \<Rightarrow> int \<Rightarrow> int list option" where
  "generateDamageList amount start =
     (if \<not> int32 \<bar>amount\<bar> then None else damage_rounds (nat start) \<bar>amount\<bar> start 0 [])"

fun add_damages ::
  "effect_env \<Rightarrow> int list \<Rightarrow> condition \<times> damage_data \<Rightarrow> (condition \<times> damage_data) option" where
  "add_damages env [] cd = Some cd"
| "add_damages env (v # vs) cd =
     (case addDamage env 1 (tickInterval (snd cd)) (- v) cd of
        None \<Rightarrow> None
      | Some (_, cd) \<Rightarrow> add_damages env vs cd)"

definition init_damage :: "effect_env \<Rightarrow> condition \<Rightarrow> damage_data \<Rightarrow> (bool \<times> condition \<times> damage_data) option" where
  "init_damage env c d =
     (if periodDamage d \<noteq> 0 then Some (True, c, d)
      else if damageList d \<noteq> [] then Some (True, c, d)
      else
        let c = setTicks (e_now env) 0 c; amount = e_random env (minDamage d) (maxDamage d)
        in if amount = 0 then Some (False, c, d)
           else
             let d = (if startDamage d > maxDamage d then d\<lparr>startDamage := maxDamage d\<rparr>
                      else if startDamage d = 0
                      then d\<lparr>startDamage := max 1 \<lceil>fl64 (of_int amount / 20)\<rceil>\<rparr> else d)
             in case generateDamageList amount (startDamage d) of
                  None \<Rightarrow> None
                | Some vs \<Rightarrow>
                    map_option (\<lambda>(c, d). (damageList d \<noteq> [], c, d)) (add_damages env vs (c, d)))"

definition getNextDamage :: "condition \<Rightarrow> damage_data \<Rightarrow> (int \<times> damage_data) option" where
  "getNextDamage c d =
     (if periodDamage d \<noteq> 0 then Some (periodDamage d, d)
      else case damageList d of
             [] \<Rightarrow> None
           | i # is \<Rightarrow> Some (ival_value i, if ticks c \<noteq> -1 then d\<lparr>damageList := is\<rparr> else d))"

section \<open>The four operations of every class\<close>

definition sdiv_level :: "int \<Rightarrow> u8 \<Rightarrow> u32" where
  "sdiv_level t level = word_of_int (t sdiv uint level)"

definition start_attributes ::
  "condition \<Rightarrow> attributes_data \<Rightarrow> creature \<Rightarrow> (bool \<times> condition \<times> creature) option" where
  "start_attributes c a cr =
     map_option (\<lambda>(a, cr). (True, set_data c (Attributes a), cr))
       (apply_attributes a (cr\<lparr>canUseDefense := \<not> disableDefense a\<rparr>))"

definition start_invisible :: "condition \<Rightarrow> creature \<Rightarrow> bool \<times> condition \<times> creature" where
  "start_invisible c cr = (True, c, if ghost cr then cr else tell (ChangeVisible False) cr)"

definition start_damage ::
  "effect_env \<Rightarrow> condition \<Rightarrow> damage_data \<Rightarrow> creature \<Rightarrow> (bool \<times> condition \<times> creature) option" where
  "start_damage env c d cr =
     (let (hit, cr) = (if delayed d then (True, cr)
                       else doDamage env (conditionType c) d (initDamage d) cr)
      in if \<not> hit then Some (False, c, cr)
         else (case init_damage env c d of
                 None \<Rightarrow> None
               | Some (ok, c, d) \<Rightarrow> Some (ok, set_data c (Damage d), cr)))"

definition start_speed ::
  "effect_env \<Rightarrow> condition \<Rightarrow> speed_data \<Rightarrow> creature \<Rightarrow> (bool \<times> condition \<times> creature) option" where
  "start_speed env c s cr =
     (case chosen_speed env cr s of
        None \<Rightarrow> None
      | Some s \<Rightarrow> Some (True, set_data c (Speed s), changeSpeed (speedDelta s) cr))"

definition start_outfit :: "effect_env \<Rightarrow> condition \<Rightarrow> outfit \<Rightarrow> creature \<Rightarrow> bool \<times> condition \<times> creature" where
  "start_outfit env c out cr = (True, c, internalCreatureChangeOutfit env out cr)"

definition start_light ::
  "condition \<Rightarrow> light_data \<Rightarrow> creature \<Rightarrow> (bool \<times> condition \<times> creature) option" where
  "start_light c l cr =
     (if light_level l = 0 then None
      else Some (True,
        set_data c (Light (l\<lparr>internalLightTicks := 0,
          lightChangeInterval := sdiv_level (ticks c) (light_level l)\<rparr>)),
        cr\<lparr>internalLight := (light_level l, light_color l)\<rparr>))"

definition start_spell_cooldown :: "condition \<Rightarrow> creature \<Rightarrow> bool \<times> condition \<times> creature" where
  "start_spell_cooldown c cr =
     (True, c, if subId c \<noteq> 0 \<and> ticks c > 0 \<and> kind cr = A_Player
               then tell (SpellCooldownSent (subId c) (ticks c)) cr else cr)"

definition start_group_cooldown :: "condition \<Rightarrow> creature \<Rightarrow> bool \<times> condition \<times> creature" where
  "start_group_cooldown c cr =
     (True, c, if subId c \<noteq> 0 \<and> ticks c > 0 \<and> kind cr = A_Player
               then tell (SpellGroupCooldownSent (subId c) (ticks c)) cr else cr)"

definition start_drunk :: "condition \<Rightarrow> u8 \<Rightarrow> creature \<Rightarrow> bool \<times> condition \<times> creature" where
  "start_drunk c d cr = (True, c, cr\<lparr>drunkenness := d\<rparr>)"

text \<open>The virtual function: every class first calls the one of \<open>Condition\<close>.\<close>

definition startCondition ::
  "effect_env \<Rightarrow> condition \<Rightarrow> creature \<Rightarrow> (bool \<times> condition \<times> creature) option" where
  "startCondition env c cr =
     (let c = startCondition_base (e_now env) c
      in case c_data c of
           Attributes a \<Rightarrow> start_attributes c a cr
         | Invisible \<Rightarrow> Some (start_invisible c cr)
         | Damage d \<Rightarrow> start_damage env c d cr
         | Speed s \<Rightarrow> start_speed env c s cr
         | Outfit out \<Rightarrow> Some (start_outfit env c out cr)
         | Light l \<Rightarrow> start_light c l cr
         | SpellCooldown \<Rightarrow> Some (start_spell_cooldown c cr)
         | SpellGroupCooldown \<Rightarrow> Some (start_group_cooldown c cr)
         | Drunk d \<Rightarrow> Some (start_drunk c d cr)
         | _ \<Rightarrow> Some (True, c, cr))"

lemmas start_defs = startCondition_def start_attributes_def start_invisible_def start_damage_def
  start_speed_def start_outfit_def start_light_def start_spell_cooldown_def start_group_cooldown_def
  start_drunk_def

definition execute_regeneration :: "bool \<Rightarrow> int \<Rightarrow> regeneration_data \<Rightarrow> creature \<Rightarrow> regeneration_data \<times> creature" where
  "execute_regeneration buff interval r cr =
     (let r = r\<lparr>internalHealthTicks := internalHealthTicks r + word_of_int interval,
                 internalManaTicks := internalManaTicks r + word_of_int interval\<rparr>
      in if protectionZone cr then (r, cr)
         else
           let (r, cr) = (if internalHealthTicks r \<ge> healthTicks r
                          then (r\<lparr>internalHealthTicks := 0\<rparr>, changeHealth (sint (healthGain r)) cr) else (r, cr))
           in if internalManaTicks r \<ge> manaTicks r
              then (r\<lparr>internalManaTicks := 0\<rparr>,
                    if kind cr = A_Player then changeMana (sint (manaGain r)) cr else cr)
              else (r, cr))"

definition execute_soul :: "int \<Rightarrow> soul_data \<Rightarrow> creature \<Rightarrow> soul_data \<times> creature" where
  "execute_soul interval s cr =
     (let s = s\<lparr>internalSoulTicks := internalSoulTicks s + word_of_int interval\<rparr>
      in if kind cr = A_Player \<and> \<not> protectionZone cr \<and> internalSoulTicks s \<ge> soulTicks s
         then (s\<lparr>internalSoulTicks := 0\<rparr>, changeSoul (sint (soulGain s)) cr)
         else (s, cr))"

definition execute_damage ::
  "effect_env \<Rightarrow> int \<Rightarrow> condition \<Rightarrow> damage_data \<Rightarrow> creature \<Rightarrow> bool \<times> condition \<times> creature" where
  "execute_damage env interval c d cr =
     (if periodDamage d \<noteq> 0 then
        let d = d\<lparr>periodDamageTick := periodDamageTick d + interval\<rparr>;
            (d, cr) = (if periodDamageTick d \<ge> tickInterval d
                       then (d\<lparr>periodDamageTick := 0\<rparr>,
                             snd (doDamage env (conditionType c) d (periodDamage d) cr))
                       else (d, cr));
            (alive, c) = executeCondition_base (e_now env) interval (set_data c (Damage d))
        in (alive, c, cr)
      else case damageList d of
        [] \<Rightarrow>
          (let (alive, c) = executeCondition_base (e_now env) interval c in (alive, c, cr))
      | i # is \<Rightarrow>
          let bRemove = onTickCondition (conditionType c) cr (ticks c \<noteq> -1);
              i = i\<lparr>timeLeft := timeLeft i - interval\<rparr>;
              (d, cr) =
                (if timeLeft i \<le> 0 then
                   let d = d\<lparr>damageList :=
                         if bRemove then is else i\<lparr>timeLeft := ival_interval i\<rparr> # is\<rparr>
                   in (d, snd (doDamage env (conditionType c) d (ival_value i) cr))
                 else (d\<lparr>damageList := i # is\<rparr>, cr));
              c = (if \<not> bRemove \<and> ticks c > 0 then c\<lparr>endTime := endTime c + interval\<rparr> else c);
              interval = (if \<not> bRemove then 0 else interval);
              (alive, c) = executeCondition_base (e_now env) interval (set_data c (Damage d))
          in (alive, c, cr))"

definition execute_light :: "int \<Rightarrow> light_data \<Rightarrow> creature \<Rightarrow> light_data \<times> creature" where
  "execute_light interval l cr =
     (let l = l\<lparr>internalLightTicks := internalLightTicks l + word_of_int interval\<rparr>
      in if internalLightTicks l \<ge> lightChangeInterval l then
           let (level, color) = getCreatureLight cr
           in (l\<lparr>internalLightTicks := 0\<rparr>,
               if level > 0 then cr\<lparr>internalLight := (level - 1, color)\<rparr> else cr)
         else (l, cr))"

definition executeCondition ::
  "effect_env \<Rightarrow> int \<Rightarrow> condition \<Rightarrow> creature \<Rightarrow> bool \<times> condition \<times> creature" where
  "executeCondition env interval c cr =
     (case c_data c of
        Damage d \<Rightarrow> execute_damage env interval c d cr
      | _ \<Rightarrow>
          let (d, cr) =
            (case c_data c of
               Regeneration r \<Rightarrow>
                 (let (r, cr) = execute_regeneration (isBuff c) interval r cr in (Regeneration r, cr))
             | Soul s \<Rightarrow> (let (s, cr) = execute_soul interval s cr in (Soul s, cr))
             | Light l \<Rightarrow> (let (l, cr) = execute_light interval l cr in (Light l, cr))
             | d \<Rightarrow> (d, cr));
            (alive, c) = executeCondition_base (e_now env) interval (set_data c d)
          in (alive, c, cr))"

definition endCondition :: "effect_env \<Rightarrow> condition \<Rightarrow> creature \<Rightarrow> creature" where
  "endCondition env c cr =
     (case c_data c of
        Attributes a \<Rightarrow> endCondition_attributes a cr
      | Invisible \<Rightarrow> if \<not> ghost cr \<and> \<not> isInvisible cr then tell (ChangeVisible True) cr else cr
      | Speed s \<Rightarrow> changeSpeed (- speedDelta s) cr
      | Outfit _ \<Rightarrow> internalCreatureChangeOutfit env (defaultOutfit cr) cr
      | Light _ \<Rightarrow> setNormalCreatureLight cr
      | Drunk _ \<Rightarrow> cr\<lparr>drunkenness := 0\<rparr>
      | _ \<Rightarrow> cr)"

text \<open>\<open>addCondition\<close> of a running condition \<open>c\<close> with a new one \<open>add\<close> of the same class; the code
  casts the new one to its own class without a check, which the type of the list guarantees.\<close>

definition refresh_damage ::
  "effect_env \<Rightarrow> condition \<Rightarrow> damage_data \<Rightarrow> condition \<Rightarrow> damage_data \<Rightarrow> creature \<Rightarrow>
   (condition \<times> creature) option" where
  "refresh_damage env c d add e cr =
     (if conditionType add \<noteq> conditionType c then Some (c, cr)
      else if \<not> updateCondition_damage c d add e then Some (c, cr)
      else
        let c = setTicks (e_now env) (ticks add) c;
            nextTimeLeft = (case damageList d of [] \<Rightarrow> tickInterval e | i # _ \<Rightarrow> timeLeft i);
            d = d\<lparr>owner := owner e, maxDamage := maxDamage e, minDamage := minDamage e,
                  startDamage := startDamage e, tickInterval := tickInterval e,
                  periodDamage := periodDamage e, damageList := damageList e\<rparr>
        in case init_damage env c d of
             None \<Rightarrow> None
           | Some (ok, c, d) \<Rightarrow>
               if \<not> ok then Some (set_data c (Damage d), cr)
               else
                 let d = (case damageList d of
                            [] \<Rightarrow> d
                          | i # is \<Rightarrow> d\<lparr>damageList := i\<lparr>timeLeft := nextTimeLeft\<rparr> # is\<rparr>)
                 in if delayed d then Some (set_data c (Damage d), cr)
                    else (case getNextDamage c d of
                            None \<Rightarrow> Some (set_data c (Damage d), cr)
                          | Some (v, d) \<Rightarrow>
                              Some (set_data c (Damage d),
                                    snd (doDamage env (conditionType c) d v cr))))"

definition refresh_attributes ::
  "effect_env \<Rightarrow> condition \<Rightarrow> attributes_data \<Rightarrow> condition \<Rightarrow> attributes_data \<Rightarrow> creature \<Rightarrow>
   (condition \<times> creature) option" where
  "refresh_attributes env c a add b cr =
     (if \<not> updateCondition_base (e_now env) c add then Some (c, cr)
      else
        let c = setTicks (e_now env) (ticks add) c;
            cr = endCondition_attributes a cr;
            a = a\<lparr>skills := skills b, specialSkills := specialSkills b,
                  skillsPercent := skillsPercent b, stats := stats b,
                  statsPercent := statsPercent b, disableDefense := disableDefense b\<rparr>
        in map_option (\<lambda>(a, cr). (set_data c (Attributes a), cr)) (apply_attributes a cr))"

definition refresh_regeneration ::
  "effect_env \<Rightarrow> condition \<Rightarrow> regeneration_data \<Rightarrow> condition \<Rightarrow> regeneration_data \<Rightarrow> condition" where
  "refresh_regeneration env c r add q =
     (if \<not> updateCondition_base (e_now env) c add then c
      else set_data (setTicks (e_now env) (ticks add) c)
             (Regeneration (r\<lparr>healthTicks := healthTicks q, manaTicks := manaTicks q,
                healthGain := healthGain q, manaGain := manaGain q\<rparr>)))"

definition refresh_soul :: "effect_env \<Rightarrow> condition \<Rightarrow> soul_data \<Rightarrow> condition \<Rightarrow> soul_data \<Rightarrow> condition" where
  "refresh_soul env c s add q =
     (if \<not> updateCondition_base (e_now env) c add then c
      else set_data (setTicks (e_now env) (ticks add) c)
             (Soul (s\<lparr>soulTicks := soulTicks q, soulGain := soulGain q\<rparr>)))"

definition refresh_speed ::
  "effect_env \<Rightarrow> condition \<Rightarrow> speed_data \<Rightarrow> condition \<Rightarrow> speed_data \<Rightarrow> creature \<Rightarrow>
   (condition \<times> creature) option" where
  "refresh_speed env c s add q cr =
     (if conditionType c \<noteq> conditionType add then Some (c, cr)
      else if ticks c = -1 \<and> ticks add > 0 then Some (c, cr)
      else (case chosen_speed env cr (s\<lparr>speedDelta := speedDelta q, mina := mina q, maxa := maxa q,
                   minb := minb q, maxb := maxb q\<rparr>) of
              None \<Rightarrow> None
            | Some s' \<Rightarrow>
                let c = setTicks (e_now env) (ticks add) c;
                    newSpeedChange = speedDelta s' - speedDelta s
                in Some (set_data c (Speed s'),
                         if newSpeedChange \<noteq> 0 then changeSpeed newSpeedChange cr else cr)))"

definition refresh_outfit ::
  "effect_env \<Rightarrow> condition \<Rightarrow> condition \<Rightarrow> outfit \<Rightarrow> creature \<Rightarrow> condition \<times> creature" where
  "refresh_outfit env c add out cr =
     (if \<not> updateCondition_base (e_now env) c add then (c, cr)
      else (set_data (setTicks (e_now env) (ticks add) c) (Outfit out),
            internalCreatureChangeOutfit env out cr))"

definition refresh_light ::
  "effect_env \<Rightarrow> condition \<Rightarrow> light_data \<Rightarrow> condition \<Rightarrow> light_data \<Rightarrow> creature \<Rightarrow> condition \<times> creature" where
  "refresh_light env c l add q cr =
     (if \<not> updateCondition_base (e_now env) c add then (c, cr)
      else (set_data (setTicks (e_now env) (ticks add) c)
              (Light (l\<lparr>light_level := light_level q, light_color := light_color q,
                 lightChangeInterval := sdiv_level (ticks add) (max 1 (light_level q)),
                 internalLightTicks := 0\<rparr>)),
            cr\<lparr>internalLight := (light_level q, light_color q)\<rparr>))"

definition refresh_spell_cooldown ::
  "effect_env \<Rightarrow> condition \<Rightarrow> condition \<Rightarrow> creature \<Rightarrow> condition \<times> creature" where
  "refresh_spell_cooldown env c add cr =
     (if \<not> updateCondition_base (e_now env) c add then (c, cr)
      else (setTicks (e_now env) (ticks add) c,
            if subId c \<noteq> 0 \<and> ticks add > 0 \<and> kind cr = A_Player
            then tell (SpellCooldownSent (subId c) (ticks add)) cr else cr))"

definition refresh_group_cooldown ::
  "effect_env \<Rightarrow> condition \<Rightarrow> condition \<Rightarrow> creature \<Rightarrow> condition \<times> creature" where
  "refresh_group_cooldown env c add cr =
     (if \<not> updateCondition_base (e_now env) c add then (c, cr)
      else (setTicks (e_now env) (ticks add) c,
            if subId c \<noteq> 0 \<and> ticks add > 0 \<and> kind cr = A_Player
            then tell (SpellGroupCooldownSent (subId c) (ticks add)) cr else cr))"

definition updateCondition_drunk :: "u8 \<Rightarrow> u8 \<Rightarrow> bool" where
  "updateCondition_drunk d e \<longleftrightarrow> e > d"

definition refresh_drunk ::
  "effect_env \<Rightarrow> condition \<Rightarrow> u8 \<Rightarrow> condition \<Rightarrow> u8 \<Rightarrow> creature \<Rightarrow> condition \<times> creature" where
  "refresh_drunk env c d add e cr =
     (if \<not> updateCondition_drunk d e then (c, cr)
      else (setTicks (e_now env) (ticks add) c, cr\<lparr>drunkenness := e\<rparr>))"

definition refresh_generic :: "effect_env \<Rightarrow> condition \<Rightarrow> condition \<Rightarrow> condition" where
  "refresh_generic env c add =
     (if updateCondition_base (e_now env) c add then setTicks (e_now env) (ticks add) c else c)"

definition addCondition ::
  "effect_env \<Rightarrow> condition \<Rightarrow> condition \<Rightarrow> creature \<Rightarrow> (condition \<times> creature) option" where
  "addCondition env c add cr =
     (case (c_data c, c_data add) of
        (Attributes a, Attributes b) \<Rightarrow> refresh_attributes env c a add b cr
      | (Regeneration r, Regeneration q) \<Rightarrow> Some (refresh_regeneration env c r add q, cr)
      | (Soul s, Soul q) \<Rightarrow> Some (refresh_soul env c s add q, cr)
      | (Damage d, Damage e) \<Rightarrow> refresh_damage env c d add e cr
      | (Speed s, Speed q) \<Rightarrow> refresh_speed env c s add q cr
      | (Outfit _, Outfit out) \<Rightarrow> Some (refresh_outfit env c add out cr)
      | (Light l, Light q) \<Rightarrow> Some (refresh_light env c l add q cr)
      | (SpellCooldown, SpellCooldown) \<Rightarrow> Some (refresh_spell_cooldown env c add cr)
      | (SpellGroupCooldown, SpellGroupCooldown) \<Rightarrow> Some (refresh_group_cooldown env c add cr)
      | (Drunk d, Drunk e) \<Rightarrow> Some (refresh_drunk env c d add e cr)
      | (Generic, Generic) \<Rightarrow> Some (refresh_generic env c add, cr)
      | (Invisible, Invisible) \<Rightarrow> Some (refresh_generic env c add, cr)
      | _ \<Rightarrow> None)"

lemmas add_defs = addCondition_def refresh_attributes_def refresh_regeneration_def refresh_soul_def
  refresh_speed_def refresh_outfit_def refresh_light_def refresh_spell_cooldown_def
  refresh_group_cooldown_def refresh_drunk_def refresh_generic_def

section \<open>The conditions of a creature\<close>

definition hasCondition :: "effect_env \<Rightarrow> u32 \<Rightarrow> u32 \<Rightarrow> creature \<Rightarrow> bool" where
  "hasCondition env t sub cr \<longleftrightarrow>
     \<not> isSuppress t cr \<and>
     (\<exists>c\<in>set (conditions cr). conditionType c = t \<and> subId c = sub \<and>
        (endTime c \<ge> e_now env \<or> ticks c = -1))"

definition same_condition :: "u32 \<Rightarrow> 8 word \<Rightarrow> u32 \<Rightarrow> condition \<Rightarrow> bool" where
  "same_condition t i sub c \<longleftrightarrow> conditionType c = t \<and> c_id c = i \<and> subId c = sub"

definition getCondition :: "u32 \<Rightarrow> 8 word \<Rightarrow> u32 \<Rightarrow> creature \<Rightarrow> condition option" where
  "getCondition t i sub cr = List.find (same_condition t i sub) (conditions cr)"

definition onEndCondition :: "u32 \<Rightarrow> creature \<Rightarrow> creature" where
  "onEndCondition t cr =
     (case kind cr of
        A_Player \<Rightarrow> if t = CONDITION_INFIGHT then tell EndOfFight cr else cr
      | A_Monster \<Rightarrow>
          tell UpdateIdleStatus
            (if t = CONDITION_FIRE \<or> t = CONDITION_ENERGY \<or> t = CONDITION_POISON
             then cr\<lparr>ignoreFieldDamage := False\<rparr> else cr)
      | An_Npc \<Rightarrow> cr)"

text \<open>The loop of \<open>removeCondition(type, force)\<close>: \<open>done\<close> are the conditions the iterator has passed.\<close>

fun remove_from ::
  "effect_env \<Rightarrow> (condition \<Rightarrow> bool) \<Rightarrow> u32 \<Rightarrow> bool \<Rightarrow> condition list \<Rightarrow> condition list \<Rightarrow> creature \<Rightarrow> creature" where
  "remove_from env sel t force kept [] cr = cr"
| "remove_from env sel t force kept (c # cs) cr =
     (if \<not> sel c then remove_from env sel t force (kept @ [c]) cs cr
      else if \<not> force \<and> t = CONDITION_PARALYZE \<and> e_walkDelay env > 0
      then tell (ScheduleRemoveCondition t (e_walkDelay env)) cr
      else remove_from env sel t force kept cs
             (onEndCondition t (endCondition env c (cr\<lparr>conditions := kept @ cs\<rparr>))))"

definition removeCondition :: "effect_env \<Rightarrow> u32 \<Rightarrow> bool \<Rightarrow> creature \<Rightarrow> creature" where
  "removeCondition env t force cr =
     remove_from env (\<lambda>c. conditionType c = t) t force [] (conditions cr) cr"

definition removeCondition_id :: "effect_env \<Rightarrow> u32 \<Rightarrow> 8 word \<Rightarrow> bool \<Rightarrow> creature \<Rightarrow> creature" where
  "removeCondition_id env t i force cr =
     remove_from env (\<lambda>c. conditionType c = t \<and> c_id c = i) t force [] (conditions cr) cr"

text \<open>\<open>removeCondition(Condition*, force)\<close>: the pointer is the place \<open>n\<close> in the list.\<close>

definition removeCondition_at :: "effect_env \<Rightarrow> nat \<Rightarrow> bool \<Rightarrow> creature \<Rightarrow> creature" where
  "removeCondition_at env n force cr =
     (if n \<ge> length (conditions cr) then cr
      else let c = conditions cr ! n
           in if \<not> force \<and> conditionType c = CONDITION_PARALYZE \<and> e_walkDelay env > 0
              then tell (ScheduleRemoveCondition (conditionType c) (e_walkDelay env)) cr
              else onEndCondition (conditionType c)
                     (endCondition env c
                       (cr\<lparr>conditions := take n (conditions cr) @ drop (Suc n) (conditions cr)\<rparr>)))"

definition onAddCondition_creature :: "effect_env \<Rightarrow> u32 \<Rightarrow> creature \<Rightarrow> creature" where
  "onAddCondition_creature env t cr =
     (if t = CONDITION_PARALYZE \<and> hasCondition env CONDITION_HASTE 0 cr
      then removeCondition env CONDITION_HASTE False cr
      else if t = CONDITION_HASTE \<and> hasCondition env CONDITION_PARALYZE 0 cr
      then removeCondition env CONDITION_PARALYZE False cr
      else cr)"

definition onAddCondition :: "effect_env \<Rightarrow> u32 \<Rightarrow> creature \<Rightarrow> creature" where
  "onAddCondition env t cr =
     (case kind cr of
        A_Player \<Rightarrow>
          let cr = onAddCondition_creature env t cr
          in if t = CONDITION_OUTFIT \<and> lookMount (defaultOutfit cr) \<noteq> 0 then tell Dismount cr else cr
      | A_Monster \<Rightarrow> tell UpdateIdleStatus cr
      | An_Npc \<Rightarrow> onAddCondition_creature env t cr)"

fun replace_first :: "(condition \<Rightarrow> bool) \<Rightarrow> condition \<Rightarrow> condition list \<Rightarrow> condition list" where
  "replace_first P c [] = []"
| "replace_first P c (d # ds) = (if P d then c # ds else d # replace_first P c ds)"

definition creature_addCondition ::
  "effect_env \<Rightarrow> condition \<Rightarrow> bool \<Rightarrow> creature \<Rightarrow> (bool \<times> creature) option" where
  "creature_addCondition env c force cr =
     (if \<not> force \<and> conditionType c = CONDITION_HASTE \<and> hasCondition env CONDITION_PARALYZE 0 cr \<and>
         e_walkDelay env > 0
      then Some (False, tell (ScheduleAddCondition c (e_walkDelay env)) cr)
      else
        let same = same_condition (conditionType c) (c_id c) (subId c)
        in case List.find same (conditions cr) of
             Some prevCond \<Rightarrow>
               (case addCondition env prevCond c cr of
                  None \<Rightarrow> None
                | Some (c', cr) \<Rightarrow>
                    Some (True, cr\<lparr>conditions := replace_first same c' (conditions cr)\<rparr>))
           | None \<Rightarrow>
               (case startCondition env c cr of
                  None \<Rightarrow> None
                | Some (True, c, cr) \<Rightarrow>
                    Some (True, onAddCondition env (conditionType c) (cr\<lparr>conditions := conditions cr @ [c]\<rparr>))
                | Some (False, c, cr) \<Rightarrow> Some (False, cr)))"

text \<open>\<open>executeConditions\<close>: \<open>kept\<close> are the conditions already executed that live on.\<close>

fun execute_from ::
  "effect_env \<Rightarrow> int \<Rightarrow> condition list \<Rightarrow> condition list \<Rightarrow> creature \<Rightarrow> creature" where
  "execute_from env interval kept [] cr = cr"
| "execute_from env interval kept (c # cs) cr =
     (let (alive, c', cr) = executeCondition env interval c cr
      in if alive then execute_from env interval (kept @ [c']) cs (cr\<lparr>conditions := kept @ c' # cs\<rparr>)
         else execute_from env interval kept cs
                (onEndCondition (conditionType c')
                  (endCondition env c' (cr\<lparr>conditions := kept @ cs\<rparr>))))"

definition executeConditions :: "effect_env \<Rightarrow> int \<Rightarrow> creature \<Rightarrow> creature" where
  "executeConditions env interval cr = execute_from env interval [] (conditions cr) cr"

lemma base_data [simp]:
  "c_data (setTicks n t c) = c_data c" "c_data (startCondition_base n c) = c_data c"
  "c_data (snd (executeCondition_base n i c)) = c_data c"
  by (simp_all add: setTicks_def startCondition_base_def executeCondition_base_def Let_def)

section \<open>A player and an environment for examples\<close>

definition sample_creature :: creature where
  "sample_creature = \<lparr>kind = A_Player, ghost = False, baseSpeed = 220, varSpeed = 0, cancelNextWalk = False,
     walkDirs = False, health = 150, healthMax = 150, drunkenness = 0, currentOutfit = new_outfit,
     defaultOutfit = new_outfit, internalLight = (0, 0), itemsLight = (0, 0), normalLight = (0, 0),
     canUseDefense = True, ignoreFieldDamage = False, suppressions = 0, immunities = 0,
     fieldCombatType = None, protectionZone = False, conditions = [],
     baseSkills = replicate 7 10, varSkills = replicate 7 0, varSpecialSkills = replicate 6 0,
     varStats = replicate 4 0, mana = 50, manaMax = 50, infiniteMana = False, baseMagicLevel = 3, soul = 100,
     soulMax = 200, log_of = []\<rparr>"

definition sample_env :: effect_env where
  "sample_env = \<lparr>e_now = 1000, e_random = (\<lambda>lo hi. hi), e_hit = (\<lambda>t v. True),
     e_attackerIsPlayer = (\<lambda>i. False), e_outfitAllowed = (\<lambda>out. True), e_walkDelay = 0\<rparr>"

end
