(* ===== verification/Condition_Bonuses.thy ===== *)
theory Condition_Bonuses
  imports Condition_Effects
begin

text \<open>
  The bonuses of the conditions of a creature, slot by slot: how much each operation of
  \<open>Condition_Effects\<close> changes each skill, special skill, stat and the speed, and that the
  changes of a condition are undone when it goes.
\<close>

section \<open>Slots and shares\<close>

text \<open>A number of the creature that conditions raise or lower, and what one condition adds to it.\<close>

datatype slot = Skill nat | Special nat | Stat nat | Speed_of_creature

fun slot_ok :: "slot \<Rightarrow> bool" where
  "slot_ok (Skill i) = (i < 7)"
| "slot_ok (Special i) = (i < 6)"
| "slot_ok (Stat i) = (i < 4)"
| "slot_ok Speed_of_creature = True"

fun value_at :: "slot \<Rightarrow> creature \<Rightarrow> int" where
  "value_at (Skill i) cr = varSkills cr ! i"
| "value_at (Special i) cr = varSpecialSkills cr ! i"
| "value_at (Stat i) cr = varStats cr ! i"
| "value_at Speed_of_creature cr = varSpeed cr"

fun attribute_share :: "slot \<Rightarrow> attributes_data \<Rightarrow> int" where
  "attribute_share (Skill i) a = skills a ! i"
| "attribute_share (Special i) a = specialSkills a ! i"
| "attribute_share (Stat i) a = stats a ! i"
| "attribute_share Speed_of_creature a = 0"

text \<open>What condition \<open>c\<close> adds to slot \<open>s\<close> of a creature of kind \<open>k\<close>: only players have the attributes.\<close>

definition share :: "creature_kind \<Rightarrow> slot \<Rightarrow> condition \<Rightarrow> int" where
  "share k s c =
     (case c_data c of
        Attributes a \<Rightarrow> if k = A_Player then attribute_share s a else 0
      | Speed d \<Rightarrow> if s = Speed_of_creature then speedDelta d else 0
      | _ \<Rightarrow> 0)"

definition lens :: "creature \<Rightarrow> bool" where
  "lens cr \<longleftrightarrow> length (varSkills cr) = 7 \<and> length (varSpecialSkills cr) = 6 \<and> length (varStats cr) = 4"

named_theorems same_slots \<open>operations that leave every slot, the kind and the conditions alone\<close>

lemma changeHealth_slots [same_slots]:
  "value_at s (changeHealth h cr) = value_at s cr" "lens (changeHealth h cr) = lens cr"
  "kind (changeHealth h cr) = kind cr" "conditions (changeHealth h cr) = conditions cr"
  by (cases s; simp add: changeHealth_def Let_def lens_def)+

lemma changeMana_slots [same_slots]:
  "value_at s (changeMana h cr) = value_at s cr" "lens (changeMana h cr) = lens cr"
  "kind (changeMana h cr) = kind cr" "conditions (changeMana h cr) = conditions cr"
  by (cases s; simp add: changeMana_def lens_def)+

lemma changeSoul_slots [same_slots]:
  "value_at s (changeSoul h cr) = value_at s cr" "lens (changeSoul h cr) = lens cr"
  "kind (changeSoul h cr) = kind cr" "conditions (changeSoul h cr) = conditions cr"
  by (cases s; simp add: changeSoul_def lens_def)+

lemma tell_slots [same_slots]:
  "value_at s (tell e cr) = value_at s cr" "lens (tell e cr) = lens cr"
  "kind (tell e cr) = kind cr" "conditions (tell e cr) = conditions cr"
  by (cases s; simp add: lens_def)+

lemma field_slots [same_slots]:
  "value_at s (cr\<lparr>canUseDefense := b\<rparr>) = value_at s cr" "lens (cr\<lparr>canUseDefense := b\<rparr>) = lens cr"
  "value_at s (cr\<lparr>internalLight := l\<rparr>) = value_at s cr" "lens (cr\<lparr>internalLight := l\<rparr>) = lens cr"
  "value_at s (cr\<lparr>drunkenness := d\<rparr>) = value_at s cr" "lens (cr\<lparr>drunkenness := d\<rparr>) = lens cr"
  "value_at s (cr\<lparr>ignoreFieldDamage := b\<rparr>) = value_at s cr" "lens (cr\<lparr>ignoreFieldDamage := b\<rparr>) = lens cr"
  "value_at s (cr\<lparr>conditions := cs\<rparr>) = value_at s cr" "lens (cr\<lparr>conditions := cs\<rparr>) = lens cr"
  by (cases s; simp add: lens_def)+

lemma light_outfit_slots [same_slots]:
  "value_at s (setNormalCreatureLight cr) = value_at s cr" "lens (setNormalCreatureLight cr) = lens cr"
  "kind (setNormalCreatureLight cr) = kind cr" "conditions (setNormalCreatureLight cr) = conditions cr"
  "value_at s (internalCreatureChangeOutfit env out cr) = value_at s cr"
  "lens (internalCreatureChangeOutfit env out cr) = lens cr"
  "kind (internalCreatureChangeOutfit env out cr) = kind cr"
  "conditions (internalCreatureChangeOutfit env out cr) = conditions cr"
  by (cases s; simp add: setNormalCreatureLight_def internalCreatureChangeOutfit_def lens_def)+

lemma doDamage_slots [same_slots]:
  "value_at s (snd (doDamage env t d v cr)) = value_at s cr" "lens (snd (doDamage env t d v cr)) = lens cr"
  "kind (snd (doDamage env t d v cr)) = kind cr" "conditions (snd (doDamage env t d v cr)) = conditions cr"
  by (simp_all add: doDamage_def Let_def same_slots)

lemma changeSpeed_slots:
  "value_at s (changeSpeed v cr) = value_at s cr + (if s = Speed_of_creature then v else 0)"
  "lens (changeSpeed v cr) = lens cr"
  "kind (changeSpeed v cr) = kind cr" "conditions (changeSpeed v cr) = conditions cr"
  by (cases s; simp add: changeSpeed_def setSpeed_def getSpeed_def Let_def lens_def)+

definition slots_by :: "creature \<Rightarrow> (slot \<Rightarrow> int) \<Rightarrow> creature \<Rightarrow> bool" where
  "slots_by cr d cr' \<longleftrightarrow>
     (\<forall>s. slot_ok s \<longrightarrow> value_at s cr' = value_at s cr + d s) \<and> lens cr' \<and>
     kind cr' = kind cr \<and> conditions cr' = conditions cr"

lemma slots_by_trans:
  "slots_by cr d cr' \<Longrightarrow> slots_by cr' e cr'' \<Longrightarrow> slots_by cr (\<lambda>s. d s + e s) cr''"
  by (simp add: slots_by_def)

lemma slots_by_refl: "lens cr \<Longrightarrow> slots_by cr (\<lambda>s. 0) cr"
  by (simp add: slots_by_def)

lemma slots_by_cong:
  "slots_by cr d cr' \<Longrightarrow> (\<And>s. slot_ok s \<Longrightarrow> d s = e s) \<Longrightarrow> slots_by cr e cr'"
  by (simp add: slots_by_def)

lemma setVarSkill_by:
  assumes "lens cr" and "i < 7"
  shows "slots_by cr (\<lambda>s. if s = Skill i then m else 0) (setVarSkill i m cr)"
  unfolding slots_by_def
proof (intro conjI allI impI)
  fix s assume "slot_ok s"
  then show "value_at s (setVarSkill i m cr) = value_at s cr + (if s = Skill i then m else 0)"
    using assms by (cases s) (simp_all add: setVarSkill_def lens_def nth_list_update)
qed (use assms in \<open>simp_all add: setVarSkill_def lens_def\<close>)

lemma setVarSpecialSkill_by:
  assumes "lens cr" and "i < 6"
  shows "slots_by cr (\<lambda>s. if s = Special i then m else 0) (setVarSpecialSkill i m cr)"
  unfolding slots_by_def
proof (intro conjI allI impI)
  fix s assume "slot_ok s"
  then show "value_at s (setVarSpecialSkill i m cr) = value_at s cr + (if s = Special i then m else 0)"
    using assms by (cases s) (simp_all add: setVarSpecialSkill_def lens_def nth_list_update)
qed (use assms in \<open>simp_all add: setVarSpecialSkill_def lens_def\<close>)

lemma slots_by_if:
  "(b \<Longrightarrow> slots_by cr d cr1) \<Longrightarrow> (\<not> b \<Longrightarrow> slots_by cr d cr2) \<Longrightarrow> slots_by cr d (if b then cr1 else cr2)"
  by (cases b) simp_all

lemma slots_by_same [same_slots]:
  "slots_by cr d (changeHealth h cr') = slots_by cr d cr'"
  "slots_by cr d (changeMana h cr') = slots_by cr d cr'"
  "slots_by cr d (changeSoul h cr') = slots_by cr d cr'"
  "slots_by cr d (tell e cr') = slots_by cr d cr'"
  "slots_by cr d (cr'\<lparr>canUseDefense := b\<rparr>) = slots_by cr d cr'"
  "slots_by cr d (cr'\<lparr>internalLight := l\<rparr>) = slots_by cr d cr'"
  "slots_by cr d (cr'\<lparr>drunkenness := u\<rparr>) = slots_by cr d cr'"
  "slots_by cr d (setNormalCreatureLight cr') = slots_by cr d cr'"
  "slots_by cr d (internalCreatureChangeOutfit env out cr') = slots_by cr d cr'"
  "slots_by cr d (snd (doDamage env t dd v cr')) = slots_by cr d cr'"
  by (simp_all add: slots_by_def same_slots)

lemma setVarStats_by:
  assumes "lens cr" and "i < 4"
  shows "slots_by cr (\<lambda>s. if s = Stat i then m else 0) (setVarStats i m cr)"
proof -
  let ?cr = "cr\<lparr>varStats := (varStats cr)[i := varStats cr ! i + m]\<rparr>"
  have "value_at s ?cr = value_at s cr + (if s = Stat i then m else 0)" if "slot_ok s" for s
    using assms that by (cases s) (simp_all add: lens_def nth_list_update)
  moreover have "lens ?cr" using assms by (simp add: lens_def)
  ultimately have "slots_by cr (\<lambda>s. if s = Stat i then m else 0) ?cr"
    by (simp add: slots_by_def)
  then show ?thesis
    unfolding setVarStats_def Let_def by (intro slots_by_if) (simp_all add: same_slots)
qed

lemma fold_by:
  assumes "\<And>i cr. i < n \<Longrightarrow> lens cr \<Longrightarrow> slots_by cr (\<lambda>s. if s = mk i then x i else 0) (f i cr)"
    and "lens cr"
  shows "slots_by cr (\<lambda>s. \<Sum>i<n. if s = mk i then x i else 0) (fold f [0..<n] cr)"
  using assms(1)
proof (induction n)
  case 0
  then show ?case using assms(2) by (simp add: slots_by_refl)
next
  case (Suc n)
  then have 1: "slots_by cr (\<lambda>s. \<Sum>i<n. if s = mk i then x i else 0) (fold f [0..<n] cr)" by simp
  then have "lens (fold f [0..<n] cr)" by (simp add: slots_by_def)
  from slots_by_trans [OF 1 Suc.prems [OF lessI this]] show ?case by simp
qed

lemma if_by:
  "lens cr \<Longrightarrow> (b \<Longrightarrow> slots_by cr (\<lambda>s. if s = t then x else 0) cr') \<Longrightarrow> (\<not> b \<Longrightarrow> x = 0) \<Longrightarrow>
   slots_by cr (\<lambda>s. if s = t then x else 0) (if b then cr' else cr)"
  by (cases b) (auto simp: intro: slots_by_cong [OF slots_by_refl])

lemma fold_skills_by:
  assumes "lens cr" and "\<And>i. i < 7 \<Longrightarrow> \<not> b i \<Longrightarrow> x i = 0"
  shows "slots_by cr (\<lambda>s. case s of Skill i \<Rightarrow> x i | _ \<Rightarrow> 0)
           (fold (\<lambda>i cr. if b i then setVarSkill i (x i) cr else cr) [0..<7] cr)"
proof (rule slots_by_cong [OF fold_by [where mk = Skill and x = x]])
  show "slots_by cr (\<lambda>s. if s = Skill i then x i else 0) (if b i then setVarSkill i (x i) cr else cr)"
    if "i < 7" "lens cr" for i cr
    using that assms(2) by (intro if_by setVarSkill_by) auto
qed (use assms in \<open>auto split: slot.split\<close>)

lemma fold_specials_by:
  assumes "lens cr" and "\<And>i. i < 6 \<Longrightarrow> \<not> b i \<Longrightarrow> x i = 0"
  shows "slots_by cr (\<lambda>s. case s of Special i \<Rightarrow> x i | _ \<Rightarrow> 0)
           (fold (\<lambda>i cr. if b i then setVarSpecialSkill i (x i) cr else cr) [0..<6] cr)"
proof (rule slots_by_cong [OF fold_by [where mk = Special and x = x]])
  show "slots_by cr (\<lambda>s. if s = Special i then x i else 0) (if b i then setVarSpecialSkill i (x i) cr else cr)"
    if "i < 6" "lens cr" for i cr
    using that assms(2) by (intro if_by setVarSpecialSkill_by) auto
qed (use assms in \<open>auto split: slot.split\<close>)

lemma fold_stats_by:
  assumes "lens cr" and "\<And>i. i < 4 \<Longrightarrow> \<not> b i \<Longrightarrow> x i = 0"
  shows "slots_by cr (\<lambda>s. case s of Stat i \<Rightarrow> x i | _ \<Rightarrow> 0)
           (fold (\<lambda>i cr. if b i then setVarStats i (x i) cr else cr) [0..<4] cr)"
proof (rule slots_by_cong [OF fold_by [where mk = Stat and x = x]])
  show "slots_by cr (\<lambda>s. if s = Stat i then x i else 0) (if b i then setVarStats i (x i) cr else cr)"
    if "i < 4" "lens cr" for i cr
    using that assms(2) by (intro if_by setVarStats_by) auto
qed (use assms in \<open>auto split: slot.split\<close>)

lemma attribute_share_cases:
  "attribute_share s a =
     (case s of Skill i \<Rightarrow> skills a ! i | _ \<Rightarrow> 0) + (case s of Special i \<Rightarrow> specialSkills a ! i | _ \<Rightarrow> 0) +
     (case s of Stat i \<Rightarrow> stats a ! i | _ \<Rightarrow> 0)"
  by (cases s) simp_all

lemma slots_by_lens: "slots_by cr d cr' \<Longrightarrow> lens cr'"
  and slots_by_kind: "slots_by cr d cr' \<Longrightarrow> kind cr' = kind cr"
  by (simp_all add: slots_by_def)

lemma updateSkills_by:
  assumes "lens cr"
  shows "slots_by cr (\<lambda>s. (case s of Skill i \<Rightarrow> skills a ! i | _ \<Rightarrow> 0) +
           (case s of Special i \<Rightarrow> specialSkills a ! i | _ \<Rightarrow> 0)) (updateSkills a cr)"
proof -
  let ?cr = "fold (\<lambda>i cr. if skills a ! i \<noteq> 0 then setVarSkill i (skills a ! i) cr else cr) [0..<7] cr"
  have 1: "slots_by cr (\<lambda>s. case s of Skill i \<Rightarrow> skills a ! i | _ \<Rightarrow> 0) ?cr"
    by (intro fold_skills_by assms) auto
  show ?thesis
    unfolding updateSkills_def
    by (rule slots_by_trans [OF 1], intro fold_specials_by slots_by_lens [OF 1]) auto
qed

lemma updateStats_by:
  "lens cr \<Longrightarrow> slots_by cr (\<lambda>s. case s of Stat i \<Rightarrow> stats a ! i | _ \<Rightarrow> 0) (updateStats a cr)"
  unfolding updateStats_def by (intro fold_stats_by) auto

lemma percent_keeps:
  "updatePercentSkills cr a = Some b \<Longrightarrow> specialSkills b = specialSkills a \<and> stats b = stats a"
  "updatePercentStats cr a = Some b \<Longrightarrow> skills b = skills a \<and> specialSkills b = specialSkills a"
  by (auto simp: updatePercentSkills_def updatePercentStats_def)

lemma apply_attributes_by:
  assumes "lens cr" and "apply_attributes a cr = Some (a', cr')"
  shows "slots_by cr (\<lambda>s. share (kind cr) s (set_data c (Attributes a'))) cr'"
proof (cases "kind cr = A_Player")
  case True
  then obtain b where b: "updatePercentSkills cr a = Some b"
    and eq: "updatePercentStats (updateSkills b cr) b = Some a'" "cr' = updateStats a' (updateSkills b cr)"
    using assms(2) by (auto simp: apply_attributes_def Let_def split: option.splits)
  let ?cr = "updateSkills b cr"
  have k: "skills b = skills a'" "specialSkills b = specialSkills a'" using percent_keeps(2) [OF eq(1)] by simp_all
  have 1: "slots_by cr (\<lambda>s. (case s of Skill i \<Rightarrow> skills a' ! i | _ \<Rightarrow> 0) +
      (case s of Special i \<Rightarrow> specialSkills a' ! i | _ \<Rightarrow> 0)) ?cr"
    using updateSkills_by [OF assms(1), of b] unfolding k .
  from slots_by_trans [OF 1 updateStats_by [OF slots_by_lens [OF 1], of a']] show ?thesis
    by (simp add: eq(2) [symmetric] share_def True attribute_share_cases)
next
  case False
  then show ?thesis using assms by (simp add: apply_attributes_def share_def slots_by_refl)
qed

lemma slots_by_start:
  assumes "slots_by cr0 d cr'" and "\<And>s. value_at s cr0 = value_at s cr" and "kind cr0 = kind cr"
    and "conditions cr0 = conditions cr"
  shows "slots_by cr d cr'"
  using assms by (simp add: slots_by_def)

lemma endCondition_attributes_by:
  assumes "lens cr"
  shows "slots_by cr (\<lambda>s. - share (kind cr) s (set_data c (Attributes a))) (endCondition_attributes a cr)"
proof (cases "kind cr = A_Player")
  case True
  let ?cr1 = "fold (\<lambda>i cr. if skills a ! i \<noteq> 0 \<or> skillsPercent a ! i \<noteq> 0
                              then setVarSkill i (- (skills a ! i)) cr else cr) [0..<7] cr"
  let ?cr2 = "fold (\<lambda>i cr. if specialSkills a ! i \<noteq> 0
                            then setVarSpecialSkill i (- (specialSkills a ! i)) cr else cr) [0..<6] ?cr1"
  have 1: "slots_by cr (\<lambda>s. case s of Skill i \<Rightarrow> - (skills a ! i) | _ \<Rightarrow> 0) ?cr1"
    by (intro fold_skills_by assms) auto
  have 2: "slots_by ?cr1 (\<lambda>s. case s of Special i \<Rightarrow> - (specialSkills a ! i) | _ \<Rightarrow> 0) ?cr2"
    by (intro fold_specials_by slots_by_lens [OF 1]) auto
  note 3 = slots_by_trans [OF slots_by_trans [OF 1 2] fold_stats_by [OF slots_by_lens [OF 2],
    of "\<lambda>i. stats a ! i \<noteq> 0" "\<lambda>i. - (stats a ! i)"]]
  have "- share (kind cr) s (set_data c (Attributes a)) =
    (case s of Skill i \<Rightarrow> - (skills a ! i) | _ \<Rightarrow> 0) + (case s of Special i \<Rightarrow> - (specialSkills a ! i) | _ \<Rightarrow> 0) +
    (case s of Stat i \<Rightarrow> - (stats a ! i) | _ \<Rightarrow> 0)" for s
    by (cases s) (simp_all add: share_def True)
  with 3 show ?thesis
    by (simp add: endCondition_attributes_def Let_def True same_slots)
next
  case False
  then show ?thesis
    using slots_by_refl [OF assms] by (simp add: endCondition_attributes_def share_def same_slots)
qed

lemma changeSpeed_by:
  "lens cr \<Longrightarrow> slots_by cr (\<lambda>s. if s = Speed_of_creature then v else 0) (changeSpeed v cr)"
  by (simp add: slots_by_def changeSpeed_slots)

lemma endCondition_by:
  assumes "lens cr"
  shows "slots_by cr (\<lambda>s. - share (kind cr) s c) (endCondition env c cr)"
proof (cases "c_data c")
  case (Attributes a)
  then show ?thesis using endCondition_attributes_by [OF assms, of a c]
    by (simp add: endCondition_def share_def)
next
  case (Speed d)
  show ?thesis
    using slots_by_cong [OF changeSpeed_by [OF assms, of "- speedDelta d"]]
    by (simp add: endCondition_def share_def Speed)
qed (use slots_by_refl [OF assms] in \<open>simp_all add: endCondition_def share_def same_slots\<close>)

lemma share_simps [simp]:
  "share k s (set_data c (Damage d)) = 0" "c_data c = Damage d \<Longrightarrow> share k s c = 0"
  "share k s (set_data c (Outfit out)) = 0" "share k s (set_data c (Light l)) = 0"
  "share k s (set_data c (Regeneration r)) = 0" "share k s (set_data c (Soul sl)) = 0"
  by (simp_all add: share_def)

lemma startCondition_by:
  assumes "startCondition env c cr = Some (ok, c', cr')" and "lens cr"
  shows "slots_by cr (\<lambda>s. share (kind cr) s c') cr' \<and> (\<not> ok \<longrightarrow> (\<forall>s. share (kind cr) s c' = 0))"
proof (cases "c_data c")
  case (Attributes a)
  let ?cr = "cr\<lparr>canUseDefense := \<not> disableDefense a\<rparr>"
  obtain a' cr1 where 1: "apply_attributes a ?cr = Some (a', cr1)"
    using assms(1) Attributes by (auto simp: start_defs Let_def)
  have "lens ?cr" using assms(2) by (simp add: same_slots)
  from apply_attributes_by [OF this 1] have "slots_by ?cr (\<lambda>s. share (kind cr) s
      (set_data (startCondition_base (e_now env) c) (Attributes a'))) cr1" by simp
  then have "slots_by cr (\<lambda>s. share (kind cr) s
      (set_data (startCondition_base (e_now env) c) (Attributes a'))) cr1"
    by (rule slots_by_start) (simp_all add: same_slots)
  then show ?thesis using assms(1) Attributes 1 by (auto simp: start_defs Let_def)
next
  case (Speed sp)
  then show ?thesis
    using assms(1) changeSpeed_by [OF assms(2)]
    by (auto simp: start_defs Let_def share_def split: option.splits
        intro: slots_by_cong)
next
  case (Damage d)
  then show ?thesis
    using assms(1) slots_by_refl [OF assms(2)]
    by (auto simp: start_defs Let_def case_prod_beta same_slots split: option.splits if_splits)
qed (use assms(1) slots_by_refl [OF assms(2)] in
  \<open>auto simp: start_defs Let_def same_slots share_def split: if_splits\<close>)

lemma share_of_data: "c_data c = c_data c' \<Longrightarrow> share k s c = share k s c'"
  by (simp add: share_def)

lemma slots_by_cases [same_slots]:
  "slots_by cr d (snd (execute_regeneration b i r cr')) = slots_by cr d cr'"
  "slots_by cr d (snd (execute_soul i sl cr')) = slots_by cr d cr'"
  "slots_by cr d (snd (execute_light i l cr')) = slots_by cr d cr'"
  by (simp_all add: execute_regeneration_def execute_soul_def execute_light_def Let_def case_prod_beta
      same_slots)

lemma execute_damage_by:
  assumes "execute_damage env interval c d cr = (alive, c', cr')" and "lens cr" and "c_data c = Damage d"
  shows "slots_by cr (\<lambda>s. 0) cr'" and "\<exists>d. c_data c' = Damage d"
proof -
  have "slots_by cr (\<lambda>s. 0) (snd (snd (execute_damage env interval c d cr)))"
    using slots_by_refl [OF assms(2)]
    by (simp add: execute_damage_def Let_def case_prod_beta same_slots split: list.split)
  then show "slots_by cr (\<lambda>s. 0) cr'" by (simp add: assms(1))
  have "\<exists>d'. c_data (fst (snd (execute_damage env interval c d cr))) = Damage d'"
    using assms(3)
    by (simp add: execute_damage_def Let_def case_prod_beta split: list.split)
  then show "\<exists>d. c_data c' = Damage d" by (simp add: assms(1))
qed

lemma executeCondition_by:
  assumes "executeCondition env interval c cr = (alive, c', cr')" and "lens cr"
  shows "slots_by cr (\<lambda>s. 0) cr' \<and> share k s c' = share k s c"
proof (cases "c_data c")
  case (Damage d)
  then show ?thesis
    using execute_damage_by [OF _ assms(2) Damage, of env interval alive c' cr'] assms(1)
    by (auto simp: executeCondition_def)
qed (use assms(1) slots_by_refl [OF assms(2)] in
  \<open>auto simp: executeCondition_def Let_def case_prod_beta same_slots share_def\<close>)

lemma refresh_damage_by:
  assumes "refresh_damage env c d add e cr = Some (c', cr')" and "lens cr" and "c_data c = Damage d"
  shows "slots_by cr (\<lambda>s. 0) cr'" and "\<exists>d. c_data c' = Damage d"
  using assms slots_by_refl [OF assms(2)]
  by (auto simp: refresh_damage_def Let_def same_slots split: if_splits option.splits)

lemma addCondition_by:
  assumes "addCondition env c add cr = Some (c', cr')" and "lens cr"
  shows "slots_by cr (\<lambda>s. share (kind cr) s c' - share (kind cr) s c) cr'"
proof -
  have unchanged: ?thesis if "c_data c' = c_data c" "slots_by cr (\<lambda>s. 0) cr'"
    using that(2) by (rule slots_by_cong) (simp add: share_of_data [OF that(1)])
  note same = slots_by_refl [OF assms(2)]
  show ?thesis
  proof (cases "c_data c")
    case (Attributes a)
    then obtain b where b: "c_data add = Attributes b"
      using assms(1) by (auto simp: add_defs Let_def split: condition_data.splits)
    show ?thesis
    proof (cases "updateCondition_base (e_now env) c add")
      case True
      let ?cr = "endCondition_attributes a cr"
      let ?a = "a\<lparr>skills := skills b, specialSkills := specialSkills b,
                         skillsPercent := skillsPercent b, stats := stats b,
                         statsPercent := statsPercent b, disableDefense := disableDefense b\<rparr>"
      obtain a' cr1 where 1: "apply_attributes ?a ?cr = Some (a', cr1)"
        using assms(1) True Attributes b by (auto simp: add_defs Let_def)
      note 2 = endCondition_attributes_by [OF assms(2), of a c]
      note 3 = apply_attributes_by [OF slots_by_lens [OF 2] 1, of "setTicks (e_now env) (ticks add) c"]
      have "set_data c (Attributes a) = c" using Attributes by simp
      with slots_by_trans [OF 2 3] show ?thesis
        using assms(1) True Attributes b 1
        by (auto simp: add_defs Let_def slots_by_kind [OF 2])
    next
      case False
      then show ?thesis using assms(1) Attributes b same
        by (intro unchanged) (auto simp: add_defs Let_def)
    qed
  next
    case (Speed sp)
    have sp_by: "slots_by cr (\<lambda>s. (if s = Speed_of_creature then x else 0) -
        (if s = Speed_of_creature then y else 0)) (changeSpeed (x - y) cr)" for x y
      by (rule slots_by_cong [OF changeSpeed_by [OF assms(2)]]) simp
    from Speed show ?thesis
      using assms(1) sp_by same
      by (auto simp: add_defs Let_def share_def
          split: condition_data.splits option.splits if_splits intro: slots_by_cong)
  next
    case (Damage d)
    then show ?thesis
      using assms refresh_damage_by
      by (fastforce simp: add_defs Let_def split: condition_data.splits)
  qed (use assms(1) same in
    \<open>auto simp: add_defs Let_def same_slots share_def split: condition_data.splits if_splits\<close>)
qed

section \<open>The list of conditions and the slots together\<close>

text \<open>Every slot is what it was without conditions plus the shares of the conditions \<open>cs\<close>.\<close>

definition accounted :: "(slot \<Rightarrow> int) \<Rightarrow> condition list \<Rightarrow> creature \<Rightarrow> bool" where
  "accounted base cs cr \<longleftrightarrow>
     lens cr \<and> (\<forall>s. slot_ok s \<longrightarrow> value_at s cr = base s + (\<Sum>c\<leftarrow>cs. share (kind cr) s c))"

lemma accounted_by:
  assumes "accounted base cs cr" and "slots_by cr d cr'"
    and "\<And>s. slot_ok s \<Longrightarrow> (\<Sum>c\<leftarrow>cs. share (kind cr) s c) + d s = (\<Sum>c\<leftarrow>cs'. share (kind cr) s c)"
  shows "accounted base cs' cr'"
  using assms by (simp add: accounted_def slots_by_def add.assoc)

lemma accounted_lens: "accounted base cs cr \<Longrightarrow> lens cr"
  by (simp add: accounted_def)

lemma accounted_same [same_slots]:
  "accounted base cs (tell e cr) = accounted base cs cr"
  "accounted base cs (cr\<lparr>conditions := cs'\<rparr>) = accounted base cs cr"
  "accounted base cs (cr\<lparr>ignoreFieldDamage := b\<rparr>) = accounted base cs cr"
  by (simp_all add: accounted_def same_slots)

lemma log_same [same_slots]:
  "value_at s (cr\<lparr>log_of := l\<rparr>) = value_at s cr" "lens (cr\<lparr>log_of := l\<rparr>) = lens cr"
  "accounted base cs (cr\<lparr>log_of := l\<rparr>) = accounted base cs cr"
proof -
  show v: "value_at s (cr\<lparr>log_of := l\<rparr>) = value_at s cr" for s by (cases s) simp_all
  show l: "lens (cr\<lparr>log_of := l\<rparr>) = lens cr" by (simp add: lens_def)
  show "accounted base cs (cr\<lparr>log_of := l\<rparr>) = accounted base cs cr" by (simp add: accounted_def v l)
qed

lemma onEndCondition_same [same_slots]:
  "accounted base cs (onEndCondition t cr) = accounted base cs cr"
  "conditions (onEndCondition t cr) = conditions cr"
  by (simp_all add: onEndCondition_def same_slots split: creature_kind.split)

lemma accounted_end:
  assumes "accounted base (xs @ c # ys) cr"
  shows "accounted base (xs @ ys) (endCondition env c cr)"
  by (rule accounted_by [OF assms endCondition_by [OF accounted_lens [OF assms]]]) simp

lemma endCondition_conditions [simp]:
  "lens cr \<Longrightarrow> conditions (endCondition env c cr) = conditions cr"
  using endCondition_by by (simp add: slots_by_def)

lemma remove_from_accounted:
  assumes "accounted base (kept @ cs) cr" and "conditions cr = kept @ cs"
  shows "accounted base (conditions (remove_from env sel t force kept cs cr))
           (remove_from env sel t force kept cs cr)"
  using assms
proof (induction cs arbitrary: kept cr)
  case Nil
  then show ?case by simp
next
  case (Cons c cs)
  let ?cr = "endCondition env c (cr\<lparr>conditions := kept @ cs\<rparr>)"
  have l: "lens cr" using Cons.prems(1) by (rule accounted_lens)
  have "accounted base (kept @ cs) ?cr"
    by (rule accounted_end) (simp add: same_slots Cons.prems(1))
  moreover have "conditions ?cr = kept @ cs" using l by (simp add: same_slots)
  ultimately show ?case
    using Cons.IH [of kept "onEndCondition t ?cr"] Cons.IH [of "kept @ [c]" cr] Cons.prems
    by (auto simp: same_slots)
qed

abbreviation all_accounted :: "(slot \<Rightarrow> int) \<Rightarrow> creature \<Rightarrow> bool" where
  "all_accounted base cr \<equiv> accounted base (conditions cr) cr"

lemma removeCondition_accounted:
  assumes "all_accounted base cr"
  shows "all_accounted base (removeCondition env t force cr)"
    and "all_accounted base (removeCondition_id env t i force cr)"
  unfolding removeCondition_def removeCondition_id_def
  by (rule remove_from_accounted; simp add: assms)+

lemma removeCondition_at_accounted:
  assumes "all_accounted base cr"
  shows "all_accounted base (removeCondition_at env n force cr)"
proof (cases "n < length (conditions cr)")
  case True
  let ?cs = "take n (conditions cr) @ drop (Suc n) (conditions cr)"
  have "accounted base (take n (conditions cr) @ conditions cr ! n # drop (Suc n) (conditions cr))
      (cr\<lparr>conditions := ?cs\<rparr>)"
    using assms by (simp add: same_slots id_take_nth_drop [OF True, symmetric])
  note 1 = accounted_end [OF this, of env]
  moreover have "conditions (endCondition env (conditions cr ! n) (cr\<lparr>conditions := ?cs\<rparr>)) = ?cs"
    using accounted_lens [OF assms] by (simp add: same_slots)
  ultimately show ?thesis
    using assms by (simp add: removeCondition_at_def Let_def same_slots)
qed (use assms in \<open>simp add: removeCondition_at_def\<close>)

lemma onAddCondition_accounted:
  "all_accounted base cr \<Longrightarrow> all_accounted base (onAddCondition env t cr)"
  by (simp add: onAddCondition_def onAddCondition_creature_def Let_def removeCondition_accounted same_slots
      split: creature_kind.split)

lemma replace_first_found:
  "List.find P cs = Some c \<Longrightarrow>
   (\<Sum>x\<leftarrow>replace_first P c' cs. f x) = (\<Sum>x\<leftarrow>cs. f x) + f c' - (f c :: int)"
  by (induction cs) (auto split: if_splits)

lemma creature_addCondition_accounted:
  assumes "all_accounted base cr" and "creature_addCondition env c force cr = Some (ok, cr')"
  shows "all_accounted base cr'"
proof -
  note l = accounted_lens [OF assms(1)]
  let ?same = "same_condition (conditionType c) (c_id c) (subId c)"
  consider (later) "cr' = tell (ScheduleAddCondition c (e_walkDelay env)) cr"
    | (refresh) prev c' cr1 where "List.find ?same (conditions cr) = Some prev"
        "addCondition env prev c cr = Some (c', cr1)"
        "cr' = cr1\<lparr>conditions := replace_first ?same c' (conditions cr1)\<rparr>"
    | (new) c' cr1 where "startCondition env c cr = Some (True, c', cr1)"
        "cr' = onAddCondition env (conditionType c') (cr1\<lparr>conditions := conditions cr1 @ [c']\<rparr>)"
    | (refused) c' where "startCondition env c cr = Some (False, c', cr')"
  proof (cases "List.find ?same (conditions cr)")
    case None
    show ?thesis
    proof (cases "startCondition env c cr")
      case None
      then show ?thesis
        using assms(2) \<open>List.find _ _ = None\<close> later
        by (simp add: creature_addCondition_def Let_def split: if_splits)
    next
      case (Some r)
      obtain b c' cr1 where r: "r = (b, c', cr1)" by (cases r)
      then show ?thesis
        using assms(2) \<open>List.find _ _ = None\<close> later Some new [of c' cr1] refused [of c']
        by (cases b) (simp_all add: creature_addCondition_def Let_def split: if_splits)
    qed
  next
    case (Some prev)
    then show ?thesis
      using assms(2) later refresh [OF Some]
      by (simp add: creature_addCondition_def Let_def split: if_splits option.splits prod.splits)
  qed
  then show ?thesis
  proof cases
    case later
    then show ?thesis using assms(1) by (simp add: same_slots)
  next
    case refresh
    note 1 = addCondition_by [OF refresh(2) l]
    have "accounted base (replace_first ?same c' (conditions cr)) cr1"
      by (rule accounted_by [OF assms(1) 1]) (simp add: replace_first_found [OF refresh(1)])
    moreover have "conditions cr1 = conditions cr" using 1 by (simp add: slots_by_def)
    ultimately show ?thesis by (simp add: refresh(3) same_slots)
  next
    case new
    have 1: "slots_by cr (\<lambda>s. share (kind cr) s c') cr1" using startCondition_by [OF new(1) l] by simp
    have "accounted base (conditions cr @ [c']) cr1"
      by (rule accounted_by [OF assms(1) 1]) simp
    moreover have "conditions cr1 = conditions cr" using 1 by (simp add: slots_by_def)
    ultimately show ?thesis unfolding new(2)
      by (intro onAddCondition_accounted) (simp add: same_slots)
  next
    case refused
    have 1: "slots_by cr (\<lambda>s. share (kind cr) s c') cr'" "\<forall>s. share (kind cr) s c' = 0"
      using startCondition_by [OF refused l] by blast+
    have "accounted base (conditions cr) cr'"
      by (rule accounted_by [OF assms(1) 1(1)]) (simp add: 1(2))
    moreover have "conditions cr' = conditions cr" using 1 by (simp add: slots_by_def)
    ultimately show ?thesis by simp
  qed
qed

lemma execute_from_accounted:
  assumes "accounted base (kept @ cs) cr" and "conditions cr = kept @ cs"
  shows "all_accounted base (execute_from env interval kept cs cr)"
  using assms
proof (induction cs arbitrary: kept cr)
  case Nil
  then show ?case by simp
next
  case (Cons c cs)
  note l = accounted_lens [OF Cons.prems(1)]
  obtain alive c' cr1 where ex: "executeCondition env interval c cr = (alive, c', cr1)"
    by (cases "executeCondition env interval c cr") auto
  have s: "slots_by cr (\<lambda>s. 0) cr1" and sh: "share k s c' = share k s c" for k s
    using executeCondition_by [OF ex l] by simp_all
  have 1: "accounted base (kept @ c' # cs) cr1"
    by (rule accounted_by [OF Cons.prems(1) s]) (simp add: sh)
  let ?cr = "endCondition env c' (cr1\<lparr>conditions := kept @ cs\<rparr>)"
  have "accounted base (kept @ cs) ?cr" by (rule accounted_end) (simp add: same_slots 1)
  moreover have "conditions ?cr = kept @ cs" using accounted_lens [OF 1] by (simp add: same_slots)
  ultimately show ?case
    using Cons.IH [of kept "onEndCondition (conditionType c') ?cr"]
      Cons.IH [of "kept @ [c']" "cr1\<lparr>conditions := kept @ c' # cs\<rparr>"] 1
    by (simp add: ex same_slots)
qed

text \<open>What can happen to the conditions of a creature, with any answers of the environment.\<close>

inductive condition_event :: "creature \<Rightarrow> creature \<Rightarrow> bool" where
  added: "creature_addCondition env c force cr = Some (ok, cr') \<Longrightarrow> condition_event cr cr'"
| removed: "condition_event cr (removeCondition env t force cr)"
| removed_id: "condition_event cr (removeCondition_id env t i force cr)"
| removed_at: "condition_event cr (removeCondition_at env n force cr)"
| executed: "condition_event cr (executeConditions env interval cr)"

lemma condition_event_accounted:
  "condition_event cr cr' \<Longrightarrow> all_accounted base cr \<Longrightarrow> all_accounted base cr'"
proof (induction rule: condition_event.induct)
  case (added env c force cr ok cr')
  then show ?case by (blast intro: creature_addCondition_accounted)
next
  case (executed cr env interval)
  then show ?case unfolding executeConditions_def by (intro execute_from_accounted) simp_all
qed (simp_all add: removeCondition_accounted removeCondition_at_accounted)

lemma condition_events_accounted:
  assumes "condition_event\<^sup>*\<^sup>* cr cr'" and "all_accounted base cr"
  shows "all_accounted base cr'"
  using assms by (induction rule: rtranclp_induct) (auto intro: condition_event_accounted)

text \<open>C27: After any sequence of conditions being added, removed and executed, every slot of a creature
  (skills, special skills, stats, speed) is what it was without conditions plus the shares of the
  conditions it has now: no bonus is lost, doubled or left behind.\<close>

theorem bonuses_accounted:
  assumes "condition_event\<^sup>*\<^sup>* cr cr'" and "conditions cr = []" and "lens cr" and "slot_ok s"
  shows "value_at s cr' = value_at s cr + (\<Sum>c\<leftarrow>conditions cr'. share (kind cr') s c)"
proof -
  have "all_accounted (\<lambda>s. value_at s cr) cr" using assms(2,3) by (simp add: accounted_def)
  from condition_events_accounted [OF assms(1) this] show ?thesis
    using assms(4) by (simp add: accounted_def)
qed

definition sample_bonus :: condition where
  "sample_bonus = new_condition 0 CONDITION_ATTRIBUTES 60000 False 0 False
     (Attributes (new_attributes\<lparr>skills := [0, 0, 7, 0, 0, 0, 0]\<rparr>))"

definition sample_boosted :: creature where
  "sample_boosted = snd (the (creature_addCondition sample_env sample_bonus False sample_creature))"

lemma sample_boosted:
  "creature_addCondition sample_env sample_bonus False sample_creature = Some (True, sample_boosted)"
  by code_simp

theorem bonuses_accounted_witness:
  "value_at (Skill 2) sample_boosted = value_at (Skill 2) sample_creature +
     (\<Sum>c\<leftarrow>conditions sample_boosted. share (kind sample_boosted) (Skill 2) c) \<and>
   value_at (Skill 2) sample_boosted = 7"
proof -
  have "condition_event\<^sup>*\<^sup>* sample_creature sample_boosted"
    by (rule r_into_rtranclp, rule condition_event.added [OF sample_boosted])
  moreover have "conditions sample_creature = []" "lens sample_creature"
    by (simp_all add: sample_creature_def lens_def)
  moreover have "value_at (Skill 2) sample_boosted = 7" by code_simp
  ultimately show ?thesis using bonuses_accounted [of sample_creature sample_boosted "Skill 2"] by simp
qed

end
