(* ===== verification/Condition_Damage.thy ===== *)
theory Condition_Damage
  imports Condition_Effects
begin

text \<open>
  Damage over time and the time of conditions: the list of damages that \<open>generateDamageList\<close> makes, and
  when its numbers overflow; which damages of its list a condition has dealt after a number of think
  events; and when a refreshed condition ends.
\<close>

section \<open>The list of damages\<close>

lemma nearer_with_less:
  assumes "nearer_with med acc i" and "0 \<le> i" and "0 \<le> acc" and "0 \<le> med"
  shows "acc < med"
proof (rule ccontr)
  assume "\<not> acc < med"
  with assms have med: "0 < med" "med \<le> acc" by (auto simp: nearer_with_def)
  let ?f = "\<lambda>x. fl32 (of_int x)"
  have "fl32 (of_int 1) \<le> ?f med" by (intro fl_mono) (use med in simp_all)
  then have m: "0 < ?f med" using fl32_of_int [of 1] by simp
  have le: "?f med \<le> ?f acc" by (intro fl_mono) (use med in simp_all)
  have one: "fl32 1 = 1" using fl32_of_int [of 1] by simp
  have "1 \<le> ?f acc / ?f med" using le m by (simp add: pos_le_divide_eq)
  then have near: "1 \<le> fl32 (?f acc / ?f med)" using fl_mono(1) [of 1] one by simp
  have "?f acc = fl32 (?f acc)" using assms(3) by (simp add: fl32_idem)
  also have "\<dots> \<le> fl32 (?f acc + ?f i)"
    by (intro fl_mono) (use assms(2,3) in \<open>simp_all add: fl_nonneg\<close>)
  finally have grow: "?f acc \<le> fl32 (?f acc + ?f i)" .
  have "fl32 (?f acc / ?f med) \<le> fl32 (fl32 (?f acc + ?f i) / ?f med)"
    by (rule fl_mono(1) [OF _ divide_right_mono [OF grow]])
       (use m assms(3) in \<open>simp_all add: fl_nonneg less_imp_le\<close>)
  with near have "fl64 \<bar>1 - fl32 (?f acc / ?f med)\<bar> \<le> fl64 \<bar>1 - fl32 (fl32 (?f acc + ?f i) / ?f med)\<bar>"
    by (intro fl_mono) simp_all
  with assms(1) show False by (simp add: nearer_with_def)
qed

lemma push_until_returns:
  assumes "0 < i" and "0 \<le> acc" and "0 \<le> med" and "max acc (med - 1) + i < 2 ^ 31"
  shows "\<exists>k. push_until med i acc ls = Some (acc + int (Suc k) * i, ls @ replicate (Suc k) i) \<and>
    acc + int (Suc k) * i \<le> max acc (med - 1) + i"
  using assms
proof (induction "nat (med - acc)" arbitrary: acc ls rule: less_induct)
  case less
  have fits: "int32 (acc + i)" using less.prems by (simp add: int32_def)
  show ?case
  proof (cases "nearer_with med (acc + i) i")
    case True
    then have "acc + i < med" using nearer_with_less [OF True] less.prems by simp
    then obtain k where "push_until med i (acc + i) (ls @ [i]) =
        Some (acc + i + int (Suc k) * i, (ls @ [i]) @ replicate (Suc k) i)"
      "acc + i + int (Suc k) * i \<le> max (acc + i) (med - 1) + i"
      using less.hyps [of "acc + i" "ls @ [i]"] less.prems by auto
    then show ?thesis using True fits \<open>acc + i < med\<close>
      by (intro exI [of _ "Suc k"]) (simp add: push_until.simps [of med i acc] Let_def algebra_simps)
  next
    case False
    then show ?thesis using fits
      by (intro exI [of _ 0]) (simp add: push_until.simps [of med i acc] Let_def)
  qed
qed

lemma sdiv_nonneg: "0 \<le> a \<Longrightarrow> 0 \<le> b \<Longrightarrow> 0 \<le> a sdiv (b :: int)"
  by (cases "a = 0"; cases "b = 0") (simp_all add: signed_divide_int_def div_int_pos_iff)

lemma sorted_wrt_replicate_ge: "sorted_wrt (\<ge>) (replicate n (x :: int))"
  by (induction n) auto

lemma sdiv_quotient_le: "0 \<le> a \<Longrightarrow> a \<le> b * c \<Longrightarrow> 0 < (b :: int) \<Longrightarrow> a sdiv b \<le> c"
  by (cases "a = 0") (auto simp: signed_divide_int_def sgn_if zero_le_mult_iff dest: zdiv_mono1 [of a "b * c" b])

definition triangle :: "nat \<Rightarrow> int" where
  "triangle k = int k * (int k + 1) div 2"

lemma triangle_Suc: "triangle (Suc k) = triangle k + int (Suc k)"
proof -
  have "int (Suc k) * (int (Suc k) + 1) = int k * (int k + 1) + 2 * int (Suc k)" by (simp add: algebra_simps)
  then show ?thesis by (simp add: triangle_def)
qed

lemma triangle_ge: "int k \<le> triangle k"
  by (induction k) (simp_all add: triangle_Suc, simp add: triangle_def)

lemma damage_rounds_return:
  assumes "0 \<le> amount" and "start * amount < 2 ^ 31" and "start + 1 < 2 ^ 31"
    and "int k \<le> start" and "0 \<le> acc" and "max acc amount + triangle k < 2 ^ 31"
  shows "\<exists>vs. damage_rounds k amount start acc ls = Some (ls @ vs) \<and> sorted_wrt (\<ge>) vs \<and> set vs = {1..int k}"
  using assms(4-6)
proof (induction k arbitrary: acc ls)
  case (Suc k)
  let ?i = "int (Suc k)"
  let ?n = "start + 1 - ?i"
  let ?med = "(?n * amount) sdiv start"
  have n: "0 \<le> ?n" "?n \<le> start" "0 < start" using Suc.prems(1) by simp_all
  have prod: "0 \<le> ?n * amount" "?n * amount \<le> start * amount"
    using n assms(1) by (simp_all add: mult_right_mono)
  have med: "0 \<le> ?med" "?med \<le> amount"
    using prod n by (auto intro: sdiv_nonneg sdiv_quotient_le)
  have fits: "int32 (start + 1)" "int32 (?n * amount)"
    using prod n assms(2,3) by (simp_all add: int32_def)
  have room: "max acc amount + ?i \<le> max acc amount + triangle (Suc k)" using triangle_ge [of "Suc k"] by simp
  have "max acc (?med - 1) + ?i < 2 ^ 31" using room Suc.prems(3) med by linarith
  then obtain m where m: "push_until ?med ?i acc ls = Some (acc + int (Suc m) * ?i, ls @ replicate (Suc m) ?i)"
    "acc + int (Suc m) * ?i \<le> max acc (?med - 1) + ?i"
    using push_until_returns [of ?i acc ?med ls] Suc.prems(2) med by auto
  have next_acc: "max (acc + int (Suc m) * ?i) amount + triangle k < 2 ^ 31"
    using m(2) med Suc.prems(3) unfolding triangle_Suc by linarith
  obtain vs where vs: "damage_rounds k amount start (acc + int (Suc m) * ?i) (ls @ replicate (Suc m) ?i) =
      Some ((ls @ replicate (Suc m) ?i) @ vs)" "sorted_wrt (\<ge>) vs" "set vs = {1..int k}"
    using Suc.IH [of "acc + int (Suc m) * ?i" "ls @ replicate (Suc m) ?i"] Suc.prems(1,2) next_acc by auto
  have "sorted_wrt (\<ge>) (replicate (Suc m) ?i @ vs)"
    using vs(2,3) sorted_wrt_replicate_ge [of "Suc m" ?i] by (auto simp: sorted_wrt_append)
  moreover have "set (replicate (Suc m) ?i @ vs) = {1..?i}" using vs(3) by auto
  ultimately show ?case
    using vs(1) m(1) fits by (intro exI [of _ "replicate (Suc m) ?i @ vs"]) (simp add: Let_def)
qed simp

text \<open>The last round multiplies the amount by the start.\<close>

lemma damage_rounds_overflow:
  "\<not> int32 (start * amount) \<Longrightarrow> damage_rounds (Suc k) amount start acc ls = None"
proof (induction k arbitrary: acc ls)
  case (Suc k)
  then show ?case by (subst damage_rounds.simps) (simp add: Let_def del: damage_rounds.simps split: option.split)
qed simp

section \<open>Damage over time\<close>

text \<open>A condition executed with the intervals of the think events, until it ends.\<close>

fun run_condition :: "(effect_env \<times> int) list \<Rightarrow> condition \<Rightarrow> creature \<Rightarrow> condition \<times> creature" where
  "run_condition [] c cr = (c, cr)"
| "run_condition ((env, interval) # es) c cr =
     (let (alive, c, cr) = executeCondition env interval c cr
      in if alive then run_condition es c cr else (c, cr))"

definition hits :: "u32 \<Rightarrow> creature \<Rightarrow> int list" where
  "hits t cr = List.map_filter (\<lambda>e. case e of Hit t' v \<Rightarrow> if t' = t then Some v else None | _ \<Rightarrow> None) (log_of cr)"

definition damage_of :: "condition \<Rightarrow> damage_data" where
  "damage_of c = (case c_data c of Damage d \<Rightarrow> d)"

text \<open>A condition that deals a list of damages, and a creature that takes them all.\<close>

definition deals_list :: "condition \<Rightarrow> creature \<Rightarrow> bool" where
  "deals_list c cr \<longleftrightarrow>
     (\<exists>d. c_data c = Damage d \<and> periodDamage d = 0 \<and> \<not> field_damage d) \<and> ticks c \<noteq> -1 \<and>
     \<not> isSuppress (conditionType c) cr \<and> \<not> isImmune (conditionType c) cr \<and> fieldCombatType cr = None"

lemma execute_damage_list:
  assumes ex: "executeCondition env interval c cr = (alive, c', cr')" and ok: "deals_list c cr"
    and t: "conditionType c = t" and e: "e_now env \<le> endTime c"
  shows "deals_list c' cr'" and "conditionType c' = t" and "endTime c' = endTime c" and "alive"
    and "damageList (damage_of c) = [] \<Longrightarrow> damageList (damage_of c') = [] \<and> hits t cr' = hits t cr"
    and "damageList (damage_of c) = i # is \<Longrightarrow> timeLeft i \<le> interval \<Longrightarrow>
      damageList (damage_of c') = is \<and> hits t cr' = hits t cr @ [ival_value i]"
    and "damageList (damage_of c) = i # is \<Longrightarrow> interval < timeLeft i \<Longrightarrow>
      damageList (damage_of c') = i\<lparr>timeLeft := timeLeft i - interval\<rparr> # is \<and> hits t cr' = hits t cr"
  using assms
  by (auto simp: executeCondition_def execute_damage_def executeCondition_base_def Let_def deals_list_def
      damage_of_def doDamage_def hits_def isSuppress_def isImmune_def onTickCondition_def map_filter_def
      split: list.splits if_splits)

text \<open>How many damages are due after think events with these intervals: the times count one after the
  other, each from the event at which the one before it was dealt.\<close>

fun due :: "int list \<Rightarrow> int list \<Rightarrow> nat" where
  "due [] ts = 0"
| "due (interval # is) [] = 0"
| "due (interval # is) (t # ts) = (if t \<le> interval then Suc (due is ts) else due is ((t - interval) # ts))"

lemma due_Nil [simp]: "due is [] = 0"
  by (cases "is") simp_all

lemma due_not_early: "\<forall>i \<in> set is. 0 \<le> i \<Longrightarrow> sum_list (take (due is ts) ts) \<le> sum_list is"
proof (induction "is" ts rule: due.induct)
  case (2 interval "is")
  then show ?case by (simp add: sum_list_nonneg)
next
  case (3 interval "is" t ts)
  show ?case
  proof (cases "t \<le> interval")
    case True
    then show ?thesis using 3 by simp
  next
    case False
    then have "sum_list (take (due is ((t - interval) # ts)) ((t - interval) # ts)) \<le> sum_list is" using 3 by simp
    then show ?thesis using False 3(3) by (cases "due is ((t - interval) # ts)") simp_all
  qed
qed simp

lemma run_deals_list:
  assumes "deals_list c cr" and "conditionType c = t" and "\<forall>e\<in>set es. e_now (fst e) \<le> endTime c"
    and "run_condition es c cr = (c', cr')"
  shows "hits t cr' = hits t cr @
      map ival_value (take (due (map snd es) (map timeLeft (damageList (damage_of c)))) (damageList (damage_of c))) \<and>
    map ival_value (damageList (damage_of c')) =
      map ival_value (drop (due (map snd es) (map timeLeft (damageList (damage_of c)))) (damageList (damage_of c)))"
  using assms
proof (induction es arbitrary: c cr)
  case Nil
  then show ?case by simp
next
  case (Cons e es)
  obtain env interval where e: "e = (env, interval)" by (cases e)
  have now: "e_now env \<le> endTime c" using Cons.prems(3) by (simp add: e)
  obtain alive c1 cr1 where ex: "executeCondition env interval c cr = (alive, c1, cr1)"
    by (cases "executeCondition env interval c cr") auto
  note step = execute_damage_list [OF ex Cons.prems(1,2) now]
  have run: "run_condition es c1 cr1 = (c', cr')"
    using Cons.prems(4) ex step(4) by (simp add: e)
  have "\<forall>e\<in>set es. e_now (fst e) \<le> endTime c1" using Cons.prems(3) step(3) by simp
  note IH = Cons.IH [OF step(1,2) this run]
  show ?case
  proof (cases "damageList (damage_of c)")
    case Nil
    then show ?thesis using IH step(5) by simp
  next
    case (Cons i "is")
    show ?thesis
    proof (cases "timeLeft i \<le> interval")
      case True
      then show ?thesis using IH step(6) [OF Cons] Cons by (simp add: e)
    next
      case False
      let ?n = "due (map snd es) ((timeLeft i - interval) # map timeLeft is)"
      have "due (map snd (e # es)) (map timeLeft (damageList (damage_of c))) = ?n" using False Cons by (simp add: e)
      then show ?thesis using False IH step(7) [OF Cons] Cons by (cases ?n) simp_all
    qed
  qed
qed

section \<open>The time of a refreshed condition\<close>

lemma setTicks_times [simp]: "endTime (setTicks now t c) = t + now" "ticks (setTicks now t c) = t"
  by (simp_all add: setTicks_def)

lemma update_later_end:
  assumes "conditionType c = conditionType add" and "ticks c \<noteq> -1" and "0 \<le> ticks add"
  shows "updateCondition_base now c add \<longleftrightarrow> endTime c \<le> now + ticks add"
  using assms by (auto simp: updateCondition_base_def)

lemma refresh_damage_end:
  assumes "refresh_damage env c d add e cr = Some (c', cr')" and "conditionType c = conditionType add"
  shows "\<not> updateCondition_damage c d add e \<Longrightarrow> endTime c' = endTime c"
    and "updateCondition_damage c d add e \<Longrightarrow> periodDamage e \<noteq> 0 \<or> damageList e \<noteq> [] \<Longrightarrow>
      endTime c' = e_now env + ticks add"
  using assms
  by (auto simp: refresh_damage_def Let_def init_damage_def split: list.splits if_splits option.splits)

section \<open>What holds of damage conditions\<close>

text \<open>C28: As long as the amount and the numbers from 1 to the start add up to less than 2 ^ 31,
  \<open>generateDamageList\<close> overflows exactly when the start times the amount is not less than 2 ^ 31. Where it
  does not, it returns (its inner loop, which compares rounded floats, ends), and the damages descend
  from the start to 1, each occurring.\<close>

theorem damage_list_generated:
  assumes "\<bar>amount\<bar> + start * (start + 1) div 2 < 2 ^ 31"
  shows "if start * \<bar>amount\<bar> < 2 ^ 31
    then \<exists>vs. generateDamageList amount start = Some vs \<and> sorted_wrt (\<ge>) vs \<and> set vs = {1..start}
    else generateDamageList amount start = None"
proof -
  have "0 \<le> start * (start + 1)" by (cases "0 \<le> start") (simp_all add: mult_nonpos_nonpos)
  then have "0 \<le> start * (start + 1) div 2" by simp
  then have a: "int32 \<bar>amount\<bar>" using assms unfolding int32_def by linarith
  show ?thesis
  proof (cases "0 < start")
    case True
    then obtain k where k: "nat start = Suc k" "start = int (Suc k)" by (metis gr0_implies_Suc nat_0_le zero_less_nat_eq
      order_less_imp_le)
    have t: "triangle (nat start) = start * (start + 1) div 2" using True by (simp add: triangle_def)
    have "start + 1 < 2 ^ 31"
    proof (cases "start = 1")
      case False
      then have "2 * (start + 1) \<le> start * (start + 1)" using True by (intro mult_right_mono) simp_all
      then have "start + 1 \<le> start * (start + 1) div 2" by simp
      then show ?thesis using assms by linarith
    qed simp
    then show ?thesis
      using damage_rounds_return [of "\<bar>amount\<bar>" start "nat start" 0 "[]"] True t assms a
        damage_rounds_overflow [of start "\<bar>amount\<bar>" k 0 "[]"] k
      by (simp add: generateDamageList_def int32_def del: damage_rounds.simps)
  next
    case False
    then have "start * \<bar>amount\<bar> \<le> 0" by (simp add: mult_nonpos_nonneg)
    then show ?thesis using False a by (simp add: generateDamageList_def)
  qed
qed

theorem damage_list_generated_witness:
  "(\<exists>vs. generateDamageList 100 5 = Some vs \<and> sorted_wrt (\<ge>) vs \<and> set vs = {1..5}) \<and>
   generateDamageList 100000 50000 = None"
  using damage_list_generated [of 100 5] damage_list_generated [of 100000 50000] by simp

text \<open>C29: A condition with a list of damages, which is not permanent, not that of a field and not
  running out, on a creature that is neither immune nor protected and stands in no field: after any think
  events it has dealt the first damages of its list in their order, each once and exactly those that
  are due, one at most at each event; they are not early, and the others are still in the list.\<close>

theorem damage_in_order:
  assumes "c_data c = Damage d" and "periodDamage d = 0" and "\<not> field_damage d" and "ticks c \<noteq> -1"
    and "\<not> isSuppress (conditionType c) cr" and "\<not> isImmune (conditionType c) cr" and "fieldCombatType cr = None"
    and "\<forall>e\<in>set es. 0 \<le> snd e \<and> e_now (fst e) \<le> endTime c" and "run_condition es c cr = (c', cr')"
  shows "let n = due (map snd es) (map timeLeft (damageList d))
    in hits (conditionType c) cr' = hits (conditionType c) cr @ map ival_value (take n (damageList d)) \<and>
       map ival_value (damageList (damage_of c')) = map ival_value (drop n (damageList d)) \<and>
       sum_list (map timeLeft (take n (damageList d))) \<le> sum_list (map snd es)"
proof -
  have "deals_list c cr" using assms(1-7) by (simp add: deals_list_def)
  from run_deals_list [OF this refl _ assms(9)] assms(8)
    due_not_early [of "map snd es" "map timeLeft (damageList d)"]
  show ?thesis by (auto simp: damage_of_def assms(1) take_map)
qed

definition sample_fire :: condition where
  "sample_fire = (new_condition 0 CONDITION_FIRE 18000 False 0 False
     (Damage (new_damage\<lparr>damageList := [\<lparr>timeLeft = 9000, ival_value = -20, ival_interval = 9000\<rparr>,
        \<lparr>timeLeft = 9000, ival_value = -10, ival_interval = 9000\<rparr>]\<rparr>)))
     \<lparr>endTime := 19000\<rparr>"

definition sample_burns :: "(effect_env \<times> int) list" where
  "sample_burns = replicate 10 (sample_env, 1000)"

theorem damage_in_order_witness:
  "hits CONDITION_FIRE (snd (run_condition sample_burns sample_fire sample_creature)) = [-20]"
proof -
  let ?d = "new_damage\<lparr>damageList := [\<lparr>timeLeft = 9000, ival_value = -20, ival_interval = 9000\<rparr>,
        \<lparr>timeLeft = 9000, ival_value = -10, ival_interval = 9000\<rparr>]\<rparr>"
  have "c_data sample_fire = Damage ?d" "conditionType sample_fire = CONDITION_FIRE" "ticks sample_fire = 18000"
    "endTime sample_fire = 19000"
    by (simp_all add: sample_fire_def new_condition_def)
  moreover have "\<forall>e\<in>set sample_burns. 0 \<le> snd e \<and> e_now (fst e) \<le> 19000"
    by (simp add: sample_burns_def sample_env_def)
  moreover have "due (map snd sample_burns) (map timeLeft (damageList ?d)) = 1"
    by (simp add: sample_burns_def eval_nat_numeral)
  moreover have "hits CONDITION_FIRE sample_creature = []" by code_simp
  ultimately show ?thesis
    using damage_in_order [of sample_fire ?d sample_creature sample_burns
      "fst (run_condition sample_burns sample_fire sample_creature)"
      "snd (run_condition sample_burns sample_fire sample_creature)"]
    by (simp add: new_damage_def sample_creature_def isSuppress_def isImmune_def Let_def)
qed

text \<open>C30: When a condition that is not permanent is refreshed by one of its type that is not permanent,
  it ends at the later of the two ends - but for the classes that replace the time without looking:
  a speed condition ends when the new one does, a drunk one if the new one is stronger, and damage
  that counts for more, or forces the update, if it comes with its damages. These can end earlier.\<close>

theorem refresh_end_time:
  assumes "addCondition env c add cr = Some (c', cr')" and "conditionType c = conditionType add"
    and "ticks c \<noteq> -1" and "0 \<le> ticks add"
  shows "case c_data c of
      Speed s \<Rightarrow> endTime c' = e_now env + ticks add
    | Drunk k \<Rightarrow> \<exists>l. c_data add = Drunk l \<and> endTime c' = (if k < l then e_now env + ticks add else endTime c)
    | Damage d \<Rightarrow> \<exists>e. c_data add = Damage e \<and>
        (if \<not> updateCondition_damage c d add e then endTime c' = endTime c
         else periodDamage e \<noteq> 0 \<or> damageList e \<noteq> [] \<longrightarrow> endTime c' = e_now env + ticks add)
    | _ \<Rightarrow> endTime c' = max (endTime c) (e_now env + ticks add)"
proof (cases "c_data c")
  case (Damage d)
  then obtain e where e: "c_data add = Damage e" using assms(1) by (auto simp: add_defs split: condition_data.splits)
  then have "refresh_damage env c d add e cr = Some (c', cr')" using assms(1) Damage by (simp add: add_defs)
  note ends = refresh_damage_end [OF this assms(2)]
  show ?thesis using ends by (simp add: Damage e)
qed (use assms update_later_end [OF assms(2-4)] in
  \<open>auto simp: add_defs updateCondition_drunk_def Let_def split: condition_data.splits if_splits option.splits\<close>)

definition sample_haste :: "int \<Rightarrow> condition" where
  "sample_haste t = (new_condition 0 CONDITION_HASTE t False 0 False
     (Speed \<lparr>speedDelta = 40, mina = 0, minb = 0, maxa = 0, maxb = 0\<rparr>))\<lparr>endTime := 1000 + t\<rparr>"

definition sample_fight :: "int \<Rightarrow> condition" where
  "sample_fight t = (new_condition 0 CONDITION_INFIGHT t False 0 False Generic)\<lparr>endTime := 1000 + t\<rparr>"

text \<open>Of two conditions of 60 and 10 seconds, at the same time: the fight goes on for 60 seconds, the haste
  ends after 10.\<close>

theorem refresh_end_time_witness:
  "(\<exists>c' cr'. addCondition sample_env (sample_fight 60000) (sample_fight 10000) sample_creature = Some (c', cr') \<and>
      endTime c' = 61000) \<and>
   (\<exists>c' cr'. addCondition sample_env (sample_haste 60000) (sample_haste 10000) sample_creature = Some (c', cr') \<and>
      endTime c' = 11000)"
proof -
  have d: "c_data (sample_fight t) = Generic" "\<exists>s. c_data (sample_haste t) = Speed s" "ticks (sample_fight t) = t"
    "ticks (sample_haste t) = t" "endTime (sample_fight t) = 1000 + t" "endTime (sample_haste t) = 1000 + t"
    "conditionType (sample_fight t) = CONDITION_INFIGHT" "conditionType (sample_haste t) = CONDITION_HASTE" for t
    by (simp_all add: sample_fight_def sample_haste_def new_condition_def)
  have n: "e_now sample_env = 1000" by (simp add: sample_env_def)
  have "addCondition sample_env (sample_fight 60000) (sample_fight 10000) sample_creature \<noteq> None"
    "addCondition sample_env (sample_haste 60000) (sample_haste 10000) sample_creature \<noteq> None" by code_simp+
  then obtain c1 cr1 c2 cr2 where
    a: "addCondition sample_env (sample_fight 60000) (sample_fight 10000) sample_creature = Some (c1, cr1)"
    "addCondition sample_env (sample_haste 60000) (sample_haste 10000) sample_creature = Some (c2, cr2)" by auto
  have "endTime c1 = 61000" using refresh_end_time [OF a(1)] by (simp add: d n)
  moreover have "endTime c2 = 11000" using refresh_end_time [OF a(2)] d(2) [of 60000] by (auto simp: d(3-) n)
  ultimately show ?thesis using a by blast
qed

text \<open>A light condition made without a level has level 0, and the start divides by it.\<close>

lemma light_without_level:
  "startCondition env (the (createCondition i CONDITION_LIGHT t 0 buff sub aggr)) cr = None"
  by (simp add: start_defs Let_def createCondition_def new_condition_def new_light_def)

end
