(* ===== verification/Quad_Map.thy ===== *)
theory Quad_Map
  imports Positions
begin

text \<open>
  The index of the map of \<open>src/map.cpp\<close> and \<open>src/map.h\<close>: a quad tree over the upper 13 bits of
  the two coordinates, whose leaves hold 16 floors of 8 times 8 tiles and the creatures that stand
  there, and link to their southern and eastern neighbours. The tree keeps references to leaves,
  which are places in the list \<open>leaves\<close>; a new leaf gets the next place. Tiles and creatures are
  references too. The lookups, the insertion of a tile and the search for spectators are those of
  the code.
\<close>

type_synonym tile_ref = nat
type_synonym creature_ref = nat

section \<open>The tree\<close>

definition FLOOR_BITS :: nat where
  "FLOOR_BITS = 3"

definition FLOOR_SIZE :: int where
  "FLOOR_SIZE = 8"

definition FLOOR_MASK :: u16 where
  "FLOOR_MASK = 7"

definition MAP_MAX_LAYERS :: nat where
  "MAP_MAX_LAYERS = 16"

lemmas map_consts = FLOOR_BITS_def FLOOR_SIZE_def FLOOR_MASK_def MAP_MAX_LAYERS_def

text \<open>A node has four children, each null or a node.\<close>

datatype qnode = QLeaf nat | QNode "qnode option" "qnode option" "qnode option" "qnode option"

definition node_of :: "qnode option list \<Rightarrow> qnode" where
  "node_of cs = QNode (cs ! 0) (cs ! 1) (cs ! 2) (cs ! 3)"

definition quadrant :: "u32 \<Rightarrow> u32 \<Rightarrow> nat" where
  "quadrant x y = unat (drop_bit 15 (x AND 0x8000) OR drop_bit 14 (y AND 0x8000))"

lemma quadrant_bits: "quadrant x y = of_bool (bit x 15) + 2 * of_bool (bit y 15)"
proof -
  have x: "drop_bit 15 (x AND 0x8000) = of_bool (bit x 15)"
    by (rule bit_word_eqI) (auto simp: bit_simps)
  have y: "drop_bit 14 (y AND 0x8000) = (if bit y 15 then 2 else 0)"
    by (rule bit_word_eqI) (auto simp: bit_simps)
  show ?thesis unfolding quadrant_def x y by (simp split: if_splits)
qed

lemma quadrant_less [simp]: "quadrant x y < 4"
  by (simp add: quadrant_bits)

lemma nth_child_size:
  assumes "[a, b, c, d] ! i = Some n" and "i < 4"
  shows "size n < size (QNode a b c d)"
proof -
  have "i = 0 \<or> i = 1 \<or> i = 2 \<or> i = 3" using assms(2) by auto
  then show ?thesis using assms(1) by auto
qed

function getLeaf :: "qnode \<Rightarrow> u32 \<Rightarrow> u32 \<Rightarrow> nat option" where
  "getLeaf (QLeaf l) x y = Some l"
| "getLeaf (QNode a b c d) x y =
     (case [a, b, c, d] ! quadrant x y of
        None \<Rightarrow> None
      | Some n \<Rightarrow> getLeaf n (push_bit 1 x) (push_bit 1 y))"
  by pat_completeness auto

termination
  by (relation "measure (\<lambda>(n, x, y). size n)") (auto dest: nth_child_size)

text \<open>The loop of \<open>getLeafStatic\<close> starts with a step to a child, which a leaf does not have.\<close>

function getLeafStatic :: "qnode \<Rightarrow> u32 \<Rightarrow> u32 \<Rightarrow> nat option" where
  "getLeafStatic (QLeaf l) x y = None"
| "getLeafStatic (QNode a b c d) x y =
     (case [a, b, c, d] ! quadrant x y of
        None \<Rightarrow> None
      | Some (QLeaf l) \<Rightarrow> Some l
      | Some n \<Rightarrow> getLeafStatic n (push_bit 1 x) (push_bit 1 y))"
  by pat_completeness auto

termination
  by (relation "measure (\<lambda>(n, x, y). size n)") (auto dest: nth_child_size simp del: qnode.size)

text \<open>\<open>createLeaf\<close> with the reference \<open>new\<close> for a leaf that is made: the new tree, the leaf, and
  whether it is new. The level never gets below 1 in a tree of the map.\<close>

fun createLeaf :: "nat \<Rightarrow> u32 \<Rightarrow> u32 \<Rightarrow> nat \<Rightarrow> qnode \<Rightarrow> (qnode \<times> nat \<times> bool) option" where
  "createLeaf level x y new (QLeaf l) = Some (QLeaf l, l, False)"
| "createLeaf 0 x y new (QNode a b c d) = None"
| "createLeaf (Suc k) x y new (QNode a b c d) =
     (let i = quadrant x y;
          (n, isNew) = (case [a, b, c, d] ! i of
                          Some n \<Rightarrow> (n, False)
                        | None \<Rightarrow> if Suc k \<noteq> FLOOR_BITS then (QNode None None None None, False)
                                  else (QLeaf new, True))
      in case createLeaf k (x * 2) (y * 2) new n of
           None \<Rightarrow> None
         | Some (n', l, isNew') \<Rightarrow> Some (node_of ([a, b, c, d][i := Some n']), l, isNew \<or> isNew'))"

section \<open>The map\<close>

record qleaf =
  leafS :: "nat option"
  leafE :: "nat option"
  floors :: "tile_ref option list list option list"
  creature_list :: "creature_ref list"
  player_list :: "creature_ref list"

record quad_map =
  qroot :: qnode
  leaves :: "qleaf list"
  creature_pos :: "creature_ref \<Rightarrow> position"
  is_player :: "creature_ref \<Rightarrow> bool"
  spectatorCache :: "position \<Rightarrow> creature_ref list option"
  playersSpectatorCache :: "position \<Rightarrow> creature_ref list option"

definition new_leaf :: qleaf where
  "new_leaf = \<lparr>leafS = None, leafE = None, floors = replicate MAP_MAX_LAYERS None,
               creature_list = [], player_list = []\<rparr>"

definition new_floor :: "tile_ref option list list" where
  "new_floor = replicate 8 (replicate 8 None)"

definition new_map :: "(creature_ref \<Rightarrow> position) \<Rightarrow> (creature_ref \<Rightarrow> bool) \<Rightarrow> quad_map" where
  "new_map cpos players = \<lparr>qroot = QNode None None None None, leaves = [], creature_pos = cpos,
     is_player = players, spectatorCache = (\<lambda>p. None), playersSpectatorCache = (\<lambda>p. None)\<rparr>"

definition getQTNode :: "u16 \<Rightarrow> u16 \<Rightarrow> quad_map \<Rightarrow> nat option" where
  "getQTNode x y m = getLeafStatic (qroot m) (ucast x) (ucast y)"

definition getFloor :: "u8 \<Rightarrow> qleaf \<Rightarrow> tile_ref option list list option" where
  "getFloor z l = floors l ! unat z"

definition createFloor :: "u8 \<Rightarrow> qleaf \<Rightarrow> qleaf" where
  "createFloor z l = (if floors l ! unat z = None then l\<lparr>floors := (floors l)[unat z := Some new_floor]\<rparr> else l)"

definition leaf_tile :: "u16 \<Rightarrow> u16 \<Rightarrow> u8 \<Rightarrow> qleaf \<Rightarrow> tile_ref option" where
  "leaf_tile x y z l =
     (case getFloor z l of
        None \<Rightarrow> None
      | Some f \<Rightarrow> f ! unat (x AND FLOOR_MASK) ! unat (y AND FLOOR_MASK))"

definition getTile :: "u16 \<Rightarrow> u16 \<Rightarrow> u8 \<Rightarrow> quad_map \<Rightarrow> tile_ref option" where
  "getTile x y z m =
     (if unat z \<ge> MAP_MAX_LAYERS then None
      else case getQTNode x y m of
             None \<Rightarrow> None
           | Some l \<Rightarrow> leaf_tile x y z (leaves m ! l))"

definition upd_leaf :: "nat \<Rightarrow> (qleaf \<Rightarrow> qleaf) \<Rightarrow> quad_map \<Rightarrow> quad_map" where
  "upd_leaf l f m = m\<lparr>leaves := (leaves m)[l := f (leaves m ! l)]\<rparr>"

text \<open>The links of a new leaf \<open>l\<close> at \<open>x\<close>, \<open>y\<close> and of its neighbours; the differences are
  converted to 32 bits without sign.\<close>

definition on_leaf :: "nat option \<Rightarrow> (qleaf \<Rightarrow> qleaf) \<Rightarrow> quad_map \<Rightarrow> quad_map" where
  "on_leaf r f m = (case r of Some l \<Rightarrow> upd_leaf l f m | None \<Rightarrow> m)"

definition link_leaf :: "u16 \<Rightarrow> u16 \<Rightarrow> nat \<Rightarrow> quad_map \<Rightarrow> quad_map" where
  "link_leaf x y l m =
     (let northLeaf = getLeaf (qroot m) (ucast x) (word_of_int (uint y - FLOOR_SIZE));
          m = on_leaf northLeaf (\<lambda>f. f\<lparr>leafS := Some l\<rparr>) m;
          westLeaf = getLeaf (qroot m) (word_of_int (uint x - FLOOR_SIZE)) (ucast y);
          m = on_leaf westLeaf (\<lambda>f. f\<lparr>leafE := Some l\<rparr>) m;
          southLeaf = getLeaf (qroot m) (ucast x) (word_of_int (uint y + FLOOR_SIZE));
          m = (if southLeaf \<noteq> None then upd_leaf l (\<lambda>f. f\<lparr>leafS := southLeaf\<rparr>) m else m);
          eastLeaf = getLeaf (qroot m) (word_of_int (uint x + FLOOR_SIZE)) (ucast y)
      in if eastLeaf \<noteq> None then upd_leaf l (\<lambda>f. f\<lparr>leafE := eastLeaf\<rparr>) m else m)"

text \<open>The leaf of a tile, made and linked if it is missing.\<close>

definition leaf_for :: "u16 \<Rightarrow> u16 \<Rightarrow> quad_map \<Rightarrow> (quad_map \<times> nat) option" where
  "leaf_for x y m =
     (case createLeaf 15 (ucast x) (ucast y) (length (leaves m)) (qroot m) of
        None \<Rightarrow> None
      | Some (r, l, isNew) \<Rightarrow>
          Some (if isNew then link_leaf x y l (m\<lparr>qroot := r, leaves := leaves m @ [new_leaf]\<rparr>)
                else m\<lparr>qroot := r\<rparr>, l))"

text \<open>\<open>setTile\<close>: if there is a tile, the things of the new one are added to it and the new one is
  deleted; the second result is that tile.\<close>

definition set_leaf_tile :: "u16 \<Rightarrow> u16 \<Rightarrow> u8 \<Rightarrow> tile_ref \<Rightarrow> qleaf \<Rightarrow> qleaf" where
  "set_leaf_tile x y z t l =
     (case floors l ! unat z of
        None \<Rightarrow> l
      | Some f \<Rightarrow>
          let i = unat (x AND FLOOR_MASK); j = unat (y AND FLOOR_MASK)
          in l\<lparr>floors := (floors l)[unat z := Some (f[i := (f ! i)[j := Some t]])]\<rparr>)"

definition setTile ::
  "u16 \<Rightarrow> u16 \<Rightarrow> u8 \<Rightarrow> tile_ref \<Rightarrow> quad_map \<Rightarrow> (quad_map \<times> tile_ref option) option" where
  "setTile x y z t m =
     (if unat z \<ge> MAP_MAX_LAYERS then Some (m, None)
      else case leaf_for x y m of
             None \<Rightarrow> None
           | Some (m, l) \<Rightarrow>
               let m = upd_leaf l (createFloor z) m;
                   tile = leaf_tile x y z (leaves m ! l)
               in Some (if tile \<noteq> None then m else upd_leaf l (set_leaf_tile x y z t) m, tile))"

section \<open>Creatures in leaves\<close>

definition leaf_addCreature :: "bool \<Rightarrow> creature_ref \<Rightarrow> qleaf \<Rightarrow> qleaf" where
  "leaf_addCreature isPlayer c l =
     (let l = l\<lparr>creature_list := creature_list l @ [c]\<rparr>
      in if isPlayer then l\<lparr>player_list := player_list l @ [c]\<rparr> else l)"

text \<open>\<open>*iter = v.back(); v.pop_back()\<close> at the first \<open>c\<close>; without one the code writes to \<open>end()\<close>.\<close>

fun find_index :: "nat \<Rightarrow> nat list \<Rightarrow> nat option" where
  "find_index c [] = None"
| "find_index c (x # xs) = (if x = c then Some 0 else map_option Suc (find_index c xs))"

definition swap_remove :: "nat \<Rightarrow> nat list \<Rightarrow> nat list option" where
  "swap_remove c xs =
     (case find_index c xs of None \<Rightarrow> None | Some i \<Rightarrow> Some (butlast (xs[i := last xs])))"

definition leaf_removeCreature :: "bool \<Rightarrow> creature_ref \<Rightarrow> qleaf \<Rightarrow> qleaf option" where
  "leaf_removeCreature isPlayer c l =
     (case swap_remove c (creature_list l) of
        None \<Rightarrow> None
      | Some cs \<Rightarrow>
          let l = l\<lparr>creature_list := cs\<rparr>
          in if isPlayer then
               (case swap_remove c (player_list l) of
                  None \<Rightarrow> None | Some ps \<Rightarrow> Some (l\<lparr>player_list := ps\<rparr>))
             else Some l)"

definition clear_caches :: "creature_ref \<Rightarrow> quad_map \<Rightarrow> quad_map" where
  "clear_caches c m =
     (let m = m\<lparr>spectatorCache := (\<lambda>p. None)\<rparr>
      in if is_player m c then m\<lparr>playersSpectatorCache := (\<lambda>p. None)\<rparr> else m)"

text \<open>The end of \<open>placeCreature\<close>: the destination tile takes the creature, then its leaf does.\<close>

definition place_creature :: "creature_ref \<Rightarrow> position \<Rightarrow> quad_map \<Rightarrow> quad_map option" where
  "place_creature c dest m =
     (let m = (clear_caches c m)\<lparr>creature_pos := (creature_pos m)(c := dest)\<rparr>
      in case getQTNode (px dest) (py dest) m of
           None \<Rightarrow> None
         | Some l \<Rightarrow> Some (upd_leaf l (leaf_addCreature (is_player m c) c) m))"

text \<open>\<open>moveCreature\<close>: the old tile gives the creature up, the leaves change hands, the new tile
  takes it.\<close>

definition move_creature :: "creature_ref \<Rightarrow> position \<Rightarrow> quad_map \<Rightarrow> quad_map option" where
  "move_creature c newPos m =
     (let oldPos = creature_pos m c;
          m = clear_caches c m;
          leaf = getQTNode (px oldPos) (py oldPos) m;
          new_leaf = getQTNode (px newPos) (py newPos) m;
          set_pos = (\<lambda>m. (clear_caches c m)\<lparr>creature_pos := (creature_pos m)(c := newPos)\<rparr>)
      in if leaf = new_leaf then Some (set_pos m)
         else case (leaf, new_leaf) of
           (Some l, Some n) \<Rightarrow>
             (case leaf_removeCreature (is_player m c) c (leaves m ! l) of
                None \<Rightarrow> None
              | Some f \<Rightarrow>
                  Some (set_pos (upd_leaf n (leaf_addCreature (is_player m c) c) (upd_leaf l (\<lambda>_. f) m))))
         | _ \<Rightarrow> None)"

text \<open>\<open>Tile::removeCreature\<close> of the creature's tile.\<close>

definition remove_creature :: "creature_ref \<Rightarrow> quad_map \<Rightarrow> quad_map option" where
  "remove_creature c m =
     (case getQTNode (px (creature_pos m c)) (py (creature_pos m c)) m of
        None \<Rightarrow> None
      | Some l \<Rightarrow>
          (case leaf_removeCreature (is_player m c) c (leaves m ! l) of
             None \<Rightarrow> None
           | Some f \<Rightarrow> Some (clear_caches c (upd_leaf l (\<lambda>_. f) m))))"

section \<open>Spectators\<close>

text \<open>The ranges of \<open>getSpectatorsInternal\<close>: offsets from the centre in \<open>x\<close> and \<open>y\<close>, floors in \<open>z\<close>.\<close>

record ranges =
  minRangeX :: int
  maxRangeX :: int
  minRangeY :: int
  maxRangeY :: int
  minRangeZ :: int
  maxRangeZ :: int

definition spectates :: "position \<Rightarrow> ranges \<Rightarrow> position \<Rightarrow> bool" where
  "spectates center r cpos \<longleftrightarrow>
     (if minRangeZ r > uint (pz cpos) \<or> maxRangeZ r < uint (pz cpos) then False
      else
        let offsetZ = getOffsetZ center cpos;
            min_y = uint (py center) + minRangeY r; max_y = uint (py center) + maxRangeY r;
            min_x = uint (px center) + minRangeX r; max_x = uint (px center) + maxRangeX r
        in \<not> (min_y + offsetZ > uint (py cpos) \<or> max_y + offsetZ < uint (py cpos) \<or>
              min_x + offsetZ > uint (px cpos) \<or> max_x + offsetZ < uint (px cpos)))"

text \<open>One row of leaves, from the leaf \<open>leafE\<close> (or none) at \<open>nx\<close>: the next one is found by its
  link, or from the root when there is no leaf to follow.\<close>

function scan_row ::
  "quad_map \<Rightarrow> bool \<Rightarrow> (creature_ref \<Rightarrow> bool) \<Rightarrow> int \<Rightarrow> int \<Rightarrow> nat option \<Rightarrow> int \<Rightarrow> creature_ref list" where
  "scan_row m onlyPlayers P ny endx leaf nx =
     (if nx > endx then []
      else case leaf of
        Some l \<Rightarrow>
          filter P (if onlyPlayers then player_list (leaves m ! l) else creature_list (leaves m ! l)) @
          scan_row m onlyPlayers P ny endx (leafE (leaves m ! l)) (nx + FLOOR_SIZE)
      | None \<Rightarrow>
          scan_row m onlyPlayers P ny endx
            (getLeafStatic (qroot m) (word_of_int (nx + FLOOR_SIZE)) (word_of_int ny)) (nx + FLOOR_SIZE))"
  by pat_completeness auto

termination
  by (relation "measure (\<lambda>(m, op, P, ny, endx, leaf, nx). nat (endx + 1 - nx))") (auto simp: FLOOR_SIZE_def)

function scan_rows ::
  "quad_map \<Rightarrow> bool \<Rightarrow> (creature_ref \<Rightarrow> bool) \<Rightarrow> int \<Rightarrow> int \<Rightarrow> int \<Rightarrow> nat option \<Rightarrow> int \<Rightarrow> creature_ref list" where
  "scan_rows m onlyPlayers P startx endx endy leaf ny =
     (if ny > endy then []
      else
        scan_row m onlyPlayers P ny endx leaf startx @
        scan_rows m onlyPlayers P startx endx endy
          (case leaf of
             Some l \<Rightarrow> leafS (leaves m ! l)
           | None \<Rightarrow> getLeafStatic (qroot m) (word_of_int startx) (word_of_int (ny + FLOOR_SIZE)))
          (ny + FLOOR_SIZE))"
  by pat_completeness auto

termination
  by (relation "measure (\<lambda>(m, op, P, startx, endx, endy, leaf, ny). nat (endy + 1 - ny))") (auto simp: FLOOR_SIZE_def)

declare scan_row.simps [simp del] scan_rows.simps [simp del]

definition clip16 :: "int \<Rightarrow> int" where
  "clip16 k = min 0xFFFF (max 0 k)"

definition getSpectatorsInternal :: "quad_map \<Rightarrow> position \<Rightarrow> ranges \<Rightarrow> bool \<Rightarrow> creature_ref list" where
  "getSpectatorsInternal m center r onlyPlayers =
     (let min_y = uint (py center) + minRangeY r; min_x = uint (px center) + minRangeX r;
          max_y = uint (py center) + maxRangeY r; max_x = uint (px center) + maxRangeX r;
          minoffset = uint (pz center) - maxRangeZ r;
          x1 = clip16 (min_x + minoffset); y1 = clip16 (min_y + minoffset);
          maxoffset = uint (pz center) - minRangeZ r;
          x2 = clip16 (max_x + maxoffset); y2 = clip16 (max_y + maxoffset);
          startx1 = x1 - x1 mod FLOOR_SIZE; starty1 = y1 - y1 mod FLOOR_SIZE;
          endx2 = x2 - x2 mod FLOOR_SIZE; endy2 = y2 - y2 mod FLOOR_SIZE;
          startLeaf = getLeafStatic (qroot m) (word_of_int startx1) (word_of_int starty1)
      in scan_rows m onlyPlayers (\<lambda>c. spectates center r (creature_pos m c)) startx1 endx2 endy2 startLeaf starty1)"

definition addSpectators :: "creature_ref list \<Rightarrow> creature_ref list \<Rightarrow> creature_ref list" where
  "addSpectators vec spectators =
     fold (\<lambda>c vec. if c \<in> set vec then vec else vec @ [c]) spectators vec"

definition maxViewportX :: int where
  "maxViewportX = 22"

definition maxViewportY :: int where
  "maxViewportY = 22"

text \<open>The floors seen from a floor.\<close>

definition floor_range :: "bool \<Rightarrow> u8 \<Rightarrow> int \<times> int" where
  "floor_range multifloor z =
     (if \<not> multifloor then (uint z, uint z)
      else if z > 7 then (max (uint z - 2) 0, min (uint z + 2) (int MAP_MAX_LAYERS - 1))
      else if z = 6 then (0, 8)
      else if z = 7 then (0, 9)
      else (0, 7))"

definition viewport_ranges :: "bool \<Rightarrow> u8 \<Rightarrow> int \<Rightarrow> int \<Rightarrow> int \<Rightarrow> int \<Rightarrow> ranges" where
  "viewport_ranges multifloor z x1 x2 y1 y2 =
     \<lparr>minRangeX = x1, maxRangeX = x2, minRangeY = y1, maxRangeY = y2,
      minRangeZ = fst (floor_range multifloor z), maxRangeZ = snd (floor_range multifloor z)\<rparr>"

text \<open>\<open>getSpectators\<close>: the new contents of the vector and the map with its caches.\<close>

definition getSpectators ::
  "creature_ref list \<Rightarrow> position \<Rightarrow> bool \<Rightarrow> bool \<Rightarrow> int \<Rightarrow> int \<Rightarrow> int \<Rightarrow> int \<Rightarrow> quad_map \<Rightarrow>
   creature_ref list \<times> quad_map" where
  "getSpectators vec center multifloor onlyPlayers x1 x2 y1 y2 m =
     (if unat (pz center) \<ge> MAP_MAX_LAYERS then (vec, m)
      else
        let x1 = (if x1 = 0 then - maxViewportX else - x1); x2 = (if x2 = 0 then maxViewportX else x2);
            y1 = (if y1 = 0 then - maxViewportY else - y1); y2 = (if y2 = 0 then maxViewportY else y2);
            usual = (x1 = - maxViewportX \<and> x2 = maxViewportX \<and> y1 = - maxViewportY \<and> y2 = maxViewportY \<and> multifloor);
            found = vec @ getSpectatorsInternal m center (viewport_ranges multifloor (pz center) x1 x2 y1 y2) onlyPlayers;
            add = (\<lambda>vs. if vec \<noteq> [] then addSpectators vec vs else vs)
        in if \<not> usual then (found, m)
           else case (if onlyPlayers then playersSpectatorCache m center else None) of
             Some vs \<Rightarrow> (add vs, m)
           | None \<Rightarrow>
               (case spectatorCache m center of
                  Some vs \<Rightarrow> (if onlyPlayers then vec @ filter (is_player m) vs else add vs, m)
                | None \<Rightarrow>
                    (found,
                     if onlyPlayers then m\<lparr>playersSpectatorCache := (playersSpectatorCache m)(center \<mapsto> found)\<rparr>
                     else m\<lparr>spectatorCache := (spectatorCache m)(center \<mapsto> found)\<rparr>)))"

section \<open>The tree as a map from cells\<close>

text \<open>The quadrants of the first \<open>k\<close> steps from a node.\<close>

fun quads :: "nat \<Rightarrow> u32 \<Rightarrow> u32 \<Rightarrow> nat list" where
  "quads 0 x y = []"
| "quads (Suc k) x y = quadrant x y # quads k (push_bit 1 x) (push_bit 1 y)"

text \<open>A tree whose leaves are all \<open>k\<close> steps deep.\<close>

fun wf_tree :: "nat \<Rightarrow> qnode \<Rightarrow> bool" where
  "wf_tree 0 (QLeaf l) = True"
| "wf_tree (Suc k) (QNode a b c d) = (\<forall>n. Some n \<in> set [a, b, c, d] \<longrightarrow> wf_tree k n)"
| "wf_tree _ _ = False"

lemma node_of_simp [simp]: "node_of [a, b, c, d] = QNode a b c d"
  by (simp add: node_of_def numeral_eq_Suc)

lemma four_cases: "i < 4 \<Longrightarrow> i = 0 \<or> i = 1 \<or> i = 2 \<or> i = (3 :: nat)"
  by auto

lemma node_of_update:
  assumes "i < 4"
  obtains a' b' c' d' where "node_of ([a, b, c, d][i := v]) = QNode a' b' c' d'"
    and "[a', b', c', d'] = [a, b, c, d][i := v]"
  using four_cases [OF assms] by (auto simp: numeral_eq_Suc)

lemma wf_tree_child:
  assumes "wf_tree (Suc k) (QNode a b c d)" and "[a, b, c, d] ! i = Some n" and "i < 4"
  shows "wf_tree k n"
proof -
  have "[a, b, c, d] ! i \<in> set [a, b, c, d]" using assms(3) by (intro nth_mem) simp
  then show ?thesis using assms(1,2) by (metis wf_tree.simps(2))
qed

lemma getLeafStatic_getLeaf:
  "case t of QLeaf l \<Rightarrow> True | QNode a b c d \<Rightarrow> getLeafStatic t x y = getLeaf t x y"
proof (induction t x y rule: getLeafStatic.induct)
  case (2 a b c d x y)
  show ?case
  proof (cases "[a, b, c, d] ! quadrant x y")
    case (Some n)
    then show ?thesis using 2 by (cases n) auto
  qed simp
qed simp

lemma getLeafStatic_node: "t = QNode a b c d \<Longrightarrow> getLeafStatic t x y = getLeaf t x y"
  using getLeafStatic_getLeaf [of t x y] by simp

lemma getLeaf_empty [simp]: "getLeaf (QNode None None None None) x y = None"
  using four_cases [OF quadrant_less [of x y]] by (auto simp: numeral_eq_Suc)

lemma wf_tree_empty [simp]: "wf_tree (Suc k) (QNode None None None None)"
  by simp

lemma createLeaf_spec:
  assumes "wf_tree k t"
  shows "\<exists>t' l isNew. createLeaf (k + 2) x y new t = Some (t', l, isNew) \<and> wf_tree k t' \<and>
    (\<forall>x' y'. getLeaf t' x' y' = (if quads k x' y' = quads k x y then Some l else getLeaf t x' y')) \<and>
    (if isNew then l = new \<and> getLeaf t x y = None else getLeaf t x y = Some l)"
  using assms
proof (induction k arbitrary: t x y)
  case 0
  then obtain l where "t = QLeaf l" by (cases t) auto
  then show ?case by (intro exI [of _ t] exI [of _ l] exI [of _ False]) simp
next
  case (Suc k)
  then obtain a b c d where t: "t = QNode a b c d" by (cases t) auto
  let ?i = "quadrant x y"
  obtain n isNew where n: "(n, isNew) = (case [a, b, c, d] ! ?i of Some n \<Rightarrow> (n, False)
      | None \<Rightarrow> if Suc (k + 2) \<noteq> FLOOR_BITS then (QNode None None None None, False) else (QLeaf new, True))"
    by (metis surj_pair)
  have wf: "wf_tree k n"
  proof (cases "[a, b, c, d] ! ?i")
    case None
    then show ?thesis using n by (cases k) (auto simp: FLOOR_BITS_def)
  next
    case (Some n')
    then show ?thesis using n wf_tree_child [OF Suc.prems [unfolded t]] by simp
  qed
  have look: "getLeaf t x' y' = (if isNew then None else getLeaf n (push_bit 1 x') (push_bit 1 y'))"
    if "quadrant x' y' = ?i" for x' y'
    using n that by (auto simp: t getLeaf.simps(2) [of a b c d] simp del: getLeaf.simps
        split: option.splits if_splits)
  have new_n: "isNew \<Longrightarrow> n = QLeaf new \<and> k = 0"
    using n by (auto split: option.splits if_splits simp: FLOOR_BITS_def)
  from Suc.IH [OF wf, of "x * 2" "y * 2"] obtain n' l isNew' where
    c: "createLeaf (k + 2) (x * 2) (y * 2) new n = Some (n', l, isNew')" and wf': "wf_tree k n'" and
    g: "\<And>x' y'. getLeaf n' x' y' = (if quads k x' y' = quads k (x * 2) (y * 2) then Some l else getLeaf n x' y')" and
    l: "if isNew' then l = new \<and> getLeaf n (x * 2) (y * 2) = None else getLeaf n (x * 2) (y * 2) = Some l"
    by blast
  obtain a' b' c' d' where node: "node_of ([a, b, c, d][?i := Some n']) = QNode a' b' c' d'"
    "[a', b', c', d'] = [a, b, c, d][?i := Some n']"
    by (rule node_of_update [OF quadrant_less])
  have two: "push_bit 1 x = x * 2" "push_bit 1 y = y * 2" by (simp_all add: push_bit_eq_mult)
  have "createLeaf (Suc k + 2) x y new t = Some (QNode a' b' c' d', l, isNew \<or> isNew')"
    unfolding t add_Suc createLeaf.simps Let_def n [symmetric] prod.case c option.case node(1) ..
  moreover have "wf_tree (Suc k) (QNode a' b' c' d')"
  proof -
    have "wf_tree k m" if "Some m \<in> set [a', b', c', d']" for m
    proof -
      have "Some m \<in> insert (Some n') (set [a, b, c, d])"
        using that set_update_subset_insert [of "[a, b, c, d]" ?i "Some n'"] unfolding node(2) by (rule rev_subsetD)
      then have "m = n' \<or> Some m \<in> set [a, b, c, d]" by simp
      then show ?thesis using wf' Suc.prems unfolding t wf_tree.simps by metis
    qed
    then show ?thesis unfolding wf_tree.simps by blast
  qed
  moreover have "getLeaf (QNode a' b' c' d') x' y' =
      (if quads (Suc k) x' y' = quads (Suc k) x y then Some l else getLeaf t x' y')" for x' y'
  proof (cases "quadrant x' y' = ?i")
    case True
    then have "[a', b', c', d'] ! quadrant x' y' = Some n'"
      unfolding node(2) by (simp only:, intro nth_list_update_eq less_le_trans [OF quadrant_less]) simp
    then show ?thesis
      using True look [OF True] new_n by (auto simp: g two)
  next
    case False
    then have "[a', b', c', d'] ! quadrant x' y' = [a, b, c, d] ! quadrant x' y'"
      unfolding node(2) by (intro nth_list_update_neq) simp
    then show ?thesis using False by (simp add: t)
  qed
  moreover have "if isNew \<or> isNew' then l = new \<and> getLeaf t x y = None else getLeaf t x y = Some l"
    using l new_n look [of x y] by (auto simp: two split: if_splits)
  ultimately show ?case by blast
qed

lemma getLeaf_quads:
  "wf_tree k t \<Longrightarrow> quads k x y = quads k x' y' \<Longrightarrow> getLeaf t x y = getLeaf t x' y'"
proof (induction k arbitrary: t x y x' y')
  case 0
  then show ?case by (cases t) auto
next
  case (Suc k)
  then obtain a b c d where t: "t = QNode a b c d" by (cases t) auto
  have q: "quadrant x y = quadrant x' y'" "quads k (push_bit 1 x) (push_bit 1 y) = quads k (push_bit 1 x') (push_bit 1 y')"
    using Suc.prems(2) by simp_all
  show ?case
  proof (cases "[a, b, c, d] ! quadrant x' y'")
    case (Some n)
    then have "wf_tree k n" using wf_tree_child [OF Suc.prems(1) [unfolded t]] by simp
    from Suc.IH [OF this q(2)] show ?thesis using Some q(1) by (simp add: t)
  qed (simp add: t q(1))
qed

lemma length_quads [simp]: "length (quads k x y) = k"
  by (induction k arbitrary: x y) auto

lemma quads_nth: "i < k \<Longrightarrow> quads k x y ! i = quadrant (push_bit i x) (push_bit i y)"
proof (induction k arbitrary: x y i)
  case (Suc k)
  then show ?case by (cases i) auto
qed simp

lemma quadrant_eq_iff: "quadrant x y = quadrant x' y' \<longleftrightarrow> bit x 15 = bit x' 15 \<and> bit y 15 = bit y' 15"
  by (auto simp: quadrant_bits split: if_splits)

lemma quads_eq_iff:
  "quads 13 x y = quads 13 x' y' \<longleftrightarrow>
     (\<forall>j. 3 \<le> j \<and> j < 16 \<longrightarrow> bit x j = bit x' j \<and> bit y j = bit y' j)"
proof -
  have "quads 13 x y = quads 13 x' y' \<longleftrightarrow>
      (\<forall>i<13. bit x (15 - i) = bit x' (15 - i) \<and> bit y (15 - i) = bit y' (15 - i))"
    unfolding list_eq_iff_nth_eq by (auto simp: quads_nth quadrant_eq_iff bit_simps)
  also have "\<dots> \<longleftrightarrow> (\<forall>j. 3 \<le> j \<and> j < 16 \<longrightarrow> bit x j = bit x' j \<and> bit y j = bit y' j)"
  proof (intro iffI allI impI)
    fix j :: nat assume a: "\<forall>i<13. bit x (15 - i) = bit x' (15 - i) \<and> bit y (15 - i) = bit y' (15 - i)" "3 \<le> j \<and> j < 16"
    then have "15 - (15 - j) = j" "15 - j < 13" by auto
    with a(1) show "bit x j = bit x' j \<and> bit y j = bit y' j" by metis
  next
    fix i :: nat assume a: "\<forall>j. 3 \<le> j \<and> j < 16 \<longrightarrow> bit x j = bit x' j \<and> bit y j = bit y' j" "i < 13"
    then have "3 \<le> 15 - i \<and> 15 - i < 16" by auto
    with a(1) show "bit x (15 - i) = bit x' (15 - i) \<and> bit y (15 - i) = bit y' (15 - i)" by blast
  qed
  finally show ?thesis .
qed

text \<open>The cell of a coordinate: leaves are 8 tiles wide.\<close>

definition cell :: "u16 \<Rightarrow> nat" where
  "cell x = unat x div 8"

lemma cell_less: "cell x < 8192"
proof -
  have "unat x < 65536" using unsigned_less [of x] by simp
  then show ?thesis by (simp add: cell_def less_mult_imp_div_less)
qed

lemma cell_eq_iff: "cell x = cell x' \<longleftrightarrow> (\<forall>j. 3 \<le> j \<and> j < 16 \<longrightarrow> bit x j = bit x' j)"
proof -
  have "cell x = unat (drop_bit 3 x)" for x :: u16
    by (simp add: cell_def drop_bit_eq_div unat_div)
  then have "cell x = cell x' \<longleftrightarrow> drop_bit 3 x = drop_bit 3 x'" by (metis unsigned_word_eqI)
  also have "\<dots> \<longleftrightarrow> (\<forall>j. 3 \<le> j \<and> j < 16 \<longrightarrow> bit x j = bit x' j)"
  proof
    assume a: "drop_bit 3 x = drop_bit 3 x'"
    show "\<forall>j. 3 \<le> j \<and> j < 16 \<longrightarrow> bit x j = bit x' j"
    proof (intro allI impI)
      fix j :: nat assume "3 \<le> j \<and> j < 16"
      then have "3 + (j - 3) = j" by simp
      then show "bit x j = bit x' j" using arg_cong [OF a, of "\<lambda>w. bit w (j - 3)"] by (simp add: bit_drop_bit_eq)
    qed
  next
    assume a: "\<forall>j. 3 \<le> j \<and> j < 16 \<longrightarrow> bit x j = bit x' j"
    show "drop_bit 3 x = drop_bit 3 x'"
    proof (rule bit_word_eqI)
      fix n :: nat assume "n < LENGTH(16)"
      have "n + 3 < 16 \<Longrightarrow> bit x (n + 3) = bit x' (n + 3)" using a by simp
      moreover have "\<not> n + 3 < 16 \<Longrightarrow> \<not> bit x (n + 3) \<and> \<not> bit x' (n + 3)"
        using bit_imp_le_length [of x "n + 3"] bit_imp_le_length [of x' "n + 3"] by auto
      ultimately show "bit (drop_bit 3 x) n = bit (drop_bit 3 x') n" by (auto simp: bit_drop_bit_eq add.commute)
    qed
  qed
  finally show ?thesis .
qed

lemma quads_cell:
  "quads 13 (ucast x) (ucast y) = quads 13 (ucast x') (ucast y') \<longleftrightarrow> cell x = cell x' \<and> cell y = cell y'"
  by (auto simp: quads_eq_iff cell_eq_iff bit_simps)

lemma cell_add: "cell (x + 8) = (cell x + 1) mod 8192"
proof -
  have "unat (x + 8) = (unat x + 8) mod (8 * 8192)" by (simp add: unat_word_ariths)
  moreover have "(unat x + 8) div 8 = unat x div 8 + 1" by simp
  ultimately show ?thesis unfolding cell_def mod_mult2_eq by simp
qed

lemma cell_sub: "cell x = (cell (x - 8) + 1) mod 8192"
  using cell_add [of "x - 8"] by simp

lemma mod_step: "a < 8192 \<Longrightarrow> (a + 1) mod 8192 = (if a = 8191 then 0 else a + (1 :: nat))"
  by auto

lemma cell_neighbour: "cell (x + 8) = cell y \<longleftrightarrow> cell x = cell (y - 8)"
  unfolding cell_add cell_sub [of y] mod_step [OF cell_less] by auto

lemma cell_neighbour_ne: "cell (x + 8) \<noteq> cell x" "cell (x - 8) \<noteq> cell x"
proof -
  show *: "cell (x + 8) \<noteq> cell x" for x unfolding cell_add mod_step [OF cell_less] by auto
  from * [of "x - 8"] show "cell (x - 8) \<noteq> cell x" by simp
qed

section \<open>Well-formed maps\<close>

definition leaf_at :: "quad_map \<Rightarrow> u16 \<Rightarrow> u16 \<Rightarrow> nat option" where
  "leaf_at m x y = getLeaf (qroot m) (ucast x) (ucast y)"

definition floor_ok :: "tile_ref option list list \<Rightarrow> bool" where
  "floor_ok f \<longleftrightarrow> length f = 8 \<and> (\<forall>r\<in>set f. length r = 8)"

definition leaf_ok :: "qleaf \<Rightarrow> bool" where
  "leaf_ok l \<longleftrightarrow> length (floors l) = MAP_MAX_LAYERS \<and> (\<forall>f. Some f \<in> set (floors l) \<longrightarrow> floor_ok f)"

text \<open>Each cell has at most one leaf, and each leaf one cell.\<close>

definition tree_ok :: "quad_map \<Rightarrow> bool" where
  "tree_ok m \<longleftrightarrow>
     wf_tree 13 (qroot m) \<and>
     (\<forall>x y l. leaf_at m x y = Some l \<longrightarrow> l < length (leaves m)) \<and>
     (\<forall>x y x' y' l. leaf_at m x y = Some l \<and> leaf_at m x' y' = Some l \<longrightarrow> cell x = cell x' \<and> cell y = cell y')"

text \<open>The links are to the neighbours, which wrap around at the edge of the coordinates.\<close>

definition links_ok :: "quad_map \<Rightarrow> bool" where
  "links_ok m \<longleftrightarrow>
     (\<forall>x y l. leaf_at m x y = Some l \<longrightarrow>
        leafS (leaves m ! l) = leaf_at m x (y + 8) \<and> leafE (leaves m ! l) = leaf_at m (x + 8) y)"

definition map_ok :: "quad_map \<Rightarrow> bool" where
  "map_ok m \<longleftrightarrow> tree_ok m \<and> links_ok m \<and> (\<forall>l\<in>set (leaves m). leaf_ok l)"

lemma map_okD:
  assumes "map_ok m"
  shows "tree_ok m" "links_ok m" "\<And>l. l \<in> set (leaves m) \<Longrightarrow> leaf_ok l" "wf_tree 13 (qroot m)"
    and "\<And>x y l. leaf_at m x y = Some l \<Longrightarrow> l < length (leaves m)"
    and "\<And>x y x' y' l. leaf_at m x y = Some l \<Longrightarrow> leaf_at m x' y' = Some l \<Longrightarrow> cell x = cell x' \<and> cell y = cell y'"
  using assms unfolding map_ok_def tree_ok_def by blast+

lemma leaf_at_cell:
  "wf_tree 13 (qroot m) \<Longrightarrow> cell x = cell x' \<Longrightarrow> cell y = cell y' \<Longrightarrow> leaf_at m x y = leaf_at m x' y'"
  unfolding leaf_at_def by (rule getLeaf_quads) (auto intro: iffD2 [OF quads_cell])

lemma getLeaf_leaf_at:
  assumes "wf_tree 13 (qroot m)"
  shows "getLeaf (qroot m) X Y = leaf_at m (ucast X) (ucast Y)"
  unfolding leaf_at_def using assms by (rule getLeaf_quads) (auto simp: quads_eq_iff bit_simps)

lemma wf_tree_node: "wf_tree 13 t \<Longrightarrow> \<exists>a b c d. t = QNode a b c d"
  by (cases t) (auto simp: numeral_eq_Suc)

lemma getLeafStatic_leaf_at:
  assumes "wf_tree 13 (qroot m)"
  shows "getLeafStatic (qroot m) X Y = leaf_at m (ucast X) (ucast Y)"
  using wf_tree_node [OF assms] getLeafStatic_node getLeaf_leaf_at [OF assms] by metis

lemma ucast_up_down: "ucast (ucast x :: u32) = (x :: u16)"
  by (rule bit_word_eqI) (simp add: bit_simps)

lemma ucast_word_of_int: "ucast (word_of_int k :: u32) = (word_of_int k :: u16)"
  by (rule bit_word_eqI) (simp add: bit_simps)

lemma getQTNode_leaf_at: "wf_tree 13 (qroot m) \<Longrightarrow> getQTNode x y m = leaf_at m x y"
  by (simp add: getQTNode_def getLeafStatic_leaf_at ucast_up_down)

lemma new_map_ok: "map_ok (new_map cpos players)"
proof -
  have "wf_tree 13 (QNode None None None None)" by (simp add: numeral_eq_Suc)
  then show ?thesis by (simp add: new_map_def map_ok_def tree_ok_def links_ok_def leaf_at_def del: getLeaf.simps)
qed

lemma upd_leaf_simps [simp]:
  "qroot (upd_leaf l f m) = qroot m" "leaf_at (upd_leaf l f m) = leaf_at m"
  "length (leaves (upd_leaf l f m)) = length (leaves m)" "creature_pos (upd_leaf l f m) = creature_pos m"
  "is_player (upd_leaf l f m) = is_player m"
  "spectatorCache (upd_leaf l f m) = spectatorCache m"
  "playersSpectatorCache (upd_leaf l f m) = playersSpectatorCache m"
  by (simp_all add: upd_leaf_def leaf_at_def fun_eq_iff)

lemma upd_leaf_nth:
  "n < length (leaves m) \<Longrightarrow> leaves (upd_leaf l f m) ! n = (if n = l then f (leaves m ! n) else leaves m ! n)"
  by (auto simp: upd_leaf_def nth_list_update)

lemma on_leaf_simps [simp]:
  "qroot (on_leaf r f m) = qroot m" "leaf_at (on_leaf r f m) = leaf_at m"
  "length (leaves (on_leaf r f m)) = length (leaves m)" "creature_pos (on_leaf r f m) = creature_pos m"
  "is_player (on_leaf r f m) = is_player m"
  "spectatorCache (on_leaf r f m) = spectatorCache m"
  "playersSpectatorCache (on_leaf r f m) = playersSpectatorCache m"
  by (simp_all add: on_leaf_def split: option.split)

lemma on_leaf_nth:
  "n < length (leaves m) \<Longrightarrow> leaves (on_leaf r f m) ! n = (if r = Some n then f (leaves m ! n) else leaves m ! n)"
  by (auto simp: on_leaf_def upd_leaf_nth split: option.split)

lemma link_leaf_leaf_at:
  assumes "wf_tree 13 (qroot m)"
  shows "link_leaf x y l m =
     (let m = on_leaf (leaf_at m x (y - 8)) (\<lambda>f. f\<lparr>leafS := Some l\<rparr>) m;
          m = on_leaf (leaf_at m (x - 8) y) (\<lambda>f. f\<lparr>leafE := Some l\<rparr>) m;
          m = (if leaf_at m x (y + 8) \<noteq> None then upd_leaf l (\<lambda>f. f\<lparr>leafS := leaf_at m x (y + 8)\<rparr>) m else m)
      in if leaf_at m (x + 8) y \<noteq> None then upd_leaf l (\<lambda>f. f\<lparr>leafE := leaf_at m (x + 8) y\<rparr>) m else m)"
proof -
  have c: "ucast (word_of_int (uint a - 8) :: u32) = a - 8" "ucast (word_of_int (uint a + 8) :: u32) = a + 8"
    for a :: u16
    unfolding ucast_word_of_int by simp_all
  have g: "getLeaf (qroot m) (ucast x) (word_of_int (uint y - 8)) = leaf_at m x (y - 8)"
    "getLeaf (qroot m) (word_of_int (uint x - 8)) (ucast y) = leaf_at m (x - 8) y"
    "getLeaf (qroot m) (ucast x) (word_of_int (uint y + 8)) = leaf_at m x (y + 8)"
    "getLeaf (qroot m) (word_of_int (uint x + 8)) (ucast y) = leaf_at m (x + 8) y"
    unfolding getLeaf_leaf_at [OF assms] by (simp_all only: c ucast_up_down)
  show ?thesis
    unfolding link_leaf_def Let_def FLOOR_SIZE_def by (simp add: g [simplified] if_distrib [of qroot] if_distrib [of leaf_at])
qed

text \<open>What the four updates make of a leaf.\<close>

lemma link_leaf_simps:
  assumes "wf_tree 13 (qroot m)"
  shows "leaf_at (link_leaf x y l m) = leaf_at m" "qroot (link_leaf x y l m) = qroot m"
    "length (leaves (link_leaf x y l m)) = length (leaves m)"
    "creature_pos (link_leaf x y l m) = creature_pos m" "is_player (link_leaf x y l m) = is_player m"
    "spectatorCache (link_leaf x y l m) = spectatorCache m"
    "playersSpectatorCache (link_leaf x y l m) = playersSpectatorCache m"
  unfolding link_leaf_leaf_at [OF assms] Let_def
  by (simp_all add: if_distrib [of qroot] if_distrib [of leaf_at])

lemma link_leaf_nth:
  assumes "wf_tree 13 (qroot m)" and "n < length (leaves m)"
    and "leaf_at m x (y - 8) \<noteq> Some l" and "leaf_at m (x - 8) y \<noteq> Some l"
  shows "leaves (link_leaf x y l m) ! n = (leaves m ! n)\<lparr>
      leafS := (if n = l then if leaf_at m x (y + 8) \<noteq> None then leaf_at m x (y + 8) else leafS (leaves m ! n)
                else if leaf_at m x (y - 8) = Some n then Some l else leafS (leaves m ! n)),
      leafE := (if n = l then if leaf_at m (x + 8) y \<noteq> None then leaf_at m (x + 8) y else leafE (leaves m ! n)
                else if leaf_at m (x - 8) y = Some n then Some l else leafE (leaves m ! n))\<rparr>"
  unfolding link_leaf_leaf_at [OF assms(1)] Let_def
  using assms(2-4) by (auto simp: on_leaf_nth upd_leaf_nth if_distrib [of leaf_at])

section \<open>Inserting a tile\<close>

text \<open>What stands in a leaf, without its links.\<close>

definition same_contents :: "qleaf \<Rightarrow> qleaf \<Rightarrow> bool" where
  "same_contents l l' \<longleftrightarrow> floors l' = floors l \<and> creature_list l' = creature_list l \<and> player_list l' = player_list l"

lemma leaf_ok_contents: "same_contents l l' \<Longrightarrow> leaf_ok l' = leaf_ok l"
  by (simp add: same_contents_def leaf_ok_def)

lemma new_leaf_simps [simp]:
  "leafS new_leaf = None" "leafE new_leaf = None" "floors new_leaf = replicate MAP_MAX_LAYERS None"
  "creature_list new_leaf = []" "player_list new_leaf = []"
  by (simp_all add: new_leaf_def)

lemma leaf_ok_new [simp]: "leaf_ok new_leaf"
  by (simp add: leaf_ok_def new_leaf_def)

lemma leaf_for_spec:
  assumes ok: "map_ok m"
  shows "\<exists>m' l. leaf_for x y m = Some (m', l) \<and> map_ok m' \<and>
    (\<forall>X Y. leaf_at m' X Y = (if cell X = cell x \<and> cell Y = cell y then Some l else leaf_at m X Y)) \<and>
    length (leaves m) \<le> length (leaves m') \<and>
    (\<forall>n<length (leaves m). same_contents (leaves m ! n) (leaves m' ! n)) \<and>
    (if leaf_at m x y = None then same_contents new_leaf (leaves m' ! l) \<and> l = length (leaves m)
     else leaf_at m x y = Some l \<and> leaves m' = leaves m) \<and>
    creature_pos m' = creature_pos m \<and> is_player m' = is_player m \<and>
    spectatorCache m' = spectatorCache m \<and> playersSpectatorCache m' = playersSpectatorCache m"
proof -
  note wf = map_okD(4) [OF ok]
  obtain r l isNew where c: "createLeaf 15 (ucast x) (ucast y) (length (leaves m)) (qroot m) = Some (r, l, isNew)"
    and wf_r: "wf_tree 13 r"
    and look: "\<And>X Y. getLeaf r X Y = (if quads 13 X Y = quads 13 (ucast x) (ucast y) then Some l else getLeaf (qroot m) X Y)"
    and l: "if isNew then l = length (leaves m) \<and> getLeaf (qroot m) (ucast x) (ucast y) = None
      else getLeaf (qroot m) (ucast x) (ucast y) = Some l"
    using createLeaf_spec [OF wf, of "ucast x" "ucast y" "length (leaves m)"] by auto
  show ?thesis
  proof (cases isNew)
    case False
    let ?m = "m\<lparr>qroot := r\<rparr>"
    have old: "leaf_at m x y = Some l" using l False by (simp add: leaf_at_def)
    have at: "leaf_at ?m X Y = leaf_at m X Y" for X Y
      using leaf_at_cell [OF wf, of X x Y y] old by (auto simp: leaf_at_def look quads_cell)
    then have at': "leaf_at ?m = leaf_at m" by blast
    have "map_ok ?m" using ok wf_r unfolding map_ok_def tree_ok_def links_ok_def at' by simp
    moreover have "leaf_for x y m = Some (?m, l)" using c False by (simp add: leaf_for_def)
    moreover have "leaf_at ?m X Y = (if cell X = cell x \<and> cell Y = cell y then Some l else leaf_at m X Y)" for X Y
      using leaf_at_cell [OF wf, of X x Y y] old unfolding at by simp
    ultimately show ?thesis
      using old by (intro exI [of _ ?m] exI [of _ l]) (simp add: same_contents_def)
  next
    case True
    let ?grown = "m\<lparr>qroot := r, leaves := leaves m @ [new_leaf]\<rparr>"
    let ?m = "link_leaf x y l ?grown"
    have l': "l = length (leaves m)" and none: "leaf_at m x y = None"
      using l True by (simp_all add: leaf_at_def)
    have wf0: "wf_tree 13 (qroot ?grown)" using wf_r by simp
    have at0: "leaf_at ?grown X Y = (if cell X = cell x \<and> cell Y = cell y then Some l else leaf_at m X Y)" for X Y
      by (auto simp: leaf_at_def look quads_cell)
    note simps = link_leaf_simps [OF wf0]
    have at: "leaf_at ?m X Y = (if cell X = cell x \<and> cell Y = cell y then Some l else leaf_at m X Y)" for X Y
      by (simp add: simps(1) at0)
    have old: "leaf_at m X Y = Some n \<Longrightarrow> n < length (leaves m)" for X Y n by (rule map_okD(5) [OF ok])
    have not_l: "leaf_at ?grown x (y - 8) \<noteq> Some l" "leaf_at ?grown (x - 8) y \<noteq> Some l"
      using old l' by (auto simp: at0 cell_neighbour_ne)
    note nth = link_leaf_nth [OF wf0 _ not_l]
    have contents: "same_contents (if n = l then new_leaf else leaves m ! n) (leaves ?m ! n)" if "n \<le> length (leaves m)" for n
      using that nth [of n] by (auto simp: same_contents_def l' nth_append)
    have "tree_ok ?m"
      unfolding tree_ok_def
    proof (intro conjI allI impI)
      show "wf_tree 13 (qroot ?m)" by (simp add: simps wf_r)
      show "leaf_at ?m X Y = Some n \<Longrightarrow> n < length (leaves ?m)" for X Y n
        using old [of X Y n] by (auto simp: at0 simps l' split: if_splits)
      fix X Y X' Y' n assume "leaf_at ?m X Y = Some n \<and> leaf_at ?m X' Y' = Some n"
      then show "cell X = cell X'" "cell Y = cell Y'"
        using old [of X Y n] old [of X' Y' n] map_okD(6) [OF ok, of X Y n X' Y']
        unfolding at by (auto simp: l' split: if_splits)
    qed
    moreover have "links_ok ?m"
      unfolding links_ok_def
    proof (intro allI impI)
      fix X Y n assume n: "leaf_at ?m X Y = Some n"
      show "leafS (leaves ?m ! n) = leaf_at ?m X (Y + 8) \<and> leafE (leaves ?m ! n) = leaf_at ?m (X + 8) Y"
      proof (cases "cell X = cell x \<and> cell Y = cell y")
        case True
        then have "n = l" using n by (simp add: at)
        moreover have "leaf_at ?m X (Y + 8) = leaf_at ?m x (y + 8)" "leaf_at ?m (X + 8) Y = leaf_at ?m (x + 8) y"
          using True by (auto intro!: leaf_at_cell simp: simps wf_r cell_add)
        moreover have "\<not> (cell (x + 8) = cell x)" "\<not> (cell (y + 8) = cell y)" by (simp_all add: cell_neighbour_ne)
        moreover have "(leaves m @ [new_leaf]) ! l = new_leaf" "l < length (leaves m @ [new_leaf])"
          by (simp_all add: l')
        ultimately show ?thesis
          using nth [of l] by (simp add: at at0)
      next
        case False
        then have n': "leaf_at m X Y = Some n" using n unfolding at by (simp split: if_splits)
        then have "n < length (leaves m)" by (rule old)
        then have "n \<noteq> l" "(leaves m @ [new_leaf]) ! n = leaves m ! n" "n < length (leaves m @ [new_leaf])"
          by (simp_all add: l' nth_append)
        moreover have "leafS (leaves m ! n) = leaf_at m X (Y + 8)" "leafE (leaves m ! n) = leaf_at m (X + 8) Y"
          using n' map_okD(2) [OF ok] by (auto simp: links_ok_def)
        moreover have "leaf_at m x (y - 8) = Some n \<longleftrightarrow> cell X = cell x \<and> cell (Y + 8) = cell y"
          using n' map_okD(6) [OF ok, of X Y n x "y - 8"] leaf_at_cell [OF wf, of x X "y - 8" Y]
          by (auto simp: cell_neighbour)
        moreover have "leaf_at m (x - 8) y = Some n \<longleftrightarrow> cell (X + 8) = cell x \<and> cell Y = cell y"
          using n' map_okD(6) [OF ok, of X Y n "x - 8" y] leaf_at_cell [OF wf, of "x - 8" X y Y]
          by (auto simp: cell_neighbour)
        ultimately show ?thesis
          using nth [of n] by (auto simp: at at0 cell_neighbour_ne)
      qed
    qed
    moreover have "leaf_ok f" if f: "f \<in> set (leaves ?m)" for f
    proof -
      obtain n where n: "n < length (leaves ?m)" "f = leaves ?m ! n" using f unfolding in_set_conv_nth by blast
      then have "n \<le> length (leaves m)" by (simp add: simps)
      from leaf_ok_contents [OF contents [OF this]] show ?thesis
        using n map_okD(3) [OF ok] by (auto simp: simps l' split: if_splits)
    qed
    ultimately have "map_ok ?m" by (simp add: map_ok_def)
    moreover have "leaf_for x y m = Some (?m, l)" using c True by (simp add: leaf_for_def)
    moreover have "same_contents new_leaf (leaves ?m ! l)" using contents [of l] by (simp add: l')
    moreover have "same_contents (leaves m ! n) (leaves ?m ! n)" if "n < length (leaves m)" for n
      using contents [of n] that by (simp add: l')
    ultimately show ?thesis
      using none at unfolding l' [symmetric]
      by (intro exI [of _ ?m] exI [of _ l]) (simp add: simps l' [symmetric])
  qed
qed

lemma upd_leaf_keeps_links:
  assumes "\<And>l. leafS (f l) = leafS l" and "\<And>l. leafE (f l) = leafE l"
  shows "leafS (leaves (upd_leaf i f m) ! n) = leafS (leaves m ! n)"
    "leafE (leaves (upd_leaf i f m) ! n) = leafE (leaves m ! n)"
  using assms by (cases "n = i \<and> i < length (leaves m)"; auto simp: upd_leaf_def nth_list_update list_update_beyond)+

lemma map_ok_upd:
  assumes "map_ok m" and "\<And>l. leaf_ok l \<Longrightarrow> leaf_ok (f l)"
    and "\<And>l. leafS (f l) = leafS l" and "\<And>l. leafE (f l) = leafE l"
  shows "map_ok (upd_leaf i f m)"
proof -
  have "leaf_ok l" if "l \<in> set (leaves (upd_leaf i f m))" for l
  proof (cases "i < length (leaves m)")
    case True
    have "l \<in> insert (f (leaves m ! i)) (set (leaves m))"
      using that set_update_subset_insert unfolding upd_leaf_def by fastforce
    then show ?thesis using assms(1,2) True map_okD(3) by fastforce
  next
    case False
    then show ?thesis using that map_okD(3) [OF assms(1)] by (simp add: upd_leaf_def list_update_beyond)
  qed
  then show ?thesis
    using assms(1) unfolding map_ok_def tree_ok_def links_ok_def
    by (simp add: upd_leaf_keeps_links assms(3,4))
qed

lemma getTile_leaf_at:
  assumes "map_ok m"
  shows "getTile x y z m =
     (if unat z \<ge> MAP_MAX_LAYERS then None
      else case leaf_at m x y of None \<Rightarrow> None | Some l \<Rightarrow> leaf_tile x y z (leaves m ! l))"
  by (simp add: getTile_def getQTNode_leaf_at [OF map_okD(4) [OF assms]])

lemma mask_less: "unat (x AND FLOOR_MASK) < 8"
proof -
  have "x AND FLOOR_MASK \<le> 7" unfolding FLOOR_MASK_def by (rule word_and_le1)
  then show ?thesis by (simp add: word_le_nat_alt)
qed

lemma cell_mask: "cell x = cell y \<Longrightarrow> unat (x AND FLOOR_MASK) = unat (y AND FLOOR_MASK) \<Longrightarrow> x = y"
proof -
  assume a: "cell x = cell y" "unat (x AND FLOOR_MASK) = unat (y AND FLOOR_MASK)"
  have m: "FLOOR_MASK = mask 3" by (simp add: FLOOR_MASK_def mask_eq_exp_minus_1)
  have "x AND mask 3 = y AND mask 3" using a(2) unfolding m by (rule unsigned_word_eqI)
  then have low: "bit x n = bit y n" if "n < 3" for n
    using that arg_cong [OF \<open>x AND mask 3 = y AND mask 3\<close>, of "\<lambda>w. bit w n"]
    unfolding bit_and_iff bit_mask_iff by simp
  show "x = y"
  proof (rule bit_word_eqI)
    fix n :: nat assume "n < LENGTH(16)"
    then show "bit x n = bit y n"
      using low [of n] a(1) unfolding cell_eq_iff by (cases "n < 3") simp_all
  qed
qed

lemma leaf_ok_floor:
  "leaf_ok l \<Longrightarrow> unat z < MAP_MAX_LAYERS \<Longrightarrow> floors l ! unat z = Some f \<Longrightarrow> floor_ok f"
  unfolding leaf_ok_def by (metis nth_mem)

lemma floor_ok_new [simp]: "floor_ok new_floor"
  by (simp add: floor_ok_def new_floor_def)

lemma set_update_ok:
  "(\<And>f. Some f \<in> set fs \<Longrightarrow> P f) \<Longrightarrow> P g \<Longrightarrow> Some f \<in> set (fs[i := Some g]) \<Longrightarrow> P f"
  using set_update_subset_insert [of fs i "Some g"] by auto

lemma createFloor_leaf:
  assumes "leaf_ok l" and "unat z < MAP_MAX_LAYERS"
  shows "leaf_ok (createFloor z l)" and "\<exists>f. floors (createFloor z l) ! unat z = Some f"
    and "unat Z < MAP_MAX_LAYERS \<Longrightarrow> leaf_tile X Y Z (createFloor z l) = leaf_tile X Y Z l"
proof -
  show "leaf_ok (createFloor z l)"
    using assms(1) unfolding leaf_ok_def createFloor_def
    by (auto elim: set_update_ok [where P = floor_ok, rotated 2])
  show "\<exists>f. floors (createFloor z l) ! unat z = Some f"
    using assms by (auto simp: createFloor_def leaf_ok_def)
  have "new_floor ! unat (X AND FLOOR_MASK) ! unat (Y AND FLOOR_MASK) = None"
    by (simp add: new_floor_def mask_less)
  then show "unat Z < MAP_MAX_LAYERS \<Longrightarrow> leaf_tile X Y Z (createFloor z l) = leaf_tile X Y Z l"
    using assms by (auto simp: createFloor_def leaf_tile_def getFloor_def leaf_ok_def nth_list_update
        split: option.split)
qed

lemma set_leaf_tile_leaf:
  assumes "leaf_ok l" and "unat z < MAP_MAX_LAYERS" and "floors l ! unat z = Some f"
  shows "leaf_ok (set_leaf_tile x y z t l)"
    and "unat Z < MAP_MAX_LAYERS \<Longrightarrow> leaf_tile X Y Z (set_leaf_tile x y z t l) =
      (if Z = z \<and> unat (X AND FLOOR_MASK) = unat (x AND FLOOR_MASK) \<and>
          unat (Y AND FLOOR_MASK) = unat (y AND FLOOR_MASK)
       then Some t else leaf_tile X Y Z l)"
proof -
  note f = leaf_ok_floor [OF assms]
  let ?i = "unat (x AND FLOOR_MASK)" and ?j = "unat (y AND FLOOR_MASK)"
  have row: "length (f ! ?i) = 8" using f mask_less [of x] by (simp add: floor_ok_def)
  have "floor_ok (f[?i := (f ! ?i)[?j := Some t]])"
    using f row set_update_subset_insert [of f ?i "(f ! ?i)[?j := Some t]"] by (auto simp: floor_ok_def)
  then show "leaf_ok (set_leaf_tile x y z t l)"
    using assms unfolding leaf_ok_def set_leaf_tile_def
    by (auto simp: Let_def elim: set_update_ok [where P = floor_ok, rotated 2])
  have z: "unat Z = unat z \<Longrightarrow> Z = z" by (rule unsigned_word_eqI)
  have row': "(f[?i := (f ! ?i)[?j := Some t]]) ! unat (X AND FLOOR_MASK) ! unat (Y AND FLOOR_MASK) =
      (if unat (X AND FLOOR_MASK) = ?i \<and> unat (Y AND FLOOR_MASK) = ?j then Some t
       else f ! unat (X AND FLOOR_MASK) ! unat (Y AND FLOOR_MASK))"
    using f row mask_less [of x] mask_less [of y] by (auto simp: floor_ok_def nth_list_update)
  show "unat Z < MAP_MAX_LAYERS \<Longrightarrow> leaf_tile X Y Z (set_leaf_tile x y z t l) =
      (if Z = z \<and> unat (X AND FLOOR_MASK) = ?i \<and> unat (Y AND FLOOR_MASK) = ?j
       then Some t else leaf_tile X Y Z l)"
    using assms row' z
    by (cases "unat Z = unat z") (auto simp: leaf_tile_def getFloor_def set_leaf_tile_def Let_def leaf_ok_def
        nth_list_update split: option.split)
qed

lemma set_leaf_tile_links [simp]:
  "leafS (set_leaf_tile x y z t l) = leafS l" "leafE (set_leaf_tile x y z t l) = leafE l"
  "creature_list (set_leaf_tile x y z t l) = creature_list l" "player_list (set_leaf_tile x y z t l) = player_list l"
  by (simp_all add: set_leaf_tile_def Let_def split: option.split)

lemma createFloor_links [simp]:
  "leafS (createFloor z l) = leafS l" "leafE (createFloor z l) = leafE l"
  "creature_list (createFloor z l) = creature_list l" "player_list (createFloor z l) = player_list l"
  by (simp_all add: createFloor_def)

lemma leaf_tile_new [simp]: "unat z < MAP_MAX_LAYERS \<Longrightarrow> leaf_tile x y z new_leaf = None"
  by (simp add: leaf_tile_def getFloor_def)

lemma leaf_tile_contents: "same_contents l l' \<Longrightarrow> leaf_tile x y z l' = leaf_tile x y z l"
  by (simp add: leaf_tile_def getFloor_def same_contents_def)

definition same_creatures :: "quad_map \<Rightarrow> quad_map \<Rightarrow> bool" where
  "same_creatures m m' \<longleftrightarrow>
     creature_pos m' = creature_pos m \<and> is_player m' = is_player m \<and>
     spectatorCache m' = spectatorCache m \<and> playersSpectatorCache m' = playersSpectatorCache m \<and>
     (\<forall>x y. (case leaf_at m' x y of None \<Rightarrow> leaf_at m x y = None
       | Some l \<Rightarrow>
           (case leaf_at m x y of
              None \<Rightarrow> creature_list (leaves m' ! l) = [] \<and> player_list (leaves m' ! l) = []
            | Some k \<Rightarrow> creature_list (leaves m' ! l) = creature_list (leaves m ! k) \<and>
                        player_list (leaves m' ! l) = player_list (leaves m ! k))))"

lemma setTile_spec:
  assumes ok: "map_ok m"
  shows "\<exists>m'. setTile x y z t m = Some (m', getTile x y z m) \<and> map_ok m' \<and> same_creatures m m' \<and>
    (\<forall>X Y Z. getTile X Y Z m' =
       (if X = x \<and> Y = y \<and> Z = z \<and> unat z < MAP_MAX_LAYERS \<and> getTile x y z m = None
        then Some t else getTile X Y Z m))"
proof (cases "unat z < MAP_MAX_LAYERS")
  case False
  then have "setTile x y z t m = Some (m, getTile x y z m)" by (simp add: setTile_def getTile_def)
  moreover have "same_creatures m m" by (simp add: same_creatures_def split: option.split)
  ultimately show ?thesis using ok False by auto
next
  case z: True
  obtain m1 l where f: "leaf_for x y m = Some (m1, l)" and ok1: "map_ok m1"
    and at1: "\<And>X Y. leaf_at m1 X Y = (if cell X = cell x \<and> cell Y = cell y then Some l else leaf_at m X Y)"
    and len: "length (leaves m) \<le> length (leaves m1)"
    and old: "\<And>n. n < length (leaves m) \<Longrightarrow> same_contents (leaves m ! n) (leaves m1 ! n)"
    and new: "if leaf_at m x y = None then same_contents new_leaf (leaves m1 ! l) \<and> l = length (leaves m)
      else leaf_at m x y = Some l \<and> leaves m1 = leaves m"
    and cr: "creature_pos m1 = creature_pos m" "is_player m1 = is_player m"
      "spectatorCache m1 = spectatorCache m" "playersSpectatorCache m1 = playersSpectatorCache m"
    using leaf_for_spec [OF ok, of x y] by blast
  have l: "l < length (leaves m1)" using map_okD(5) [OF ok1, of x y l] by (simp add: at1)
  have leaf: "leaf_ok (leaves m1 ! l)" using map_okD(3) [OF ok1] l by simp
  note cf = createFloor_leaf [OF leaf z]
  let ?m2 = "upd_leaf l (createFloor z) m1"
  have ok2: "map_ok ?m2" using z by (intro map_ok_upd ok1) (simp_all add: createFloor_leaf)
  have l2: "leaves ?m2 ! l = createFloor z (leaves m1 ! l)" using l by (simp add: upd_leaf_nth)
  obtain fl where fl: "floors (leaves ?m2 ! l) ! unat z = Some fl" using cf(2) by (auto simp: l2)
  have leaf2: "leaf_ok (leaves ?m2 ! l)" using cf(1) by (simp add: l2)
  note st = set_leaf_tile_leaf [OF leaf2 z fl]
  let ?m3 = "upd_leaf l (set_leaf_tile x y z t) ?m2"
  have ok3: "map_ok ?m3"
  proof (rule map_ok_upd [OF ok2])
    fix k assume "leaf_ok k"
    then show "leaf_ok (set_leaf_tile x y z t k)"
      using set_leaf_tile_leaf(1) [OF _ z] by (cases "floors k ! unat z") (simp_all add: set_leaf_tile_def)
  qed simp_all
  have l3: "leaves ?m3 ! l = set_leaf_tile x y z t (leaves ?m2 ! l)" using l by (simp add: upd_leaf_nth)
  have other: "leaves ?m2 ! n = leaves m1 ! n" "leaves ?m3 ! n = leaves m1 ! n" if "n < length (leaves m1)" "n \<noteq> l" for n
    using that by (simp_all add: upd_leaf_nth)
  have tile_l: "leaf_tile X Y Z (leaves m1 ! l) = getTile X Y Z m"
    if "cell X = cell x" "cell Y = cell y" "unat Z < MAP_MAX_LAYERS" for X Y Z
  proof -
    have "leaf_at m X Y = leaf_at m x y" using that by (intro leaf_at_cell map_okD(4) [OF ok])
    then show ?thesis
      using new that by (auto simp: getTile_leaf_at [OF ok] leaf_tile_contents split: if_splits)
  qed
  have tile_other: "(case leaf_at m1 X Y of None \<Rightarrow> None | Some n \<Rightarrow> leaf_tile X Y Z (leaves m1 ! n)) = getTile X Y Z m"
    if "\<not> (cell X = cell x \<and> cell Y = cell y)" "unat Z < MAP_MAX_LAYERS" for X Y Z
  proof (cases "leaf_at m X Y")
    case None
    then show ?thesis using that by (auto simp: at1 getTile_leaf_at [OF ok])
  next
    case (Some n)
    from old [OF map_okD(5) [OF ok Some]] show ?thesis
      using that Some unfolding at1 by (auto simp: getTile_leaf_at [OF ok] leaf_tile_contents)
  qed
  have not_l: "n \<noteq> l" if "leaf_at m1 X Y = Some n" "\<not> (cell X = cell x \<and> cell Y = cell y)" for X Y n
    using map_okD(6) [OF ok1, of X Y n x y] that by (auto simp: at1)
  have get: "getTile X Y Z m' = (if cell X = cell x \<and> cell Y = cell y \<and> unat Z < MAP_MAX_LAYERS
      then leaf_tile X Y Z (leaves m' ! l) else getTile X Y Z m)"
    if m': "map_ok m'" "leaf_at m' = leaf_at m1" "\<And>n. n < length (leaves m1) \<Longrightarrow> n \<noteq> l \<Longrightarrow> leaves m' ! n = leaves m1 ! n"
    for X Y Z m'
  proof (cases "unat Z < MAP_MAX_LAYERS")
    case True
    show ?thesis
    proof (cases "cell X = cell x \<and> cell Y = cell y")
      case True
      then show ?thesis using \<open>unat Z < MAP_MAX_LAYERS\<close> by (simp add: getTile_leaf_at [OF m'(1)] m'(2) at1)
    next
      case False
      have "(case leaf_at m1 X Y of None \<Rightarrow> None | Some n \<Rightarrow> leaf_tile X Y Z (leaves m' ! n)) =
          (case leaf_at m1 X Y of None \<Rightarrow> None | Some n \<Rightarrow> leaf_tile X Y Z (leaves m1 ! n))"
        using m'(3) map_okD(5) [OF ok1] not_l [OF _ False] by (auto split: option.split)
      with tile_other [OF False True] False True show ?thesis
        by (auto simp: getTile_leaf_at [OF m'(1)] m'(2))
    qed
  qed (simp add: getTile_def)
  have creatures: "same_creatures m m'"
    if "leaf_at m' = leaf_at m1" "\<And>n. n < length (leaves m1) \<Longrightarrow>
        creature_list (leaves m' ! n) = creature_list (leaves m1 ! n) \<and> player_list (leaves m' ! n) = player_list (leaves m1 ! n)"
      "creature_pos m' = creature_pos m1" "is_player m' = is_player m1"
      "spectatorCache m' = spectatorCache m1" "playersSpectatorCache m' = playersSpectatorCache m1" for m'
    unfolding same_creatures_def that(1) 
  proof (intro conjI allI)
    fix X Y
    show "case leaf_at m1 X Y of None \<Rightarrow> leaf_at m X Y = None
       | Some l \<Rightarrow> (case leaf_at m X Y of
              None \<Rightarrow> creature_list (leaves m' ! l) = [] \<and> player_list (leaves m' ! l) = []
            | Some k \<Rightarrow> creature_list (leaves m' ! l) = creature_list (leaves m ! k) \<and>
                        player_list (leaves m' ! l) = player_list (leaves m ! k))"
    proof (cases "cell X = cell x \<and> cell Y = cell y")
      case True
      then have "leaf_at m X Y = leaf_at m x y" by (intro leaf_at_cell map_okD(4) [OF ok]) auto
      then show ?thesis using True that(2) [OF l] new by (auto simp: at1 same_contents_def split: option.split if_splits)
    next
      case False
      show ?thesis
      proof (cases "leaf_at m X Y")
        case (Some n)
        then have "n < length (leaves m)" using map_okD(5) [OF ok] by blast
        then show ?thesis using old [of n] that(2) [of n] len Some False unfolding at1 by (auto simp: same_contents_def)
      qed (use False in \<open>auto simp: at1\<close>)
    qed
  qed (simp_all add: that cr)
  have tile: "leaf_tile x y z (leaves ?m2 ! l) = getTile x y z m"
    using cf(3) [OF z] tile_l [OF refl refl z] by (simp add: l2)
  show ?thesis
  proof (cases "getTile x y z m")
    case (Some o')
    have "setTile x y z t m = Some (?m2, getTile x y z m)"
      using z f tile Some by (simp add: setTile_def Let_def)
    moreover have "getTile X Y Z ?m2 = getTile X Y Z m" for X Y Z
      using get [OF ok2, of X Y Z] other(1) cf(3) tile_l [of X Y Z] by (simp add: l2)
    moreover have "same_creatures m ?m2"
      by (rule creatures) (simp_all add: upd_leaf_nth)
    ultimately show ?thesis using ok2 Some by (intro exI [of _ ?m2]) simp
  next
    case None
    have "setTile x y z t m = Some (?m3, getTile x y z m)"
      using z f tile None by (simp add: setTile_def Let_def)
    moreover have "getTile X Y Z ?m3 = (if X = x \<and> Y = y \<and> Z = z then Some t else getTile X Y Z m)" for X Y Z
    proof -
      have same: "X = x \<longleftrightarrow> cell X = cell x \<and> unat (X AND FLOOR_MASK) = unat (x AND FLOOR_MASK)"
        "Y = y \<longleftrightarrow> cell Y = cell y \<and> unat (Y AND FLOOR_MASK) = unat (y AND FLOOR_MASK)"
        by (auto dest: cell_mask)
      show ?thesis
        using get [OF ok3, of X Y Z] other(2) st(2) [of Z X Y] cf(3) [of Z X Y] tile_l [of X Y Z] z
        unfolding l3 l2 same by auto
    qed
    moreover have "same_creatures m ?m3"
      by (rule creatures) (simp_all add: upd_leaf_nth)
    ultimately show ?thesis using ok3 None z by (intro exI [of _ ?m3]) simp
  qed
qed

end
