(* ===== verification/Spectators.thy ===== *)
theory Spectators
  imports Quad_Map
begin

text \<open>
  What the index of the map promises about creatures: every creature stands in the list of the
  leaf of its position, and the search along the links of the leaves finds exactly the creatures
  in range, with and without the caches.
\<close>

section \<open>The rows of leaves\<close>

function stops :: "int \<Rightarrow> int \<Rightarrow> int list" where
  "stops a b = (if a > b then [] else a # stops (a + 8) b)"
  by pat_completeness auto

termination
  by (relation "measure (\<lambda>(a, b). nat (b + 1 - a))") auto

declare stops.simps [simp del]

lemma set_stops: "x \<in> set (stops a b) \<longleftrightarrow> a \<le> x \<and> x \<le> b \<and> (x - a) mod 8 = 0"
proof (induction a b rule: stops.induct)
  case (1 a b)
  show ?case
  proof (cases "a > b")
    case False
    have "x - a = x - (a + 8) + 8" by simp
    then have "(x - a) mod 8 = (x - (a + 8)) mod 8" by (metis mod_add_self2)
    moreover have "a \<le> x \<and> \<not> a + 8 \<le> x \<and> (x - a) mod 8 = 0 \<Longrightarrow> x = a" by presburger
    ultimately show ?thesis using False 1 by (subst stops.simps) auto
  qed (simp add: stops.simps [of a b])
qed

lemma distinct_stops: "distinct (stops a b)"
proof (induction a b rule: stops.induct)
  case (1 a b)
  then show ?case by (subst stops.simps) (auto simp: set_stops)
qed

definition list_of :: "quad_map \<Rightarrow> bool \<Rightarrow> nat \<Rightarrow> creature_ref list" where
  "list_of m onlyPlayers l = (if onlyPlayers then player_list (leaves m ! l) else creature_list (leaves m ! l))"

definition found_at :: "quad_map \<Rightarrow> bool \<Rightarrow> (creature_ref \<Rightarrow> bool) \<Rightarrow> int \<Rightarrow> int \<Rightarrow> creature_ref list" where
  "found_at m onlyPlayers P y x =
     (case leaf_at m (word_of_int x) (word_of_int y) of
        None \<Rightarrow> [] | Some l \<Rightarrow> filter P (list_of m onlyPlayers l))"

lemma leaf_static:
  "map_ok m \<Longrightarrow> getLeafStatic (qroot m) (word_of_int x) (word_of_int y) = leaf_at m (word_of_int x) (word_of_int y)"
  by (simp add: getLeafStatic_leaf_at map_okD(4) ucast_word_of_int)

lemma next_leaf:
  assumes "map_ok m"
  shows "leaf_at m (word_of_int x) (word_of_int y) = Some l \<Longrightarrow>
      leafE (leaves m ! l) = leaf_at m (word_of_int (x + 8)) (word_of_int y)"
    and "leaf_at m (word_of_int x) (word_of_int y) = Some l \<Longrightarrow>
      leafS (leaves m ! l) = leaf_at m (word_of_int x) (word_of_int (y + 8))"
  using map_okD(2) [OF assms] by (auto simp: links_ok_def)

lemma scan_row_found:
  "map_ok m \<Longrightarrow> leaf = leaf_at m (word_of_int nx) (word_of_int ny) \<Longrightarrow>
   scan_row m onlyPlayers P ny endx leaf nx = concat (map (found_at m onlyPlayers P ny) (stops nx endx))"
proof (induction m onlyPlayers P ny endx leaf nx rule: scan_row.induct)
  case (1 m onlyPlayers P ny endx leaf nx)
  note step = next_leaf(1) [OF 1(3), of nx ny] leaf_static [OF 1(3), of "nx + 8" ny]
  show ?case
  proof (cases "nx > endx")
    case True
    then show ?thesis by (simp add: scan_row.simps [of m onlyPlayers] stops.simps [of nx])
  next
    case False
    then show ?thesis
      using 1 step
      by (cases "leaf_at m (word_of_int nx) (word_of_int ny)") (auto simp: scan_row.simps [of m onlyPlayers P ny endx _ nx] stops.simps [of nx endx]
        found_at_def [of _ _ _ _ nx] list_of_def FLOOR_SIZE_def)
  qed
qed

lemma scan_rows_found:
  "map_ok m \<Longrightarrow> leaf = leaf_at m (word_of_int startx) (word_of_int ny) \<Longrightarrow>
   scan_rows m onlyPlayers P startx endx endy leaf ny =
     concat (map (\<lambda>y. concat (map (found_at m onlyPlayers P y) (stops startx endx))) (stops ny endy))"
proof (induction m onlyPlayers P startx endx endy leaf ny rule: scan_rows.induct)
  case (1 m onlyPlayers P startx endx endy leaf ny)
  note step = next_leaf(2) [OF 1(2), of startx ny] leaf_static [OF 1(2), of startx "ny + 8"]
  show ?case
  proof (cases "ny > endy")
    case True
    then show ?thesis by (simp add: scan_rows.simps [of m onlyPlayers] stops.simps [of ny])
  next
    case False
    have "(case leaf of Some l \<Rightarrow> leafS (leaves m ! l)
        | None \<Rightarrow> getLeafStatic (qroot m) (word_of_int startx) (word_of_int (ny + FLOOR_SIZE))) =
        leaf_at m (word_of_int startx) (word_of_int (ny + FLOOR_SIZE))"
      using step unfolding 1(3)
      by (cases "leaf_at m (word_of_int startx) (word_of_int ny)") (auto simp: FLOOR_SIZE_def)
    with 1(1) [OF False 1(2)] False show ?thesis
      using scan_row_found [OF 1(2,3)]
      by (simp add: scan_rows.simps [of m onlyPlayers P startx endx endy leaf ny] stops.simps [of ny endy] FLOOR_SIZE_def)
  qed
qed

section \<open>Creatures stand where the index has them\<close>

definition creatures_ok :: "quad_map \<Rightarrow> bool" where
  "creatures_ok m \<longleftrightarrow>
     (\<forall>x y l. leaf_at m x y = Some l \<longrightarrow>
        distinct (creature_list (leaves m ! l)) \<and> distinct (player_list (leaves m ! l)) \<and>
        set (player_list (leaves m ! l)) = {c \<in> set (creature_list (leaves m ! l)). is_player m c} \<and>
        (\<forall>c\<in>set (creature_list (leaves m ! l)).
           cell (px (creature_pos m c)) = cell x \<and> cell (py (creature_pos m c)) = cell y))"

definition on_map :: "quad_map \<Rightarrow> creature_ref \<Rightarrow> bool" where
  "on_map m c \<longleftrightarrow>
     (\<exists>l. leaf_at m (px (creature_pos m c)) (py (creature_pos m c)) = Some l \<and> c \<in> set (creature_list (leaves m ! l)))"

lemma creatures_okD:
  assumes "creatures_ok m" and "leaf_at m x y = Some l"
  shows "distinct (creature_list (leaves m ! l))" "distinct (player_list (leaves m ! l))"
    "set (player_list (leaves m ! l)) = {c \<in> set (creature_list (leaves m ! l)). is_player m c}"
    "\<And>c. c \<in> set (creature_list (leaves m ! l)) \<Longrightarrow>
       cell (px (creature_pos m c)) = cell x \<and> cell (py (creature_pos m c)) = cell y"
  using assms unfolding creatures_ok_def by blast+

lemma in_list_of:
  "creatures_ok m \<Longrightarrow> leaf_at m x y = Some l \<Longrightarrow>
   c \<in> set (list_of m op l) \<longleftrightarrow> c \<in> set (creature_list (leaves m ! l)) \<and> (op \<longrightarrow> is_player m c)"
  by (auto simp: list_of_def creatures_okD)

lemma found_at_iff:
  assumes "map_ok m" and "creatures_ok m"
  shows "c \<in> set (found_at m op P y x) \<longleftrightarrow>
    cell (word_of_int x) = cell (px (creature_pos m c)) \<and> cell (word_of_int y) = cell (py (creature_pos m c)) \<and>
    on_map m c \<and> P c \<and> (op \<longrightarrow> is_player m c)"
    (is "?l \<longleftrightarrow> ?r")
proof
  assume ?l
  then obtain l where l: "leaf_at m (word_of_int x) (word_of_int y) = Some l" "P c" "c \<in> set (list_of m op l)"
    by (cases "leaf_at m (word_of_int x) (word_of_int y)") (auto simp: found_at_def)
  then have c: "c \<in> set (creature_list (leaves m ! l))" "op \<longrightarrow> is_player m c"
    using in_list_of [OF assms(2) l(1)] by simp_all
  have e: "cell (px (creature_pos m c)) = cell (word_of_int x)" "cell (py (creature_pos m c)) = cell (word_of_int y)"
    using creatures_okD(4) [OF assms(2) l(1) c(1)] by simp_all
  then have "leaf_at m (px (creature_pos m c)) (py (creature_pos m c)) = Some l"
    using leaf_at_cell [OF map_okD(4) [OF assms(1)] e] l(1) by simp
  then show ?r using e c l(2) by (auto simp: on_map_def)
next
  assume r: ?r
  then obtain l where l: "leaf_at m (px (creature_pos m c)) (py (creature_pos m c)) = Some l"
    "c \<in> set (creature_list (leaves m ! l))" by (auto simp: on_map_def)
  have "leaf_at m (word_of_int x) (word_of_int y) = Some l"
    using leaf_at_cell [OF map_okD(4) [OF assms(1)]] r l(1) by metis
  then show ?l using r l(2) in_list_of [OF assms(2) l(1)] by (simp add: found_at_def)
qed

lemma int_cell: "int (cell x) = uint x div 8"
  by (simp add: cell_def zdiv_int)

lemma cell_of_int: "0 \<le> x \<Longrightarrow> x < 65536 \<Longrightarrow> int (cell (word_of_int x)) = x div 8"
  by (simp add: int_cell uint_word_of_int_eq take_bit_int_eq_self)

text \<open>The stop of a coordinate that is in range.\<close>

lemma stop_of:
  assumes "x1 \<le> uint (a :: u16)" and "uint a \<le> x2" and "0 \<le> x1" and "x2 < 65536"
  shows "uint a - uint a mod 8 \<in> set (stops (x1 - x1 mod 8) (x2 - x2 mod 8))"
    and "cell (word_of_int (uint a - uint a mod 8)) = cell a"
proof -
  have m: "uint a - uint a mod 8 = 8 * (uint a div 8)" by (simp add: minus_mod_eq_mult_div)
  have "8 * (uint a div 8) < 65536" "0 \<le> 8 * (uint a div 8)"
    using uint_lt2p [of a] pos_imp_zdiv_nonneg_iff [of 8 "uint a"] by simp_all
  from cell_of_int [OF this(2,1)] have "int (cell (word_of_int (8 * (uint a div 8)))) = int (cell a)"
    unfolding int_cell [of a] by simp
  then show "cell (word_of_int (uint a - uint a mod 8)) = cell a" unfolding m by linarith
  have "x1 - x1 mod 8 \<le> uint a - uint a mod 8" "uint a - uint a mod 8 \<le> x2 - x2 mod 8"
    using assms(1,2) by (simp_all add: minus_mod_eq_mult_div zdiv_mono1)
  moreover have "(uint a - uint a mod 8 - (x1 - x1 mod 8)) mod 8 = 0"
    by (simp add: minus_mod_eq_mult_div mod_diff_eq [symmetric])
  ultimately show "uint a - uint a mod 8 \<in> set (stops (x1 - x1 mod 8) (x2 - x2 mod 8))"
    by (simp add: set_stops)
qed

lemma stop_cells:
  assumes "x \<in> set (stops (x1 - x1 mod 8) (x2 - x2 mod 8))" and "y \<in> set (stops (x1 - x1 mod 8) (x2 - x2 mod 8))"
    and "0 \<le> x1" and "x2 < 65536" and "cell (word_of_int x) = cell (word_of_int y)"
  shows "x = y"
proof -
  have b: "0 \<le> z \<and> z < 65536 \<and> z mod 8 = 0" if "z \<in> set (stops (x1 - x1 mod 8) (x2 - x2 mod 8))" for z
  proof -
    have "(z - 8 * (x1 div 8)) mod 8 = 0" "8 * (x1 div 8) \<le> z" "z \<le> x2"
      using that pos_mod_sign [of 8 x2] minus_mod_eq_mult_div [of x2 8]
      unfolding set_stops minus_mod_eq_mult_div [of x1] by linarith+
    moreover have "z mod 8 = (z - 8 * (x1 div 8)) mod 8" by (simp add: mod_diff_eq [symmetric])
    moreover have "0 \<le> x1 div 8" using assms(3) by (simp add: pos_imp_zdiv_nonneg_iff)
    ultimately show ?thesis using assms(3,4) by simp
  qed
  have "x div 8 = y div 8"
    using b [OF assms(1)] b [OF assms(2)] assms(5) by (metis cell_of_int)
  then show ?thesis using b [OF assms(1)] b [OF assms(2)] by (metis div_mult_mod_eq)
qed

lemma in_concat_map: "y \<in> set ys \<Longrightarrow> c \<in> set (f y) \<Longrightarrow> c \<in> set (concat (map f ys))"
  by auto

lemma distinct_concat_map:
  "distinct xs \<Longrightarrow> (\<And>x. x \<in> set xs \<Longrightarrow> distinct (f x)) \<Longrightarrow>
   (\<And>x y c. x \<in> set xs \<Longrightarrow> y \<in> set xs \<Longrightarrow> c \<in> set (f x) \<Longrightarrow> c \<in> set (f y) \<Longrightarrow> x = y) \<Longrightarrow>
   distinct (concat (map f xs))"
  by (induction xs) auto

section \<open>The search\<close>

lemma clip16_bounds: "0 \<le> clip16 k" "clip16 k < 65536"
  by (simp_all add: clip16_def)

lemma spectates_bounds:
  assumes "spectates center r p"
  shows "clip16 (uint (px center) + minRangeX r + (uint (pz center) - maxRangeZ r)) \<le> uint (px p)"
    "uint (px p) \<le> clip16 (uint (px center) + maxRangeX r + (uint (pz center) - minRangeZ r))"
    "clip16 (uint (py center) + minRangeY r + (uint (pz center) - maxRangeZ r)) \<le> uint (py p)"
    "uint (py p) \<le> clip16 (uint (py center) + maxRangeY r + (uint (pz center) - minRangeZ r))"
proof -
  have b: "0 \<le> uint (px p)" "uint (px p) < 65536" "0 \<le> uint (py p)" "uint (py p) < 65536"
    using uint_lt2p [of "px p"] uint_lt2p [of "py p"] by simp_all
  have s: "minRangeZ r \<le> uint (pz p)" "uint (pz p) \<le> maxRangeZ r"
    "uint (py center) + minRangeY r + (uint (pz center) - uint (pz p)) \<le> uint (py p)"
    "uint (py p) \<le> uint (py center) + maxRangeY r + (uint (pz center) - uint (pz p))"
    "uint (px center) + minRangeX r + (uint (pz center) - uint (pz p)) \<le> uint (px p)"
    "uint (px p) \<le> uint (px center) + maxRangeX r + (uint (pz center) - uint (pz p))"
    using assms by (auto simp: spectates_def getOffsetZ_def Let_def split: if_splits)
  show "clip16 (uint (px center) + minRangeX r + (uint (pz center) - maxRangeZ r)) \<le> uint (px p)"
    using b s by (simp add: clip16_def)
  show "uint (px p) \<le> clip16 (uint (px center) + maxRangeX r + (uint (pz center) - minRangeZ r))"
    using b s by (simp add: clip16_def)
  show "clip16 (uint (py center) + minRangeY r + (uint (pz center) - maxRangeZ r)) \<le> uint (py p)"
    using b s by (simp add: clip16_def)
  show "uint (py p) \<le> clip16 (uint (py center) + maxRangeY r + (uint (pz center) - minRangeZ r))"
    using b s by (simp add: clip16_def)
qed

lemma internal_spectators:
  assumes m: "map_ok m" and c: "creatures_ok m"
  shows "set (getSpectatorsInternal m center r op) =
      {c. on_map m c \<and> spectates center r (creature_pos m c) \<and> (op \<longrightarrow> is_player m c)}"
    and "distinct (getSpectatorsInternal m center r op)"
proof -
  define x1 where "x1 = clip16 (uint (px center) + minRangeX r + (uint (pz center) - maxRangeZ r))"
  define x2 where "x2 = clip16 (uint (px center) + maxRangeX r + (uint (pz center) - minRangeZ r))"
  define y1 where "y1 = clip16 (uint (py center) + minRangeY r + (uint (pz center) - maxRangeZ r))"
  define y2 where "y2 = clip16 (uint (py center) + maxRangeY r + (uint (pz center) - minRangeZ r))"
  note lim = clip16_bounds [of "uint (px center) + minRangeX r + (uint (pz center) - maxRangeZ r)", folded x1_def]
    clip16_bounds [of "uint (px center) + maxRangeX r + (uint (pz center) - minRangeZ r)", folded x2_def]
    clip16_bounds [of "uint (py center) + minRangeY r + (uint (pz center) - maxRangeZ r)", folded y1_def]
    clip16_bounds [of "uint (py center) + maxRangeY r + (uint (pz center) - minRangeZ r)", folded y2_def]
  let ?P = "\<lambda>c. spectates center r (creature_pos m c)"
  let ?xs = "stops (x1 - x1 mod 8) (x2 - x2 mod 8)" and ?ys = "stops (y1 - y1 mod 8) (y2 - y2 mod 8)"
  let ?row = "\<lambda>y. concat (map (found_at m op ?P y) ?xs)"
  have eq: "getSpectatorsInternal m center r op = concat (map ?row ?ys)"
    unfolding getSpectatorsInternal_def Let_def FLOOR_SIZE_def x1_def [symmetric] x2_def [symmetric]
      y1_def [symmetric] y2_def [symmetric]
    by (intro scan_rows_found m leaf_static)
  note iff = found_at_iff [OF m c, where op = op and P = ?P]
  have "c \<in> set (concat (map ?row ?ys)) \<longleftrightarrow> on_map m c \<and> ?P c \<and> (op \<longrightarrow> is_player m c)" for c
  proof
    assume "c \<in> set (concat (map ?row ?ys))"
    then obtain x y where "c \<in> set (found_at m op ?P y x)" by auto
    then show "on_map m c \<and> ?P c \<and> (op \<longrightarrow> is_player m c)" unfolding iff by blast
  next
    assume r: "on_map m c \<and> ?P c \<and> (op \<longrightarrow> is_player m c)"
    let ?p = "creature_pos m c"
    note b = spectates_bounds [of center r ?p, folded x1_def x2_def y1_def y2_def]
    note x = stop_of [OF b(1,2) lim(1) lim(4)] and y = stop_of [OF b(3,4) lim(5) lim(8)]
    have "c \<in> set (found_at m op ?P (uint (py ?p) - uint (py ?p) mod 8) (uint (px ?p) - uint (px ?p) mod 8))"
      unfolding iff using r x(2) y(2) by simp
    moreover have "uint (px ?p) - uint (px ?p) mod 8 \<in> set ?xs" using r x(1) by blast
    moreover have "uint (py ?p) - uint (py ?p) mod 8 \<in> set ?ys" using r y(1) by blast
    ultimately show "c \<in> set (concat (map ?row ?ys))" by (intro in_concat_map)
  qed
  then show "set (getSpectatorsInternal m center r op) =
      {c. on_map m c \<and> ?P c \<and> (op \<longrightarrow> is_player m c)}" unfolding eq by blast
  have d: "distinct (found_at m op ?P y x)" for x y
    using creatures_okD(1,2) [OF c] by (cases "leaf_at m (word_of_int x) (word_of_int y)")
      (auto simp: found_at_def list_of_def)
  have row: "distinct (?row y)" for y
  proof (rule distinct_concat_map [OF distinct_stops d])
    fix x x' c assume "x \<in> set ?xs" "x' \<in> set ?xs" "c \<in> set (found_at m op ?P y x)" "c \<in> set (found_at m op ?P y x')"
    then show "x = x'" unfolding iff by (intro stop_cells [of x x1 x2 x'] lim) auto
  qed
  show "distinct (getSpectatorsInternal m center r op)"
    unfolding eq
  proof (rule distinct_concat_map [OF distinct_stops row])
    fix y y' c assume y: "y \<in> set ?ys" "y' \<in> set ?ys" and in_row: "c \<in> set (?row y)" "c \<in> set (?row y')"
    then obtain x x' where "c \<in> set (found_at m op ?P y x)" "c \<in> set (found_at m op ?P y' x')"
      unfolding set_concat set_map by blast
    then have "cell (word_of_int y) = cell (word_of_int y')" unfolding iff by simp
    with y show "y = y'" by (intro stop_cells [of y y1 y2 y'] lim)
  qed
qed

section \<open>Creatures come, move and go\<close>

lemma find_index_Some: "c \<in> set xs \<Longrightarrow> \<exists>i. find_index c xs = Some i \<and> i < length xs \<and> xs ! i = c"
  by (induction xs) auto

lemma swap_remove_Some:
  assumes "c \<in> set xs" and "distinct xs"
  shows "\<exists>ys. swap_remove c xs = Some ys \<and> distinct ys \<and> set ys = set xs - {c}"
proof -
  obtain i where i: "find_index c xs = Some i" "i < length xs" "xs ! i = c" using find_index_Some [OF assms(1)] by blast
  obtain zs z where xs: "xs = zs @ [z]" using assms(1) by (cases xs rule: rev_cases) auto
  have "butlast (xs[i := last xs]) = (if i < length zs then zs[i := z] else zs)"
    using i(2) by (auto simp: xs list_update_append)
  moreover have "distinct (if i < length zs then zs[i := z] else zs)"
    using assms(2) by (auto simp: xs intro: distinct_list_update)
  moreover have "set (if i < length zs then zs[i := z] else zs) = set xs - {c}"
  proof (cases "i < length zs")
    case True
    then have "zs ! i = c" using i(3) by (simp add: xs nth_append)
    then show ?thesis using assms(2) True by (auto simp: xs set_update_distinct)
  next
    case False
    then have "z = c" using i by (simp add: xs nth_append)
    then show ?thesis using assms(2) False by (auto simp: xs)
  qed
  ultimately show ?thesis using i(1) by (auto simp: swap_remove_def)
qed

lemma add_creature_lists [simp]:
  "creature_list (leaf_addCreature p c l) = creature_list l @ [c]"
  "player_list (leaf_addCreature p c l) = player_list l @ (if p then [c] else [])"
  "leafS (leaf_addCreature p c l) = leafS l" "leafE (leaf_addCreature p c l) = leafE l"
  "floors (leaf_addCreature p c l) = floors l"
  by (simp_all add: leaf_addCreature_def Let_def)

lemma leaf_removeCreature_Some:
  assumes "c \<in> set (creature_list l)" "distinct (creature_list l)" "distinct (player_list l)"
    and "p \<Longrightarrow> c \<in> set (player_list l)"
  shows "\<exists>f. leaf_removeCreature p c l = Some f \<and> distinct (creature_list f) \<and> distinct (player_list f) \<and>
    set (creature_list f) = set (creature_list l) - {c} \<and>
    set (player_list f) = (if p then set (player_list l) - {c} else set (player_list l)) \<and>
    leafS f = leafS l \<and> leafE f = leafE l \<and> floors f = floors l"
proof -
  obtain ys where ys: "swap_remove c (creature_list l) = Some ys" "distinct ys" "set ys = set (creature_list l) - {c}"
    using swap_remove_Some [OF assms(1,2)] by blast
  show ?thesis
  proof (cases p)
    case True
    from swap_remove_Some [OF assms(4) [OF True] assms(3)] ys show ?thesis
      by (auto simp: leaf_removeCreature_def Let_def True)
  qed (use ys assms(3) in \<open>simp add: leaf_removeCreature_def\<close>)
qed

text \<open>Positions, caches and leaves change without touching the tree.\<close>

lemma map_ok_same:
  assumes "map_ok m" and "qroot m' = qroot m" and "leaves m' = leaves m"
  shows "map_ok m'" "leaf_at m' = leaf_at m"
proof -
  show "leaf_at m' = leaf_at m" using assms(2) by (simp add: leaf_at_def fun_eq_iff)
  then show "map_ok m'" using assms by (simp add: map_ok_def tree_ok_def links_ok_def)
qed

lemma leaf_at_cong: "qroot m' = qroot m \<Longrightarrow> leaf_at m' = leaf_at m"
  by (simp add: leaf_at_def fun_eq_iff)

lemma leaf_at_fields [simp]:
  "leaf_at (m\<lparr>creature_pos := f\<rparr>) = leaf_at m" "leaf_at (m\<lparr>spectatorCache := g\<rparr>) = leaf_at m"
  "leaf_at (m\<lparr>playersSpectatorCache := g\<rparr>) = leaf_at m"
  by (rule leaf_at_cong; simp)+

lemma clear_caches_simps [simp]:
  "qroot (clear_caches c m) = qroot m" "leaves (clear_caches c m) = leaves m"
  "creature_pos (clear_caches c m) = creature_pos m" "is_player (clear_caches c m) = is_player m"
  "leaf_at (clear_caches c m) = leaf_at m" "spectatorCache (clear_caches c m) = (\<lambda>p. None)"
  "playersSpectatorCache (clear_caches c m) = (if is_player m c then (\<lambda>p. None) else playersSpectatorCache m)"
  by (simp_all add: clear_caches_def Let_def leaf_at_def fun_eq_iff)

lemma getQTNode_cong: "qroot m' = qroot m \<Longrightarrow> getQTNode x y m' = getQTNode x y m"
  by (simp add: getQTNode_def)

section \<open>Caches\<close>

definition usual_view :: "position \<Rightarrow> ranges" where
  "usual_view p = viewport_ranges True (pz p) (- maxViewportX) maxViewportX (- maxViewportY) maxViewportY"

definition viewers :: "quad_map \<Rightarrow> position \<Rightarrow> bool \<Rightarrow> creature_ref set" where
  "viewers m p op = {c. on_map m c \<and> spectates p (usual_view p) (creature_pos m c) \<and> (op \<longrightarrow> is_player m c)}"

definition caches_ok :: "quad_map \<Rightarrow> bool" where
  "caches_ok m \<longleftrightarrow>
     (\<forall>p vs. spectatorCache m p = Some vs \<longrightarrow> distinct vs \<and> set vs = viewers m p False) \<and>
     (\<forall>p vs. playersSpectatorCache m p = Some vs \<longrightarrow> distinct vs \<and> set vs = viewers m p True)"

definition index_ok :: "quad_map \<Rightarrow> bool" where
  "index_ok m \<longleftrightarrow> map_ok m \<and> creatures_ok m \<and> caches_ok m"

lemma cleared_caches_ok:
  assumes "caches_ok m" and "spectatorCache m' = (\<lambda>p. None)"
    and "playersSpectatorCache m' = (if is_player m c then (\<lambda>p. None) else playersSpectatorCache m)"
    and "is_player m' = is_player m"
    and "\<And>k. k \<noteq> c \<Longrightarrow> on_map m' k = on_map m k" "\<And>k. k \<noteq> c \<Longrightarrow> creature_pos m' k = creature_pos m k"
  shows "caches_ok m'"
proof -
  have "viewers m' p True = viewers m p True" if "\<not> is_player m c" for p
    unfolding viewers_def
  proof (rule Collect_cong)
    fix k show "(on_map m' k \<and> spectates p (usual_view p) (creature_pos m' k) \<and> (True \<longrightarrow> is_player m' k)) =
        (on_map m k \<and> spectates p (usual_view p) (creature_pos m k) \<and> (True \<longrightarrow> is_player m k))"
      using assms(4-6) that by (cases "k = c") simp_all
  qed
  then show ?thesis using assms(1-3) by (auto simp: caches_ok_def split: if_splits)
qed

lemma not_on_map:
  assumes "map_ok m" and "creatures_ok m" and "leaf_at m x y = Some l" and "c \<in> set (creature_list (leaves m ! l))"
  shows "on_map m c"
proof -
  have "cell (px (creature_pos m c)) = cell x" "cell (py (creature_pos m c)) = cell y"
    using creatures_okD(4) [OF assms(2-4)] by simp_all
  from leaf_at_cell [OF map_okD(4) [OF assms(1)] this] show ?thesis
    using assms(3,4) by (auto simp: on_map_def)
qed

lemma on_map_iff:
  assumes "map_ok m" and "creatures_ok m"
  shows "on_map m c \<longleftrightarrow> (\<exists>x y l. leaf_at m x y = Some l \<and> c \<in> set (creature_list (leaves m ! l)))"
  using not_on_map [OF assms] by (auto simp: on_map_def)

lemma place_creature_ok:
  assumes ok: "index_ok m" and off: "\<not> on_map m c" and dest: "leaf_at m (px dest) (py dest) = Some l"
  shows "\<exists>m'. place_creature c dest m = Some m' \<and> index_ok m' \<and> on_map m' = (on_map m)(c := True) \<and>
    creature_pos m' = (creature_pos m)(c := dest) \<and> is_player m' = is_player m \<and> leaf_at m' = leaf_at m"
proof -
  have m: "map_ok m" and cr: "creatures_ok m" and ca: "caches_ok m" using ok by (simp_all add: index_ok_def)
  let ?m = "(clear_caches c m)\<lparr>creature_pos := (creature_pos m)(c := dest)\<rparr>"
  let ?m' = "upd_leaf l (leaf_addCreature (is_player m c) c) ?m"
  have q: "getQTNode (px dest) (py dest) ?m = Some l"
    using dest by (simp add: getQTNode_leaf_at [OF map_okD(4) [OF m]] getQTNode_cong [of ?m m])
  have at: "leaf_at ?m' = leaf_at m" by (rule leaf_at_cong) simp
  have "map_ok ?m" by (rule map_ok_same [OF m]) simp_all
  then have m': "map_ok ?m'" by (rule map_ok_upd) (simp_all add: leaf_ok_def)
  have nth: "leaves ?m' ! n = (if n = l then leaf_addCreature (is_player m c) c (leaves m ! n) else leaves m ! n)"
    if "leaf_at m x y = Some n" for x y n
    using map_okD(5) [OF m that] by (simp add: upd_leaf_nth)
  have c_off: "c \<notin> set (creature_list (leaves m ! n))" if "leaf_at m x y = Some n" for x y n
    using not_on_map [OF m cr that] off by blast
  have cr': "creatures_ok ?m'"
    unfolding creatures_ok_def at
  proof (intro allI impI)
    fix x y n assume n: "leaf_at m x y = Some n"
    have cells: "n = l \<Longrightarrow> cell (px dest) = cell x \<and> cell (py dest) = cell y"
      using map_okD(6) [OF m dest, of x y] n by simp
    show "distinct (creature_list (leaves ?m' ! n)) \<and> distinct (player_list (leaves ?m' ! n)) \<and>
        set (player_list (leaves ?m' ! n)) = {c \<in> set (creature_list (leaves ?m' ! n)). is_player ?m' c} \<and>
        (\<forall>c\<in>set (creature_list (leaves ?m' ! n)).
           cell (px (creature_pos ?m' c)) = cell x \<and> cell (py (creature_pos ?m' c)) = cell y)"
      using creatures_okD [OF cr n] c_off [OF n] cells unfolding nth [OF n] by auto
  qed
  have on: "on_map ?m' k = ((on_map m)(c := True)) k" for k
  proof (cases "k = c")
    case True
    then show ?thesis using dest by (auto simp: on_map_def at nth [OF dest])
  next
    case False
    then have "leaf_at m x y = Some n \<and> k \<in> set (creature_list (leaves ?m' ! n)) \<longleftrightarrow>
        leaf_at m x y = Some n \<and> k \<in> set (creature_list (leaves m ! n))" for x y n
      using nth [of x y n] by (auto split: if_splits)
    with False show ?thesis unfolding on_map_iff [OF m' cr'] at by (simp add: on_map_iff [OF m cr])
  qed
  have "caches_ok ?m'"
    by (rule cleared_caches_ok [OF ca, where c = c]) (simp_all add: on)
  then show ?thesis
    using q m' cr' on at by (auto simp: place_creature_def Let_def index_ok_def)
qed

lemma remove_leaf_list:
  assumes "map_ok m" and "creatures_ok m" and "on_map m c"
    and "leaf_at m (px (creature_pos m c)) (py (creature_pos m c)) = Some l"
  shows "\<exists>f. leaf_removeCreature (is_player m c) c (leaves m ! l) = Some f \<and>
    distinct (creature_list f) \<and> distinct (player_list f) \<and>
    set (creature_list f) = set (creature_list (leaves m ! l)) - {c} \<and>
    set (player_list f) = set (player_list (leaves m ! l)) - {c} \<and>
    leafS f = leafS (leaves m ! l) \<and> leafE f = leafE (leaves m ! l) \<and> floors f = floors (leaves m ! l)"
proof -
  have c: "c \<in> set (creature_list (leaves m ! l))" using assms(3,4) by (auto simp: on_map_def)
  note d = creatures_okD [OF assms(2,4)]
  have "is_player m c \<Longrightarrow> c \<in> set (player_list (leaves m ! l))" using c d(3) by simp
  moreover have "\<not> is_player m c \<Longrightarrow> set (player_list (leaves m ! l)) - {c} = set (player_list (leaves m ! l))"
    using d(3) by blast
  ultimately show ?thesis
    using leaf_removeCreature_Some [OF c d(1,2), of "is_player m c"] by (cases "is_player m c") simp_all
qed

lemma map_ok_replace:
  assumes "map_ok m" and "l < length (leaves m)" and "leafS f = leafS (leaves m ! l)"
    and "leafE f = leafE (leaves m ! l)" and "floors f = floors (leaves m ! l)"
  shows "map_ok (upd_leaf l (\<lambda>_. f) m)"
proof -
  let ?g = "\<lambda>k. k\<lparr>creature_list := creature_list f, player_list := player_list f\<rparr>"
  have "f = ?g (leaves m ! l)" by (rule qleaf.equality) (simp_all add: assms(3-5))
  then have "upd_leaf l (\<lambda>_. f) m = upd_leaf l ?g m" by (simp add: upd_leaf_def)
  moreover have "map_ok (upd_leaf l ?g m)" by (rule map_ok_upd [OF assms(1)]) (simp_all add: leaf_ok_def)
  ultimately show ?thesis by simp
qed

lemma remove_creature_ok:
  assumes ok: "index_ok m" and on: "on_map m c"
  shows "\<exists>m'. remove_creature c m = Some m' \<and> index_ok m' \<and> on_map m' = (on_map m)(c := False) \<and>
    creature_pos m' = creature_pos m \<and> is_player m' = is_player m \<and> leaf_at m' = leaf_at m"
proof -
  have m: "map_ok m" and cr: "creatures_ok m" and ca: "caches_ok m" using ok by (simp_all add: index_ok_def)
  obtain l where l: "leaf_at m (px (creature_pos m c)) (py (creature_pos m c)) = Some l"
    using on by (auto simp: on_map_def)
  obtain f where f: "leaf_removeCreature (is_player m c) c (leaves m ! l) = Some f"
    "distinct (creature_list f)" "distinct (player_list f)"
    "set (creature_list f) = set (creature_list (leaves m ! l)) - {c}"
    "set (player_list f) = set (player_list (leaves m ! l)) - {c}"
    "leafS f = leafS (leaves m ! l)" "leafE f = leafE (leaves m ! l)" "floors f = floors (leaves m ! l)"
    using remove_leaf_list [OF m cr on l] by blast
  let ?m = "upd_leaf l (\<lambda>_. f) m"
  let ?m' = "clear_caches c ?m"
  have "map_ok ?m" by (rule map_ok_replace [OF m map_okD(5) [OF m l] f(6-8)])
  then have m': "map_ok ?m'" by (rule map_ok_same) simp_all
  have at: "leaf_at ?m' = leaf_at m" by simp
  have nth: "leaves ?m' ! n = (if n = l then f else leaves m ! n)" if "leaf_at m x y = Some n" for x y n
    using map_okD(5) [OF m that] by (simp add: upd_leaf_nth)
  have elsewhere: "c \<notin> set (creature_list (leaves m ! n))" if "leaf_at m x y = Some n" "n \<noteq> l" for x y n
  proof
    assume "c \<in> set (creature_list (leaves m ! n))"
    from creatures_okD(4) [OF cr that(1) this] have "leaf_at m x y = Some l"
      using leaf_at_cell [OF map_okD(4) [OF m], of x _ y] l by metis
    with that show False by simp
  qed
  have cr': "creatures_ok ?m'"
    unfolding creatures_ok_def at
  proof (intro allI impI)
    fix x y n assume n: "leaf_at m x y = Some n"
    show "distinct (creature_list (leaves ?m' ! n)) \<and> distinct (player_list (leaves ?m' ! n)) \<and>
        set (player_list (leaves ?m' ! n)) = {c \<in> set (creature_list (leaves ?m' ! n)). is_player ?m' c} \<and>
        (\<forall>c\<in>set (creature_list (leaves ?m' ! n)).
           cell (px (creature_pos ?m' c)) = cell x \<and> cell (py (creature_pos ?m' c)) = cell y)"
      using creatures_okD [OF cr n] f(2-5) unfolding nth [OF n] by auto
  qed
  have on': "on_map ?m' k = ((on_map m)(c := False)) k" for k
  proof (cases "k = c")
    case True
    then show ?thesis unfolding on_map_def at using l nth [OF l] f(4) by auto
  next
    case False
    have "k \<in> set (creature_list (leaves ?m' ! n)) \<longleftrightarrow> k \<in> set (creature_list (leaves m ! n))"
      if n: "leaf_at m x y = Some n" for x y n
      unfolding nth [OF n] using False f(4) by (cases "n = l") simp_all
    then have "leaf_at m x y = Some n \<and> k \<in> set (creature_list (leaves ?m' ! n)) \<longleftrightarrow>
        leaf_at m x y = Some n \<and> k \<in> set (creature_list (leaves m ! n))" for x y n
      by (rule conj_cong [OF refl])
    with False show ?thesis unfolding on_map_iff [OF m' cr'] at by (simp add: on_map_iff [OF m cr])
  qed
  have "caches_ok ?m'"
    by (rule cleared_caches_ok [OF ca, where c = c]) (simp_all add: on')
  moreover have "remove_creature c m = Some ?m'"
    using l f(1) by (simp add: remove_creature_def getQTNode_leaf_at [OF map_okD(4) [OF m]])
  moreover have "on_map ?m' = (on_map m)(c := False)" by (rule ext) (rule on')
  ultimately show ?thesis
    using m' cr' by (intro exI [of _ ?m']) (simp add: index_ok_def)
qed

text \<open>A move to another leaf is a removal and a placement.\<close>

lemma move_creature_other_leaf:
  assumes m: "map_ok m" and l: "leaf_at m (px (creature_pos m c)) (py (creature_pos m c)) = Some l"
    and n: "leaf_at m (px dest) (py dest) = Some n" and "l \<noteq> n" and r: "remove_creature c m = Some m1"
  shows "move_creature c dest m = place_creature c dest m1"
proof -
  note wf = map_okD(4) [OF m]
  obtain f where f: "leaf_removeCreature (is_player m c) c (leaves m ! l) = Some f"
    and m1: "m1 = clear_caches c (upd_leaf l (\<lambda>_. f) m)"
    using r l by (auto simp: remove_creature_def getQTNode_leaf_at [OF wf] split: option.splits)
  have q: "getQTNode x y (clear_caches c m) = leaf_at m x y"
    "getQTNode x y ((clear_caches c m1)\<lparr>creature_pos := g\<rparr>) = leaf_at m x y" for x y g
    by (simp_all add: getQTNode_def m1 getLeafStatic_leaf_at [OF wf] ucast_up_down)
  have "move_creature c dest m = Some ((clear_caches c (upd_leaf n (leaf_addCreature (is_player m c) c)
      (upd_leaf l (\<lambda>_. f) (clear_caches c m))))\<lparr>creature_pos := (creature_pos m)(c := dest)\<rparr>)"
    using l n f \<open>l \<noteq> n\<close> by (simp add: move_creature_def Let_def q)
  also have "\<dots> = Some (upd_leaf n (leaf_addCreature (is_player m c) c)
      ((clear_caches c m1)\<lparr>creature_pos := (creature_pos m)(c := dest)\<rparr>))"
    unfolding m1 upd_leaf_def clear_caches_def Let_def by simp
  also have "\<dots> = place_creature c dest m1"
    using n by (simp add: place_creature_def Let_def q) (simp add: m1)
  finally show ?thesis .
qed

lemma move_creature_ok:
  assumes ok: "index_ok m" and on: "on_map m c" and dest: "leaf_at m (px dest) (py dest) = Some n"
  shows "\<exists>m'. move_creature c dest m = Some m' \<and> index_ok m' \<and> on_map m' = on_map m \<and>
    creature_pos m' = (creature_pos m)(c := dest) \<and> is_player m' = is_player m \<and> leaf_at m' = leaf_at m"
proof -
  have m: "map_ok m" and cr: "creatures_ok m" and ca: "caches_ok m" using ok by (simp_all add: index_ok_def)
  obtain l where l: "leaf_at m (px (creature_pos m c)) (py (creature_pos m c)) = Some l"
    using on by (auto simp: on_map_def)
  show ?thesis
  proof (cases "l = n")
    case False
    obtain m1 where m1: "remove_creature c m = Some m1" "index_ok m1" "on_map m1 = (on_map m)(c := False)"
      "creature_pos m1 = creature_pos m" "is_player m1 = is_player m" "leaf_at m1 = leaf_at m"
      using remove_creature_ok [OF ok on] by blast
    have "\<not> on_map m1 c" "leaf_at m1 (px dest) (py dest) = Some n" using m1(3,6) dest by simp_all
    from place_creature_ok [OF m1(2) this] obtain m' where m': "place_creature c dest m1 = Some m'" "index_ok m'"
      "on_map m' = (on_map m1)(c := True)" "creature_pos m' = (creature_pos m1)(c := dest)"
      "is_player m' = is_player m1" "leaf_at m' = leaf_at m1" by blast
    have "on_map m' = on_map m" using on unfolding m'(3) m1(3) by (simp add: fun_upd_idem)
    then show ?thesis
      using m' m1 by (intro exI [of _ m']) (simp add: move_creature_other_leaf [OF m l dest False m1(1)])
  next
    case True
    let ?m' = "(clear_caches c (clear_caches c m))\<lparr>creature_pos := (creature_pos m)(c := dest)\<rparr>"
    have q: "getQTNode x y (clear_caches c m) = leaf_at m x y" for x y
      by (simp add: getQTNode_def getLeafStatic_leaf_at [OF map_okD(4) [OF m]] ucast_up_down)
    have mv: "move_creature c dest m = Some ?m'"
      using l dest True by (simp add: move_creature_def Let_def q)
    have m': "map_ok ?m'" by (rule map_ok_same [OF m]) simp_all
    have at: "leaf_at ?m' = leaf_at m" by simp
    have cells: "cell (px dest) = cell (px (creature_pos m c))" "cell (py dest) = cell (py (creature_pos m c))"
      using map_okD(6) [OF m dest, of "px (creature_pos m c)" "py (creature_pos m c)"] l True by simp_all
    have cr': "creatures_ok ?m'"
      unfolding creatures_ok_def at
    proof (intro allI impI)
      fix x y n assume n: "leaf_at m x y = Some n"
      show "distinct (creature_list (leaves ?m' ! n)) \<and> distinct (player_list (leaves ?m' ! n)) \<and>
          set (player_list (leaves ?m' ! n)) = {c \<in> set (creature_list (leaves ?m' ! n)). is_player ?m' c} \<and>
          (\<forall>c\<in>set (creature_list (leaves ?m' ! n)).
             cell (px (creature_pos ?m' c)) = cell x \<and> cell (py (creature_pos ?m' c)) = cell y)"
        using creatures_okD [OF cr n] cells by simp
    qed
    have on': "on_map ?m' = on_map m"
      by (rule ext) (simp add: on_map_iff [OF m' cr'] on_map_iff [OF m cr] at)
    have "caches_ok ?m'" by (rule cleared_caches_ok [OF ca, where c = c]) (simp_all add: on')
    then show ?thesis using mv m' cr' on' by (simp add: index_ok_def)
  qed
qed

lemma setTile_index_ok:
  assumes ok: "index_ok m"
  shows "\<exists>m'. setTile x y z t m = Some (m', getTile x y z m) \<and> index_ok m' \<and> on_map m' = on_map m \<and>
    creature_pos m' = creature_pos m \<and> is_player m' = is_player m"
proof -
  have m: "map_ok m" and cr: "creatures_ok m" and ca: "caches_ok m" using ok by (simp_all add: index_ok_def)
  obtain m' where st: "setTile x y z t m = Some (m', getTile x y z m)" and m': "map_ok m'"
    and same: "same_creatures m m'"
    using setTile_spec [OF m] by blast
  have keep: "creature_pos m' = creature_pos m" "is_player m' = is_player m" "spectatorCache m' = spectatorCache m"
    "playersSpectatorCache m' = playersSpectatorCache m" using same by (simp_all add: same_creatures_def)
  have sc: "case leaf_at m' x y of None \<Rightarrow> leaf_at m x y = None
       | Some l \<Rightarrow>
           (case leaf_at m x y of
              None \<Rightarrow> creature_list (leaves m' ! l) = [] \<and> player_list (leaves m' ! l) = []
            | Some k \<Rightarrow> creature_list (leaves m' ! l) = creature_list (leaves m ! k) \<and>
                        player_list (leaves m' ! l) = player_list (leaves m ! k))" for x y
    using same unfolding same_creatures_def by blast
  have lists: "(\<exists>k. leaf_at m x y = Some k \<and> creature_list (leaves m' ! l) = creature_list (leaves m ! k) \<and>
        player_list (leaves m' ! l) = player_list (leaves m ! k)) \<or>
      leaf_at m x y = None \<and> creature_list (leaves m' ! l) = [] \<and> player_list (leaves m' ! l) = []"
    if "leaf_at m' x y = Some l" for x y l
    using sc [of x y] that by (cases "leaf_at m x y") simp_all
  have cr': "creatures_ok m'"
    unfolding creatures_ok_def
  proof (intro allI impI)
    fix x y l assume l: "leaf_at m' x y = Some l"
    show "distinct (creature_list (leaves m' ! l)) \<and> distinct (player_list (leaves m' ! l)) \<and>
        set (player_list (leaves m' ! l)) = {c \<in> set (creature_list (leaves m' ! l)). is_player m' c} \<and>
        (\<forall>c\<in>set (creature_list (leaves m' ! l)).
           cell (px (creature_pos m' c)) = cell x \<and> cell (py (creature_pos m' c)) = cell y)"
      using lists [OF l] creatures_okD [OF cr, of x y] by (auto simp: keep)
  qed
  have "on_map m' c = on_map m c" for c
  proof
    assume "on_map m' c"
    then show "on_map m c" using lists by (fastforce simp: on_map_def keep)
  next
    assume "on_map m c"
    then obtain k where k: "leaf_at m (px (creature_pos m c)) (py (creature_pos m c)) = Some k"
      "c \<in> set (creature_list (leaves m ! k))" by (auto simp: on_map_def)
    obtain l where l: "leaf_at m' (px (creature_pos m c)) (py (creature_pos m c)) = Some l"
      using sc [of "px (creature_pos m c)" "py (creature_pos m c)"] k(1) by (simp split: option.splits)
    from lists [OF l] k show "on_map m' c" using l by (auto simp: on_map_def keep)
  qed
  then have on: "on_map m' = on_map m" by blast
  have "caches_ok m'" using ca by (simp add: caches_ok_def keep viewers_def on)
  then show ?thesis using st m' cr' on keep by (simp add: index_ok_def)
qed

section \<open>Searching with caches\<close>

definition asked_ranges :: "position \<Rightarrow> bool \<Rightarrow> int \<Rightarrow> int \<Rightarrow> int \<Rightarrow> int \<Rightarrow> ranges" where
  "asked_ranges center multifloor x1 x2 y1 y2 =
     viewport_ranges multifloor (pz center)
       (if x1 = 0 then - maxViewportX else - x1) (if x2 = 0 then maxViewportX else x2)
       (if y1 = 0 then - maxViewportY else - y1) (if y2 = 0 then maxViewportY else y2)"

lemma getSpectators_ok:
  assumes ok: "index_ok m" and z: "unat (pz center) < MAP_MAX_LAYERS"
    and g: "getSpectators [] center multifloor op x1 x2 y1 y2 m = (vs, m')"
  shows "set vs = {c. on_map m c \<and> spectates center (asked_ranges center multifloor x1 x2 y1 y2) (creature_pos m c) \<and>
      (op \<longrightarrow> is_player m c)}" (is "_ = ?S") and "distinct vs"
    and "index_ok m'" and "on_map m' = on_map m" and "creature_pos m' = creature_pos m"
    and "is_player m' = is_player m" and "qroot m' = qroot m" and "leaves m' = leaves m"
proof -
  have m: "map_ok m" and cr: "creatures_ok m" and ca: "caches_ok m" using ok by (simp_all add: index_ok_def)
  let ?r = "asked_ranges center multifloor x1 x2 y1 y2"
  let ?found = "getSpectatorsInternal m center ?r op"
  define usual where "usual \<longleftrightarrow>
    (if x1 = 0 then - maxViewportX else - x1) = - maxViewportX \<and> (if x2 = 0 then maxViewportX else x2) = maxViewportX \<and>
    (if y1 = 0 then - maxViewportY else - y1) = - maxViewportY \<and> (if y2 = 0 then maxViewportY else y2) = maxViewportY \<and>
    multifloor"
  have found: "set ?found = ?S" "distinct ?found" using internal_spectators [OF m cr] by simp_all
  have r: "usual \<Longrightarrow> ?r = usual_view center"
    unfolding usual_def asked_ranges_def usual_view_def by (elim conjE) (simp only:)
  then have S: "usual \<Longrightarrow> ?S = viewers m center op" by (simp add: viewers_def)
  have eq: "getSpectators [] center multifloor op x1 x2 y1 y2 m =
    (if \<not> usual then (?found, m)
     else case (if op then playersSpectatorCache m center else None) of
       Some vs \<Rightarrow> (vs, m)
     | None \<Rightarrow>
         (case spectatorCache m center of
            Some vs \<Rightarrow> (if op then filter (is_player m) vs else vs, m)
          | None \<Rightarrow>
              (?found, if op then m\<lparr>playersSpectatorCache := (playersSpectatorCache m)(center \<mapsto> ?found)\<rparr>
                else m\<lparr>spectatorCache := (spectatorCache m)(center \<mapsto> ?found)\<rparr>)))"
    using z by (simp add: getSpectators_def Let_def usual_def asked_ranges_def cong: option.case_cong)
  have m': "m' = m \<or> (usual \<and> vs = ?found \<and>
      m' = (if op then m\<lparr>playersSpectatorCache := (playersSpectatorCache m)(center \<mapsto> ?found)\<rparr>
                else m\<lparr>spectatorCache := (spectatorCache m)(center \<mapsto> ?found)\<rparr>))"
    using g unfolding eq by (auto split: if_splits option.splits)
  then show same: "creature_pos m' = creature_pos m" "is_player m' = is_player m"
    "qroot m' = qroot m" "leaves m' = leaves m" by auto
  have at: "leaf_at m' = leaf_at m" by (rule leaf_at_cong [OF same(3)])
  show on: "on_map m' = on_map m" by (simp add: on_map_def same at fun_eq_iff)
  have vw: "viewers m' p o' = viewers m p o'" for p o' by (simp add: viewers_def on same)
  have "caches_ok m'"
    using m'
  proof (elim disjE conjE)
    assume "m' = m"
    then show ?thesis using ca by simp
  next
    assume u: usual and eq': "m' = (if op then m\<lparr>playersSpectatorCache := (playersSpectatorCache m)(center \<mapsto> ?found)\<rparr>
                else m\<lparr>spectatorCache := (spectatorCache m)(center \<mapsto> ?found)\<rparr>)"
    have "distinct ?found \<and> set ?found = viewers m center op" using found S [OF u] by simp
    then show ?thesis using ca unfolding caches_ok_def vw by (cases op) (simp_all add: eq')
  qed
  moreover have "creatures_ok m'" using cr by (simp add: creatures_ok_def at same)
  moreover have "map_ok m'" by (rule map_ok_same [OF m same(3,4)])
  ultimately show "index_ok m'" by (simp add: index_ok_def)
  have cache: "\<And>vs. spectatorCache m center = Some vs \<Longrightarrow> distinct vs \<and> set vs = viewers m center False"
    "\<And>vs. playersSpectatorCache m center = Some vs \<Longrightarrow> distinct vs \<and> set vs = viewers m center True"
    using ca unfolding caches_ok_def by blast+
  have fl: "{c \<in> viewers m center False. is_player m c} = viewers m center True" by (auto simp: viewers_def)
  have "set vs = ?S \<and> distinct vs"
  proof (cases usual)
    case False
    then show ?thesis using g found unfolding eq by auto
  next
    case True
    then show ?thesis
      using g found cache fl unfolding eq S [OF True] by (auto split: if_splits option.splits)
  qed
  then show "set vs = ?S" "distinct vs" by simp_all
qed

lemma getSpectators_out_of_range:
  "\<not> unat (pz center) < MAP_MAX_LAYERS \<Longrightarrow> getSpectators vec center mf op x1 x2 y1 y2 m = (vec, m)"
  by (simp add: getSpectators_def)

section \<open>What a client of the index relies on\<close>

text \<open>An index of things that have places: what is in it, how it changes, and a search.\<close>

locale place_index =
  fixes ok :: "'s \<Rightarrow> bool"
    and there :: "'s \<Rightarrow> 'c \<Rightarrow> 'p option"
    and put :: "'c \<Rightarrow> 'p \<Rightarrow> 's \<Rightarrow> 's option"
    and move :: "'c \<Rightarrow> 'p \<Rightarrow> 's \<Rightarrow> 's option"
    and drop_out :: "'c \<Rightarrow> 's \<Rightarrow> 's option"
    and room :: "'s \<Rightarrow> 'p \<Rightarrow> bool"
    and search :: "'q \<Rightarrow> 's \<Rightarrow> 'c list"
    and matches :: "'s \<Rightarrow> 'q \<Rightarrow> 'c \<Rightarrow> 'p \<Rightarrow> bool"
  assumes put: "\<lbrakk>ok s; there s c = None; room s p\<rbrakk> \<Longrightarrow>
      \<exists>s'. put c p s = Some s' \<and> ok s' \<and> there s' = (there s)(c \<mapsto> p) \<and> room s' = room s \<and> matches s' = matches s"
    and move: "\<lbrakk>ok s; there s c \<noteq> None; room s p\<rbrakk> \<Longrightarrow>
      \<exists>s'. move c p s = Some s' \<and> ok s' \<and> there s' = (there s)(c \<mapsto> p) \<and> room s' = room s \<and> matches s' = matches s"
    and drop_out: "\<lbrakk>ok s; there s c \<noteq> None\<rbrakk> \<Longrightarrow>
      \<exists>s'. drop_out c s = Some s' \<and> ok s' \<and> there s' = (there s)(c := None) \<and> room s' = room s \<and> matches s' = matches s"
    and search: "ok s \<Longrightarrow> c \<in> set (search q s) \<longleftrightarrow> (\<exists>p. there s c = Some p \<and> matches s q c p)"
begin

lemma moved_is_found:
  assumes "ok s" and "there s c \<noteq> None" and "room s p" and "move c p s = Some s'"
  shows "c \<in> set (search q s') \<longleftrightarrow> matches s q c p"
    and "k \<noteq> c \<Longrightarrow> k \<in> set (search q s') \<longleftrightarrow> k \<in> set (search q s)"
proof -
  obtain t where t: "move c p s = Some t" "ok t" "there t = (there s)(c \<mapsto> p)" "matches t = matches s"
    using move [OF assms(1-3)] by blast
  then have "ok s'" "there s' = (there s)(c \<mapsto> p)" "matches s' = matches s" using assms(4) by simp_all
  then show "c \<in> set (search q s') \<longleftrightarrow> matches s q c p"
    and "k \<noteq> c \<Longrightarrow> k \<in> set (search q s') \<longleftrightarrow> k \<in> set (search q s)"
    using assms(1) by (simp_all add: search)
qed

lemma dropped_is_not_found:
  assumes "ok s" and "there s c \<noteq> None" and "drop_out c s = Some s'"
  shows "c \<notin> set (search q s')"
proof -
  obtain t where "drop_out c s = Some t" "ok t" "there t = (there s)(c := None)"
    using drop_out [OF assms(1,2)] by blast
  then show ?thesis using assms(3) by (simp add: search)
qed

lemma put_then_dropped:
  assumes "ok s" and "there s c = None" and "room s p"
  shows "\<exists>s' s''. put c p s = Some s' \<and> drop_out c s' = Some s'' \<and> ok s'' \<and> there s'' = there s"
proof -
  obtain s' where s': "put c p s = Some s'" "ok s'" "there s' = (there s)(c \<mapsto> p)" using put [OF assms] by blast
  then have "there s' c \<noteq> None" by simp
  from drop_out [OF s'(2) this] obtain s'' where s'': "drop_out c s' = Some s''" "ok s''" "there s'' = (there s')(c := None)"
    by blast
  have "there s'' = there s" using s''(3) s'(3) assms(2) by (simp add: fun_upd_idem)
  then show ?thesis using s' s'' by blast
qed

end

definition creature_at :: "quad_map \<Rightarrow> creature_ref \<Rightarrow> position option" where
  "creature_at m c = (if on_map m c then Some (creature_pos m c) else None)"

definition has_leaf :: "quad_map \<Rightarrow> position \<Rightarrow> bool" where
  "has_leaf m p \<longleftrightarrow> getQTNode (px p) (py p) m \<noteq> None"

text \<open>A question to \<open>getSpectators\<close>: the centre, several floors, players only, and the four ranges.\<close>

type_synonym view_query = "position \<times> bool \<times> bool \<times> int \<times> int \<times> int \<times> int"

definition ask :: "view_query \<Rightarrow> quad_map \<Rightarrow> creature_ref list" where
  "ask q m = (let (p, mf, op, x1, x2, y1, y2) = q in fst (getSpectators [] p mf op x1 x2 y1 y2 m))"

definition sees :: "quad_map \<Rightarrow> view_query \<Rightarrow> creature_ref \<Rightarrow> position \<Rightarrow> bool" where
  "sees m q c cpos \<longleftrightarrow>
     (let (p, mf, op, x1, x2, y1, y2) = q
      in unat (pz p) < MAP_MAX_LAYERS \<and> spectates p (asked_ranges p mf x1 x2 y1 y2) cpos \<and> (op \<longrightarrow> is_player m c))"

lemma has_leaf_leaf_at: "index_ok m \<Longrightarrow> has_leaf m p \<longleftrightarrow> (\<exists>l. leaf_at m (px p) (py p) = Some l)"
  by (simp add: has_leaf_def index_ok_def getQTNode_leaf_at map_okD(4))

lemma sees_cong: "is_player m' = is_player m \<Longrightarrow> sees m' = sees m"
  by (simp add: sees_def fun_eq_iff)

lemma ask_iff:
  assumes "index_ok m"
  shows "c \<in> set (ask q m) \<longleftrightarrow> (\<exists>p. creature_at m c = Some p \<and> sees m q c p)"
proof -
  obtain p mf op x1 x2 y1 y2 where q: "q = (p, mf, op, x1, x2, y1, y2)" by (cases q)
  show ?thesis
  proof (cases "unat (pz p) < MAP_MAX_LAYERS")
    case True
    show ?thesis
      using getSpectators_ok(1) [OF assms True, of mf op x1 x2 y1 y2 "fst (getSpectators [] p mf op x1 x2 y1 y2 m)"
        "snd (getSpectators [] p mf op x1 x2 y1 y2 m)"] True
      by (auto simp: ask_def sees_def q creature_at_def)
  qed (simp add: ask_def sees_def q getSpectators_out_of_range)
qed

interpretation qm: place_index index_ok creature_at place_creature move_creature remove_creature has_leaf ask sees
proof
  fix s c p assume a: "index_ok s" "creature_at s c = None" "has_leaf s p"
  then obtain l where l: "leaf_at s (px p) (py p) = Some l" using has_leaf_leaf_at by blast
  have "\<not> on_map s c" using a(2) by (simp add: creature_at_def split: if_splits)
  from place_creature_ok [OF a(1) this l]
  show "\<exists>s'. place_creature c p s = Some s' \<and> index_ok s' \<and> creature_at s' = (creature_at s)(c \<mapsto> p) \<and>
      has_leaf s' = has_leaf s \<and> sees s' = sees s"
    using a(1) by (auto simp: creature_at_def has_leaf_leaf_at fun_eq_iff sees_def)
next
  fix s c p assume a: "index_ok s" "creature_at s c \<noteq> None" "has_leaf s p"
  then obtain l where l: "leaf_at s (px p) (py p) = Some l" using has_leaf_leaf_at by blast
  have "on_map s c" using a(2) by (simp add: creature_at_def split: if_splits)
  from this move_creature_ok [OF a(1) this l]
  show "\<exists>s'. move_creature c p s = Some s' \<and> index_ok s' \<and> creature_at s' = (creature_at s)(c \<mapsto> p) \<and>
      has_leaf s' = has_leaf s \<and> sees s' = sees s"
    using a(1) by (auto simp: creature_at_def has_leaf_leaf_at fun_eq_iff sees_def)
next
  fix s c assume a: "index_ok s" "creature_at s c \<noteq> None"
  then have "on_map s c" by (simp add: creature_at_def split: if_splits)
  from remove_creature_ok [OF a(1) this]
  show "\<exists>s'. remove_creature c s = Some s' \<and> index_ok s' \<and> creature_at s' = (creature_at s)(c := None) \<and>
      has_leaf s' = has_leaf s \<and> sees s' = sees s"
    using a(1) by (auto simp: creature_at_def has_leaf_leaf_at fun_eq_iff sees_def)
next
  fix s c q assume "index_ok s"
  then show "c \<in> set (ask q s) \<longleftrightarrow> (\<exists>p. creature_at s c = Some p \<and> sees s q c p)" by (rule ask_iff)
qed

section \<open>The map as two plain functions\<close>

text \<open>Operations on the map, and what they mean for the places of creatures and for tiles.\<close>

datatype index_op =
    Set_Tile position tile_ref
  | Place creature_ref position
  | Move creature_ref position
  | Remove creature_ref
  | Search view_query

fun exec_op :: "index_op \<Rightarrow> quad_map \<Rightarrow> quad_map option" where
  "exec_op (Set_Tile p t) m = map_option fst (setTile (px p) (py p) (pz p) t m)"
| "exec_op (Place c p) m = place_creature c p m"
| "exec_op (Move c p) m = move_creature c p m"
| "exec_op (Remove c) m = remove_creature c m"
| "exec_op (Search (p, mf, op, x1, x2, y1, y2)) m = Some (snd (getSpectators [] p mf op x1 x2 y1 y2 m))"

fun exec_ops :: "index_op list \<Rightarrow> quad_map \<Rightarrow> quad_map option" where
  "exec_ops [] m = Some m"
| "exec_ops (op # ops) m = (case exec_op op m of None \<Rightarrow> None | Some m \<Rightarrow> exec_ops ops m)"

type_synonym plain_map = "(creature_ref \<Rightarrow> position option) \<times> (position \<Rightarrow> tile_ref option)"

text \<open>A tile is only set once: a second one is merged into it. Creatures stand on tiles.\<close>

fun spec_op :: "index_op \<Rightarrow> plain_map \<Rightarrow> plain_map" where
  "spec_op (Set_Tile p t) (cs, ts) = (cs, if unat (pz p) < MAP_MAX_LAYERS \<and> ts p = None then ts(p \<mapsto> t) else ts)"
| "spec_op (Place c p) (cs, ts) = (cs(c \<mapsto> p), ts)"
| "spec_op (Move c p) (cs, ts) = (cs(c \<mapsto> p), ts)"
| "spec_op (Remove c) (cs, ts) = (cs(c := None), ts)"
| "spec_op (Search q) (cs, ts) = (cs, ts)"

fun allowed :: "index_op \<Rightarrow> plain_map \<Rightarrow> bool" where
  "allowed (Set_Tile p t) (cs, ts) = True"
| "allowed (Place c p) (cs, ts) = (cs c = None \<and> ts p \<noteq> None)"
| "allowed (Move c p) (cs, ts) = (cs c \<noteq> None \<and> ts p \<noteq> None)"
| "allowed (Remove c) (cs, ts) = (cs c \<noteq> None)"
| "allowed (Search q) (cs, ts) = True"

fun all_allowed :: "index_op list \<Rightarrow> plain_map \<Rightarrow> bool" where
  "all_allowed [] a = True"
| "all_allowed (op # ops) a = (allowed op a \<and> all_allowed ops (spec_op op a))"

definition refines :: "quad_map \<Rightarrow> plain_map \<Rightarrow> bool" where
  "refines m a \<longleftrightarrow>
     index_ok m \<and> creature_at m = fst a \<and> (\<forall>p. getTile (px p) (py p) (pz p) m = snd a p)"

definition same_tiles :: "quad_map \<Rightarrow> quad_map \<Rightarrow> bool" where
  "same_tiles m m' \<longleftrightarrow> qroot m' = qroot m \<and> (\<forall>n. floors (leaves m' ! n) = floors (leaves m ! n))"

lemma same_tiles_getTile: "same_tiles m m' \<Longrightarrow> getTile x y z m' = getTile x y z m"
  by (simp add: same_tiles_def getTile_def getQTNode_def leaf_tile_def getFloor_def cong: option.case_cong)

lemma same_tiles_trans: "same_tiles m m' \<Longrightarrow> same_tiles m' m'' \<Longrightarrow> same_tiles m m''"
  by (simp add: same_tiles_def)

lemma same_tiles_upd:
  assumes "floors (f (leaves m ! l)) = floors (leaves m ! l)"
  shows "same_tiles m (upd_leaf l f m)"
proof -
  have "floors (leaves (upd_leaf l f m) ! n) = floors (leaves m ! n)" for n
    using assms by (cases "n = l"; cases "l < length (leaves m)") (simp_all add: upd_leaf_def list_update_beyond)
  then show ?thesis by (simp add: same_tiles_def)
qed

lemma same_tiles_fields [simp]:
  "same_tiles m (clear_caches c m') = same_tiles m m'"
  "same_tiles m (m'\<lparr>creature_pos := f\<rparr>) = same_tiles m m'"
  "same_tiles (clear_caches c m) m' = same_tiles m m'"
  "same_tiles (m\<lparr>creature_pos := f\<rparr>) m' = same_tiles m m'"
  by (simp_all add: same_tiles_def)

lemma same_tiles_refl [simp]: "same_tiles m m"
  by (simp add: same_tiles_def)

lemma place_same_tiles: "place_creature c p m = Some m' \<Longrightarrow> same_tiles m m'"
proof -
  assume a: "place_creature c p m = Some m'"
  let ?m = "(clear_caches c m)\<lparr>creature_pos := (creature_pos m)(c := p)\<rparr>"
  obtain l where "m' = upd_leaf l (leaf_addCreature (is_player m c) c) ?m"
    using a by (auto simp: place_creature_def Let_def split: option.splits)
  moreover have "same_tiles ?m (upd_leaf l (leaf_addCreature (is_player m c) c) ?m)"
    by (rule same_tiles_upd) simp
  ultimately show ?thesis by simp
qed

lemma leaf_removeCreature_floors: "leaf_removeCreature p c l = Some f \<Longrightarrow> floors f = floors l"
  by (auto simp: leaf_removeCreature_def Let_def split: option.splits if_splits)

lemma remove_same_tiles: "remove_creature c m = Some m' \<Longrightarrow> same_tiles m m'"
  by (auto simp: remove_creature_def leaf_removeCreature_floors intro!: same_tiles_upd split: option.splits)

lemma move_same_tiles: "move_creature c p m = Some m' \<Longrightarrow> same_tiles m m'"
proof -
  assume a: "move_creature c p m = Some m'"
  let ?m = "clear_caches c m"
  consider "m' = (clear_caches c ?m)\<lparr>creature_pos := (creature_pos ?m)(c := p)\<rparr>"
    | l n f where "leaf_removeCreature (is_player ?m c) c (leaves ?m ! l) = Some f"
      "m' = (clear_caches c (upd_leaf n (leaf_addCreature (is_player ?m c) c) (upd_leaf l (\<lambda>_. f) ?m)))
        \<lparr>creature_pos := (creature_pos ?m)(c := p)\<rparr>"
    using a by (auto simp: move_creature_def Let_def split: if_splits option.splits)
  then show ?thesis
  proof cases
    case (2 l n f)
    have "same_tiles ?m (upd_leaf l (\<lambda>_. f) ?m)"
      using leaf_removeCreature_floors [OF 2(1)] by (intro same_tiles_upd)
    from same_tiles_trans [OF this same_tiles_upd [of "leaf_addCreature (is_player ?m c) c" _ n]]
    show ?thesis by (simp add: 2(2))
  qed simp
qed

lemma tile_has_leaf: "getTile (px p) (py p) (pz p) m \<noteq> None \<Longrightarrow> has_leaf m p"
  by (auto simp: getTile_def has_leaf_def split: if_splits option.splits)

lemma refines_step:
  assumes r: "refines m a" and "allowed op a"
  shows "\<exists>m'. exec_op op m = Some m' \<and> refines m' (spec_op op a) \<and> is_player m' = is_player m"
proof -
  obtain cs ts where a: "a = (cs, ts)" by (cases a)
  have ok: "index_ok m" and cs: "creature_at m = cs" and ts: "\<And>p. getTile (px p) (py p) (pz p) m = ts p"
    using r by (simp_all add: refines_def a)
  have leaf: "has_leaf m p" if "ts p \<noteq> None" for p using tile_has_leaf [of p m] that by (simp add: ts)
  have tiles: "getTile (px p) (py p) (pz p) m' = ts p" if "same_tiles m m'" for m' p
    using same_tiles_getTile [OF that] by (simp add: ts)
  show ?thesis
  proof (cases op)
    case (Set_Tile p t)
    obtain m' where m': "setTile (px p) (py p) (pz p) t m = Some (m', getTile (px p) (py p) (pz p) m)" "index_ok m'"
      "on_map m' = on_map m" "creature_pos m' = creature_pos m" "is_player m' = is_player m"
      using setTile_index_ok [OF ok] by blast
    have "map_ok m" using ok by (simp add: index_ok_def)
    from setTile_spec [OF this, of "px p" "py p" "pz p" t] m'(1)
    have get: "getTile X Y Z m' = (if X = px p \<and> Y = py p \<and> Z = pz p \<and> unat (pz p) < MAP_MAX_LAYERS \<and>
        getTile (px p) (py p) (pz p) m = None then Some t else getTile X Y Z m)" for X Y Z by auto
    have "(q = p) = (px q = px p \<and> py q = py p \<and> pz q = pz p)" for q by auto
    then have "getTile (px q) (py q) (pz q) m' = snd (spec_op op a) q" for q
      unfolding get by (simp add: Set_Tile a ts)
    moreover have "creature_at m' = cs" by (simp add: cs [symmetric] creature_at_def m' fun_eq_iff)
    ultimately show ?thesis using m' by (simp add: refines_def Set_Tile a)
  next
    case (Place c p)
    then have "creature_at m c = None" "has_leaf m p" using assms(2) leaf by (simp_all add: a cs)
    from qm.put [OF ok this] obtain m' where m': "place_creature c p m = Some m'" "index_ok m'"
      "creature_at m' = (creature_at m)(c \<mapsto> p)" by blast
    have "is_player m' = is_player m" using m'(1) by (auto simp: place_creature_def Let_def split: option.splits)
    then show ?thesis using m' tiles [OF place_same_tiles [OF m'(1)]] by (simp add: refines_def Place a cs)
  next
    case (Move c p)
    then have "creature_at m c \<noteq> None" "has_leaf m p" using assms(2) leaf by (simp_all add: a cs)
    from qm.move [OF ok this] obtain m' where m': "move_creature c p m = Some m'" "index_ok m'"
      "creature_at m' = (creature_at m)(c \<mapsto> p)" by blast
    have "is_player m' = is_player m" using m'(1) by (auto simp: move_creature_def Let_def split: option.splits if_splits)
    then show ?thesis using m' tiles [OF move_same_tiles [OF m'(1)]] by (simp add: refines_def Move a cs)
  next
    case (Remove c)
    then have "creature_at m c \<noteq> None" using assms(2) by (simp add: a cs)
    from qm.drop_out [OF ok this] obtain m' where m': "remove_creature c m = Some m'" "index_ok m'"
      "creature_at m' = (creature_at m)(c := None)" by blast
    have "is_player m' = is_player m" using m'(1) by (auto simp: remove_creature_def split: option.splits)
    then show ?thesis using m' tiles [OF remove_same_tiles [OF m'(1)]] by (simp add: refines_def Remove a cs)
  next
    case (Search q)
    obtain p mf opl x1 x2 y1 y2 where q: "q = (p, mf, opl, x1, x2, y1, y2)" by (cases q)
    let ?m = "snd (getSpectators [] p mf opl x1 x2 y1 y2 m)"
    have "index_ok ?m \<and> on_map ?m = on_map m \<and> creature_pos ?m = creature_pos m \<and> is_player ?m = is_player m \<and>
        qroot ?m = qroot m \<and> leaves ?m = leaves m"
    proof (cases "unat (pz p) < MAP_MAX_LAYERS")
      case True
      from getSpectators_ok [OF ok this, where multifloor = mf and op = opl and ?x1.0 = x1 and ?x2.0 = x2
        and ?y1.0 = y1 and ?y2.0 = y2, OF prod.collapse [symmetric]] show ?thesis by blast
    qed (simp add: getSpectators_out_of_range ok)
    then have "refines ?m (cs, ts)" "is_player ?m = is_player m"
      using tiles [of ?m] by (auto simp: refines_def cs [symmetric] creature_at_def same_tiles_def)
    then show ?thesis by (simp add: Search q a)
  qed
qed

lemma refines_run:
  "refines m a \<Longrightarrow> all_allowed ops a \<Longrightarrow>
   \<exists>m'. exec_ops ops m = Some m' \<and> refines m' (fold spec_op ops a) \<and> is_player m' = is_player m"
proof (induction ops arbitrary: m a)
  case (Cons op ops)
  then obtain m1 where m1: "exec_op op m = Some m1" "refines m1 (spec_op op a)" "is_player m1 = is_player m"
    using refines_step [of m a op] by auto
  with Cons.IH [OF m1(2)] Cons.prems(2) show ?case by auto
qed simp

lemma refines_new: "refines (new_map cpos players) ((\<lambda>c. None), (\<lambda>p. None))"
proof -
  note ok = new_map_ok [of cpos players]
  have at: "leaf_at (new_map cpos players) x y = None" for x y
    by (simp add: leaf_at_def new_map_def del: getLeaf.simps)
  have "creatures_ok (new_map cpos players)" by (simp add: creatures_ok_def at)
  moreover have "caches_ok (new_map cpos players)" by (simp add: caches_ok_def new_map_def)
  ultimately show ?thesis
    using ok by (simp add: refines_def index_ok_def creature_at_def on_map_def at getTile_leaf_at [OF ok] fun_eq_iff)
qed

section \<open>What holds of every run\<close>

text \<open>C31: The quad tree with its leaves, floors, lists and links is a map from positions to tiles and
  from creatures to positions: operations in any order, on a map that is empty at first, never
  dereference a missing leaf, and what they leave is what the same operations leave of two plain
  functions.\<close>

theorem map_index_refines:
  assumes "all_allowed ops ((\<lambda>c. None), (\<lambda>p. None))"
  shows "\<exists>m. exec_ops ops (new_map cpos players) = Some m \<and>
    creature_at m = fst (fold spec_op ops ((\<lambda>c. None), (\<lambda>p. None))) \<and>
    (\<forall>p. getTile (px p) (py p) (pz p) m = snd (fold spec_op ops ((\<lambda>c. None), (\<lambda>p. None))) p)"
proof -
  obtain m where "exec_ops ops (new_map cpos players) = Some m" "refines m (fold spec_op ops ((\<lambda>c. None), (\<lambda>p. None)))"
    using refines_run [OF refines_new assms, of cpos players] by blast
  then show ?thesis unfolding refines_def by blast
qed

text \<open>C32: After any operations, and however the caches are filled, \<open>getSpectators\<close> answers with
  exactly the creatures that were placed, moved last to a position in range, and not removed, each
  once: following the links of the leaves from the first one of each row misses no one.\<close>

theorem spectators_exact:
  assumes "all_allowed ops ((\<lambda>c. None), (\<lambda>p. None))" and "exec_ops ops (new_map cpos players) = Some m"
    and "unat (pz center) < MAP_MAX_LAYERS"
  shows "(c \<in> set (fst (getSpectators [] center multifloor onlyPlayers x1 x2 y1 y2 m)) \<longleftrightarrow>
      (\<exists>p. fst (fold spec_op ops ((\<lambda>c. None), (\<lambda>p. None))) c = Some p \<and>
           spectates center (asked_ranges center multifloor x1 x2 y1 y2) p \<and> (onlyPlayers \<longrightarrow> players c))) \<and>
    distinct (fst (getSpectators [] center multifloor onlyPlayers x1 x2 y1 y2 m))"
proof -
  have m: "refines m (fold spec_op ops ((\<lambda>c. None), (\<lambda>p. None)))" "is_player m = players"
    using refines_run [OF refines_new assms(1), of cpos players] assms(2) by (auto simp: new_map_def)
  then have ok: "index_ok m" and cs: "creature_at m = fst (fold spec_op ops ((\<lambda>c. None), (\<lambda>p. None)))"
    by (simp_all add: refines_def)
  note g = getSpectators_ok [OF ok assms(3), where multifloor = multifloor and op = onlyPlayers and ?x1.0 = x1
    and ?x2.0 = x2 and ?y1.0 = y1 and ?y2.0 = y2, OF prod.collapse [symmetric]]
  show ?thesis
    unfolding g(1) by (simp add: creature_at_def m(2) cs [symmetric] g(2))
qed

text \<open>A small run: a floor tile at either side of a border of leaves, a player on each, one of
  whom walks away.\<close>

definition sample_ops :: "index_op list" where
  "sample_ops = [Set_Tile \<lparr>px = 7, py = 7, pz = 7\<rparr> 100, Set_Tile \<lparr>px = 8, py = 7, pz = 7\<rparr> 101,
     Set_Tile \<lparr>px = 1000, py = 7, pz = 7\<rparr> 102, Place 1 \<lparr>px = 7, py = 7, pz = 7\<rparr>,
     Place 2 \<lparr>px = 8, py = 7, pz = 7\<rparr>, Search (\<lparr>px = 7, py = 7, pz = 7\<rparr>, True, True, 0, 0, 0, 0),
     Move 2 \<lparr>px = 1000, py = 7, pz = 7\<rparr>, Move 1 \<lparr>px = 8, py = 7, pz = 7\<rparr>]"

lemma sample_ops_allowed: "all_allowed sample_ops ((\<lambda>c. None), (\<lambda>p. None))"
  by (simp add: sample_ops_def MAP_MAX_LAYERS_def)

lemma map_index_refines_witness:
  "\<exists>m. exec_ops sample_ops (new_map (\<lambda>_. \<lparr>px = 0, py = 0, pz = 0\<rparr>) (\<lambda>_. True)) = Some m \<and>
     creature_at m = fst (fold spec_op sample_ops ((\<lambda>c. None), (\<lambda>p. None))) \<and>
     (\<forall>p. getTile (px p) (py p) (pz p) m = snd (fold spec_op sample_ops ((\<lambda>c. None), (\<lambda>p. None))) p)"
  by (rule map_index_refines [OF sample_ops_allowed])

lemma sample_run: "\<exists>m. exec_ops sample_ops (new_map (\<lambda>_. \<lparr>px = 0, py = 0, pz = 0\<rparr>) (\<lambda>_. True)) = Some m"
  using refines_run [OF refines_new sample_ops_allowed] by blast

lemma spectators_exact_witness:
  "let m = the (exec_ops sample_ops (new_map (\<lambda>_. \<lparr>px = 0, py = 0, pz = 0\<rparr>) (\<lambda>_. True)))
   in 1 \<in> set (fst (getSpectators [] \<lparr>px = 7, py = 7, pz = 7\<rparr> False True 0 0 0 0 m)) \<and>
      2 \<notin> set (fst (getSpectators [] \<lparr>px = 7, py = 7, pz = 7\<rparr> False True 0 0 0 0 m))"
proof -
  obtain m where m: "exec_ops sample_ops (new_map (\<lambda>_. \<lparr>px = 0, py = 0, pz = 0\<rparr>) (\<lambda>_. True)) = Some m"
    using sample_run by blast
  have z: "unat (pz \<lparr>px = 7, py = 7, pz = 7\<rparr>) < MAP_MAX_LAYERS" by (simp add: MAP_MAX_LAYERS_def)
  show ?thesis
    unfolding m Let_def option.sel spectators_exact [OF sample_ops_allowed m z, THEN conjunct1]
    by (simp add: sample_ops_def MAP_MAX_LAYERS_def spectates_def asked_ranges_def viewport_ranges_def floor_range_def
        maxViewportX_def maxViewportY_def getOffsetZ_def Let_def)
qed

end
