(* ===== verification/Item_Attributes.thy ===== *)
theory Item_Attributes
  imports Prelude "HOL-Library.Multiset"
begin

unbundle bit_operations_syntax

text \<open>
  The attributes of items, class \<open>ItemAttributes\<close> of \<open>src/item.h\<close> and \<open>src/item.cpp\<close>: a vector of
  typed values and a word of bits that says which types it holds. A vector entry holds an
  integer, a string or a map of custom values, as its type says; a custom map is the list of its
  entries in some order, which nothing below depends on.
\<close>

section \<open>Types of attributes\<close>

text \<open>\<open>ITEM_ATTRIBUTE_NONE\<close>, the value 0, is what a script gets for a name that is not known.\<close>

datatype itemAttrTypes =
  ITEM_ATTRIBUTE_NONE
| ITEM_ATTRIBUTE_ACTIONID | ITEM_ATTRIBUTE_UNIQUEID | ITEM_ATTRIBUTE_DESCRIPTION
| ITEM_ATTRIBUTE_TEXT | ITEM_ATTRIBUTE_DATE | ITEM_ATTRIBUTE_WRITER | ITEM_ATTRIBUTE_NAME
| ITEM_ATTRIBUTE_ARTICLE | ITEM_ATTRIBUTE_PLURALNAME | ITEM_ATTRIBUTE_WEIGHT
| ITEM_ATTRIBUTE_ATTACK | ITEM_ATTRIBUTE_DEFENSE | ITEM_ATTRIBUTE_EXTRADEFENSE
| ITEM_ATTRIBUTE_ARMOR | ITEM_ATTRIBUTE_HITCHANCE | ITEM_ATTRIBUTE_SHOOTRANGE
| ITEM_ATTRIBUTE_OWNER | ITEM_ATTRIBUTE_DURATION | ITEM_ATTRIBUTE_DECAYSTATE
| ITEM_ATTRIBUTE_CORPSEOWNER | ITEM_ATTRIBUTE_CHARGES | ITEM_ATTRIBUTE_FLUIDTYPE
| ITEM_ATTRIBUTE_DOORID | ITEM_ATTRIBUTE_DECAYTO | ITEM_ATTRIBUTE_WRAPID
| ITEM_ATTRIBUTE_STOREITEM | ITEM_ATTRIBUTE_ATTACK_SPEED | ITEM_ATTRIBUTE_CUSTOM

text \<open>The place of the bit of a type; \<open>ITEM_ATTRIBUTE_NONE\<close> has none, which is a place outside the word.\<close>

fun attr_index :: "itemAttrTypes \<Rightarrow> nat" where
  "attr_index ITEM_ATTRIBUTE_ACTIONID = 0"
| "attr_index ITEM_ATTRIBUTE_UNIQUEID = 1"
| "attr_index ITEM_ATTRIBUTE_DESCRIPTION = 2"
| "attr_index ITEM_ATTRIBUTE_TEXT = 3"
| "attr_index ITEM_ATTRIBUTE_DATE = 4"
| "attr_index ITEM_ATTRIBUTE_WRITER = 5"
| "attr_index ITEM_ATTRIBUTE_NAME = 6"
| "attr_index ITEM_ATTRIBUTE_ARTICLE = 7"
| "attr_index ITEM_ATTRIBUTE_PLURALNAME = 8"
| "attr_index ITEM_ATTRIBUTE_WEIGHT = 9"
| "attr_index ITEM_ATTRIBUTE_ATTACK = 10"
| "attr_index ITEM_ATTRIBUTE_DEFENSE = 11"
| "attr_index ITEM_ATTRIBUTE_EXTRADEFENSE = 12"
| "attr_index ITEM_ATTRIBUTE_ARMOR = 13"
| "attr_index ITEM_ATTRIBUTE_HITCHANCE = 14"
| "attr_index ITEM_ATTRIBUTE_SHOOTRANGE = 15"
| "attr_index ITEM_ATTRIBUTE_OWNER = 16"
| "attr_index ITEM_ATTRIBUTE_DURATION = 17"
| "attr_index ITEM_ATTRIBUTE_DECAYSTATE = 18"
| "attr_index ITEM_ATTRIBUTE_CORPSEOWNER = 19"
| "attr_index ITEM_ATTRIBUTE_CHARGES = 20"
| "attr_index ITEM_ATTRIBUTE_FLUIDTYPE = 21"
| "attr_index ITEM_ATTRIBUTE_DOORID = 22"
| "attr_index ITEM_ATTRIBUTE_DECAYTO = 23"
| "attr_index ITEM_ATTRIBUTE_WRAPID = 24"
| "attr_index ITEM_ATTRIBUTE_STOREITEM = 25"
| "attr_index ITEM_ATTRIBUTE_ATTACK_SPEED = 26"
| "attr_index ITEM_ATTRIBUTE_CUSTOM = 31"
| "attr_index ITEM_ATTRIBUTE_NONE = 32"

definition flag :: "itemAttrTypes \<Rightarrow> u32" where
  "flag t = push_bit (attr_index t) 1"

lemma flag_NONE: "flag ITEM_ATTRIBUTE_NONE = 0"
  by (simp add: flag_def)

definition intAttributeTypes :: u32 where
  "intAttributeTypes = foldr (OR) (map flag
     [ITEM_ATTRIBUTE_ACTIONID, ITEM_ATTRIBUTE_UNIQUEID, ITEM_ATTRIBUTE_DATE,
      ITEM_ATTRIBUTE_WEIGHT, ITEM_ATTRIBUTE_ATTACK, ITEM_ATTRIBUTE_DEFENSE, ITEM_ATTRIBUTE_EXTRADEFENSE,
      ITEM_ATTRIBUTE_ARMOR, ITEM_ATTRIBUTE_HITCHANCE, ITEM_ATTRIBUTE_SHOOTRANGE, ITEM_ATTRIBUTE_OWNER,
      ITEM_ATTRIBUTE_DURATION, ITEM_ATTRIBUTE_DECAYSTATE, ITEM_ATTRIBUTE_CORPSEOWNER, ITEM_ATTRIBUTE_CHARGES,
      ITEM_ATTRIBUTE_FLUIDTYPE, ITEM_ATTRIBUTE_DOORID, ITEM_ATTRIBUTE_DECAYTO, ITEM_ATTRIBUTE_WRAPID,
      ITEM_ATTRIBUTE_STOREITEM, ITEM_ATTRIBUTE_ATTACK_SPEED]) 0"

definition stringAttributeTypes :: u32 where
  "stringAttributeTypes = foldr (OR) (map flag
     [ITEM_ATTRIBUTE_DESCRIPTION, ITEM_ATTRIBUTE_TEXT, ITEM_ATTRIBUTE_WRITER,
      ITEM_ATTRIBUTE_NAME, ITEM_ATTRIBUTE_ARTICLE, ITEM_ATTRIBUTE_PLURALNAME]) 0"

definition isIntAttrType :: "itemAttrTypes \<Rightarrow> bool" where
  "isIntAttrType t \<longleftrightarrow> (flag t AND intAttributeTypes) = flag t"

definition isStrAttrType :: "itemAttrTypes \<Rightarrow> bool" where
  "isStrAttrType t \<longleftrightarrow> (flag t AND stringAttributeTypes) = flag t"

definition isCustomAttrType :: "itemAttrTypes \<Rightarrow> bool" where
  "isCustomAttrType t \<longleftrightarrow> (flag t AND flag ITEM_ATTRIBUTE_CUSTOM) = flag t"

text \<open>Every type that has a bit is of exactly one kind. \<open>ITEM_ATTRIBUTE_NONE\<close> is of all three.\<close>

lemma int_types: "isIntAttrType t \<longleftrightarrow>
    t \<notin> {ITEM_ATTRIBUTE_DESCRIPTION, ITEM_ATTRIBUTE_TEXT, ITEM_ATTRIBUTE_WRITER, ITEM_ATTRIBUTE_NAME,
         ITEM_ATTRIBUTE_ARTICLE, ITEM_ATTRIBUTE_PLURALNAME, ITEM_ATTRIBUTE_CUSTOM}"
  by (cases t) (simp_all add: isIntAttrType_def intAttributeTypes_def flag_def)

lemma str_types: "isStrAttrType t \<longleftrightarrow>
    t \<in> {ITEM_ATTRIBUTE_NONE, ITEM_ATTRIBUTE_DESCRIPTION, ITEM_ATTRIBUTE_TEXT, ITEM_ATTRIBUTE_WRITER, ITEM_ATTRIBUTE_NAME,
         ITEM_ATTRIBUTE_ARTICLE, ITEM_ATTRIBUTE_PLURALNAME}"
  by (cases t) (simp_all add: isStrAttrType_def stringAttributeTypes_def flag_def)

lemma custom_types: "isCustomAttrType t \<longleftrightarrow> t \<in> {ITEM_ATTRIBUTE_NONE, ITEM_ATTRIBUTE_CUSTOM}"
  by (cases t) (simp_all add: isCustomAttrType_def flag_def)

lemmas attr_types = int_types str_types custom_types

lemma attr_index_less: "attr_index t < 32 \<longleftrightarrow> t \<noteq> ITEM_ATTRIBUTE_NONE"
  by (cases t) simp_all

lemma attr_index_inj: "attr_index t = attr_index u \<longleftrightarrow> t = u"
  by (cases t; cases u) simp_all

section \<open>Values\<close>

text \<open>A custom value is a \<open>boost::variant\<close>; a \<open>double\<close> is kept as its 64 bits.\<close>

datatype custom_value =
  Blank | Custom_String "u8 list" | Custom_Int "64 word" | Custom_Double "64 word" | Custom_Bool bool

type_synonym custom_map = "(u8 list \<times> custom_value) list"

definition is_nan :: "64 word \<Rightarrow> bool" where
  "is_nan b \<longleftrightarrow> drop_bit 52 b AND 0x7FF = 0x7FF \<and> b AND 0xFFFFFFFFFFFFF \<noteq> 0"

definition double_equal :: "64 word \<Rightarrow> 64 word \<Rightarrow> bool" where
  "double_equal a b \<longleftrightarrow> \<not> is_nan a \<and> \<not> is_nan b \<and> (a = b \<or> push_bit 1 a = 0 \<and> push_bit 1 b = 0)"

fun custom_value_equal :: "custom_value \<Rightarrow> custom_value \<Rightarrow> bool" where
  "custom_value_equal (Custom_Double a) (Custom_Double b) = double_equal a b"
| "custom_value_equal a b = (a = b)"

text \<open>Equality of unordered maps: as many entries, and each found in the other with an equal value.\<close>

definition custom_map_equal :: "custom_map \<Rightarrow> custom_map \<Rightarrow> bool" where
  "custom_map_equal m n \<longleftrightarrow>
     length m = length n \<and>
     (\<forall>(k, v) \<in> set m. case map_of n k of None \<Rightarrow> False | Some w \<Rightarrow> custom_value_equal v w)"

datatype attr_value = Integer "64 word" | Str "u8 list" | Custom custom_map

text \<open>A new entry is all zeros: a null pointer stands for no string and no map.\<close>

definition zero_value :: "itemAttrTypes \<Rightarrow> attr_value" where
  "zero_value t = (if isIntAttrType t then Integer 0 else if isStrAttrType t then Str [] else Custom [])"

section \<open>The vector\<close>

record attribute =
  a_type :: itemAttrTypes
  a_value :: attr_value

record item_attributes =
  attribute_list :: "attribute list"
  attributeBits :: u32

definition no_attributes :: item_attributes where
  "no_attributes = \<lparr>attribute_list = [], attributeBits = 0\<rparr>"

definition hasAttribute :: "itemAttrTypes \<Rightarrow> item_attributes \<Rightarrow> bool" where
  "hasAttribute t a \<longleftrightarrow> (flag t AND attributeBits a) \<noteq> 0"

fun find_attr :: "itemAttrTypes \<Rightarrow> attribute list \<Rightarrow> nat option" where
  "find_attr t [] = None"
| "find_attr t (x # xs) = (if a_type x = t then Some 0 else map_option Suc (find_attr t xs))"

definition getExistingAttr :: "itemAttrTypes \<Rightarrow> item_attributes \<Rightarrow> attribute option" where
  "getExistingAttr t a =
     (if hasAttribute t a then map_option ((!) (attribute_list a)) (find_attr t (attribute_list a)) else None)"

text \<open>\<open>getAttr\<close> returns a reference: the place in the vector, and the vector, which may have grown.\<close>

definition getAttr :: "itemAttrTypes \<Rightarrow> item_attributes \<Rightarrow> item_attributes \<times> nat" where
  "getAttr t a =
     (case if hasAttribute t a then find_attr t (attribute_list a) else None of
        Some i \<Rightarrow> (a, i)
      | None \<Rightarrow>
          (\<lparr>attribute_list = attribute_list a @ [\<lparr>a_type = t, a_value = zero_value t\<rparr>],
            attributeBits = attributeBits a OR flag t\<rparr>,
           length (attribute_list a)))"

definition set_value :: "itemAttrTypes \<Rightarrow> (attr_value \<Rightarrow> attr_value) \<Rightarrow> item_attributes \<Rightarrow> item_attributes" where
  "set_value t f a =
     (let (a, i) = getAttr t a
      in a\<lparr>attribute_list := (attribute_list a)[i := (attribute_list a ! i)\<lparr>a_value := f (a_value (attribute_list a ! i))\<rparr>]\<rparr>)"

fun integer_of :: "attr_value \<Rightarrow> 64 word" where
  "integer_of (Integer n) = n" | "integer_of _ = 0"

fun string_of :: "attr_value \<Rightarrow> u8 list" where
  "string_of (Str s) = s" | "string_of _ = []"

fun custom_of :: "attr_value \<Rightarrow> custom_map" where
  "custom_of (Custom m) = m" | "custom_of _ = []"

definition getIntAttr :: "itemAttrTypes \<Rightarrow> item_attributes \<Rightarrow> 64 word" where
  "getIntAttr t a =
     (if \<not> isIntAttrType t then 0
      else case getExistingAttr t a of None \<Rightarrow> 0 | Some x \<Rightarrow> integer_of (a_value x))"

definition setIntAttr :: "itemAttrTypes \<Rightarrow> 64 word \<Rightarrow> item_attributes \<Rightarrow> item_attributes" where
  "setIntAttr t v a =
     (if \<not> isIntAttrType t then a
      else let v = (if t = ITEM_ATTRIBUTE_ATTACK_SPEED \<and> sint v < 100 then 100 else v)
           in set_value t (\<lambda>_. Integer v) a)"

definition increaseIntAttr :: "itemAttrTypes \<Rightarrow> 64 word \<Rightarrow> item_attributes \<Rightarrow> item_attributes" where
  "increaseIntAttr t v a = setIntAttr t (getIntAttr t a + v) a"

definition getStrAttr :: "itemAttrTypes \<Rightarrow> item_attributes \<Rightarrow> u8 list" where
  "getStrAttr t a =
     (if \<not> isStrAttrType t then []
      else case getExistingAttr t a of None \<Rightarrow> [] | Some x \<Rightarrow> string_of (a_value x))"

definition setStrAttr :: "itemAttrTypes \<Rightarrow> u8 list \<Rightarrow> item_attributes \<Rightarrow> item_attributes" where
  "setStrAttr t v a =
     (if \<not> isStrAttrType t then a
      else if v = [] then a
      else set_value t (\<lambda>_. Str v) a)"

text \<open>The entry is the last of its type; the last entry takes its place.\<close>

fun find_last_attr :: "itemAttrTypes \<Rightarrow> attribute list \<Rightarrow> nat option" where
  "find_last_attr t [] = None"
| "find_last_attr t (x # xs) =
     (case find_last_attr t xs of Some i \<Rightarrow> Some (Suc i) | None \<Rightarrow> if a_type x = t then Some 0 else None)"

definition removeAttribute :: "itemAttrTypes \<Rightarrow> item_attributes \<Rightarrow> item_attributes" where
  "removeAttribute t a =
     (if \<not> hasAttribute t a then a
      else
        let xs = attribute_list a
        in \<lparr>attribute_list =
              (if a_type (last xs) = t then butlast xs
               else case find_last_attr t xs of
                      Some i \<Rightarrow> butlast (xs[i := last xs])
                    | None \<Rightarrow> xs),
            attributeBits = attributeBits a AND NOT (flag t)\<rparr>)"

section \<open>Custom attributes\<close>

definition lower_key :: "u8 list \<Rightarrow> u8 list" where
  "lower_key = map (\<lambda>b. if 65 \<le> b \<and> b \<le> 90 then b + 32 else b)"

definition getCustomAttributeMap :: "item_attributes \<Rightarrow> custom_map option" where
  "getCustomAttributeMap a =
     (if \<not> hasAttribute ITEM_ATTRIBUTE_CUSTOM a then None
      else map_option (custom_of \<circ> a_value) (getExistingAttr ITEM_ATTRIBUTE_CUSTOM a))"

definition getCustomAttribute :: "u8 list \<Rightarrow> item_attributes \<Rightarrow> custom_value option" where
  "getCustomAttribute key a =
     (case getCustomAttributeMap a of None \<Rightarrow> None | Some m \<Rightarrow> map_of m (lower_key key))"

definition erase_key :: "u8 list \<Rightarrow> custom_map \<Rightarrow> custom_map" where
  "erase_key k m = filter (\<lambda>e. fst e \<noteq> k) m"

definition removeCustomAttribute :: "u8 list \<Rightarrow> item_attributes \<Rightarrow> item_attributes \<times> bool" where
  "removeCustomAttribute key a =
     (case getCustomAttributeMap a of
        None \<Rightarrow> (a, False)
      | Some m \<Rightarrow>
          if map_of m (lower_key key) = None then (a, False)
          else (set_value ITEM_ATTRIBUTE_CUSTOM (\<lambda>v. Custom (erase_key (lower_key key) (custom_of v))) a, True))"

text \<open>\<open>emplace\<close> keeps an entry that is there.\<close>

definition emplace :: "u8 list \<Rightarrow> custom_value \<Rightarrow> custom_map \<Rightarrow> custom_map" where
  "emplace k v m = (if map_of m k = None then m @ [(k, v)] else m)"

definition setCustomAttribute :: "u8 list \<Rightarrow> custom_value \<Rightarrow> item_attributes \<Rightarrow> item_attributes" where
  "setCustomAttribute key v a =
     (let a = (if hasAttribute ITEM_ATTRIBUTE_CUSTOM a then fst (removeCustomAttribute key a) else a)
      in set_value ITEM_ATTRIBUTE_CUSTOM (\<lambda>m. Custom (emplace (lower_key key) v (custom_of m))) a)"

section \<open>The vector as a map\<close>

fun value_kind_ok :: "itemAttrTypes \<Rightarrow> attr_value \<Rightarrow> bool" where
  "value_kind_ok t (Integer n) \<longleftrightarrow> t \<noteq> ITEM_ATTRIBUTE_NONE \<and> isIntAttrType t"
| "value_kind_ok t (Str s) \<longleftrightarrow> t \<noteq> ITEM_ATTRIBUTE_NONE \<and> isStrAttrType t"
| "value_kind_ok t (Custom m) \<longleftrightarrow> t \<noteq> ITEM_ATTRIBUTE_NONE \<and> isCustomAttrType t \<and> distinct (map fst m)"

lemma value_kind_named: "value_kind_ok t v \<Longrightarrow> t \<noteq> ITEM_ATTRIBUTE_NONE"
  by (cases v) simp_all

definition attrs_ok :: "item_attributes \<Rightarrow> bool" where
  "attrs_ok a \<longleftrightarrow> distinct (map a_type (attribute_list a)) \<and>
     (\<forall>n < 32. bit (attributeBits a) n \<longleftrightarrow> (\<exists>x \<in> set (attribute_list a). attr_index (a_type x) = n)) \<and>
     (\<forall>x \<in> set (attribute_list a). value_kind_ok (a_type x) (a_value x))"

definition attr_map :: "item_attributes \<Rightarrow> itemAttrTypes \<Rightarrow> attr_value option" where
  "attr_map a = map_of (map (\<lambda>x. (a_type x, a_value x)) (attribute_list a))"

lemma hasAttribute_bit: "hasAttribute t a \<longleftrightarrow> bit (attributeBits a) (attr_index t)"
proof -
  have "flag t AND attributeBits a = (if bit (attributeBits a) (attr_index t) then flag t else 0)"
    by (rule bit_word_eqI) (auto simp: flag_def bit_simps)
  moreover have "flag t \<noteq> 0" if "bit (attributeBits a) (attr_index t)"
    using bit_imp_le_length [OF that] by (auto simp: flag_def bit_eq_iff bit_simps intro!: exI [of _ "attr_index t"])
  ultimately show ?thesis by (auto simp: hasAttribute_def)
qed

lemma attrs_ok_empty [simp]: "attrs_ok no_attributes" "attr_map no_attributes = Map.empty"
  by (simp_all add: attrs_ok_def no_attributes_def attr_map_def)

lemma attribute_eta [simp]: "\<lparr>a_type = a_type x, a_value = a_value x\<rparr> = x"
  by (cases x) simp

lemma attr_map_Some:
  assumes "attrs_ok a"
  shows "attr_map a t = Some v \<longleftrightarrow> \<lparr>a_type = t, a_value = v\<rparr> \<in> set (attribute_list a)"
proof -
  have "distinct (map fst (map (\<lambda>x. (a_type x, a_value x)) (attribute_list a)))"
    using assms by (simp add: attrs_ok_def comp_def)
  then have "attr_map a t = Some v \<longleftrightarrow> (t, v) \<in> set (map (\<lambda>x. (a_type x, a_value x)) (attribute_list a))"
    by (simp add: attr_map_def)
  also have "\<dots> \<longleftrightarrow> \<lparr>a_type = t, a_value = v\<rparr> \<in> set (attribute_list a)"
    by (auto simp: image_iff intro: bexI [of _ "\<lparr>a_type = t, a_value = v\<rparr>"])
  finally show ?thesis .
qed

lemma attr_map_type: "attrs_ok a \<Longrightarrow> attr_map a t \<noteq> None \<longleftrightarrow> t \<in> a_type ` set (attribute_list a)"
  by (simp only: attr_map_def map_of_eq_None_iff not_not set_map image_image fst_conv)

lemma hasAttribute_map:
  assumes "attrs_ok a"
  shows "hasAttribute t a \<longleftrightarrow> attr_map a t \<noteq> None"
proof -
  have "hasAttribute t a \<longleftrightarrow> (\<exists>x \<in> set (attribute_list a). a_type x = t)"
  proof (cases "t = ITEM_ATTRIBUTE_NONE")
    case True
    then have "\<not> hasAttribute t a" by (simp add: hasAttribute_def flag_NONE)
    moreover have "a_type x \<noteq> t" if "x \<in> set (attribute_list a)" for x
      using that True assms by (auto simp: attrs_ok_def dest: value_kind_named)
    ultimately show ?thesis by blast
  next
    case False
    then show ?thesis
      using assms attr_index_less [of t] by (auto simp: hasAttribute_bit attrs_ok_def attr_index_inj)
  qed
  also have "\<dots> \<longleftrightarrow> attr_map a t \<noteq> None"
    by (auto simp only: attr_map_type [OF assms] image_iff)
  finally show ?thesis .
qed

lemma find_attr_None: "find_attr t xs = None \<longleftrightarrow> t \<notin> a_type ` set xs"
  by (induction xs) auto

lemma find_attr_Some: "find_attr t xs = Some i \<Longrightarrow> i < length xs \<and> a_type (xs ! i) = t"
  by (induction xs arbitrary: i) (auto split: if_splits)

lemma find_last_attr_Some: "find_last_attr t xs = Some i \<Longrightarrow> i < length xs \<and> a_type (xs ! i) = t"
  by (induction xs arbitrary: i) (auto split: if_splits option.splits)

lemma find_last_attr_None: "find_last_attr t xs = None \<longleftrightarrow> t \<notin> a_type ` set xs"
  by (induction xs) (auto split: option.splits)

lemma getExistingAttr_map:
  assumes "attrs_ok a"
  shows "map_option a_value (getExistingAttr t a) = attr_map a t"
proof (cases "attr_map a t")
  case None
  then show ?thesis using assms by (simp add: getExistingAttr_def hasAttribute_map)
next
  case (Some v)
  with assms have "find_attr t (attribute_list a) \<noteq> None" "hasAttribute t a"
    by (simp_all add: find_attr_None attr_map_type [symmetric] hasAttribute_map)
  then obtain i where i: "find_attr t (attribute_list a) = Some i" by blast
  let ?x = "attribute_list a ! i"
  have "?x \<in> set (attribute_list a)" "a_type ?x = t" using find_attr_Some [OF i] by simp_all
  then have "\<lparr>a_type = t, a_value = a_value ?x\<rparr> \<in> set (attribute_list a)" by (metis attribute.surjective old.unit.exhaust)
  with assms have "attr_map a t = Some (a_value ?x)" by (simp add: attr_map_Some)
  then show ?thesis using i \<open>hasAttribute t a\<close> by (simp add: getExistingAttr_def)
qed

lemma attribute_update [simp]: "x\<lparr>a_value := v\<rparr> = \<lparr>a_type = a_type x, a_value = v\<rparr>"
  by (cases x) simp

lemma list_update_keys: "i < length xs \<Longrightarrow> a_type (xs ! i) = t \<Longrightarrow>
    map a_type (xs[i := \<lparr>a_type = t, a_value = v\<rparr>]) = map a_type xs"
  by (simp add: map_update list_update_same_conv)

text \<open>What an update of the entry of a type does.\<close>

lemma set_value_spec:
  assumes a: "attrs_ok a" and k: "value_kind_ok t (f (case attr_map a t of None \<Rightarrow> zero_value t | Some v \<Rightarrow> v))"
  shows "attrs_ok (set_value t f a)"
    and "attr_map (set_value t f a) = (attr_map a)(t \<mapsto> f (case attr_map a t of None \<Rightarrow> zero_value t | Some v \<Rightarrow> v))"
proof -
  have "attrs_ok (set_value t f a) \<and>
    attr_map (set_value t f a) = (attr_map a)(t \<mapsto> f (case attr_map a t of None \<Rightarrow> zero_value t | Some v \<Rightarrow> v))"
  proof (cases "attr_map a t")
    case None
    then have h: "\<not> hasAttribute t a" and t: "t \<notin> a_type ` set (attribute_list a)"
      using a by (simp_all add: hasAttribute_map attr_map_type [symmetric])
    have v: "value_kind_ok t (f (zero_value t))" using k None by simp
    have set: "set_value t f a = \<lparr>attribute_list = attribute_list a @ [\<lparr>a_type = t, a_value = f (zero_value t)\<rparr>],
        attributeBits = attributeBits a OR flag t\<rparr>"
      by (simp add: set_value_def getAttr_def h list_update_append)
    have "bit (attributeBits a OR flag t) n \<longleftrightarrow> bit (attributeBits a) n \<or> n = attr_index t" if "n < 32" for n
      using that by (auto simp: flag_def bit_simps)
    then have "attrs_ok (set_value t f a)"
      using a t v by (auto simp: set attrs_ok_def)
    moreover have "attr_map (set_value t f a) = (attr_map a)(t \<mapsto> f (zero_value t))"
      using None by (auto simp: set attr_map_def map_add_def fun_eq_iff split: option.splits)
    ultimately show ?thesis by (simp add: None)
  next
    case (Some v)
    then have h: "hasAttribute t a" and "t \<in> a_type ` set (attribute_list a)"
      using a by (simp_all add: hasAttribute_map attr_map_type [symmetric])
    then obtain i where i: "find_attr t (attribute_list a) = Some i" by (metis find_attr_None not_None_eq)
    note fi = find_attr_Some [OF i]
    let ?xs = "attribute_list a"
    from fi have "\<lparr>a_type = t, a_value = a_value (?xs ! i)\<rparr> \<in> set ?xs" by (metis attribute_eta nth_mem)
    then have v: "a_value (?xs ! i) = v" using Some a by (metis attr_map_Some option.inject)
    have set: "set_value t f a = a\<lparr>attribute_list := ?xs[i := \<lparr>a_type = t, a_value = f v\<rparr>]\<rparr>"
      using fi v by (simp add: set_value_def getAttr_def h i)
    have kv: "value_kind_ok t (f v)" using k Some by simp
    have types: "a_type ` set (?xs[i := \<lparr>a_type = t, a_value = f v\<rparr>]) = a_type ` set ?xs"
      using list_update_keys [of i ?xs t "f v"] fi by (metis set_map)
    have "(\<exists>x \<in> set (?xs[i := \<lparr>a_type = t, a_value = f v\<rparr>]). attr_index (a_type x) = n) \<longleftrightarrow>
        (\<exists>x \<in> set ?xs. attr_index (a_type x) = n)" for n
      using types by (metis (no_types, lifting) image_iff)
    moreover have "value_kind_ok (a_type x) (a_value x)" if "x \<in> set (?xs[i := \<lparr>a_type = t, a_value = f v\<rparr>])" for x
      using subsetD [OF set_update_subset_insert that] a kv by (auto simp: attrs_ok_def)
    ultimately have ok: "attrs_ok (set_value t f a)"
      using a list_update_keys [of i ?xs t "f v"] fi by (simp add: set attrs_ok_def)
    have "attr_map (set_value t f a) u = ((attr_map a)(t \<mapsto> f v)) u" for u
    proof -
      have m: "attr_map (set_value t f a) u = Some w \<longleftrightarrow> \<lparr>a_type = u, a_value = w\<rparr> \<in> set (?xs[i := \<lparr>a_type = t, a_value = f v\<rparr>])" for w
        by (simp only: attr_map_Some [OF ok]) (simp add: set)
      have d: "distinct ?xs" using a by (simp add: attrs_ok_def distinct_map)
      have inj: "\<lparr>a_type = u, a_value = w\<rparr> = ?xs ! i" if "\<lparr>a_type = u, a_value = w\<rparr> \<in> set ?xs" "u = t" for w
        using that a fi by (metis attr_map_Some attribute_eta nth_mem option.inject)
      have "attr_map (set_value t f a) u = Some w \<longleftrightarrow> ((attr_map a)(t \<mapsto> f v)) u = Some w" for w
      proof (cases "u = t")
        case True
        have "\<lparr>a_type = u, a_value = w\<rparr> \<in> set (?xs[i := \<lparr>a_type = t, a_value = f v\<rparr>]) \<longleftrightarrow> w = f v"
          using fi inj [OF _ True] True by (auto simp: set_update_distinct [OF d])
        then show ?thesis unfolding m using True by auto
      next
        case False
        then have "\<lparr>a_type = u, a_value = w\<rparr> \<noteq> ?xs ! i" using fi by (metis attribute.select_convs(1))
        then show ?thesis using False fi a by (auto simp: m set_update_distinct [OF d] attr_map_Some)
      qed
      then show ?thesis by (metis not_None_eq)
    qed
    with ok show ?thesis by (simp add: Some fun_eq_iff)
  qed
  then show "attrs_ok (set_value t f a)"
    and "attr_map (set_value t f a) = (attr_map a)(t \<mapsto> f (case attr_map a t of None \<Rightarrow> zero_value t | Some v \<Rightarrow> v))"
    by simp_all
qed

lemma mset_butlast_update:
  assumes "i < length xs" and "i \<noteq> length xs - 1"
  shows "mset (butlast (xs[i := last xs])) = mset xs - {#xs ! i#}"
proof -
  obtain ys y where xs: "xs = ys @ [y]" using assms(1) by (cases xs rule: rev_cases) auto
  with assms have i: "i < length ys" by simp
  have "butlast (xs[i := last xs]) = ys[i := y]" using i by (simp add: xs list_update_append)
  moreover have "xs ! i = ys ! i" using i by (simp add: xs nth_append)
  ultimately show ?thesis using i nth_mem_mset [OF i] by (simp add: xs mset_update)
qed

lemma removeAttribute_list:
  assumes a: "attrs_ok a" and h: "hasAttribute t a"
  shows "\<exists>x \<in> set (attribute_list a). a_type x = t \<and>
    mset (attribute_list (removeAttribute t a)) = mset (attribute_list a) - {#x#}"
proof -
  let ?xs = "attribute_list a"
  have t: "t \<in> a_type ` set ?xs" using a h by (simp add: hasAttribute_map attr_map_type [symmetric])
  then have ne: "?xs \<noteq> []" by auto
  show ?thesis
  proof (cases "a_type (last ?xs) = t")
    case True
    have "mset (butlast ?xs) = mset ?xs - {#last ?xs#}"
      using arg_cong [OF append_butlast_last_id [OF ne], of mset] by (metis add_diff_cancel_right' mset.simps(1,2) mset_append)
    then show ?thesis using True ne h by (auto simp: removeAttribute_def Let_def)
  next
    case False
    obtain i where i: "find_last_attr t ?xs = Some i" using t by (metis find_last_attr_None not_None_eq)
    note fi = find_last_attr_Some [OF i]
    have "i \<noteq> length ?xs - 1" using False fi ne by (auto simp: last_conv_nth)
    then have "mset (butlast (?xs[i := last ?xs])) = mset ?xs - {#?xs ! i#}"
      using fi by (simp add: mset_butlast_update)
    then show ?thesis using False fi h i by (intro bexI [of _ "?xs ! i"]) (auto simp: removeAttribute_def Let_def)
  qed
qed

text \<open>What the removal of a type does.\<close>

lemma removeAttribute_spec:
  assumes a: "attrs_ok a"
  shows "attrs_ok (removeAttribute t a)" and "attr_map (removeAttribute t a) = (attr_map a)(t := None)"
proof -
  have "attrs_ok (removeAttribute t a) \<and> attr_map (removeAttribute t a) = (attr_map a)(t := None)"
  proof (cases "hasAttribute t a")
    case False
    then show ?thesis using a hasAttribute_map [OF a, of t] by (auto simp: removeAttribute_def fun_eq_iff)
  next
    case True
    let ?r = "removeAttribute t a" and ?xs = "attribute_list a"
    obtain x where x: "x \<in> set ?xs" "a_type x = t" "mset (attribute_list ?r) = mset ?xs - {#x#}"
      using removeAttribute_list [OF a True] by blast
    have d: "distinct (map a_type ?xs)" using a by (simp add: attrs_ok_def)
    have split: "mset ?xs = add_mset x (mset (attribute_list ?r))" using x by (simp add: insert_DiffM)
    then have "mset (map a_type ?xs) = mset (t # map a_type (attribute_list ?r))"
      using x(2) by simp
    from mset_eq_imp_distinct_iff [OF this] d
    have d': "distinct (map a_type (attribute_list ?r))" and nt: "t \<notin> a_type ` set (attribute_list ?r)" by auto
    have set: "set ?xs = insert x (set (attribute_list ?r))"
      using arg_cong [OF split, of set_mset] by simp
    have bits: "attributeBits ?r = attributeBits a AND NOT (flag t)" using True by (simp add: removeAttribute_def Let_def)
    have "bit (attributeBits ?r) n \<longleftrightarrow> bit (attributeBits a) n \<and> n \<noteq> attr_index t" if "n < 32" for n
      using that by (auto simp: bits flag_def bit_simps)
    moreover have "(\<exists>y \<in> set (attribute_list ?r). attr_index (a_type y) = n) \<longleftrightarrow>
        (\<exists>y \<in> set ?xs. attr_index (a_type y) = n) \<and> n \<noteq> attr_index t" for n
    proof -
      have "attr_index (a_type y) \<noteq> attr_index t" if "y \<in> set (attribute_list ?r)" for y
        using nt that by (auto simp: attr_index_inj)
      then show ?thesis using x(2) by (auto simp: set)
    qed
    ultimately have ok: "attrs_ok ?r"
      using a d' set by (simp add: attrs_ok_def)
    have "attr_map ?r u = Some v \<longleftrightarrow> ((attr_map a)(t := None)) u = Some v" for u v
      unfolding fun_upd_apply attr_map_Some [OF ok] using attr_map_Some [OF a, of u v] set x(2) nt by (force simp: image_iff)
    with ok show ?thesis by (metis ext not_None_eq)
  qed
  then show "attrs_ok (removeAttribute t a)" and "attr_map (removeAttribute t a) = (attr_map a)(t := None)" by simp_all
qed

section \<open>The operations as updates of a map\<close>

lemma getIntAttr_map: "attrs_ok a \<Longrightarrow>
    getIntAttr t a = (if isIntAttrType t then case attr_map a t of None \<Rightarrow> 0 | Some v \<Rightarrow> integer_of v else 0)"
  using getExistingAttr_map [of a t] by (auto simp: getIntAttr_def split: option.splits)

lemma getStrAttr_map: "attrs_ok a \<Longrightarrow>
    getStrAttr t a = (if isStrAttrType t then case attr_map a t of None \<Rightarrow> [] | Some v \<Rightarrow> string_of v else [])"
  using getExistingAttr_map [of a t] by (auto simp: getStrAttr_def split: option.splits)

definition kept_int :: "itemAttrTypes \<Rightarrow> 64 word \<Rightarrow> 64 word" where
  "kept_int t v = (if t = ITEM_ATTRIBUTE_ATTACK_SPEED \<and> sint v < 100 then 100 else v)"

lemma setIntAttr_spec:
  assumes "attrs_ok a" and "isIntAttrType t" and "t \<noteq> ITEM_ATTRIBUTE_NONE"
  shows "attrs_ok (setIntAttr t v a)" and "attr_map (setIntAttr t v a) = (attr_map a)(t \<mapsto> Integer (kept_int t v))"
  using set_value_spec [OF assms(1), of t "\<lambda>_. Integer (kept_int t v)"] assms(2,3)
  by (simp_all add: setIntAttr_def kept_int_def Let_def)

lemma setStrAttr_spec:
  assumes "attrs_ok a" and "isStrAttrType t" and "v \<noteq> []" and "t \<noteq> ITEM_ATTRIBUTE_NONE"
  shows "attrs_ok (setStrAttr t v a)" and "attr_map (setStrAttr t v a) = (attr_map a)(t \<mapsto> Str v)"
  using set_value_spec [OF assms(1), of t "\<lambda>_. Str v"] assms(2-4)
  by (simp_all add: setStrAttr_def)

lemma setStrAttr_empty [simp]: "setStrAttr t [] a = a"
  by (simp add: setStrAttr_def)

lemma custom_entry:
  assumes "attrs_ok a" and "attr_map a ITEM_ATTRIBUTE_CUSTOM = Some v"
  shows "\<exists>m. v = Custom m \<and> distinct (map fst m)"
proof -
  have "\<lparr>a_type = ITEM_ATTRIBUTE_CUSTOM, a_value = v\<rparr> \<in> set (attribute_list a)"
    using assms by (simp add: attr_map_Some)
  then have "value_kind_ok ITEM_ATTRIBUTE_CUSTOM v" using assms(1) by (auto simp: attrs_ok_def)
  then show ?thesis by (cases v) (simp_all add: attr_types)
qed

definition custom_entries :: "item_attributes \<Rightarrow> custom_map" where
  "custom_entries a = (case attr_map a ITEM_ATTRIBUTE_CUSTOM of None \<Rightarrow> [] | Some v \<Rightarrow> custom_of v)"

lemma getCustomAttributeMap_map:
  "attrs_ok a \<Longrightarrow> getCustomAttributeMap a = map_option custom_of (attr_map a ITEM_ATTRIBUTE_CUSTOM)"
  using getExistingAttr_map [of a ITEM_ATTRIBUTE_CUSTOM]
  by (auto simp: getCustomAttributeMap_def hasAttribute_map map_option_case split: option.splits)

lemma custom_entries_distinct: "attrs_ok a \<Longrightarrow> distinct (map fst (custom_entries a))"
  using custom_entry [of a] by (auto simp: custom_entries_def split: option.splits)

lemma distinct_erase_key: "distinct (map fst m) \<Longrightarrow> distinct (map fst (erase_key k m))"
  by (induction m) (auto simp: erase_key_def)

lemma erase_key_absent: "map_of m k = None \<Longrightarrow> erase_key k m = m"
  by (auto simp: erase_key_def map_of_eq_None_iff intro!: filter_True)

lemma map_of_erase_key: "map_of (erase_key k m) j = (if j = k then None else map_of m j)"
  by (induction m) (auto simp: erase_key_def)

lemma removeCustomAttribute_spec:
  assumes a: "attrs_ok a"
  shows "attrs_ok (fst (removeCustomAttribute key a))"
    and "attr_map (fst (removeCustomAttribute key a)) =
      (case attr_map a ITEM_ATTRIBUTE_CUSTOM of None \<Rightarrow> attr_map a
       | Some v \<Rightarrow> (attr_map a)(ITEM_ATTRIBUTE_CUSTOM \<mapsto> Custom (erase_key (lower_key key) (custom_entries a))))"
proof -
  let ?f = "\<lambda>v. Custom (erase_key (lower_key key) (custom_of v))"
  have "value_kind_ok ITEM_ATTRIBUTE_CUSTOM (?f v)" if "attr_map a ITEM_ATTRIBUTE_CUSTOM = Some v" for v
    using custom_entry [OF a that] by (auto simp: attr_types distinct_erase_key)
  then have s: "attrs_ok (set_value ITEM_ATTRIBUTE_CUSTOM ?f a)"
    "attr_map (set_value ITEM_ATTRIBUTE_CUSTOM ?f a) = (attr_map a)(ITEM_ATTRIBUTE_CUSTOM \<mapsto> ?f v)"
    if "attr_map a ITEM_ATTRIBUTE_CUSTOM = Some v" for v
    using set_value_spec [OF a, of ITEM_ATTRIBUTE_CUSTOM ?f] that by simp_all
  show "attrs_ok (fst (removeCustomAttribute key a))"
    using a s by (auto simp: removeCustomAttribute_def getCustomAttributeMap_map split: option.splits)
  show "attr_map (fst (removeCustomAttribute key a)) =
      (case attr_map a ITEM_ATTRIBUTE_CUSTOM of None \<Rightarrow> attr_map a
       | Some v \<Rightarrow> (attr_map a)(ITEM_ATTRIBUTE_CUSTOM \<mapsto> Custom (erase_key (lower_key key) (custom_entries a))))"
    using a s custom_entry [OF a]
    by (auto simp: removeCustomAttribute_def getCustomAttributeMap_map custom_entries_def erase_key_absent fun_upd_idem
        split: option.splits)
qed

lemma distinct_emplace: "distinct (map fst m) \<Longrightarrow> distinct (map fst (emplace k v m))"
  by (auto simp: emplace_def map_of_eq_None_iff)

lemma setCustomAttribute_spec:
  assumes a: "attrs_ok a"
  shows "attrs_ok (setCustomAttribute key v a)"
    and "attr_map (setCustomAttribute key v a) = (attr_map a)
      (ITEM_ATTRIBUTE_CUSTOM \<mapsto> Custom (erase_key (lower_key key) (custom_entries a) @ [(lower_key key, v)]))"
proof -
  define b where "b = (if hasAttribute ITEM_ATTRIBUTE_CUSTOM a then fst (removeCustomAttribute key a) else a)"
  have b: "attrs_ok b" using removeCustomAttribute_spec(1) [OF a] a by (simp add: b_def)
  have bm: "attr_map b = (case attr_map a ITEM_ATTRIBUTE_CUSTOM of None \<Rightarrow> attr_map a
       | Some v \<Rightarrow> (attr_map a)(ITEM_ATTRIBUTE_CUSTOM \<mapsto> Custom (erase_key (lower_key key) (custom_entries a))))"
    using removeCustomAttribute_spec(2) [OF a] by (auto simp: b_def hasAttribute_map [OF a] split: option.splits)
  let ?f = "\<lambda>m. Custom (emplace (lower_key key) v (custom_of m))"
  have f: "?f (case attr_map b ITEM_ATTRIBUTE_CUSTOM of None \<Rightarrow> zero_value ITEM_ATTRIBUTE_CUSTOM | Some v \<Rightarrow> v) =
      Custom (erase_key (lower_key key) (custom_entries a) @ [(lower_key key, v)])"
    by (auto simp: bm custom_entries_def emplace_def map_of_erase_key zero_value_def attr_types
        erase_key_def [of _ "[]"] split: option.splits)
  have "value_kind_ok ITEM_ATTRIBUTE_CUSTOM (Custom (erase_key (lower_key key) (custom_entries a) @ [(lower_key key, v)]))"
    using distinct_erase_key [OF custom_entries_distinct [OF a], of "lower_key key"]
      map_of_erase_key [of "lower_key key" "custom_entries a" "lower_key key"]
    by (auto simp: attr_types map_of_eq_None_iff)
  from set_value_spec [OF b, of ITEM_ATTRIBUTE_CUSTOM ?f, unfolded f, OF this]
  show "attrs_ok (setCustomAttribute key v a)"
    and "attr_map (setCustomAttribute key v a) = (attr_map a)
      (ITEM_ATTRIBUTE_CUSTOM \<mapsto> Custom (erase_key (lower_key key) (custom_entries a) @ [(lower_key key, v)]))"
    by (auto simp: setCustomAttribute_def b_def [symmetric] bm split: option.splits)
qed

end
