(* ===== verification/Items.thy ===== *)
theory Items
  imports Item_Attributes Return_Values "HOL-Library.Monad_Syntax"
begin

text \<open>
  Items, class \<open>Item\<close> of \<open>src/item.h\<close> and \<open>src/item.cpp\<close>, with the part of \<open>Container\<close> that is
  data, in a store: an item is a place in the list \<open>heap\<close>, and a thing that can be a parent is an
  item, a player or a tile. The parents of things are followed as the virtual \<open>getParent\<close> does,
  which skips the locker above a depot chest or an inbox. A result \<open>None\<close> of a function on the
  store stands for a walk that does not end or a null pointer that is followed.
\<close>

section \<open>Types of items\<close>

datatype itemgroup_t =
  ITEM_GROUP_NONE | ITEM_GROUP_GROUND | ITEM_GROUP_CONTAINER | ITEM_GROUP_WEAPON
| ITEM_GROUP_AMMUNITION | ITEM_GROUP_ARMOR | ITEM_GROUP_CHARGES | ITEM_GROUP_TELEPORT
| ITEM_GROUP_MAGICFIELD | ITEM_GROUP_WRITEABLE | ITEM_GROUP_KEY | ITEM_GROUP_SPLASH
| ITEM_GROUP_FLUID | ITEM_GROUP_DOOR | ITEM_GROUP_DEPRECATED | ITEM_GROUP_PODIUM

datatype ItemTypes_t =
  ITEM_TYPE_NONE | ITEM_TYPE_DEPOT | ITEM_TYPE_MAILBOX | ITEM_TYPE_TRASHHOLDER
| ITEM_TYPE_CONTAINER | ITEM_TYPE_DOOR | ITEM_TYPE_MAGICFIELD | ITEM_TYPE_TELEPORT
| ITEM_TYPE_BED | ITEM_TYPE_KEY | ITEM_TYPE_RUNE

datatype WeaponType_t =
  WEAPON_NONE | WEAPON_SWORD | WEAPON_CLUB | WEAPON_AXE | WEAPON_SHIELD | WEAPON_DISTANCE
| WEAPON_WAND | WEAPON_AMMO | WEAPON_FIST | WEAPON_SPELLBOOK

text \<open>The fields of \<open>ItemType\<close> that the operations below read. The table of types, which is loaded
  from files, is an argument.\<close>

record item_type =
  it_group :: itemgroup_t
  it_type :: ItemTypes_t
  it_id :: u16
  it_stackable :: bool
  it_weight :: u32
  it_decayTime :: u32
  it_charges :: u32
  it_decayTo :: int
  it_maxItems :: u16
  it_slotPosition :: u16
  it_weaponType :: WeaponType_t
  it_storeItem :: bool
  it_pickupable :: bool
  it_moveable :: bool
  it_stopTime :: bool
  it_forceSerialize :: bool

definition new_type :: item_type where
  "new_type = \<lparr>it_group = ITEM_GROUP_NONE, it_type = ITEM_TYPE_NONE, it_id = 0, it_stackable = False,
     it_weight = 0, it_decayTime = 0, it_charges = 0, it_decayTo = -1, it_maxItems = 8,
     it_slotPosition = 0x30, it_weaponType = WEAPON_NONE, it_storeItem = False,
     it_pickupable = False, it_moveable = True, it_stopTime = False, it_forceSerialize = False\<rparr>"

definition isFluidContainer :: "item_type \<Rightarrow> bool" where
  "isFluidContainer ty \<longleftrightarrow> it_group ty = ITEM_GROUP_FLUID"

definition isSplash :: "item_type \<Rightarrow> bool" where
  "isSplash ty \<longleftrightarrow> it_group ty = ITEM_GROUP_SPLASH"

section \<open>Items\<close>

datatype item_class =
  Plain_Item | Teleport | Magic_Field | Door | Trash_Holder | Mailbox | Bed_Item
| Container | Depot_Locker | Depot_Chest | Inbox | Store_Inbox

datatype thing = Item_ref nat | Player_ref nat | Tile_ref nat

record item =
  item_class :: item_class
  item_id :: u16
  item_attrs :: "item_attributes option"
  item_count :: u8
  item_parent :: "thing option"
  itemlist :: "nat list"
  maxSize :: u32
  totalWeight :: u32
  unlocked :: bool
  maxDepotItems :: u32

type_synonym type_table = "u16 \<Rightarrow> item_type"

definition item_type_of :: "type_table \<Rightarrow> item \<Rightarrow> item_type" where
  "item_type_of T i = T (item_id i)"

definition is_container :: "item \<Rightarrow> bool" where
  "is_container i \<longleftrightarrow> item_class i \<in> {Container, Depot_Locker, Depot_Chest, Inbox, Store_Inbox}"

definition has_receiver :: "item \<Rightarrow> bool" where
  "has_receiver i \<longleftrightarrow> is_container i \<or> item_class i \<in> {Teleport, Trash_Holder, Mailbox}"

subsection \<open>Attributes of an item, which may have none\<close>

definition getAttributes :: "item \<Rightarrow> item_attributes" where
  "getAttributes i = (case item_attrs i of Some a \<Rightarrow> a | None \<Rightarrow> no_attributes)"

definition item_hasAttribute :: "itemAttrTypes \<Rightarrow> item \<Rightarrow> bool" where
  "item_hasAttribute t i = (case item_attrs i of None \<Rightarrow> False | Some a \<Rightarrow> hasAttribute t a)"

definition item_getIntAttr :: "itemAttrTypes \<Rightarrow> item \<Rightarrow> 64 word" where
  "item_getIntAttr t i = (case item_attrs i of None \<Rightarrow> 0 | Some a \<Rightarrow> getIntAttr t a)"

definition item_setIntAttr :: "itemAttrTypes \<Rightarrow> 64 word \<Rightarrow> item \<Rightarrow> item" where
  "item_setIntAttr t v i = i\<lparr>item_attrs := Some (setIntAttr t v (getAttributes i))\<rparr>"

definition item_getStrAttr :: "itemAttrTypes \<Rightarrow> item \<Rightarrow> u8 list" where
  "item_getStrAttr t i = (case item_attrs i of None \<Rightarrow> [] | Some a \<Rightarrow> getStrAttr t a)"

definition item_setStrAttr :: "itemAttrTypes \<Rightarrow> u8 list \<Rightarrow> item \<Rightarrow> item" where
  "item_setStrAttr t v i = i\<lparr>item_attrs := Some (setStrAttr t v (getAttributes i))\<rparr>"

definition item_removeAttribute :: "itemAttrTypes \<Rightarrow> item \<Rightarrow> item" where
  "item_removeAttribute t i =
     (case item_attrs i of None \<Rightarrow> i | Some a \<Rightarrow> i\<lparr>item_attrs := Some (removeAttribute t a)\<rparr>)"

definition getDuration :: "item \<Rightarrow> u32" where
  "getDuration i = ucast (item_getIntAttr ITEM_ATTRIBUTE_DURATION i)"

definition setDuration :: "u32 \<Rightarrow> item \<Rightarrow> item" where
  "setDuration time = item_setIntAttr ITEM_ATTRIBUTE_DURATION (scast time)"

definition DECAYING_FALSE :: u8 where "DECAYING_FALSE = 0"
definition DECAYING_TRUE :: u8 where "DECAYING_TRUE = 1"
definition DECAYING_PENDING :: u8 where "DECAYING_PENDING = 2"

definition getDecaying :: "item \<Rightarrow> u8" where
  "getDecaying i = ucast (item_getIntAttr ITEM_ATTRIBUTE_DECAYSTATE i)"

definition setDecaying :: "u8 \<Rightarrow> item \<Rightarrow> item" where
  "setDecaying s = item_setIntAttr ITEM_ATTRIBUTE_DECAYSTATE (ucast s)"

definition setFluidType :: "u16 \<Rightarrow> item \<Rightarrow> item" where
  "setFluidType n = item_setIntAttr ITEM_ATTRIBUTE_FLUIDTYPE (ucast n)"

definition getFluidType :: "item \<Rightarrow> u16" where
  "getFluidType i = ucast (item_getIntAttr ITEM_ATTRIBUTE_FLUIDTYPE i)"

definition setCharges :: "u16 \<Rightarrow> item \<Rightarrow> item" where
  "setCharges n = item_setIntAttr ITEM_ATTRIBUTE_CHARGES (ucast n)"

definition getCharges :: "item \<Rightarrow> u16" where
  "getCharges i = ucast (item_getIntAttr ITEM_ATTRIBUTE_CHARGES i)"

subsection \<open>Counts, weights and equality\<close>

definition setItemCount :: "u8 \<Rightarrow> item \<Rightarrow> item" where
  "setItemCount n i = i\<lparr>item_count := n\<rparr>"

definition isStackable :: "type_table \<Rightarrow> item \<Rightarrow> bool" where
  "isStackable T i \<longleftrightarrow> it_stackable (item_type_of T i)"

definition isPickupable :: "type_table \<Rightarrow> item \<Rightarrow> bool" where
  "isPickupable T i \<longleftrightarrow> it_pickupable (item_type_of T i)"

definition isMoveable :: "type_table \<Rightarrow> item \<Rightarrow> bool" where
  "isMoveable T i \<longleftrightarrow> it_moveable (item_type_of T i)"

definition isStoreItem :: "type_table \<Rightarrow> item \<Rightarrow> bool" where
  "isStoreItem T i =
     (if item_hasAttribute ITEM_ATTRIBUTE_STOREITEM i then item_getIntAttr ITEM_ATTRIBUTE_STOREITEM i = 1
      else it_storeItem (item_type_of T i))"

definition getSubType :: "type_table \<Rightarrow> item \<Rightarrow> u16" where
  "getSubType T i =
     (let it = item_type_of T i
      in if isFluidContainer it \<or> isSplash it then getFluidType i
         else if it_stackable it then ucast (item_count i)
         else if it_charges it \<noteq> 0 then getCharges i
         else ucast (item_count i))"

definition setSubType :: "type_table \<Rightarrow> u16 \<Rightarrow> item \<Rightarrow> item" where
  "setSubType T n i =
     (let it = item_type_of T i
      in if isFluidContainer it \<or> isSplash it then setFluidType n i
         else if it_stackable it then setItemCount (ucast n) i
         else if it_charges it \<noteq> 0 then setCharges n i
         else setItemCount (ucast n) i)"

definition getBaseWeight :: "type_table \<Rightarrow> item \<Rightarrow> u32" where
  "getBaseWeight T i =
     (if item_hasAttribute ITEM_ATTRIBUTE_WEIGHT i then ucast (item_getIntAttr ITEM_ATTRIBUTE_WEIGHT i)
      else it_weight (item_type_of T i))"

text \<open>\<open>getWeight\<close> of an item, and of a container, which adds its contents.\<close>

definition item_getWeight :: "type_table \<Rightarrow> item \<Rightarrow> u32" where
  "item_getWeight T i =
     (let weight = getBaseWeight T i
      in if isStackable T i then weight * max 1 (ucast (item_count i)) else weight)"

definition getWeight :: "type_table \<Rightarrow> item \<Rightarrow> u32" where
  "getWeight T i = (if is_container i then item_getWeight T i + totalWeight i else item_getWeight T i)"

definition attribute_matches :: "attribute \<Rightarrow> attribute \<Rightarrow> bool" where
  "attribute_matches x y \<longleftrightarrow>
     (if a_type x \<noteq> a_type y then True
      else if isIntAttrType (a_type x) then integer_of (a_value x) = integer_of (a_value y)
      else if isStrAttrType (a_type x) then string_of (a_value x) = string_of (a_value y)
      else custom_map_equal (custom_of (a_value x)) (custom_of (a_value y)))"

definition equals :: "item \<Rightarrow> item option \<Rightarrow> bool" where
  "equals i otherItem \<longleftrightarrow>
     (case otherItem of None \<Rightarrow> False | Some j \<Rightarrow>
        if item_id i \<noteq> item_id j then False
        else case (item_attrs i, item_attrs j) of
          (None, None) \<Rightarrow> True
        | (None, Some b) \<Rightarrow> attributeBits b = 0
        | (Some a, None) \<Rightarrow> attributeBits a = 0
        | (Some a, Some b) \<Rightarrow>
            if attributeBits a \<noteq> attributeBits b then False
            else \<forall>x \<in> set (attribute_list a). \<forall>y \<in> set (attribute_list b). attribute_matches x y)"

subsection \<open>Making items\<close>

definition setDefaultDuration :: "type_table \<Rightarrow> item \<Rightarrow> item" where
  "setDefaultDuration T i =
     (let duration = it_decayTime (item_type_of T i) * 1000
      in if duration \<noteq> 0 then setDuration duration i else i)"

definition blank_item :: "item_class \<Rightarrow> u16 \<Rightarrow> item" where
  "blank_item cl ty = \<lparr>item_class = cl, item_id = ty, item_attrs = None, item_count = 1, item_parent = None,
     itemlist = [], maxSize = 0, totalWeight = 0, unlocked = True, maxDepotItems = 0\<rparr>"

definition init_subtype :: "type_table \<Rightarrow> u16 \<Rightarrow> item \<Rightarrow> item" where
  "init_subtype T n i =
     (let it = item_type_of T i
      in if isFluidContainer it \<or> isSplash it then setFluidType n i
         else if it_stackable it then
           (if n \<noteq> 0 then setItemCount (ucast n) i
            else if it_charges it \<noteq> 0 then setItemCount (ucast (it_charges it)) i else i)
         else if it_charges it \<noteq> 0 then
           (if n \<noteq> 0 then setCharges n i else setCharges (ucast (it_charges it)) i)
         else i)"

definition new_item :: "type_table \<Rightarrow> item_class \<Rightarrow> u16 \<Rightarrow> u16 \<Rightarrow> item" where
  "new_item T cl ty n = setDefaultDuration T (init_subtype T n (blank_item cl ty))"

definition new_container :: "type_table \<Rightarrow> item_class \<Rightarrow> u16 \<Rightarrow> u16 \<Rightarrow> bool \<Rightarrow> item" where
  "new_container T cl ty n unlocked' = (new_item T cl ty 0)\<lparr>maxSize := ucast n, unlocked := unlocked'\<rparr>"

definition CreateItem :: "type_table \<Rightarrow> u16 \<Rightarrow> u16 \<Rightarrow> item option" where
  "CreateItem T ty n =
     (let it = T ty
      in if it_group it = ITEM_GROUP_DEPRECATED then None
         else
           let n = (if it_stackable it \<and> n = 0 then 1 else n)
           in if it_id it = 0 then None
              else Some (
                if it_type it = ITEM_TYPE_DEPOT then new_container T Depot_Locker ty (it_maxItems it) True
                else if it_group it = ITEM_GROUP_CONTAINER then new_container T Container ty (it_maxItems it) True
                else if it_type it = ITEM_TYPE_TELEPORT then new_item T Teleport ty 0
                else if it_type it = ITEM_TYPE_MAGICFIELD then new_item T Magic_Field ty 0
                else if it_type it = ITEM_TYPE_DOOR then new_item T Door ty 0
                else if it_type it = ITEM_TYPE_TRASHHOLDER then new_item T Trash_Holder ty 0
                else if it_type it = ITEM_TYPE_MAILBOX then new_item T Mailbox ty 0
                else if it_type it = ITEM_TYPE_BED then new_item T Bed_Item ty 0
                else if it_id it \<ge> 2210 \<and> it_id it \<le> 2212 then new_item T Plain_Item (ty - 3) n
                else if it_id it = 2215 \<or> it_id it = 2216 then new_item T Plain_Item (ty - 2) n
                else if it_id it \<ge> 2202 \<and> it_id it \<le> 2206 then new_item T Plain_Item (ty - 37) n
                else if it_id it = 2640 then new_item T Plain_Item 6132 n
                else if it_id it = 6301 then new_item T Plain_Item 6300 n
                else if it_id it = 18528 then new_item T Plain_Item 18408 n
                else new_item T Plain_Item ty n))"

text \<open>\<open>clone\<close> of an item that is no container; the queue of decaying items is not modelled.\<close>

definition item_clone :: "type_table \<Rightarrow> item \<Rightarrow> item option" where
  "item_clone T i =
     (case CreateItem T (item_id i) (ucast (item_count i)) of
        None \<Rightarrow> None
      | Some j \<Rightarrow>
          Some (case item_attrs i of
                  None \<Rightarrow> j
                | Some a \<Rightarrow>
                    let j = j\<lparr>item_attrs := Some a\<rparr>
                    in if getDuration j > 0 then setDecaying DECAYING_TRUE j else j))"

definition setID :: "type_table \<Rightarrow> u16 \<Rightarrow> item \<Rightarrow> item" where
  "setID T newid i =
     (let prevIt = item_type_of T i;
          i = i\<lparr>item_id := newid\<rparr>;
          it = T newid;
          newDuration = it_decayTime it * 1000;
          i = (if newDuration = 0 \<and> \<not> it_stopTime it \<and> it_decayTo it < 0
               then item_removeAttribute ITEM_ATTRIBUTE_DURATION (item_removeAttribute ITEM_ATTRIBUTE_DECAYSTATE i)
               else i);
          i = item_removeAttribute ITEM_ATTRIBUTE_CORPSEOWNER i
      in if newDuration > 0 \<and> (\<not> it_stopTime prevIt \<or> \<not> item_hasAttribute ITEM_ATTRIBUTE_DURATION i)
         then setDuration newDuration (setDecaying DECAYING_FALSE i)
         else i)"

section \<open>The store\<close>

text \<open>A player as a place for items: the slots 0 to 10, of which 1 to 10 are used, the tile he is
  on, and what his capacity depends on. The store inbox is not in a slot.\<close>

record holder =
  inventory :: "nat option list"
  storeInbox :: "nat option"
  tradeItem :: "nat option"
  on_tile :: "nat option"
  gone :: bool
  cannot_pickup :: bool
  infinite_capacity :: bool
  capacity :: u32
  inventoryWeight :: u32

record store =
  heap :: "item list"
  holders :: "holder list"

definition item_at :: "store \<Rightarrow> nat \<Rightarrow> item" where
  "item_at w i = heap w ! i"

definition upd_item :: "nat \<Rightarrow> (item \<Rightarrow> item) \<Rightarrow> store \<Rightarrow> store" where
  "upd_item i f w = w\<lparr>heap := (heap w)[i := f (heap w ! i)]\<rparr>"

definition setParent :: "thing option \<Rightarrow> nat \<Rightarrow> store \<Rightarrow> store" where
  "setParent p i = upd_item i (\<lambda>x. x\<lparr>item_parent := p\<rparr>)"

partial_function (option) getParent :: "store \<Rightarrow> thing \<Rightarrow> thing option option" where
  "getParent w t =
     (case t of
        Item_ref i \<Rightarrow>
          (if item_class (item_at w i) = Depot_Chest \<or> item_class (item_at w i) = Inbox
           then (case item_parent (item_at w i) of None \<Rightarrow> Some None | Some p \<Rightarrow> getParent w p)
           else Some (item_parent (item_at w i)))
      | Player_ref p \<Rightarrow> Some (map_option Tile_ref (on_tile (holders w ! p)))
      | Tile_ref q \<Rightarrow> Some None)"

declare getParent.simps [code]

text \<open>What a loop over \<open>parent = parent->getParent()\<close> passes, nearest first.\<close>

partial_function (option) ancestors :: "store \<Rightarrow> thing \<Rightarrow> thing list option" where
  "ancestors w t =
     do { parent \<leftarrow> getParent w t;
          case parent of
            None \<Rightarrow> Some []
          | Some p \<Rightarrow> do { ps \<leftarrow> ancestors w p; Some (p # ps) } }"

declare ancestors.simps [code]

definition getTopParent :: "store \<Rightarrow> nat \<Rightarrow> thing option option" where
  "getTopParent w i =
     (case ancestors w (Item_ref i) of
        None \<Rightarrow> None
      | Some ps \<Rightarrow>
          let receiver = (if has_receiver (item_at w i) then Some (Item_ref i) else None)
          in Some (case ps of
               [] \<Rightarrow> receiver
             | [p] \<Rightarrow> if receiver \<noteq> None then receiver else Some p
             | _ \<Rightarrow> Some (ps ! (length ps - 2))))"

text \<open>\<open>getTile\<close> of an item asks the parent of its top parent, or the top parent where it has none. A
  container is its own top parent while it has no parent, and then asks itself: the call never returns.\<close>

partial_function (option) item_getTile :: "store \<Rightarrow> thing \<Rightarrow> nat option option" where
  "item_getTile w t =
     (case t of
        Tile_ref q \<Rightarrow> Some (Some q)
      | Player_ref p \<Rightarrow> Some (on_tile (holders w ! p))
      | Item_ref i \<Rightarrow> do {
          topParent \<leftarrow> getTopParent w i;
          (case topParent of
             None \<Rightarrow> Some None
           | Some p \<Rightarrow> do {
               parent \<leftarrow> getParent w p;
               item_getTile w (case parent of Some q \<Rightarrow> q | None \<Rightarrow> p) }) })"

declare item_getTile.simps [code]

lemma item_getTile_loops:
  assumes "getTopParent w i = Some (Some (Item_ref i))" and "getParent w (Item_ref i) = Some None"
  shows "item_getTile w (Item_ref i) = None"
proof -
  have "v = w \<Longrightarrow> t = Item_ref i \<Longrightarrow> False" if "item_getTile v t = Some q" for v t q
    using that
  proof (induction rule: item_getTile.raw_induct [rotated, consumes 1, case_names step])
    case (step item_getTile v t q)
    then show ?case using assms by simp
  qed
  then show ?thesis by (cases "item_getTile w (Item_ref i)") auto
qed

lemma item_getTile_unplaced:
  assumes "item_parent (item_at w i) = None" and "has_receiver (item_at w i)"
  shows "item_getTile w (Item_ref i) = None"
proof (rule item_getTile_loops)
  have "ancestors w (Item_ref i) = Some []"
    using assms(1) by (subst ancestors.simps) (simp add: getParent.simps [of w "Item_ref i"])
  then show "getTopParent w i = Some (Some (Item_ref i))" using assms(2) by (simp add: getTopParent_def)
  show "getParent w (Item_ref i) = Some None" using assms(1) by (simp add: getParent.simps [of w "Item_ref i"])
qed

definition isRemoved :: "store \<Rightarrow> nat \<Rightarrow> bool option" where
  "isRemoved w i =
     map_option
       (\<lambda>ps. case filter (\<lambda>t. \<not> (\<exists>j. t = Item_ref j)) ps of
          [] \<Rightarrow> True
        | Player_ref p # _ \<Rightarrow> gone (holders w ! p)
        | _ \<Rightarrow> False)
       (ancestors w (Item_ref i))"

end
