(* ===== verification/Containers.thy ===== *)
theory Containers
  imports Items
begin

text \<open>
  Containers as places for items: \<open>src/container.cpp\<close>, with the refusals of depot chests, inboxes
  and store inboxes of \<open>src/depotchest.cpp\<close>, \<open>src/inbox.cpp\<close> and \<open>src/storeinbox.cpp\<close>, and what a
  player answers to a container he carries. The things asked about are items. What a house and a
  script answer is part of the environment.
\<close>

section \<open>Flags and the environment\<close>

definition FLAG_NOLIMIT :: u32 where "FLAG_NOLIMIT = 1"
definition FLAG_CHILDISOWNER :: u32 where "FLAG_CHILDISOWNER = 8"
definition FLAG_IGNORENOTMOVEABLE :: u32 where "FLAG_IGNORENOTMOVEABLE = 64"
definition FLAG_IGNOREAUTOSTACK :: u32 where "FLAG_IGNOREAUTOSTACK = 128"

lemmas flag_defs = FLAG_NOLIMIT_def FLAG_CHILDISOWNER_def FLAG_IGNORENOTMOVEABLE_def FLAG_IGNOREAUTOSTACK_def

definition hasBitSet :: "u32 \<Rightarrow> u32 \<Rightarrow> bool" where
  "hasBitSet f flags \<longleftrightarrow> (flags AND f) \<noteq> 0"

definition INDEX_WHEREEVER :: int where
  "INDEX_WHEREEVER = -1"

definition ITEM_STACK_SIZE :: nat where
  "ITEM_STACK_SIZE = 100"

text \<open>\<open>house_refuses a t\<close>: the tile of the top parent \<open>t\<close> belongs to a house to which the actor
  \<open>a\<close> is not invited, and \<open>t\<close> is no creature.\<close>

record env =
  types :: type_table
  classic_equipment_slots :: bool
  only_invited_can_move :: bool
  house_refuses :: "nat \<Rightarrow> thing \<Rightarrow> bool"
  onPlayerEquip :: "nat \<Rightarrow> nat \<Rightarrow> int \<Rightarrow> ReturnValue"

section \<open>Iterating over a container\<close>

text \<open>\<open>ContainerIterator\<close>: the containers to go through, and the place in the first one. The result
  are the items met.\<close>

partial_function (option) iterate :: "store \<Rightarrow> nat list \<Rightarrow> nat \<Rightarrow> nat list option" where
  "iterate w over k =
     (case over of
        [] \<Rightarrow> Some []
      | c # _ \<Rightarrow>
          let i = itemlist (item_at w c) ! k;
              over' = (if is_container (item_at w i) \<and> itemlist (item_at w i) \<noteq> [] then over @ [i] else over)
          in do { r \<leftarrow> (if Suc k = length (itemlist (item_at w c)) then iterate w (tl over') 0
                       else iterate w over' (Suc k));
                  Some (i # r) })"

declare iterate.simps [code]

definition held_items :: "store \<Rightarrow> nat \<Rightarrow> nat list option" where
  "held_items w c = iterate w (if itemlist (item_at w c) = [] then [] else [c]) 0"

definition getItemHoldingCount :: "store \<Rightarrow> nat \<Rightarrow> u32 option" where
  "getItemHoldingCount w c = map_option (of_nat \<circ> length) (held_items w c)"

definition isHoldingItem :: "store \<Rightarrow> nat \<Rightarrow> nat \<Rightarrow> bool option" where
  "isHoldingItem w c i = map_option (\<lambda>is. i \<in> set is) (held_items w c)"

section \<open>Capacity of a player\<close>

definition getFreeCapacity :: "holder \<Rightarrow> u32" where
  "getFreeCapacity h =
     (if cannot_pickup h then 0
      else if infinite_capacity h then 0xFFFFFFFF
      else let d = capacity h - inventoryWeight h in if sint d < 0 then 0 else d)"

definition hasCapacity :: "env \<Rightarrow> store \<Rightarrow> nat \<Rightarrow> nat \<Rightarrow> u32 \<Rightarrow> bool option" where
  "hasCapacity e w p i cnt =
     (let h = holders w ! p; x = item_at w i
      in if cannot_pickup h then Some False
         else do {
           top \<leftarrow> getTopParent w i;
           Some (if infinite_capacity h \<or> top = Some (Player_ref p) then True
                 else
                   let itemWeight = (if is_container x then getWeight (types e) x else getBaseWeight (types e) x);
                       itemWeight = (if isStackable (types e) x then itemWeight * cnt else itemWeight)
                   in itemWeight \<le> getFreeCapacity h) })"

section \<open>May an item be added?\<close>

definition depot_full :: "env \<Rightarrow> store \<Rightarrow> nat \<Rightarrow> nat \<Rightarrow> u32 \<Rightarrow> bool option" where
  "depot_full e w c i cnt =
     do { let x = item_at w i;
          top \<leftarrow> getTopParent w i;
          held \<leftarrow> (if is_container x then getItemHoldingCount w i else Some 0);
          n \<leftarrow> getItemHoldingCount w c;
          let addCount = (if isStackable (types e) x \<and> ucast (item_count x) \<noteq> cnt then 1 else 0);
          let addCount = (if top \<noteq> Some (Item_ref c) then (if is_container x then held + 1 else 1) else addCount);
          Some (n + addCount > maxDepotItems (item_at w c)) }"

text \<open>The virtual \<open>queryAdd\<close> of a container of any class, given what \<open>Container::queryAdd\<close> answers.\<close>

definition class_queryAdd ::
  "env \<Rightarrow> store \<Rightarrow> nat \<Rightarrow> nat \<Rightarrow> u32 \<Rightarrow> u32 \<Rightarrow> ReturnValue option \<Rightarrow> ReturnValue option" where
  "class_queryAdd e w c i cnt flags base =
     (let x = item_at w i; noLimit = hasBitSet FLAG_NOLIMIT flags
      in case item_class (item_at w c) of
           Container \<Rightarrow> base
         | Depot_Locker \<Rightarrow> base
         | Depot_Chest \<Rightarrow>
             do { full \<leftarrow> (if noLimit then Some False else depot_full e w c i cnt);
                  if full then Some RETURNVALUE_DEPOTISFULL else base }
         | Inbox \<Rightarrow>
             Some (if \<not> noLimit then RETURNVALUE_CONTAINERNOTENOUGHROOM
                   else if i = c then RETURNVALUE_THISISIMPOSSIBLE
                   else if \<not> isPickupable (types e) x then RETURNVALUE_CANNOTPICKUP
                   else RETURNVALUE_NOERROR)
         | Store_Inbox \<Rightarrow>
             Some (if i = c then RETURNVALUE_THISISIMPOSSIBLE
                   else if \<not> isPickupable (types e) x then RETURNVALUE_CANNOTPICKUP
                   else if \<not> noLimit \<and> \<not> isStoreItem (types e) x then RETURNVALUE_CANNOTMOVEITEMISNOTSTOREITEM
                   else if \<not> noLimit \<and> is_container x \<and> itemlist x \<noteq> [] then RETURNVALUE_ITEMCANNOTBEMOVEDTHERE
                   else RETURNVALUE_NOERROR)
         | _ \<Rightarrow> Some RETURNVALUE_NOTPOSSIBLE)"

text \<open>The question of a container to its top parent, with \<open>FLAG_CHILDISOWNER\<close>. A container has no
  tile for a top parent.\<close>

definition owner_queryAdd :: "env \<Rightarrow> store \<Rightarrow> thing \<Rightarrow> nat \<Rightarrow> u32 \<Rightarrow> u32 \<Rightarrow> ReturnValue option" where
  "owner_queryAdd e w t i cnt flags =
     (case t of
        Item_ref c \<Rightarrow> class_queryAdd e w c i cnt flags (Some RETURNVALUE_NOERROR)
      | Player_ref p \<Rightarrow>
          if hasBitSet FLAG_NOLIMIT flags then Some RETURNVALUE_NOERROR
          else do { enough \<leftarrow> hasCapacity e w p i cnt;
                    Some (if enough then RETURNVALUE_NOERROR else RETURNVALUE_NOTENOUGHCAPACITY) }
      | Tile_ref q \<Rightarrow> None)"

text \<open>The loop over the parents: what it returns, if it returns.\<close>

fun scan_parents :: "store \<Rightarrow> bool \<Rightarrow> nat \<Rightarrow> thing list \<Rightarrow> ReturnValue option" where
  "scan_parents w noLimit i [] = None"
| "scan_parents w noLimit i (p # ps) =
     (if p = Item_ref i then Some RETURNVALUE_THISISIMPOSSIBLE
      else if \<not> noLimit \<and> (case p of Item_ref j \<Rightarrow> item_class (item_at w j) = Inbox | _ \<Rightarrow> False)
      then Some RETURNVALUE_CONTAINERNOTENOUGHROOM
      else scan_parents w noLimit i ps)"

definition parent_refuses ::
  "env \<Rightarrow> store \<Rightarrow> nat \<Rightarrow> int \<Rightarrow> nat \<Rightarrow> u32 \<Rightarrow> thing list \<Rightarrow> ReturnValue option" where
  "parent_refuses e w c index i flags ps =
     (let x = item_at w i; this = item_at w c
      in case ps of
           [] \<Rightarrow> None
         | parent # _ \<Rightarrow>
             if isStoreItem (types e) this \<and>
                (case parent of Item_ref j \<Rightarrow> item_class (item_at w j) = Store_Inbox | _ \<Rightarrow> False)
             then Some (if \<not> isStoreItem (types e) x then RETURNVALUE_CANNOTMOVEITEMISNOTSTOREITEM
                        else RETURNVALUE_ITEMCANNOTBEMOVEDTHERE)
             else case scan_parents w (hasBitSet FLAG_NOLIMIT flags) i ps of
               Some ret \<Rightarrow> Some ret
             | None \<Rightarrow>
                 if \<not> hasBitSet FLAG_NOLIMIT flags \<and> index = INDEX_WHEREEVER \<and> length (itemlist this) \<ge> unat (maxSize this)
                 then Some RETURNVALUE_CONTAINERNOTENOUGHROOM
                 else None)"

definition Container_queryAdd ::
  "env \<Rightarrow> store \<Rightarrow> nat \<Rightarrow> int \<Rightarrow> nat \<Rightarrow> u32 \<Rightarrow> u32 \<Rightarrow> nat option \<Rightarrow> ReturnValue option" where
  "Container_queryAdd e w c index i cnt flags actor =
     (let x = item_at w i; this = item_at w c
      in if hasBitSet FLAG_CHILDISOWNER flags then Some RETURNVALUE_NOERROR
         else if \<not> unlocked this then Some RETURNVALUE_NOTPOSSIBLE
         else if \<not> isPickupable (types e) x then Some RETURNVALUE_CANNOTPICKUP
         else if i = c then Some RETURNVALUE_THISISIMPOSSIBLE
         else if isStoreItem (types e) x \<and> item_class this \<noteq> Depot_Chest then Some RETURNVALUE_ITEMCANNOTBEMOVEDTHERE
         else do {
           ps \<leftarrow> ancestors w (Item_ref c);
           case parent_refuses e w c index i flags ps of
             Some ret \<Rightarrow> Some ret
           | None \<Rightarrow> do {
               topParent \<leftarrow> getTopParent w c;
               case topParent of
                 None \<Rightarrow> Some RETURNVALUE_NOERROR
               | Some t \<Rightarrow>
                   if (case actor of Some a \<Rightarrow> only_invited_can_move e \<and> house_refuses e a t | None \<Rightarrow> False)
                   then Some RETURNVALUE_PLAYERISNOTINVITED
                   else if t \<noteq> Item_ref c then owner_queryAdd e w t i cnt (flags OR FLAG_CHILDISOWNER)
                   else Some RETURNVALUE_NOERROR } })"

definition container_queryAdd ::
  "env \<Rightarrow> store \<Rightarrow> nat \<Rightarrow> int \<Rightarrow> nat \<Rightarrow> u32 \<Rightarrow> u32 \<Rightarrow> nat option \<Rightarrow> ReturnValue option" where
  "container_queryAdd e w c index i cnt flags actor =
     class_queryAdd e w c i cnt flags (Container_queryAdd e w c index i cnt flags actor)"

section \<open>How many, and may it be taken?\<close>

definition getItemByIndex :: "store \<Rightarrow> nat \<Rightarrow> int \<Rightarrow> nat option" where
  "getItemByIndex w c index =
     (if index < 0 \<or> nat index \<ge> length (itemlist (item_at w c)) then None
      else Some (itemlist (item_at w c) ! nat index))"

text \<open>The room on stacks equal to the item; only stacks that pass the test use up an index.\<close>

fun free_on_stacks :: "env \<Rightarrow> store \<Rightarrow> nat \<Rightarrow> nat \<Rightarrow> u32 \<Rightarrow> u32 \<Rightarrow> int \<Rightarrow> nat list \<Rightarrow> u32 option" where
  "free_on_stacks e w c i cnt flags slotIndex [] = Some 0"
| "free_on_stacks e w c i cnt flags slotIndex (j # js) =
     (if j \<noteq> i \<and> equals (item_at w j) (Some (item_at w i)) \<and> unat (item_count (item_at w j)) < ITEM_STACK_SIZE
      then do { ret \<leftarrow> container_queryAdd e w c slotIndex i cnt flags None;
                n \<leftarrow> free_on_stacks e w c i cnt flags (slotIndex + 1) js;
                Some (if ret = RETURNVALUE_NOERROR
                      then of_nat (ITEM_STACK_SIZE - unat (item_count (item_at w j))) + n else n) }
      else free_on_stacks e w c i cnt flags slotIndex js)"

definition container_queryMaxCount ::
  "env \<Rightarrow> store \<Rightarrow> nat \<Rightarrow> int \<Rightarrow> nat \<Rightarrow> u32 \<Rightarrow> u32 \<Rightarrow> (ReturnValue \<times> u32) option" where
  "container_queryMaxCount e w c index i cnt flags =
     (let x = item_at w i; this = item_at w c
      in if hasBitSet FLAG_NOLIMIT flags then Some (RETURNVALUE_NOERROR, max 1 cnt)
         else
           let freeSlots = max 0 (sint (maxSize this - of_nat (length (itemlist this))))
           in if isStackable (types e) x then
                do { n \<leftarrow> (if index = INDEX_WHEREEVER then free_on_stacks e w c i cnt flags 0 (itemlist this)
                          else case getItemByIndex w c index of
                                 None \<Rightarrow> Some 0
                               | Some j \<Rightarrow>
                                   if equals x (Some (item_at w j)) \<and> unat (item_count (item_at w j)) < ITEM_STACK_SIZE
                                   then do { ret \<leftarrow> container_queryAdd e w c index i cnt flags None;
                                             Some (if ret = RETURNVALUE_NOERROR
                                                   then of_nat (ITEM_STACK_SIZE - unat (item_count (item_at w j))) else 0) }
                                   else Some 0);
                     let maxQueryCount = word_of_int (freeSlots * int ITEM_STACK_SIZE) + n;
                     Some (if maxQueryCount < cnt then RETURNVALUE_CONTAINERNOTENOUGHROOM else RETURNVALUE_NOERROR,
                           maxQueryCount) }
              else let maxQueryCount = word_of_int freeSlots
                   in Some (if maxQueryCount = 0 then RETURNVALUE_CONTAINERNOTENOUGHROOM else RETURNVALUE_NOERROR,
                            maxQueryCount))"

fun index_of :: "nat \<Rightarrow> nat list \<Rightarrow> int \<Rightarrow> int" where
  "index_of i [] n = -1"
| "index_of i (j # js) n = (if j = i then n else index_of i js (n + 1))"

definition container_getThingIndex :: "store \<Rightarrow> nat \<Rightarrow> nat \<Rightarrow> int" where
  "container_getThingIndex w c i = index_of i (itemlist (item_at w c)) 0"

text \<open>The tests of \<open>queryRemove\<close> that containers and players share.\<close>

definition removal_refused :: "env \<Rightarrow> store \<Rightarrow> int \<Rightarrow> nat \<Rightarrow> u32 \<Rightarrow> u32 \<Rightarrow> ReturnValue" where
  "removal_refused e w index i cnt flags =
     (let x = item_at w i
      in if index = -1 then RETURNVALUE_NOTPOSSIBLE
         else if cnt = 0 \<or> isStackable (types e) x \<and> cnt > ucast (item_count x) then RETURNVALUE_NOTPOSSIBLE
         else if \<not> isMoveable (types e) x \<and> \<not> hasBitSet FLAG_IGNORENOTMOVEABLE flags then RETURNVALUE_NOTMOVEABLE
         else RETURNVALUE_NOERROR)"

definition container_queryRemove ::
  "env \<Rightarrow> store \<Rightarrow> nat \<Rightarrow> nat \<Rightarrow> u32 \<Rightarrow> u32 \<Rightarrow> nat option \<Rightarrow> ReturnValue option" where
  "container_queryRemove e w c i cnt flags actor =
     (let ret = removal_refused e w (container_getThingIndex w c i) i cnt flags
      in if ret \<noteq> RETURNVALUE_NOERROR then Some ret
         else case actor of
           None \<Rightarrow> Some RETURNVALUE_NOERROR
         | Some a \<Rightarrow>
             if \<not> only_invited_can_move e then Some RETURNVALUE_NOERROR
             else do { top \<leftarrow> getTopParent w c;
                       Some (case top of
                               Some t \<Rightarrow> if house_refuses e a t then RETURNVALUE_PLAYERISNOTINVITED else RETURNVALUE_NOERROR
                             | None \<Rightarrow> RETURNVALUE_NOERROR) })"

section \<open>Where does it go?\<close>

fun find_stack :: "store \<Rightarrow> nat \<Rightarrow> int \<Rightarrow> nat list \<Rightarrow> (int \<times> nat) option" where
  "find_stack w i n [] = None"
| "find_stack w i n (j # js) =
     (if j \<noteq> i \<and> equals (item_at w j) (Some (item_at w i)) \<and> unat (item_count (item_at w j)) < ITEM_STACK_SIZE
      then Some (n, j) else find_stack w i (n + 1) js)"

text \<open>A stackable item from elsewhere goes on the item at its index, or on the first stack with room.\<close>

definition stack_destination ::
  "env \<Rightarrow> store \<Rightarrow> nat \<Rightarrow> int \<Rightarrow> nat \<Rightarrow> nat option \<Rightarrow> u32 \<Rightarrow> (thing \<times> int \<times> nat option) option" where
  "stack_destination e w c index i destItem flags =
     (let x = item_at w i
      in if \<not> hasBitSet FLAG_IGNOREAUTOSTACK flags \<and> isStackable (types e) x then
           do { parent \<leftarrow> getParent w (Item_ref i);
                Some (if parent = Some (Item_ref c) then (Item_ref c, index, destItem)
                      else if (case destItem of
                                 Some j \<Rightarrow> equals (item_at w j) (Some x) \<and> unat (item_count (item_at w j)) < ITEM_STACK_SIZE
                               | None \<Rightarrow> False)
                      then (Item_ref c, index, destItem)
                      else case find_stack w i 0 (itemlist (item_at w c)) of
                        Some (n, j) \<Rightarrow> (Item_ref c, n, Some j)
                      | None \<Rightarrow> (Item_ref c, index, destItem)) }
         else Some (Item_ref c, index, destItem))"

text \<open>The receiver, the index and the item at the destination, from the index and item given.\<close>

definition container_queryDestination ::
  "env \<Rightarrow> store \<Rightarrow> nat \<Rightarrow> int \<Rightarrow> nat \<Rightarrow> nat option \<Rightarrow> u32 \<Rightarrow> (thing \<times> int \<times> nat option) option" where
  "container_queryDestination e w c index i destItem flags =
     (let x = item_at w i; this = item_at w c
      in if \<not> unlocked this then Some (Item_ref c, index, None)
         else do {
           parent \<leftarrow> getParent w (Item_ref c);
           if index = 254 then
             Some (case parent of
                     Some (Item_ref q) \<Rightarrow> if is_container (item_at w q) then Item_ref q else Item_ref c
                   | _ \<Rightarrow> Item_ref c, INDEX_WHEREEVER, None)
           else
             let (index, destItem) =
                   (if index = 255 \<or> index \<ge> sint (maxSize this) then (INDEX_WHEREEVER, None) else (index, destItem));
                 found = (if index \<noteq> INDEX_WHEREEVER then getItemByIndex w c index else None)
             in case found of
                  Some j \<Rightarrow>
                    if has_receiver (item_at w j) then Some (Item_ref j, INDEX_WHEREEVER, None)
                    else stack_destination e w c index i (Some j) flags
                | None \<Rightarrow> stack_destination e w c index i destItem flags })"

section \<open>Changes of a container\<close>

partial_function (option) updateItemWeight :: "nat \<Rightarrow> u32 \<Rightarrow> store \<Rightarrow> store option" where
  "updateItemWeight c diff w =
     do { let w = upd_item c (\<lambda>x. x\<lparr>totalWeight := totalWeight x + diff\<rparr>) w;
          parent \<leftarrow> getParent w (Item_ref c);
          case parent of
            Some (Item_ref p) \<Rightarrow>
              if is_container (item_at w p) then updateItemWeight p diff w else Some w
          | _ \<Rightarrow> Some w }"

declare updateItemWeight.simps [code]

definition push_front :: "nat \<Rightarrow> nat \<Rightarrow> store \<Rightarrow> store" where
  "push_front c i = upd_item c (\<lambda>x. x\<lparr>itemlist := i # itemlist x\<rparr>)"

definition container_internalAddThing :: "env \<Rightarrow> nat \<Rightarrow> nat \<Rightarrow> store \<Rightarrow> store option" where
  "container_internalAddThing e c i w =
     (let w = push_front c i (setParent (Some (Item_ref c)) i w)
      in updateItemWeight c (getWeight (types e) (item_at w i)) w)"

definition container_addThing :: "env \<Rightarrow> nat \<Rightarrow> int \<Rightarrow> nat \<Rightarrow> store \<Rightarrow> store option" where
  "container_addThing e c index i w =
     (if index \<ge> sint (maxSize (item_at w c)) then Some w
      else
        let w = push_front c i (setParent (Some (Item_ref c)) i w)
        in updateItemWeight c (getWeight (types e) (item_at w i)) w)"

definition addItem :: "nat \<Rightarrow> nat \<Rightarrow> store \<Rightarrow> store" where
  "addItem c i w =
     setParent (Some (Item_ref c)) i (upd_item c (\<lambda>x. x\<lparr>itemlist := itemlist x @ [i]\<rparr>) w)"

definition addItemBack :: "env \<Rightarrow> nat \<Rightarrow> nat \<Rightarrow> store \<Rightarrow> store option" where
  "addItemBack e c i w =
     (let w = addItem c i w in updateItemWeight c (getWeight (types e) (item_at w i)) w)"

text \<open>A change of the item \<open>i\<close> in the container, with the change of its weight.\<close>

definition reweigh :: "env \<Rightarrow> nat \<Rightarrow> nat \<Rightarrow> (item \<Rightarrow> item) \<Rightarrow> store \<Rightarrow> store option" where
  "reweigh e c i f w =
     (let oldWeight = getWeight (types e) (item_at w i);
          w = upd_item i f w
      in updateItemWeight c (- oldWeight + getWeight (types e) (item_at w i)) w)"

definition container_updateThing :: "env \<Rightarrow> nat \<Rightarrow> nat \<Rightarrow> u16 \<Rightarrow> u32 \<Rightarrow> store \<Rightarrow> store option" where
  "container_updateThing e c i itemId cnt w =
     (if container_getThingIndex w c i = -1 then Some w
      else reweigh e c i (\<lambda>x. setSubType (types e) (ucast cnt) (setID (types e) itemId x)) w)"

text \<open>The count that is left, a difference of 32 bits read as signed.\<close>

definition count_left :: "u8 \<Rightarrow> u32 \<Rightarrow> u8" where
  "count_left n cnt = (let d = ucast n - cnt in if sint d < 0 then 0 else ucast d)"

definition container_removeThing :: "env \<Rightarrow> nat \<Rightarrow> nat \<Rightarrow> u32 \<Rightarrow> store \<Rightarrow> store option" where
  "container_removeThing e c i cnt w =
     (let x = item_at w i
      in if container_getThingIndex w c i = -1 then Some w
         else if isStackable (types e) x \<and> cnt \<noteq> ucast (item_count x) then
           reweigh e c i (setItemCount (count_left (item_count x) cnt)) w
         else do {
           w \<leftarrow> updateItemWeight c (- getWeight (types e) x) w;
           let w = setParent None i w;
           Some (upd_item c (\<lambda>y. y\<lparr>itemlist := remove1 i (itemlist y)\<rparr>) w) })"

definition container_replaceThing :: "env \<Rightarrow> nat \<Rightarrow> nat \<Rightarrow> nat \<Rightarrow> store \<Rightarrow> store option" where
  "container_replaceThing e c index i w =
     (case getItemByIndex w c (int index) of
        None \<Rightarrow> Some w
      | Some j \<Rightarrow> do {
          let w = upd_item c (\<lambda>y. y\<lparr>itemlist := (itemlist y)[index := i]\<rparr>) w;
          let w = setParent (Some (Item_ref c)) i w;
          w \<leftarrow> updateItemWeight c (- getWeight (types e) (item_at w j) + getWeight (types e) (item_at w i)) w;
          Some (setParent None j w) })"

definition container_internalRemoveThing :: "nat \<Rightarrow> nat \<Rightarrow> store \<Rightarrow> store" where
  "container_internalRemoveThing c i = upd_item c (\<lambda>y. y\<lparr>itemlist := remove1 i (itemlist y)\<rparr>)"

end
