(* ===== verification/Inventory.thy ===== *)
theory Inventory
  imports Containers
begin

text \<open>
  The slots of a player as a place for items: the functions of \<open>Player\<close> in \<open>src/player.cpp\<close> that
  correspond to those of a container. What the script of an item answers when it is put on is part of
  the environment.
\<close>

definition CONST_SLOT_WHEREEVER :: int where "CONST_SLOT_WHEREEVER = 0"
definition CONST_SLOT_HEAD :: int where "CONST_SLOT_HEAD = 1"
definition CONST_SLOT_NECKLACE :: int where "CONST_SLOT_NECKLACE = 2"
definition CONST_SLOT_BACKPACK :: int where "CONST_SLOT_BACKPACK = 3"
definition CONST_SLOT_ARMOR :: int where "CONST_SLOT_ARMOR = 4"
definition CONST_SLOT_RIGHT :: int where "CONST_SLOT_RIGHT = 5"
definition CONST_SLOT_LEFT :: int where "CONST_SLOT_LEFT = 6"
definition CONST_SLOT_LEGS :: int where "CONST_SLOT_LEGS = 7"
definition CONST_SLOT_FEET :: int where "CONST_SLOT_FEET = 8"
definition CONST_SLOT_RING :: int where "CONST_SLOT_RING = 9"
definition CONST_SLOT_AMMO :: int where "CONST_SLOT_AMMO = 10"

lemmas slot_defs = CONST_SLOT_WHEREEVER_def CONST_SLOT_HEAD_def CONST_SLOT_NECKLACE_def CONST_SLOT_BACKPACK_def
  CONST_SLOT_ARMOR_def CONST_SLOT_RIGHT_def CONST_SLOT_LEFT_def CONST_SLOT_LEGS_def CONST_SLOT_FEET_def
  CONST_SLOT_RING_def CONST_SLOT_AMMO_def

definition SLOTP_HEAD :: u16 where "SLOTP_HEAD = 1"
definition SLOTP_NECKLACE :: u16 where "SLOTP_NECKLACE = 2"
definition SLOTP_BACKPACK :: u16 where "SLOTP_BACKPACK = 4"
definition SLOTP_ARMOR :: u16 where "SLOTP_ARMOR = 8"
definition SLOTP_RIGHT :: u16 where "SLOTP_RIGHT = 16"
definition SLOTP_LEFT :: u16 where "SLOTP_LEFT = 32"
definition SLOTP_LEGS :: u16 where "SLOTP_LEGS = 64"
definition SLOTP_FEET :: u16 where "SLOTP_FEET = 128"
definition SLOTP_RING :: u16 where "SLOTP_RING = 256"
definition SLOTP_AMMO :: u16 where "SLOTP_AMMO = 512"
definition SLOTP_TWO_HAND :: u16 where "SLOTP_TWO_HAND = 2048"

definition fits :: "u16 \<Rightarrow> u16 \<Rightarrow> bool" where
  "fits sp bit' \<longleftrightarrow> sp AND bit' \<noteq> 0"

section \<open>Slots\<close>

definition in_slot :: "store \<Rightarrow> nat \<Rightarrow> int \<Rightarrow> nat option" where
  "in_slot w p s =
     (if s < CONST_SLOT_HEAD \<or> s > CONST_SLOT_AMMO then None else inventory (holders w ! p) ! nat s)"

text \<open>\<open>getInventoryItem\<close> and \<open>getThing\<close> are both this lookup.\<close>

definition set_slot :: "nat \<Rightarrow> int \<Rightarrow> nat option \<Rightarrow> store \<Rightarrow> store" where
  "set_slot p s x w =
     w\<lparr>holders := (holders w)[p := (holders w ! p)\<lparr>inventory := (inventory (holders w ! p))[nat s := x]\<rparr>]\<rparr>"

definition player_getThingIndex :: "store \<Rightarrow> nat \<Rightarrow> nat \<Rightarrow> int" where
  "player_getThingIndex w p i =
     (case find (\<lambda>s. inventory (holders w ! p) ! s = Some i) [1..<11] of None \<Rightarrow> -1 | Some s \<Rightarrow> int s)"

section \<open>May an item be put into a slot?\<close>

definition cannot_dress :: "env \<Rightarrow> u16 \<Rightarrow> ReturnValue" where
  "cannot_dress e sp =
     (if fits sp SLOTP_HEAD \<or> fits sp SLOTP_NECKLACE \<or> fits sp SLOTP_BACKPACK \<or> fits sp SLOTP_ARMOR \<or>
         fits sp SLOTP_LEGS \<or> fits sp SLOTP_FEET \<or> fits sp SLOTP_RING then RETURNVALUE_CANNOTBEDRESSED
      else if fits sp SLOTP_TWO_HAND then RETURNVALUE_PUTTHISOBJECTINBOTHHANDS
      else if fits sp SLOTP_RIGHT \<or> fits sp SLOTP_LEFT then
        (if \<not> classic_equipment_slots e then RETURNVALUE_CANNOTBEDRESSED else RETURNVALUE_PUTTHISOBJECTINYOURHAND)
      else RETURNVALUE_NOTPOSSIBLE)"

definition is_shield :: "WeaponType_t \<Rightarrow> bool" where
  "is_shield t \<longleftrightarrow> t = WEAPON_SHIELD \<or> t = WEAPON_SPELLBOOK"

text \<open>The tests of one hand against the item in the other, with the classic slots.\<close>

definition classic_hand :: "env \<Rightarrow> store \<Rightarrow> nat \<Rightarrow> int \<Rightarrow> nat \<Rightarrow> u32 \<Rightarrow> ReturnValue" where
  "classic_hand e w p other i cnt =
     (let x = item_at w i; it = item_type_of (types e) x
      in if fits (it_slotPosition it) SLOTP_TWO_HAND then
           (if in_slot w p other \<noteq> None \<and> in_slot w p other \<noteq> Some i then RETURNVALUE_BOTHHANDSNEEDTOBEFREE
            else RETURNVALUE_NOERROR)
         else case in_slot w p other of
           None \<Rightarrow> RETURNVALUE_NOERROR
         | Some j \<Rightarrow>
             let otherType = item_type_of (types e) (item_at w j);
                 type = it_weaponType it; otherWeapon = it_weaponType otherType
             in if fits (it_slotPosition otherType) SLOTP_TWO_HAND then RETURNVALUE_DROPTWOHANDEDITEM
                else if i = j \<and> cnt = ucast (item_count x) then RETURNVALUE_NOERROR
                else if is_shield otherWeapon \<and> is_shield type then RETURNVALUE_CANONLYUSEONESHIELD
                else if otherWeapon = WEAPON_NONE \<or> type = WEAPON_NONE \<or>
                        is_shield otherWeapon \<or> otherWeapon = WEAPON_AMMO \<or>
                        is_shield type \<or> type = WEAPON_AMMO then RETURNVALUE_NOERROR
                else RETURNVALUE_CANONLYUSEONEWEAPON)"

definition right_hand :: "env \<Rightarrow> store \<Rightarrow> nat \<Rightarrow> nat \<Rightarrow> u32 \<Rightarrow> ReturnValue" where
  "right_hand e w p i cnt =
     (let it = item_type_of (types e) (item_at w i); sp = it_slotPosition it
      in if \<not> classic_equipment_slots e then
           (if it_weaponType it \<noteq> WEAPON_SHIELD \<and> it_weaponType it \<noteq> WEAPON_SPELLBOOK then RETURNVALUE_CANNOTBEDRESSED
            else case in_slot w p CONST_SLOT_LEFT of
              Some j \<Rightarrow>
                if fits (it_slotPosition (item_type_of (types e) (item_at w j)) OR sp) SLOTP_TWO_HAND
                then RETURNVALUE_BOTHHANDSNEEDTOBEFREE else RETURNVALUE_NOERROR
            | None \<Rightarrow> RETURNVALUE_NOERROR)
         else classic_hand e w p CONST_SLOT_LEFT i cnt)"

definition left_hand :: "env \<Rightarrow> store \<Rightarrow> nat \<Rightarrow> nat \<Rightarrow> u32 \<Rightarrow> ReturnValue" where
  "left_hand e w p i cnt =
     (let it = item_type_of (types e) (item_at w i); sp = it_slotPosition it; type = it_weaponType it
      in if \<not> classic_equipment_slots e then
           (if type = WEAPON_NONE \<or> type = WEAPON_SHIELD \<or> type = WEAPON_SPELLBOOK \<or> type = WEAPON_AMMO
            then RETURNVALUE_CANNOTBEDRESSED
            else if in_slot w p CONST_SLOT_RIGHT \<noteq> None \<and> fits sp SLOTP_TWO_HAND
            then RETURNVALUE_BOTHHANDSNEEDTOBEFREE
            else RETURNVALUE_NOERROR)
         else classic_hand e w p CONST_SLOT_RIGHT i cnt)"

definition slot_answer :: "env \<Rightarrow> store \<Rightarrow> nat \<Rightarrow> int \<Rightarrow> nat \<Rightarrow> u32 \<Rightarrow> ReturnValue" where
  "slot_answer e w p index i cnt =
     (let sp = it_slotPosition (item_type_of (types e) (item_at w i));
          ret = cannot_dress e sp;
          plain = (\<lambda>bit'. if fits sp bit' then RETURNVALUE_NOERROR else ret)
      in if index = CONST_SLOT_HEAD then plain SLOTP_HEAD
         else if index = CONST_SLOT_NECKLACE then plain SLOTP_NECKLACE
         else if index = CONST_SLOT_BACKPACK then plain SLOTP_BACKPACK
         else if index = CONST_SLOT_ARMOR then plain SLOTP_ARMOR
         else if index = CONST_SLOT_RIGHT then (if fits sp SLOTP_RIGHT then right_hand e w p i cnt else ret)
         else if index = CONST_SLOT_LEFT then (if fits sp SLOTP_LEFT then left_hand e w p i cnt else ret)
         else if index = CONST_SLOT_LEGS then plain SLOTP_LEGS
         else if index = CONST_SLOT_FEET then plain SLOTP_FEET
         else if index = CONST_SLOT_RING then plain SLOTP_RING
         else if index = CONST_SLOT_AMMO then
           (if fits sp SLOTP_AMMO \<or> classic_equipment_slots e then RETURNVALUE_NOERROR else ret)
         else if index = CONST_SLOT_WHEREEVER \<or> index = -1 then RETURNVALUE_NOTENOUGHROOM
         else RETURNVALUE_NOTPOSSIBLE)"

definition player_queryAdd ::
  "env \<Rightarrow> store \<Rightarrow> nat \<Rightarrow> int \<Rightarrow> nat \<Rightarrow> u32 \<Rightarrow> u32 \<Rightarrow> ReturnValue option" where
  "player_queryAdd e w p index i cnt flags =
     (let x = item_at w i; ret = slot_answer e w p index i cnt
      in if hasBitSet FLAG_CHILDISOWNER flags then owner_queryAdd e w (Player_ref p) i cnt flags
         else if \<not> isPickupable (types e) x then Some RETURNVALUE_CANNOTPICKUP
         else if isStoreItem (types e) x then Some RETURNVALUE_ITEMCANNOTBEMOVEDTHERE
         else if ret \<noteq> RETURNVALUE_NOERROR \<and> ret \<noteq> RETURNVALUE_NOTENOUGHROOM then Some ret
         else do {
           enough \<leftarrow> hasCapacity e w p i cnt;
           if \<not> enough then Some RETURNVALUE_NOTENOUGHCAPACITY
           else
             let ret = (if index \<noteq> CONST_SLOT_WHEREEVER \<and> index \<noteq> -1 then onPlayerEquip e p i index else ret)
             in if index \<noteq> CONST_SLOT_WHEREEVER \<and> index \<noteq> -1 \<and> ret \<noteq> RETURNVALUE_NOERROR then Some ret
                else case in_slot w p index of
                  Some j \<Rightarrow>
                    if \<not> isStackable (types e) (item_at w j) \<or> item_id (item_at w j) \<noteq> item_id x then
                      (if \<not> classic_equipment_slots e then do {
                         top \<leftarrow> getTopParent w i;
                         Some (case top of
                                 Some (Item_ref c) \<Rightarrow>
                                   if item_class (item_at w c) = Depot_Chest then RETURNVALUE_NEEDEXCHANGE
                                   else RETURNVALUE_NOTENOUGHROOM
                               | Some (Player_ref q) \<Rightarrow> RETURNVALUE_NEEDEXCHANGE
                               | _ \<Rightarrow> RETURNVALUE_NOTENOUGHROOM) }
                       else Some RETURNVALUE_NEEDEXCHANGE)
                    else Some ret
                | None \<Rightarrow> Some ret })"

section \<open>How many, and may it be taken?\<close>

text \<open>The sum over a container in a slot and the containers in it.\<close>

fun room_in_containers :: "env \<Rightarrow> store \<Rightarrow> nat \<Rightarrow> u32 \<Rightarrow> nat list \<Rightarrow> u32 option" where
  "room_in_containers e w i flags [] = Some 0"
| "room_in_containers e w i flags (c # cs) =
     (if is_container (item_at w c) then do {
        (ret, queryCount) \<leftarrow> container_queryMaxCount e w c INDEX_WHEREEVER i (ucast (item_count (item_at w i))) flags;
        n \<leftarrow> room_in_containers e w i flags cs;
        Some (queryCount + n) }
      else room_in_containers e w i flags cs)"

fun room_in_slots :: "env \<Rightarrow> store \<Rightarrow> nat \<Rightarrow> nat \<Rightarrow> u32 \<Rightarrow> nat list \<Rightarrow> u32 option" where
  "room_in_slots e w p i flags [] = Some 0"
| "room_in_slots e w p i flags (s # slots) =
     do { let x = item_at w i;
          n \<leftarrow> (case in_slot w p (int s) of
                 Some j \<Rightarrow>
                   if is_container (item_at w j) then do {
                     held \<leftarrow> held_items w j;
                     room_in_containers e w i flags (j # held) }
                   else if isStackable (types e) (item_at w j) \<and> equals x (Some (item_at w j)) \<and>
                           unat (item_count (item_at w j)) < ITEM_STACK_SIZE then
                     do { let remainder = of_nat (100 - unat (item_count (item_at w j)));
                          ret \<leftarrow> player_queryAdd e w p (int s) i remainder flags;
                          Some (if ret = RETURNVALUE_NOERROR then remainder else 0) }
                   else Some 0
               | None \<Rightarrow> do {
                   ret \<leftarrow> player_queryAdd e w p (int s) i (ucast (item_count x)) flags;
                   Some (if ret = RETURNVALUE_NOERROR then (if isStackable (types e) x then 100 else 1) else 0) });
          m \<leftarrow> room_in_slots e w p i flags slots;
          Some (n + m) }"

definition player_queryMaxCount ::
  "env \<Rightarrow> store \<Rightarrow> nat \<Rightarrow> int \<Rightarrow> nat \<Rightarrow> u32 \<Rightarrow> u32 \<Rightarrow> (ReturnValue \<times> u32) option" where
  "player_queryMaxCount e w p index i cnt flags =
     (let x = item_at w i;
          answer = (\<lambda>m. (if m < cnt then RETURNVALUE_NOTENOUGHROOM else RETURNVALUE_NOERROR, m))
      in if index = INDEX_WHEREEVER then map_option answer (room_in_slots e w p i flags [1..<11])
         else case in_slot w p index of
           Some j \<Rightarrow>
             Some (answer (if isStackable (types e) (item_at w j) \<and> equals x (Some (item_at w j)) \<and>
                              unat (item_count (item_at w j)) < ITEM_STACK_SIZE
                           then of_nat (100 - unat (item_count (item_at w j))) else 0))
         | None \<Rightarrow> do {
             ret \<leftarrow> player_queryAdd e w p index i cnt flags;
             Some (if ret = RETURNVALUE_NOERROR
                   then (RETURNVALUE_NOERROR, if isStackable (types e) x then 100 else 1)
                   else answer 0) })"

definition player_queryRemove :: "env \<Rightarrow> store \<Rightarrow> nat \<Rightarrow> nat \<Rightarrow> u32 \<Rightarrow> u32 \<Rightarrow> ReturnValue option" where
  "player_queryRemove e w p i cnt flags = Some (removal_refused e w (player_getThingIndex w p i) i cnt flags)"

section \<open>Where does it go?\<close>

text \<open>A free place of a container, tried from the number \<open>capacity - n\<close> on.\<close>

fun free_place :: "env \<Rightarrow> store \<Rightarrow> nat \<Rightarrow> nat \<Rightarrow> u32 \<Rightarrow> nat \<Rightarrow> int option option" where
  "free_place e w c i flags 0 = Some None"
| "free_place e w c i flags (Suc n) =
     do { let k = int (unat (maxSize (item_at w c)) - Suc n);
          ret \<leftarrow> container_queryAdd e w c k i (ucast (item_count (item_at w i))) flags None;
          if ret = RETURNVALUE_NOERROR then Some (Some k) else free_place e w c i flags n }"

definition subcontainers :: "store \<Rightarrow> nat list \<Rightarrow> nat list" where
  "subcontainers w = filter (\<lambda>j. is_container (item_at w j))"

text \<open>A stack of a container with room for the item, and the number of items passed without it,
  among those that are neither traded nor the item itself.\<close>

fun stack_place :: "store \<Rightarrow> nat option \<Rightarrow> nat \<Rightarrow> int \<Rightarrow> nat list \<Rightarrow> (int \<times> nat) option" where
  "stack_place w traded i n [] = None"
| "stack_place w traded i n (j # js) =
     (if Some j = traded \<or> j = i then stack_place w traded i n js
      else if equals (item_at w j) (Some (item_at w i)) \<and> unat (item_count (item_at w j)) < ITEM_STACK_SIZE
      then Some (n, j)
      else stack_place w traded i (n + 1) js)"

definition others :: "nat option \<Rightarrow> nat \<Rightarrow> nat list \<Rightarrow> nat list" where
  "others traded i = filter (\<lambda>j. \<not> (Some j = traded \<or> j = i))"

partial_function (option) search_containers ::
  "env \<Rightarrow> store \<Rightarrow> nat \<Rightarrow> bool \<Rightarrow> nat \<Rightarrow> u32 \<Rightarrow> nat list \<Rightarrow> (thing \<times> int \<times> nat option) option option" where
  "search_containers e w p stacking i flags cs =
     (case cs of
        [] \<Rightarrow> Some None
      | c # rest \<Rightarrow>
          let js = itemlist (item_at w c); cap = unat (maxSize (item_at w c)) in
          if \<not> stacking then do {
            place \<leftarrow> free_place e w c i flags (cap - min cap (length js));
            case place of
              Some k \<Rightarrow> Some (Some (Item_ref c, k, None))
            | None \<Rightarrow> search_containers e w p stacking i flags (rest @ subcontainers w js) }
          else
            let traded = tradeItem (holders w ! p) in
            case stack_place w traded i 0 js of
              Some (n, j) \<Rightarrow> Some (Some (Item_ref c, n, Some j))
            | None \<Rightarrow>
                let n = int (length (others traded i js)) in
                do {
                  ret \<leftarrow> (if n < int cap
                         then container_queryAdd e w c n i (ucast (item_count (item_at w i))) flags None
                         else Some RETURNVALUE_NOTPOSSIBLE);
                  if ret = RETURNVALUE_NOERROR then Some (Some (Item_ref c, n, None))
                  else search_containers e w p stacking i flags (rest @ subcontainers w (others traded i js)) })"

declare search_containers.simps [code]

text \<open>The first loop, over the slots: a destination, or the containers found.\<close>

fun search_slots ::
  "env \<Rightarrow> store \<Rightarrow> nat \<Rightarrow> bool \<Rightarrow> nat \<Rightarrow> u32 \<Rightarrow> nat list \<Rightarrow> nat list \<Rightarrow>
   ((int \<times> nat option) option \<times> nat list) option" where
  "search_slots e w p stacking i flags cs [] = Some (None, cs)"
| "search_slots e w p stacking i flags cs (s # slots) =
     (case in_slot w p (int s) of
        Some j \<Rightarrow>
          if tradeItem (holders w ! p) = Some j \<or> j = i then search_slots e w p stacking i flags cs slots
          else do {
            ret \<leftarrow> (if stacking then player_queryAdd e w p (int s) i (ucast (item_count (item_at w i))) 0
                   else Some RETURNVALUE_NOTPOSSIBLE);
            if ret = RETURNVALUE_NOERROR \<and> equals (item_at w j) (Some (item_at w i)) \<and>
               unat (item_count (item_at w j)) < ITEM_STACK_SIZE
            then Some (Some (int s, Some j), cs)
            else search_slots e w p stacking i flags (if is_container (item_at w j) then cs @ [j] else cs) slots }
      | None \<Rightarrow> do {
          ret \<leftarrow> player_queryAdd e w p (int s) i (ucast (item_count (item_at w i))) flags;
          if ret = RETURNVALUE_NOERROR then Some (Some (int s, None), cs)
          else search_slots e w p stacking i flags cs slots })"

definition player_queryDestination ::
  "env \<Rightarrow> store \<Rightarrow> nat \<Rightarrow> int \<Rightarrow> nat \<Rightarrow> u32 \<Rightarrow> (thing \<times> int \<times> nat option) option" where
  "player_queryDestination e w p index i flags =
     (if index = 0 \<or> index = INDEX_WHEREEVER then
        let stacking = \<not> hasBitSet FLAG_IGNOREAUTOSTACK flags \<and> isStackable (types e) (item_at w i) in
        do { (found, cs) \<leftarrow> search_slots e w p stacking i flags [] [1..<11];
             case found of
               Some (s, j) \<Rightarrow> Some (Player_ref p, s, j)
             | None \<Rightarrow> do {
                 r \<leftarrow> search_containers e w p stacking i flags cs;
                 Some (case r of Some d \<Rightarrow> d | None \<Rightarrow> (Player_ref p, index, None)) } }
      else case in_slot w p index of
        None \<Rightarrow> Some (Player_ref p, index, None)
      | Some j \<Rightarrow>
          if has_receiver (item_at w j) then Some (Item_ref j, INDEX_WHEREEVER, None)
          else Some (Player_ref p, index, Some j))"

section \<open>Changes of the slots\<close>

definition player_addThing :: "nat \<Rightarrow> int \<Rightarrow> nat \<Rightarrow> store \<Rightarrow> store" where
  "player_addThing p index i w =
     (if index < CONST_SLOT_HEAD \<or> index > CONST_SLOT_AMMO then w
      else set_slot p index (Some i) (setParent (Some (Player_ref p)) i w))"

definition player_updateThing :: "env \<Rightarrow> nat \<Rightarrow> nat \<Rightarrow> u16 \<Rightarrow> u32 \<Rightarrow> store \<Rightarrow> store" where
  "player_updateThing e p i itemId cnt w =
     (if player_getThingIndex w p i = -1 then w
      else upd_item i (\<lambda>x. setSubType (types e) (ucast cnt) (setID (types e) itemId x)) w)"

definition player_replaceThing :: "nat \<Rightarrow> int \<Rightarrow> nat \<Rightarrow> store \<Rightarrow> store" where
  "player_replaceThing p index i w =
     (if in_slot w p index = None then w
      else set_slot p index (Some i) (setParent (Some (Player_ref p)) i w))"

definition player_removeThing :: "env \<Rightarrow> nat \<Rightarrow> nat \<Rightarrow> u32 \<Rightarrow> store \<Rightarrow> store" where
  "player_removeThing e p i cnt w =
     (let x = item_at w i; index = player_getThingIndex w p i
      in if index = -1 then w
         else if isStackable (types e) x \<and> cnt \<noteq> ucast (item_count x) then
           upd_item i (setItemCount (count_left (item_count x) cnt)) w
         else set_slot p index None (setParent None i w))"

definition player_internalAddThing :: "nat \<Rightarrow> nat \<Rightarrow> nat \<Rightarrow> store \<Rightarrow> store" where
  "player_internalAddThing p index i w =
     (if index > 0 \<and> index \<le> 10 then
        (if in_slot w p (int index) \<noteq> None then w
         else setParent (Some (Player_ref p)) i (set_slot p (int index) (Some i) w))
      else w)"

definition updateInventoryWeight :: "env \<Rightarrow> nat \<Rightarrow> store \<Rightarrow> store" where
  "updateInventoryWeight e p w =
     (let h = holders w ! p
      in if infinite_capacity h then w
         else
           let weight = sum_list (map (\<lambda>s. case inventory h ! s of
                          None \<Rightarrow> 0 | Some i \<Rightarrow> getWeight (types e) (item_at w i)) [1..<11]);
               weight = (case storeInbox h of None \<Rightarrow> weight | Some c \<Rightarrow> weight + getWeight (types e) (item_at w c))
           in w\<lparr>holders := (holders w)[p := h\<lparr>inventoryWeight := weight\<rparr>]\<rparr>)"

end
