(* ===== verification/Item_Moves.thy ===== *)
theory Item_Moves
  imports Inventory
begin

text \<open>
  Moving, adding and removing items: \<open>internalMoveItem\<close>, \<open>internalAddItem\<close> and
  \<open>internalRemoveItem\<close> of \<open>src/game.cpp\<close>, on containers and the slots of players. Tiles, and items
  that are places but not containers, give \<open>None\<close>. What the script of the event \<open>onMoveItem\<close>
  answers is an argument. Notifications recompute the weight a player carries; the scripts they run and
  the messages they send are not modelled.
\<close>

section \<open>Virtual calls\<close>

definition queryAdd ::
  "env \<Rightarrow> store \<Rightarrow> thing \<Rightarrow> int \<Rightarrow> nat \<Rightarrow> u32 \<Rightarrow> u32 \<Rightarrow> nat option \<Rightarrow> ReturnValue option" where
  "queryAdd e w t index i cnt flags actor =
     (case t of
        Item_ref c \<Rightarrow> if is_container (item_at w c) then container_queryAdd e w c index i cnt flags actor else None
      | Player_ref p \<Rightarrow> player_queryAdd e w p index i cnt flags
      | Tile_ref q \<Rightarrow> None)"

definition queryMaxCount ::
  "env \<Rightarrow> store \<Rightarrow> thing \<Rightarrow> int \<Rightarrow> nat \<Rightarrow> u32 \<Rightarrow> u32 \<Rightarrow> (ReturnValue \<times> u32) option" where
  "queryMaxCount e w t index i cnt flags =
     (case t of
        Item_ref c \<Rightarrow> if is_container (item_at w c) then container_queryMaxCount e w c index i cnt flags else None
      | Player_ref p \<Rightarrow> player_queryMaxCount e w p index i cnt flags
      | Tile_ref q \<Rightarrow> None)"

definition queryRemove ::
  "env \<Rightarrow> store \<Rightarrow> thing \<Rightarrow> nat \<Rightarrow> u32 \<Rightarrow> u32 \<Rightarrow> nat option \<Rightarrow> ReturnValue option" where
  "queryRemove e w t i cnt flags actor =
     (case t of
        Item_ref c \<Rightarrow> if is_container (item_at w c) then container_queryRemove e w c i cnt flags actor else None
      | Player_ref p \<Rightarrow> player_queryRemove e w p i cnt flags
      | Tile_ref q \<Rightarrow> None)"

definition queryDestination ::
  "env \<Rightarrow> store \<Rightarrow> thing \<Rightarrow> int \<Rightarrow> nat \<Rightarrow> nat option \<Rightarrow> u32 \<Rightarrow> (thing \<times> int \<times> nat option) option" where
  "queryDestination e w t index i destItem flags =
     (case t of
        Item_ref c \<Rightarrow> if is_container (item_at w c) then container_queryDestination e w c index i destItem flags else None
      | Player_ref p \<Rightarrow> player_queryDestination e w p index i flags
      | Tile_ref q \<Rightarrow> None)"

definition getThingIndex :: "store \<Rightarrow> thing \<Rightarrow> nat \<Rightarrow> int" where
  "getThingIndex w t i =
     (case t of
        Item_ref c \<Rightarrow> container_getThingIndex w c i
      | Player_ref p \<Rightarrow> player_getThingIndex w p i
      | Tile_ref q \<Rightarrow> -1)"

definition addThing :: "env \<Rightarrow> thing \<Rightarrow> int \<Rightarrow> nat \<Rightarrow> store \<Rightarrow> store option" where
  "addThing e t index i w =
     (case t of
        Item_ref c \<Rightarrow> if is_container (item_at w c) then container_addThing e c index i w else None
      | Player_ref p \<Rightarrow> Some (player_addThing p index i w)
      | Tile_ref q \<Rightarrow> None)"

text \<open>\<open>addThing\<close> without an index does nothing for a player.\<close>

definition addThing_anywhere :: "env \<Rightarrow> thing \<Rightarrow> nat \<Rightarrow> store \<Rightarrow> store option" where
  "addThing_anywhere e t i w =
     (case t of
        Item_ref c \<Rightarrow> if is_container (item_at w c) then container_addThing e c 0 i w else None
      | Player_ref p \<Rightarrow> Some w
      | Tile_ref q \<Rightarrow> None)"

definition updateThing :: "env \<Rightarrow> thing \<Rightarrow> nat \<Rightarrow> u16 \<Rightarrow> u32 \<Rightarrow> store \<Rightarrow> store option" where
  "updateThing e t i itemId cnt w =
     (case t of
        Item_ref c \<Rightarrow> if is_container (item_at w c) then container_updateThing e c i itemId cnt w else None
      | Player_ref p \<Rightarrow> Some (player_updateThing e p i itemId cnt w)
      | Tile_ref q \<Rightarrow> None)"

definition removeThing :: "env \<Rightarrow> thing \<Rightarrow> nat \<Rightarrow> u32 \<Rightarrow> store \<Rightarrow> store option" where
  "removeThing e t i cnt w =
     (case t of
        Item_ref c \<Rightarrow> if is_container (item_at w c) then container_removeThing e c i cnt w else None
      | Player_ref p \<Rightarrow> Some (player_removeThing e p i cnt w)
      | Tile_ref q \<Rightarrow> None)"

text \<open>\<open>postAddNotification\<close> and \<open>postRemoveNotification\<close>, as far as they change the store. The flag
  says that the link is the owner or the top parent. A container at the top level asks for its tile,
  and that call does not return for one that is nowhere.\<close>

partial_function (option) notify :: "env \<Rightarrow> thing \<Rightarrow> bool \<Rightarrow> store \<Rightarrow> store option" where
  "notify e t linked w =
     (case t of
        Player_ref p \<Rightarrow> Some (if linked then updateInventoryWeight e p w else w)
      | Tile_ref q \<Rightarrow> Some w
      | Item_ref c \<Rightarrow>
          if item_class (item_at w c) = Container then do {
            top \<leftarrow> getTopParent w c;
            case top of
              None \<Rightarrow> Some w
            | Some t' \<Rightarrow>
                if t' = Item_ref c then do { tile \<leftarrow> item_getTile w t'; Some w }
                else (case t' of
                        Player_ref p \<Rightarrow> notify e t' True w
                      | _ \<Rightarrow> notify e t' False w) }
          else if is_container (item_at w c) then do {
            parent \<leftarrow> getParent w (Item_ref c);
            case parent of
              None \<Rightarrow> Some w
            | Some q \<Rightarrow> notify e q (item_class (item_at w c) = Store_Inbox) w }
          else Some w)"

declare notify.simps [code]

section \<open>Moving an item\<close>

text \<open>The destination behind the destinations, at most 16 steps away.\<close>

fun final_destination ::
  "nat \<Rightarrow> env \<Rightarrow> store \<Rightarrow> thing \<Rightarrow> int \<Rightarrow> nat \<Rightarrow> nat option \<Rightarrow> u32 \<Rightarrow> (thing \<times> int \<times> nat option) option" where
  "final_destination 0 e w t index i toItem flags = Some (t, index, toItem)"
| "final_destination (Suc k) e w t index i toItem flags =
     do { (sub, index, toItem) \<leftarrow> queryDestination e w t index i toItem flags;
          if sub = t then Some (t, index, toItem)
          else final_destination k e w sub index i toItem flags }"

definition MAX_DESTINATIONS :: nat where
  "MAX_DESTINATIONS = 16"

text \<open>The exchange with the item at the destination: what \<open>queryAdd\<close> answers in the end, and the item
  that is at the destination then.\<close>

definition exchange ::
  "env \<Rightarrow> thing \<Rightarrow> thing \<Rightarrow> int \<Rightarrow> nat \<Rightarrow> nat option \<Rightarrow> u32 \<Rightarrow> u32 \<Rightarrow> nat option \<Rightarrow> ReturnValue \<Rightarrow> store \<Rightarrow>
   (ReturnValue \<times> nat option \<times> store) option" where
  "exchange e from to index i toItem cnt flags actor moveBack w =
     (case toItem of
        None \<Rightarrow> None
      | Some j \<Rightarrow> do {
          let toCount = ucast (item_count (item_at w j));
          ret \<leftarrow> queryAdd e w from (getThingIndex w from i) j toCount 0 None;
          if ret \<noteq> RETURNVALUE_NOERROR then Some (ret, toItem, w)
          else if moveBack \<noteq> RETURNVALUE_NOERROR then Some (moveBack, toItem, w)
          else do {
            (retMax, maxCount) \<leftarrow> queryMaxCount e w from INDEX_WHEREEVER j toCount 0;
            if retMax \<noteq> RETURNVALUE_NOERROR \<and> maxCount = 0 then Some (retMax, toItem, w)
            else do {
              removable \<leftarrow> queryRemove e w to j toCount flags actor;
              if removable \<noteq> RETURNVALUE_NOERROR then Some (ret, toItem, w)
              else do {
                let oldIndex = getThingIndex w to j;
                w \<leftarrow> removeThing e to j toCount w;
                w \<leftarrow> addThing_anywhere e from j w;
                w \<leftarrow> (if oldIndex \<noteq> -1 then notify e to True w else Some w);
                w \<leftarrow> (if getThingIndex w from j \<noteq> -1 then notify e from True w else Some w);
                ret \<leftarrow> queryAdd e w to index i cnt flags None;
                Some (ret, None, w) } } } })"

text \<open>Is the destination inside the traded item?\<close>

definition in_trade_item :: "store \<Rightarrow> nat option \<Rightarrow> thing \<Rightarrow> bool option" where
  "in_trade_item w traded t =
     (case traded of
        None \<Rightarrow> Some False
      | Some k \<Rightarrow> map_option (\<lambda>ps. Item_ref k \<in> set (t # ps)) (ancestors w t))"

text \<open>The transfer itself: part or all of the item is merged into an equal item at the destination, or
  a clone or the item itself is moved. The results are the moved and the updated item.\<close>

definition merge_onto ::
  "env \<Rightarrow> thing \<Rightarrow> thing \<Rightarrow> nat \<Rightarrow> nat \<Rightarrow> u32 \<Rightarrow> store \<Rightarrow> store option" where
  "merge_onto e from to i j allowedCount w =
     do { w \<leftarrow> removeThing e from i allowedCount w;
          updateThing e to j (item_id (item_at w j)) (ucast (item_count (item_at w j)) + allowedCount) w }"

definition split_stack :: "env \<Rightarrow> nat \<Rightarrow> u32 \<Rightarrow> store \<Rightarrow> (nat option \<times> nat option \<times> u32 \<times> store) option" where
  "split_stack e i moveCount w =
     (let x = item_at w i
      in if moveCount \<noteq> ucast (item_count x) \<and> sint moveCount > 0 then
           (case item_clone (types e) x of
              None \<Rightarrow> None
            | Some y \<Rightarrow>
                Some (Some (length (heap w)), None, moveCount,
                      w\<lparr>heap := heap w @ [setItemCount (ucast moveCount) y]\<rparr>))
         else Some (Some i, None, moveCount, w))"

definition transfer ::
  "env \<Rightarrow> thing \<Rightarrow> thing \<Rightarrow> int \<Rightarrow> nat \<Rightarrow> nat option \<Rightarrow> u32 \<Rightarrow> store \<Rightarrow>
   (nat option \<times> nat option \<times> store) option" where
  "transfer e from to index i toItem moveCount w =
     do { let x = item_at w i;
          (moveItem, updateItem, moveCount, w) \<leftarrow>
            (if \<not> isStackable (types e) x then Some (Some i, None, moveCount, w)
             else case toItem of
               Some j \<Rightarrow>
                 if equals x (Some (item_at w j)) \<and> moveCount \<noteq> of_nat ITEM_STACK_SIZE then
                   (let allowedCount = min (word_of_int (int ITEM_STACK_SIZE - int (unat (item_count (item_at w j))))) moveCount
                    in if allowedCount > 0 then do {
                         w \<leftarrow> merge_onto e from to i j allowedCount w;
                         Some (if moveCount - allowedCount = 0 then None else Some i, Some j, moveCount - allowedCount, w) }
                       else Some (Some i, None, moveCount, w))
                 else split_stack e i moveCount w
             | None \<Rightarrow> split_stack e i moveCount w);
          case moveItem of
            None \<Rightarrow> Some (None, updateItem, w)
          | Some m \<Rightarrow> do {
              w \<leftarrow> removeThing e from i moveCount w;
              w \<leftarrow> addThing e to index m w;
              Some (Some m, updateItem, w) } }"

definition start_decay :: "nat \<Rightarrow> store \<Rightarrow> store" where
  "start_decay m w =
     (if getDuration (item_at w m) > 0 \<and> getDecaying (item_at w m) \<noteq> DECAYING_TRUE
      then upd_item m (setDecaying DECAYING_TRUE) w else w)"

definition notify_if_there :: "env \<Rightarrow> thing \<Rightarrow> nat option \<Rightarrow> store \<Rightarrow> store option" where
  "notify_if_there e t m w =
     (case m of
        None \<Rightarrow> Some w
      | Some i \<Rightarrow> if getThingIndex w t i \<noteq> -1 then notify e t True w else Some w)"

text \<open>What follows the questions: the notifications, the answer, and the decay of the moved item.\<close>

definition carry_out ::
  "env \<Rightarrow> thing \<Rightarrow> thing \<Rightarrow> int \<Rightarrow> nat \<Rightarrow> nat option \<Rightarrow> u32 \<Rightarrow> u32 \<Rightarrow> u32 \<Rightarrow> ReturnValue \<Rightarrow> store \<Rightarrow>
   (ReturnValue \<times> nat option \<times> store) option" where
  "carry_out e from to index i toItem cnt maxQueryCount moveCount retMaxCount w =
     do { let itemIndex = getThingIndex w from i;
          (moveItem, updateItem, w) \<leftarrow> transfer e from to index i toItem moveCount w;
          w \<leftarrow> (if itemIndex \<noteq> -1 then notify e from True w else Some w);
          w \<leftarrow> notify_if_there e to moveItem w;
          w \<leftarrow> notify_if_there e to updateItem w;
          let moved = (case moveItem of Some m \<Rightarrow> Some m | None \<Rightarrow> Some i);
          if isStackable (types e) (item_at w i) \<and> maxQueryCount < cnt then Some (retMaxCount, moved, w)
          else Some (RETURNVALUE_NOERROR, moved, case moveItem of Some m \<Rightarrow> start_decay m w | None \<Rightarrow> w) }"

text \<open>The questions: how many can be moved, may they be taken, is the destination traded?\<close>

definition move_checked ::
  "env \<Rightarrow> thing \<Rightarrow> thing \<Rightarrow> int \<Rightarrow> nat \<Rightarrow> nat option \<Rightarrow> u32 \<Rightarrow> u32 \<Rightarrow> nat option \<Rightarrow> nat option \<Rightarrow> store \<Rightarrow>
   (ReturnValue \<times> nat option \<times> store) option" where
  "move_checked e from to index i toItem cnt flags actor traded w =
     do { (retMaxCount, maxQueryCount) \<leftarrow> queryMaxCount e w to index i cnt flags;
          if retMaxCount \<noteq> RETURNVALUE_NOERROR \<and> maxQueryCount = 0 then Some (retMaxCount, None, w)
          else do {
            let moveCount = (if isStackable (types e) (item_at w i) then min cnt maxQueryCount else maxQueryCount);
            ret \<leftarrow> queryRemove e w from i moveCount flags actor;
            if ret \<noteq> RETURNVALUE_NOERROR then Some (ret, None, w)
            else do {
              inside \<leftarrow> in_trade_item w traded to;
              if inside then Some (RETURNVALUE_NOTENOUGHROOM, None, w)
              else carry_out e from to index i toItem cnt maxQueryCount moveCount retMaxCount w } } }"

text \<open>\<open>internalMoveItem\<close>: the answer, the item moved, and the new store. \<open>moveEvent\<close> and \<open>moveBack\<close>
  are what the script answers for the item and for the one it is exchanged with.\<close>

definition internalMoveItem ::
  "env \<Rightarrow> thing \<Rightarrow> thing \<Rightarrow> int \<Rightarrow> nat \<Rightarrow> u32 \<Rightarrow> u32 \<Rightarrow> nat option \<Rightarrow> nat option \<Rightarrow> ReturnValue \<Rightarrow> ReturnValue \<Rightarrow>
   store \<Rightarrow> (ReturnValue \<times> nat option \<times> store) option" where
  "internalMoveItem e from to index i cnt flags actor traded moveEvent moveBack w =
     (if moveEvent \<noteq> RETURNVALUE_NOERROR then Some (moveEvent, None, w)
      else do {
        (to, index, toItem) \<leftarrow> final_destination MAX_DESTINATIONS e w to index i None flags;
        if toItem = Some i then Some (RETURNVALUE_NOERROR, None, w)
        else do {
          ret \<leftarrow> queryAdd e w to index i cnt flags actor;
          (ret, toItem, w) \<leftarrow>
            (if ret = RETURNVALUE_NEEDEXCHANGE
             then exchange e from to index i toItem cnt flags actor moveBack w
             else Some (ret, toItem, w));
          if ret \<noteq> RETURNVALUE_NOERROR then Some (ret, None, w)
          else move_checked e from to index i toItem cnt flags actor traded w } })"

section \<open>Adding and removing an item\<close>

text \<open>One round of \<open>internalAddItem\<close>: an answer, or a clone with the count that did not fit on the
  stack at the destination, which is to be added in turn.\<close>

definition add_whole :: "env \<Rightarrow> thing \<Rightarrow> nat \<Rightarrow> int \<Rightarrow> store \<Rightarrow> store option" where
  "add_whole e dest i index w =
     do { w \<leftarrow> addThing e dest index i w;
          notify_if_there e dest (Some i) w }"

definition add_to_stack ::
  "env \<Rightarrow> thing \<Rightarrow> nat \<Rightarrow> int \<Rightarrow> nat \<Rightarrow> u32 \<Rightarrow> store \<Rightarrow> (store + nat \<times> u32 \<times> store) option" where
  "add_to_stack e dest i index j maxQueryCount w =
     do { let x = item_at w i; let y = item_at w j; let itemCount = ucast (item_count x);
          let m = min itemCount maxQueryCount;
          let n = min (word_of_int (int ITEM_STACK_SIZE - int (unat (item_count y)))) m;
          let left = m - n;
          w \<leftarrow> updateThing e dest j (item_id y) (ucast (item_count y) + n) w;
          if sint left > 0 then
            (if itemCount \<noteq> left then
               map_option
                 (\<lambda>z. Inr (length (heap w), left, w\<lparr>heap := heap w @ [setItemCount (ucast left) z]\<rparr>))
                 (item_clone (types e) x)
             else map_option Inl (add_whole e dest i index w))
          else map_option Inl (notify_if_there e dest (Some j) w) }"

definition add_step ::
  "env \<Rightarrow> thing \<Rightarrow> nat \<Rightarrow> int \<Rightarrow> u32 \<Rightarrow> bool \<Rightarrow> store \<Rightarrow>
   (ReturnValue \<times> store + nat \<times> u32 \<times> store) option" where
  "add_step e toThing i index flags test w =
     do { let x = item_at w i; let itemCount = ucast (item_count x);
          (dest, index, toItem) \<leftarrow> queryDestination e w toThing index i None flags;
          ret \<leftarrow> queryAdd e w dest index i itemCount flags None;
          if ret \<noteq> RETURNVALUE_NOERROR then Some (Inl (ret, w))
          else do {
            (ret, maxQueryCount) \<leftarrow> queryMaxCount e w toThing INDEX_WHEREEVER i itemCount flags;
            if ret \<noteq> RETURNVALUE_NOERROR then Some (Inl (ret, w))
            else if test then Some (Inl (RETURNVALUE_NOERROR, w))
            else do {
              r \<leftarrow> (if isStackable (types e) x \<and> equals x (map_option (item_at w) toItem)
                   then add_to_stack e dest i index (the toItem) maxQueryCount w
                   else map_option Inl (add_whole e dest i index w));
              Some (case r of
                      Inl w \<Rightarrow> Inl (RETURNVALUE_NOERROR, start_decay i w)
                    | Inr rest \<Rightarrow> Inr rest) } } }"

text \<open>\<open>internalAddItem\<close>: the answer, the count that found no room, and the new store.\<close>

partial_function (option) internalAddItem ::
  "env \<Rightarrow> thing \<Rightarrow> nat \<Rightarrow> int \<Rightarrow> u32 \<Rightarrow> bool \<Rightarrow> store \<Rightarrow> (ReturnValue \<times> u32 \<times> store) option" where
  "internalAddItem e toThing i index flags test w =
     do { r \<leftarrow> add_step e toThing i index flags test w;
          case r of
            Inl (ret, w) \<Rightarrow> Some (ret, 0, w)
          | Inr (k, left, w) \<Rightarrow> do {
              (ret, _, w) \<leftarrow> internalAddItem e toThing k INDEX_WHEREEVER flags False w;
              Some (RETURNVALUE_NOERROR, if ret \<noteq> RETURNVALUE_NOERROR then left else 0, start_decay i w) } }"

declare internalAddItem.simps [code]

definition canRemove :: "item \<Rightarrow> (nat \<Rightarrow> bool) \<Rightarrow> nat \<Rightarrow> bool" where
  "canRemove x bed_free i =
     (case item_class x of
        Depot_Locker \<Rightarrow> False | Depot_Chest \<Rightarrow> False | Inbox \<Rightarrow> False | Store_Inbox \<Rightarrow> False
      | Bed_Item \<Rightarrow> bed_free i
      | _ \<Rightarrow> True)"

text \<open>A count of -1 means all. \<open>bed_free\<close> answers for beds, which belong to no house when they can be
  removed.\<close>

definition internalRemoveItem ::
  "env \<Rightarrow> (nat \<Rightarrow> bool) \<Rightarrow> nat \<Rightarrow> int \<Rightarrow> bool \<Rightarrow> u32 \<Rightarrow> store \<Rightarrow> (ReturnValue \<times> store) option" where
  "internalRemoveItem e bed_free i cnt test flags w =
     do { parent \<leftarrow> getParent w (Item_ref i);
          case parent of
            None \<Rightarrow> Some (RETURNVALUE_NOTPOSSIBLE, w)
          | Some p \<Rightarrow> do {
              let x = item_at w i;
              let n = (if cnt = -1 then ucast (item_count x) else word_of_int cnt);
              ret \<leftarrow> queryRemove e w p i n (flags OR FLAG_IGNORENOTMOVEABLE) None;
              if ret \<noteq> RETURNVALUE_NOERROR then Some (ret, w)
              else if \<not> canRemove x bed_free i then Some (RETURNVALUE_NOTPOSSIBLE, w)
              else if test then Some (RETURNVALUE_NOERROR, w)
              else do {
                w \<leftarrow> removeThing e p i n w;
                w \<leftarrow> notify e p True w;
                Some (RETURNVALUE_NOERROR, w) } } }"

end
