(* ===== verification/Item_Trees.thy ===== *)
theory Item_Trees
  imports Item_Moves
begin

text \<open>
  What a well-formed store of items is, and that the changes of containers and slots keep it: the
  links to parents form a forest that agrees with the contents of the places, every container knows the
  weight of its contents, and stacks hold 1 to 100 items.
\<close>

section \<open>Well-formed stores\<close>

definition slot_items :: "holder \<Rightarrow> nat list" where
  "slot_items h = concat (map (\<lambda>s. case inventory h ! s of None \<Rightarrow> [] | Some i \<Rightarrow> [i]) [1..<11])"

definition contents :: "store \<Rightarrow> thing \<Rightarrow> nat list" where
  "contents w t =
     (case t of
        Item_ref c \<Rightarrow> if c < length (heap w) then itemlist (item_at w c) else []
      | Player_ref p \<Rightarrow> if p < length (holders w) then slot_items (holders w ! p) else []
      | Tile_ref q \<Rightarrow> [])"

definition is_place :: "store \<Rightarrow> thing \<Rightarrow> bool" where
  "is_place w t =
     (case t of
        Item_ref c \<Rightarrow> c < length (heap w) \<and> is_container (item_at w c)
      | Player_ref p \<Rightarrow> p < length (holders w)
      | Tile_ref q \<Rightarrow> False)"

text \<open>Chests and inboxes are below lockers, which their \<open>getParent\<close> skips; the containers that belong
  to a player or a town stay where they are.\<close>

definition skips :: "item \<Rightarrow> bool" where
  "skips x \<longleftrightarrow> item_class x = Depot_Chest \<or> item_class x = Inbox"

definition fixed :: "item \<Rightarrow> bool" where
  "fixed x \<longleftrightarrow> skips x \<or> item_class x = Depot_Locker \<or> item_class x = Store_Inbox"

definition parent_rel :: "store \<Rightarrow> (nat \<times> nat) set" where
  "parent_rel w = {(i, c). i < length (heap w) \<and> item_parent (item_at w i) = Some (Item_ref c)}"

definition fixed_ok :: "type_table \<Rightarrow> store \<Rightarrow> nat \<Rightarrow> bool" where
  "fixed_ok T w i \<longleftrightarrow>
     (fixed (item_at w i) \<longrightarrow> \<not> isPickupable T (item_at w i)) \<and>
     (skips (item_at w i) \<longrightarrow>
        (case item_parent (item_at w i) of
           Some (Item_ref l) \<Rightarrow>
             item_class (item_at w l) = Depot_Locker \<and> (\<forall>c. item_parent (item_at w l) \<noteq> Some (Item_ref c))
         | Some (Player_ref p) \<Rightarrow> False
         | _ \<Rightarrow> True)) \<and>
     (item_class (item_at w i) = Store_Inbox \<longrightarrow>
        unlocked (item_at w i) \<and> (\<forall>c. item_parent (item_at w i) \<noteq> Some (Item_ref c)))"

definition linked_ok :: "store \<Rightarrow> nat \<Rightarrow> bool" where
  "linked_ok w i \<longleftrightarrow>
     (\<forall>c. item_parent (item_at w i) = Some (Item_ref c) \<longrightarrow>
        c < length (heap w) \<and> (\<not> skips (item_at w i) \<longrightarrow> is_container (item_at w c) \<and> i \<in> set (contents w (Item_ref c))))"

definition tree_ok :: "type_table \<Rightarrow> store \<Rightarrow> bool" where
  "tree_ok T w \<longleftrightarrow>
     (\<forall>h \<in> set (holders w). length (inventory h) = 11) \<and>
     (\<forall>t. distinct (contents w t)) \<and>
     (\<forall>t. \<forall>i \<in> set (contents w t). i < length (heap w) \<and> item_parent (item_at w i) = Some t) \<and>
     (\<forall>i < length (heap w). linked_ok w i \<and> fixed_ok T w i \<and>
        (\<not> is_container (item_at w i) \<longrightarrow> itemlist (item_at w i) = []) \<and> 0 \<le> sint (maxSize (item_at w i))) \<and>
     acyclic (parent_rel w)"

definition load :: "type_table \<Rightarrow> store \<Rightarrow> nat list \<Rightarrow> u32" where
  "load T w is = (\<Sum>i\<leftarrow>is. getWeight T (item_at w i))"

definition weight_ok :: "type_table \<Rightarrow> store \<Rightarrow> nat \<Rightarrow> bool" where
  "weight_ok T w c \<longleftrightarrow>
     (is_container (item_at w c) \<and> (\<forall>i \<in> set (itemlist (item_at w c)). \<not> skips (item_at w i)) \<longrightarrow>
      totalWeight (item_at w c) = load T w (itemlist (item_at w c)))"

definition stack_ok :: "type_table \<Rightarrow> item \<Rightarrow> bool" where
  "stack_ok T x \<longleftrightarrow> (isStackable T x \<longrightarrow> \<not> is_container x \<and> 1 \<le> unat (item_count x) \<and> unat (item_count x) \<le> 100)"

definition store_ok :: "type_table \<Rightarrow> store \<Rightarrow> bool" where
  "store_ok T w \<longleftrightarrow> tree_ok T w \<and> (\<forall>c < length (heap w). weight_ok T w c \<and> stack_ok T (item_at w c))"

text \<open>What the table of types must satisfy: stackable items are plain and are cloned as they are.\<close>

definition plain_type :: "type_table \<Rightarrow> u16 \<Rightarrow> bool" where
  "plain_type T ty \<longleftrightarrow>
     it_group (T ty) \<notin> {ITEM_GROUP_FLUID, ITEM_GROUP_SPLASH} \<and>
     (\<forall>n. CreateItem T ty n = Some (new_item T Plain_Item ty (if n = 0 then 1 else n)))"

definition types_ok :: "type_table \<Rightarrow> bool" where
  "types_ok T \<longleftrightarrow> (\<forall>ty. it_stackable (T ty) \<longrightarrow> plain_type T ty)"

section \<open>Basic facts\<close>

lemma upd_item_simps [simp]:
  "length (heap (upd_item i f w)) = length (heap w)"
  "holders (upd_item i f w) = holders w"
  by (simp_all add: upd_item_def)

lemma item_at_upd: "item_at (upd_item i f w) j = (if j = i \<and> i < length (heap w) then f (item_at w i) else item_at w j)"
  by (cases "i < length (heap w)") (simp_all add: upd_item_def item_at_def nth_list_update list_update_beyond)

lemma setParent_simps [simp]:
  "length (heap (setParent p i w)) = length (heap w)"
  "holders (setParent p i w) = holders w"
  by (simp_all add: setParent_def)

lemma finite_parent_rel: "tree_ok T w \<Longrightarrow> finite (parent_rel w)"
proof -
  assume "tree_ok T w"
  then have "parent_rel w \<subseteq> {..<length (heap w)} \<times> {..<length (heap w)}"
    by (auto simp: tree_ok_def linked_ok_def parent_rel_def)
  then show ?thesis by (rule finite_subset) simp
qed

text \<open>Induction from the roots down.\<close>

lemma wf_parents:
  assumes "tree_ok T w"
  shows "wf ((parent_rel w)\<inverse>)"
  using finite_parent_rel [OF assms] assms by (simp add: finite_acyclic_wf_converse tree_ok_def)

lemma tree_okD:
  assumes "tree_ok T w"
  shows "distinct (contents w t)"
    and "i \<in> set (contents w t) \<Longrightarrow> i < length (heap w)"
    and "i \<in> set (contents w t) \<Longrightarrow> item_parent (item_at w i) = Some t"
    and "i < length (heap w) \<Longrightarrow> linked_ok w i"
    and "i < length (heap w) \<Longrightarrow> fixed_ok T w i"
    and "h \<in> set (holders w) \<Longrightarrow> length (inventory h) = 11"
    and "i < length (heap w) \<Longrightarrow> \<not> is_container (item_at w i) \<Longrightarrow> itemlist (item_at w i) = []"
    and "i < length (heap w) \<Longrightarrow> 0 \<le> sint (maxSize (item_at w i))"
    and "acyclic (parent_rel w)"
  using assms unfolding tree_ok_def by blast+

section \<open>Walking up\<close>

text \<open>The next container up that \<open>updateItemWeight\<close> goes to.\<close>

definition up :: "store \<Rightarrow> nat \<Rightarrow> nat option" where
  "up w c =
     (if skips (item_at w c) then None
      else case item_parent (item_at w c) of
        Some (Item_ref p) \<Rightarrow> if is_container (item_at w p) then Some p else None
      | _ \<Rightarrow> None)"

lemma getParent_skip:
  assumes "tree_ok T w" and "c < length (heap w)" and "skips (item_at w c)"
  shows "\<exists>p. getParent w (Item_ref c) = Some p \<and> (\<forall>q. p \<noteq> Some (Item_ref q))"
proof -
  have f: "fixed_ok T w c" using assms by (simp add: tree_okD)
  have parent: "getParent w (Item_ref c) =
      (case item_parent (item_at w c) of None \<Rightarrow> Some None | Some p \<Rightarrow> getParent w p)"
    using assms(3) by (subst getParent.simps) (simp add: skips_def)
  show ?thesis
  proof (cases "item_parent (item_at w c)")
    case None then show ?thesis by (simp add: parent)
  next
    case (Some t)
    show ?thesis
    proof (cases t)
      case (Item_ref l)
      with f assms(3) Some have "item_class (item_at w l) = Depot_Locker"
        "\<forall>c. item_parent (item_at w l) \<noteq> Some (Item_ref c)"
        by (auto simp: fixed_ok_def)
      then show ?thesis using Item_ref Some by (simp add: parent) (subst getParent.simps, simp)
    next
      case (Player_ref p)
      with f assms(3) Some show ?thesis by (auto simp: fixed_ok_def)
    next
      case (Tile_ref q)
      then show ?thesis using Some by (simp add: parent) (subst getParent.simps, simp)
    qed
  qed
qed

lemma getParent_direct: "\<not> skips (item_at w c) \<Longrightarrow> getParent w (Item_ref c) = Some (item_parent (item_at w c))"
  by (subst getParent.simps) (simp add: skips_def)

lemma up_parent_rel: "up w c = Some p \<Longrightarrow> c < length (heap w) \<Longrightarrow> (c, p) \<in> parent_rel w"
  by (auto simp: up_def parent_rel_def split: if_splits option.splits thing.splits)

text \<open>The containers above \<open>c\<close>, itself included, that hear of a change of weight.\<close>

inductive_set chain :: "store \<Rightarrow> nat \<Rightarrow> nat set" for w c where
  chain_self: "c \<in> chain w c"
| chain_up: "x \<in> chain w c \<Longrightarrow> up w x = Some p \<Longrightarrow> p \<in> chain w c"

lemma chain_None: "up w c = None \<Longrightarrow> chain w c = {c}"
proof -
  assume n: "up w c = None"
  have "x = c" if "x \<in> chain w c" for x
    using that by induction (use n in auto)
  then show ?thesis by (auto intro: chain_self)
qed

lemma chain_Some:
  assumes "up w c = Some p"
  shows "chain w c = insert c (chain w p)"
proof -
  have "x = c \<or> x \<in> chain w p" if "x \<in> chain w c" for x
    using that by induction (use assms in \<open>auto intro: chain.intros\<close>)
  moreover have "x \<in> chain w c" if "x \<in> chain w p" for x
    using that by induction (use assms in \<open>auto intro: chain.intros\<close>)
  ultimately show ?thesis by (auto intro: chain_self)
qed

lemma chain_rel:
  assumes "tree_ok T w" and "c < length (heap w)" and "x \<in> chain w c"
  shows "x < length (heap w) \<and> (c, x) \<in> (parent_rel w)\<^sup>*"
  using assms(3)
proof induction
  case chain_self then show ?case using assms(2) by simp
next
  case (chain_up x p)
  then have r: "(x, p) \<in> parent_rel w" by (simp add: up_parent_rel)
  then have "p < length (heap w)" using assms(1) chain_up.IH
    by (auto simp: parent_rel_def tree_ok_def linked_ok_def)
  with r chain_up.IH show ?case by (auto intro: rtrancl_into_rtrancl)
qed

lemma chain_not_below:
  assumes "tree_ok T w" and "c < length (heap w)" and "up w c = Some p"
  shows "c \<notin> chain w p"
proof
  assume c: "c \<in> chain w p"
  have r: "(c, p) \<in> parent_rel w" using assms by (simp add: up_parent_rel)
  then have "p < length (heap w)" using assms by (auto simp: parent_rel_def tree_ok_def linked_ok_def)
  then have "(p, c) \<in> (parent_rel w)\<^sup>*" using chain_rel assms(1) c by blast
  with r have "(c, c) \<in> (parent_rel w)\<^sup>+" by (rule rtrancl_into_trancl2)
  then show False using assms(1) by (simp add: tree_ok_def acyclic_def)
qed

section \<open>Changes of weights\<close>

text \<open>Two stores with the same items in the same places.\<close>

definition same_tree :: "store \<Rightarrow> store \<Rightarrow> bool" where
  "same_tree v w \<longleftrightarrow> length (heap v) = length (heap w) \<and>
     (\<forall>i. item_class (item_at v i) = item_class (item_at w i) \<and> item_id (item_at v i) = item_id (item_at w i) \<and>
          item_parent (item_at v i) = item_parent (item_at w i) \<and> itemlist (item_at v i) = itemlist (item_at w i) \<and>
          maxSize (item_at v i) = maxSize (item_at w i) \<and> unlocked (item_at v i) = unlocked (item_at w i)) \<and>
     map inventory (holders v) = map inventory (holders w)"

lemma same_tree_refl [simp]: "same_tree w w"
  by (simp add: same_tree_def)

lemma same_tree_trans: "same_tree u v \<Longrightarrow> same_tree v w \<Longrightarrow> same_tree u w"
  by (simp add: same_tree_def)

lemma same_tree_sym: "same_tree v w \<Longrightarrow> same_tree w v"
  by (simp add: same_tree_def)

lemma same_tree_simps:
  assumes "same_tree v w"
  shows "length (heap v) = length (heap w)" "length (holders v) = length (holders w)"
    "item_class (item_at v i) = item_class (item_at w i)" "item_id (item_at v i) = item_id (item_at w i)"
    "item_parent (item_at v i) = item_parent (item_at w i)" "itemlist (item_at v i) = itemlist (item_at w i)"
    "maxSize (item_at v i) = maxSize (item_at w i)" "unlocked (item_at v i) = unlocked (item_at w i)"
    "is_container (item_at v i) = is_container (item_at w i)" "skips (item_at v i) = skips (item_at w i)"
    "fixed (item_at v i) = fixed (item_at w i)" "isPickupable T (item_at v i) = isPickupable T (item_at w i)"
    "isStackable T (item_at v i) = isStackable T (item_at w i)" "has_receiver (item_at v i) = has_receiver (item_at w i)"
    "parent_rel v = parent_rel w" "up v = up w" "is_place v = is_place w"
proof -
  have a: "length (heap v) = length (heap w)" "length (holders v) = length (holders w)"
    "item_class (item_at v i) = item_class (item_at w i)" "item_id (item_at v i) = item_id (item_at w i)"
    "item_parent (item_at v i) = item_parent (item_at w i)" "itemlist (item_at v i) = itemlist (item_at w i)"
    "maxSize (item_at v i) = maxSize (item_at w i)" "unlocked (item_at v i) = unlocked (item_at w i)" for i
    using assms by (auto simp: same_tree_def dest: map_eq_imp_length_eq)
  then show "length (heap v) = length (heap w)" "length (holders v) = length (holders w)"
    "item_class (item_at v i) = item_class (item_at w i)" "item_id (item_at v i) = item_id (item_at w i)"
    "item_parent (item_at v i) = item_parent (item_at w i)" "itemlist (item_at v i) = itemlist (item_at w i)"
    "maxSize (item_at v i) = maxSize (item_at w i)" "unlocked (item_at v i) = unlocked (item_at w i)"
    by simp_all
  have b: "is_container (item_at v i) = is_container (item_at w i)" "skips (item_at v i) = skips (item_at w i)"
    "fixed (item_at v i) = fixed (item_at w i)" "isPickupable T (item_at v i) = isPickupable T (item_at w i)"
    "isStackable T (item_at v i) = isStackable T (item_at w i)" "has_receiver (item_at v i) = has_receiver (item_at w i)" for i
    by (simp_all add: is_container_def skips_def fixed_def isPickupable_def isStackable_def item_type_of_def
        has_receiver_def a)
  then show "is_container (item_at v i) = is_container (item_at w i)" "skips (item_at v i) = skips (item_at w i)"
    "fixed (item_at v i) = fixed (item_at w i)" "isPickupable T (item_at v i) = isPickupable T (item_at w i)"
    "isStackable T (item_at v i) = isStackable T (item_at w i)" "has_receiver (item_at v i) = has_receiver (item_at w i)"
    by simp_all
  show "parent_rel v = parent_rel w" by (simp add: parent_rel_def a)
  show "up v = up w" by (simp add: up_def a b fun_eq_iff split: option.splits thing.splits)
  show "is_place v = is_place w" by (simp add: is_place_def a b fun_eq_iff split: thing.splits)
qed

lemma same_tree_contents:
  assumes "same_tree v w"
  shows "contents v t = contents w t"
proof -
  have "inventory (holders v ! p) = inventory (holders w ! p)" if "p < length (holders w)" for p
    using assms that nth_map [of p "holders v" inventory] nth_map [of p "holders w" inventory] same_tree_simps(2) [OF assms]
    by (simp add: same_tree_def)
  then show ?thesis
    by (auto simp: contents_def same_tree_simps [OF assms] slot_items_def split: thing.splits)
qed

lemma same_tree_ok:
  assumes "same_tree v w"
  shows "tree_ok T v = tree_ok T w"
proof -
  note s = same_tree_simps [OF assms] same_tree_contents [OF assms]
  have inv: "(\<forall>h \<in> set (holders v). length (inventory h) = 11) = (\<forall>h \<in> set (holders w). length (inventory h) = 11)"
  proof -
    have "inventory ` set (holders v) = inventory ` set (holders w)"
      using assms by (metis same_tree_def set_map)
    then show ?thesis by (metis (no_types, lifting) image_iff)
  qed
  have f: "fixed_ok T v i = fixed_ok T w i" for i
    by (simp add: fixed_ok_def s split: option.splits thing.splits)
  show ?thesis
    unfolding tree_ok_def by (simp add: inv s linked_ok_def f)
qed

text \<open>The store with the weights of a set of containers changed.\<close>

definition bump :: "nat set \<Rightarrow> u32 \<Rightarrow> store \<Rightarrow> store" where
  "bump S d w = w\<lparr>heap := map (\<lambda>i. if i \<in> S then (item_at w i)\<lparr>totalWeight := totalWeight (item_at w i) + d\<rparr>
                                     else item_at w i) [0..<length (heap w)]\<rparr>"

lemma bump_simps [simp]: "length (heap (bump S d w)) = length (heap w)" "holders (bump S d w) = holders w"
  by (simp_all add: bump_def)

lemma item_at_bump: "i < length (heap w) \<Longrightarrow>
    item_at (bump S d w) i =
      (if i \<in> S then (item_at w i)\<lparr>totalWeight := totalWeight (item_at w i) + d\<rparr> else item_at w i)"
  by (simp add: bump_def item_at_def)

lemma store_eqI:
  assumes "length (heap v) = length (heap w)" and "\<And>i. i < length (heap w) \<Longrightarrow> item_at v i = item_at w i"
    and "holders v = holders w"
  shows "v = (w :: store)"
  using assms by (cases v; cases w) (auto simp: item_at_def intro: nth_equalityI)

lemma nth_beyond: "xs ! (length xs + k) = [] ! k"
  by (induction xs) simp_all

lemma item_at_outside:
  assumes "length (heap v) = length (heap w)" and "\<not> i < length (heap w)"
  shows "item_at v i = item_at w i"
proof -
  have "heap v ! i = [] ! (i - length (heap w))" "heap w ! i = [] ! (i - length (heap w))"
    using assms nth_beyond [of "heap v" "i - length (heap w)"] nth_beyond [of "heap w" "i - length (heap w)"] by simp_all
  then show ?thesis by (simp add: item_at_def)
qed

lemma same_treeI:
  assumes "length (heap v) = length (heap w)" and "map inventory (holders v) = map inventory (holders w)"
    and "\<And>i. i < length (heap w) \<Longrightarrow>
      item_class (item_at v i) = item_class (item_at w i) \<and> item_id (item_at v i) = item_id (item_at w i) \<and>
      item_parent (item_at v i) = item_parent (item_at w i) \<and> itemlist (item_at v i) = itemlist (item_at w i) \<and>
      maxSize (item_at v i) = maxSize (item_at w i) \<and> unlocked (item_at v i) = unlocked (item_at w i)"
  shows "same_tree v w"
  using assms item_at_outside [OF assms(1)] by (auto simp: same_tree_def) metis+

lemma same_tree_bump [simp]: "same_tree (bump S d w) w"
  by (rule same_treeI) (simp_all add: item_at_bump)

lemma upd_total:
  assumes "c < length (heap w)"
  shows "upd_item c (\<lambda>x. x\<lparr>totalWeight := totalWeight x + d\<rparr>) w = bump {c} d w"
  by (rule store_eqI) (auto simp: item_at_upd item_at_bump assms)

lemma bump_bump: "S \<inter> R = {} \<Longrightarrow> bump S d (bump R d w) = bump (S \<union> R) d w"
  by (rule store_eqI) (auto simp: item_at_bump)

text \<open>\<open>updateItemWeight\<close> ends, and reaches the containers of the chain, each once.\<close>

lemma chain_same_tree: "same_tree v w \<Longrightarrow> chain v c = chain w c"
proof -
  assume s: "same_tree v w"
  then have u: "up v = up w" by (rule same_tree_simps(16))
  have "x \<in> chain w c" if "x \<in> chain v c" for x
    using that by induction (use u in \<open>auto intro: chain.intros\<close>)
  moreover have "x \<in> chain v c" if "x \<in> chain w c" for x
    using that by induction (use u in \<open>auto intro: chain.intros\<close>)
  ultimately show ?thesis by blast
qed

lemma getParent_up:
  assumes "tree_ok T w" and "c < length (heap w)"
  shows "\<exists>t. getParent w (Item_ref c) = Some t \<and>
    (case t of Some (Item_ref p) \<Rightarrow> up w c = (if is_container (item_at w p) then Some p else None) | _ \<Rightarrow> up w c = None)"
proof (cases "skips (item_at w c)")
  case True
  then have "up w c = None" by (simp add: up_def)
  moreover obtain t where "getParent w (Item_ref c) = Some t" "\<forall>q. t \<noteq> Some (Item_ref q)"
    using getParent_skip [OF assms True] by blast
  ultimately show ?thesis by (intro exI [of _ t]) (simp split: option.split thing.split)
next
  case False
  then show ?thesis
    by (intro exI [of _ "item_parent (item_at w c)"]) (simp add: getParent_direct up_def split: option.split thing.split)
qed

lemma updateItemWeight_bump:
  assumes "tree_ok T w"
  shows "c < length (heap w) \<Longrightarrow> same_tree v w \<Longrightarrow> updateItemWeight c d v = Some (bump (chain w c) d v)"
proof (induction c arbitrary: v rule: wf_induct_rule [OF wf_parents [OF assms]])
  case (1 c)
  let ?v = "bump {c} d v"
  have sv: "same_tree ?v w" using "1.prems"(2) by (rule same_tree_trans [OF same_tree_bump])
  have len: "length (heap v) = length (heap w)" using "1.prems"(2) by (rule same_tree_simps(1))
  have ok: "tree_ok T ?v" using assms same_tree_ok [OF sv] by simp
  obtain t where t: "getParent ?v (Item_ref c) = Some t"
    "(case t of Some (Item_ref p) \<Rightarrow> up ?v c = (if is_container (item_at ?v p) then Some p else None) | _ \<Rightarrow> up ?v c = None)"
    using getParent_up [OF ok, of c] "1.prems"(1) len by auto
  have start: "upd_item c (\<lambda>x. x\<lparr>totalWeight := totalWeight x + d\<rparr>) v = ?v"
    using "1.prems"(1) len by (simp add: upd_total)
  show ?case
  proof (cases "up w c")
    case None
    then have "up ?v c = None" using same_tree_simps(16) [OF sv] by simp
    then have "case t of Some (Item_ref p) \<Rightarrow> \<not> is_container (item_at ?v p) | _ \<Rightarrow> True"
      using t(2) by (simp split: option.splits thing.splits if_splits)
    then have "updateItemWeight c d v = Some ?v"
      by (subst updateItemWeight.simps) (simp add: start Let_def t(1) split: option.splits thing.splits)
    then show ?thesis by (simp add: chain_None [OF None])
  next
    case (Some p)
    have r: "(c, p) \<in> parent_rel w" by (rule up_parent_rel [OF Some "1.prems"(1)])
    then have p: "p < length (heap w)" using assms by (auto simp: parent_rel_def tree_ok_def linked_ok_def)
    have "t = Some (Item_ref p) \<and> is_container (item_at ?v p)"
      using t(2) Some same_tree_simps(16) [OF sv] by (auto split: option.splits thing.splits if_splits)
    then have "updateItemWeight c d v = updateItemWeight p d ?v"
      using t(1) by (subst updateItemWeight.simps) (simp add: start Let_def)
    also have "\<dots> = Some (bump (chain w p) d ?v)"
      using "1.IH" [of p ?v] r p sv by simp
    also have "bump (chain w p) d ?v = bump (chain w c) d v"
      using chain_not_below [OF assms "1.prems"(1) Some] by (simp add: bump_bump chain_Some [OF Some] Un_commute)
    finally show ?thesis .
  qed
qed

lemma getWeight_bump: "i < length (heap w) \<Longrightarrow>
    getWeight T (item_at (bump S d w) i) =
      getWeight T (item_at w i) + (if i \<in> S \<and> is_container (item_at w i) then d else 0)"
  by (simp add: item_at_bump getWeight_def item_getWeight_def getBaseWeight_def isStackable_def item_type_of_def
      item_hasAttribute_def item_getIntAttr_def is_container_def Let_def)

lemma load_bump:
  assumes "\<forall>i \<in> set is. i < length (heap w)"
  shows "load T (bump S d w) is =
    load T w is + (\<Sum>i\<leftarrow>is. if i \<in> S \<and> is_container (item_at w i) then d else 0)"
  using assms by (induction "is") (simp_all add: load_def getWeight_bump)

lemma load_bump_none:
  assumes "\<forall>i \<in> set is. i < length (heap w)" and "\<forall>i \<in> set is. i \<notin> S"
  shows "load T (bump S d w) is = load T w is"
proof -
  have "(\<Sum>i\<leftarrow>is. if i \<in> S \<and> is_container (item_at w i) then d else 0) = 0"
    using assms(2) by (induction "is") auto
  then show ?thesis using load_bump [OF assms(1)] by simp
qed

lemma one_of_list: "distinct is \<Longrightarrow> (\<Sum>i\<leftarrow>is. if i = z then (d :: u32) else 0) = (if z \<in> set is then d else 0)"
  by (induction "is") auto

lemma load_bump_one:
  assumes "\<forall>i \<in> set is. i < length (heap w)" and "distinct is"
    and "z \<in> set is" "z \<in> S" "is_container (item_at w z)" and "\<forall>i \<in> set is. i \<in> S \<longrightarrow> i = z"
  shows "load T (bump S d w) is = load T w is + d"
proof -
  have "(\<Sum>i\<leftarrow>is. if i \<in> S \<and> is_container (item_at w i) then d else 0) = (\<Sum>i\<leftarrow>is. if i = z then d else 0)"
  proof (intro arg_cong [where f = sum_list] map_cong refl)
    fix i assume "i \<in> set is"
    then have "i = z \<or> i \<notin> S" using assms(6) by blast
    then show "(if i \<in> S \<and> is_container (item_at w i) then d else 0) = (if i = z then d else 0)"
      using assms(4,5) by auto
  qed
  also have "\<dots> = d"
    using assms(2,3) one_of_list [of "is" z d] by simp
  finally show ?thesis using load_bump [OF assms(1)] by simp
qed

lemma single_valued_parents: "single_valued (parent_rel w)"
  by (auto simp: single_valued_def parent_rel_def)

lemma chain_one_child:
  assumes t: "tree_ok T w" and c: "c < length (heap w)"
    and y: "y \<in> chain w c" "(y, x) \<in> parent_rel w" and z: "z \<in> chain w c" "(z, x) \<in> parent_rel w"
  shows "y = z"
proof -
  have no_way: False if "(a, b) \<in> (parent_rel w)\<^sup>+" "(a, x) \<in> parent_rel w" "(b, x) \<in> parent_rel w" for a b
  proof -
    from that(1) obtain m where "(a, m) \<in> parent_rel w" "(m, b) \<in> (parent_rel w)\<^sup>*" by (auto dest: tranclD)
    moreover have "m = x" using calculation(1) that(2) single_valued_parents by (auto simp: single_valued_def)
    ultimately have "(x, x) \<in> (parent_rel w)\<^sup>+" using that(3) by (auto intro: rtrancl_into_trancl1)
    then show False using t by (simp add: tree_ok_def acyclic_def)
  qed
  have "(y, z) \<in> (parent_rel w)\<^sup>* \<or> (z, y) \<in> (parent_rel w)\<^sup>*"
    using single_valued_confluent [OF single_valued_parents, of c y w z] chain_rel [OF t c y(1)] chain_rel [OF t c z(1)] by blast
  then show ?thesis using no_way y(2) z(2) by (auto simp: rtrancl_eq_or_trancl)
qed

lemma chain_containers:
  "x \<in> chain w c \<Longrightarrow> is_container (item_at w c) \<Longrightarrow> is_container (item_at w x)"
  by (induction rule: chain.induct) (auto simp: up_def split: if_splits option.splits thing.splits)

lemma contents_Item: "c < length (heap w) \<Longrightarrow> contents w (Item_ref c) = itemlist (item_at w c)"
  by (simp add: contents_def)

text \<open>A container whose contents changed by \<open>d\<close>, and everything above it, is right again.\<close>

lemma weights_after_update:
  assumes t: "tree_ok T w" and c: "c < length (heap w)" "is_container (item_at w c)"
    and others: "\<forall>x < length (heap w). x \<noteq> c \<longrightarrow> weight_ok T w x"
    and changed: "\<forall>i \<in> set (itemlist (item_at w c)). \<not> skips (item_at w i) \<Longrightarrow>
      totalWeight (item_at w c) + d = load T w (itemlist (item_at w c))"
    and x: "x < length (heap w)"
  shows "weight_ok T (bump (chain w c) d w) x"
proof -
  let ?w = "bump (chain w c) d w"
  note s = same_tree_simps [OF same_tree_bump]
  let ?is = "itemlist (item_at w x)"
  have kids: "i < length (heap w) \<and> (i, x) \<in> parent_rel w" if "i \<in> set ?is" for i
    using that x tree_okD(2,3) [OF t, where t = "Item_ref x"] by (auto simp: contents_Item parent_rel_def)
  have "totalWeight (item_at ?w x) = load T ?w ?is"
    if cx: "is_container (item_at w x)" and ns: "\<forall>i \<in> set ?is. \<not> skips (item_at w i)"
  proof (cases "x = c")
    case True
    have "i \<notin> chain w c" if "i \<in> set ?is" for i
    proof
      assume "i \<in> chain w c"
      then have "(c, i) \<in> (parent_rel w)\<^sup>*" using chain_rel [OF t c(1)] by blast
      with kids [OF that] have "(c, c) \<in> (parent_rel w)\<^sup>+" unfolding True by (auto intro: rtrancl_into_trancl1)
      then show False using t by (simp add: tree_ok_def acyclic_def)
    qed
    then have "load T ?w ?is = load T w ?is" using kids by (intro load_bump_none) auto
    then show ?thesis using changed ns True x by (simp add: item_at_bump chain_self)
  next
    case False
    then have ok: "totalWeight (item_at w x) = load T w ?is" using others x cx ns by (simp add: weight_ok_def)
    have d: "distinct ?is" using tree_okD(1) [OF t, of "Item_ref x"] x by (simp add: contents_Item)
    show ?thesis
    proof (cases "x \<in> chain w c")
      case True
      then obtain z where z: "z \<in> chain w c" "up w z = Some x" using False by (auto elim: chain.cases)
      have zl: "z < length (heap w)" using chain_rel [OF t c(1) z(1)] by simp
      have "\<not> skips (item_at w z)" "item_parent (item_at w z) = Some (Item_ref x)"
        using z(2) by (auto simp: up_def split: if_splits option.splits thing.splits)
      then have zi: "z \<in> set ?is" using tree_okD(4) [OF t zl] x by (auto simp: linked_ok_def contents_Item)
      have only: "\<forall>i \<in> set ?is. i \<in> chain w c \<longrightarrow> i = z"
        using chain_one_child [OF t c(1)] kids kids [OF zi] z(1) by blast
      have "load T ?w ?is = load T w ?is + d"
        using kids chain_containers [OF z(1) c(2)] by (intro load_bump_one [OF _ d zi z(1) _ only]) auto
      then show ?thesis using True x ok by (simp add: item_at_bump)
    next
      case notin: False
      have "i \<notin> chain w c" if i: "i \<in> set ?is" for i
      proof
        assume ic: "i \<in> chain w c"
        have "item_parent (item_at w i) = Some (Item_ref x)" using kids [OF i] by (simp add: parent_rel_def)
        then have "up w i = Some x" using ns i cx by (simp add: up_def)
        then show False using notin chain_up [OF ic] by blast
      qed
      then have "load T ?w ?is = load T w ?is" using kids by (intro load_bump_none) auto
      then show ?thesis using notin x ok by (simp add: item_at_bump)
    qed
  qed
  then show ?thesis unfolding weight_ok_def s by blast
qed

section \<open>Putting an item into a container\<close>

lemma item_at_attach:
  assumes "i \<noteq> c" and "i < length (heap w)" and "c < length (heap w)"
  shows "item_at (push_front c i (setParent p i w)) j =
    (if j = i then (item_at w i)\<lparr>item_parent := p\<rparr>
     else if j = c then (item_at w c)\<lparr>itemlist := i # itemlist (item_at w c)\<rparr> else item_at w j)"
  using assms by (simp add: push_front_def setParent_def item_at_upd)

lemma getWeight_links [simp]:
  "getWeight T (x\<lparr>item_parent := p\<rparr>) = getWeight T x"
  "getWeight T (x\<lparr>itemlist := is\<rparr>) = getWeight T x"
  by (simp_all add: getWeight_def item_getWeight_def getBaseWeight_def isStackable_def item_type_of_def
      item_hasAttribute_def item_getIntAttr_def is_container_def Let_def)

lemma class_simps [simp]:
  "is_container (x\<lparr>item_parent := p\<rparr>) = is_container x" "is_container (x\<lparr>itemlist := is\<rparr>) = is_container x"
  "skips (x\<lparr>item_parent := p\<rparr>) = skips x" "skips (x\<lparr>itemlist := is\<rparr>) = skips x"
  "fixed (x\<lparr>item_parent := p\<rparr>) = fixed x" "fixed (x\<lparr>itemlist := is\<rparr>) = fixed x"
  "isPickupable T (x\<lparr>item_parent := p\<rparr>) = isPickupable T x" "isPickupable T (x\<lparr>itemlist := is\<rparr>) = isPickupable T x"
  "isStackable T (x\<lparr>item_parent := p\<rparr>) = isStackable T x" "isStackable T (x\<lparr>itemlist := is\<rparr>) = isStackable T x"
  "stack_ok T (x\<lparr>item_parent := p\<rparr>) = stack_ok T x" "stack_ok T (x\<lparr>itemlist := is\<rparr>) = stack_ok T x"
  by (simp_all add: is_container_def skips_def fixed_def isPickupable_def isStackable_def item_type_of_def stack_ok_def)

lemma class_total_simps [simp]:
  "is_container (x\<lparr>totalWeight := n\<rparr>) = is_container x" "skips (x\<lparr>totalWeight := n\<rparr>) = skips x"
  "isStackable T (x\<lparr>totalWeight := n\<rparr>) = isStackable T x" "stack_ok T (x\<lparr>totalWeight := n\<rparr>) = stack_ok T x"
  by (simp_all add: is_container_def skips_def isStackable_def item_type_of_def stack_ok_def)

lemma not_in_contents: "tree_ok T w \<Longrightarrow> item_parent (item_at w i) = None \<Longrightarrow> i \<notin> set (contents w t)"
  using tree_okD(3) by fastforce

text \<open>The fixed containers stay as they are when an item that is not one of them changes its parent.\<close>

lemma fixed_ok_reparent:
  assumes f: "fixed_ok T w j" and i: "\<not> fixed (item_at w i)"
    and v: "\<And>k. k \<noteq> i \<Longrightarrow> item_parent (item_at v k) = item_parent (item_at w k)"
      "\<And>k. item_class (item_at v k) = item_class (item_at w k)"
      "\<And>k. item_id (item_at v k) = item_id (item_at w k)"
      "\<And>k. unlocked (item_at v k) = unlocked (item_at w k)"
  shows "fixed_ok T v j"
proof -
  have s: "skips (item_at v k) = skips (item_at w k)" "fixed (item_at v k) = fixed (item_at w k)"
    "isPickupable T (item_at v k) = isPickupable T (item_at w k)" for k
    by (simp_all add: skips_def fixed_def isPickupable_def item_type_of_def v)
  show ?thesis
  proof (cases "fixed (item_at w j)")
    case False
    then have "item_class (item_at w j) \<noteq> Store_Inbox" "\<not> skips (item_at w j)" by (auto simp: fixed_def)
    with False show ?thesis by (simp add: fixed_ok_def s v)
  next
    case True
    then have j: "item_parent (item_at v j) = item_parent (item_at w j)" using i v(1) by metis
    have l: "item_parent (item_at v l) = item_parent (item_at w l)" if "item_class (item_at w l) = Depot_Locker" for l
      using that i v(1) by (metis fixed_def)
    show ?thesis using f l by (auto simp: fixed_ok_def s v j split: option.splits thing.splits)
  qed
qed

lemma attach_tree:
  assumes t: "tree_ok T w" and i: "i < length (heap w)" "item_parent (item_at w i) = None" "\<not> fixed (item_at w i)"
    and c: "c < length (heap w)" "is_container (item_at w c)" and ac: "(c, i) \<notin> (parent_rel w)\<^sup>*"
  shows "tree_ok T (push_front c i (setParent (Some (Item_ref c)) i w))" (is "tree_ok T ?w")
    and "contents (push_front c i (setParent (Some (Item_ref c)) i w)) t =
      (if t = Item_ref c then i # contents w t else contents w t)"
proof -
  have ne: "i \<noteq> c" using ac by auto
  note at = item_at_attach [OF ne i(1) c(1), of "Some (Item_ref c)"]
  have len: "length (heap ?w) = length (heap w)" "holders ?w = holders w" by (simp_all add: push_front_def)
  show con: "contents ?w t = (if t = Item_ref c then i # contents w t else contents w t)" for t
    using c i ne by (auto simp: contents_def at len split: thing.splits)
  have parents: "item_parent (item_at ?w j) = (if j = i then Some (Item_ref c) else item_parent (item_at w j))" for j
    using ne by (simp add: at)
  have rel: "parent_rel ?w = insert (i, c) (parent_rel w)"
    using i c by (auto simp: parent_rel_def parents len split: if_splits)
  have "acyclic (parent_rel ?w)"
    unfolding rel acyclic_insert using ac tree_okD(9) [OF t] by simp
  moreover have "distinct (contents ?w t)" for t
    using tree_okD(1) [OF t] not_in_contents [OF t i(2)] by (simp add: con)
  moreover have "j < length (heap ?w) \<and> item_parent (item_at ?w j) = Some t" if "j \<in> set (contents ?w t)" for j t
    using that tree_okD(2,3) [OF t] not_in_contents [OF t i(2)] i by (auto simp: con parents len split: if_splits)
  moreover have "linked_ok ?w j" if "j < length (heap w)" for j
    using tree_okD(4) [OF t that] c i(1) by (auto simp: linked_ok_def parents con len at)
  moreover have "fixed_ok T ?w j" if "j < length (heap w)" for j
    by (rule fixed_ok_reparent [OF tree_okD(5) [OF t that] i(3)]) (auto simp: at)
  moreover have "(\<not> is_container (item_at ?w j) \<longrightarrow> itemlist (item_at ?w j) = []) \<and> 0 \<le> sint (maxSize (item_at ?w j))"
    if "j < length (heap w)" for j
    using tree_okD(7,8) [OF t that] c(2) tree_okD(7,8) [OF t i(1)] by (auto simp: at)
  ultimately show "tree_ok T ?w"
    using tree_okD(6) [OF t] unfolding tree_ok_def len by blast
qed

lemma same_load: "(\<And>i. getWeight T (item_at v i) = getWeight T (item_at w i)) \<Longrightarrow> load T v is = load T w is"
  by (simp add: load_def)

lemma store_okD:
  assumes "store_ok T w"
  shows "tree_ok T w" "c < length (heap w) \<Longrightarrow> weight_ok T w c" "c < length (heap w) \<Longrightarrow> stack_ok T (item_at w c)"
  using assms by (simp_all add: store_ok_def)

text \<open>An item is free when it is in no place, may be put into one, and is not a fixed container.\<close>

definition free_item :: "store \<Rightarrow> nat \<Rightarrow> bool" where
  "free_item w i \<longleftrightarrow> i < length (heap w) \<and> item_parent (item_at w i) = None \<and> \<not> fixed (item_at w i)"

lemma bump_stack_ok: "c < length (heap w) \<Longrightarrow> stack_ok T (item_at (bump S d w) c) = stack_ok T (item_at w c)"
  by (simp add: item_at_bump)

lemma container_addThing_ok:
  assumes w: "store_ok (types e) w" and i: "free_item w i"
    and c: "c < length (heap w)" "is_container (item_at w c)" and ac: "(c, i) \<notin> (parent_rel w)\<^sup>*"
    and index: "index < sint (maxSize (item_at w c))"
  obtains w' where "container_addThing e c index i w = Some w'" and "store_ok (types e) w'"
    and "same_tree w' (push_front c i (setParent (Some (Item_ref c)) i w))"
    and "\<And>t. contents w' t = (if t = Item_ref c then i # contents w t else contents w t)"
    and "\<And>j. item_count (item_at w' j) = item_count (item_at w j)" and "holders w' = holders w"
proof -
  let ?T = "types e"
  let ?v = "push_front c i (setParent (Some (Item_ref c)) i w)"
  note t = store_okD(1) [OF w]
  from i have i': "i < length (heap w)" "item_parent (item_at w i) = None" "\<not> fixed (item_at w i)"
    by (simp_all add: free_item_def)
  have ne: "i \<noteq> c" using ac by auto
  note at = item_at_attach [OF ne i'(1) c(1), of "Some (Item_ref c)"]
  have len: "length (heap ?v) = length (heap w)" "holders ?v = holders w" by (simp_all add: push_front_def)
  note tv = attach_tree(1) [OF t i' c ac] and con = attach_tree(2) [OF t i' c ac]
  have gw: "getWeight ?T (item_at ?v j) = getWeight ?T (item_at w j)" for j by (simp add: at)
  let ?d = "getWeight ?T (item_at ?v i)"
  let ?w' = "bump (chain ?v c) ?d ?v"
  have add: "container_addThing e c index i w = Some ?w'"
    using updateItemWeight_bump [OF tv _ same_tree_refl, of c ?d] index c(1) len
    by (simp add: container_addThing_def Let_def)
  have "weight_ok ?T ?v x" if "x < length (heap ?v)" "x \<noteq> c" for x
    using store_okD(2) [OF w, of x] that len same_load [of ?T ?v w, OF gw] by (auto simp: weight_ok_def at)
  moreover have "totalWeight (item_at ?v c) + ?d = load ?T ?v (itemlist (item_at ?v c))"
    if "\<forall>j \<in> set (itemlist (item_at ?v c)). \<not> skips (item_at ?v j)"
  proof -
    have "\<forall>j \<in> set (itemlist (item_at w c)). \<not> skips (item_at w j)"
      using that ne by (auto simp: at split: if_splits)
    then have "totalWeight (item_at w c) = load ?T w (itemlist (item_at w c))"
      using store_okD(2) [OF w c(1)] c(2) by (simp add: weight_ok_def)
    then show ?thesis using ne same_load [of ?T ?v w, OF gw] by (simp add: at load_def add.commute)
  qed
  ultimately have "weight_ok ?T ?w' x" if "x < length (heap ?v)" for x
    using weights_after_update [OF tv, of c ?d x] c len ne that by (simp add: at)
  moreover have "stack_ok ?T (item_at ?w' x)" if "x < length (heap ?v)" for x
    using store_okD(3) [OF w, of x] store_okD(3) [OF w i'(1)] store_okD(3) [OF w c(1)] that len
    by (simp add: bump_stack_ok at)
  ultimately have ok: "store_ok ?T ?w'"
    using same_tree_ok [OF same_tree_bump] tv len by (simp add: store_ok_def)
  have "item_count (item_at ?w' j) = item_count (item_at w j)" for j
    using item_at_outside [of ?w' w j] len by (cases "j < length (heap w)") (simp_all add: item_at_bump at)
  with add ok show thesis
    using that con same_tree_contents [OF same_tree_bump] len by (auto simp: same_tree_bump)
qed

section \<open>Changing an item where it is\<close>

text \<open>A change of the data of an item that keeps its class and its type.\<close>

definition keeps_item :: "(item \<Rightarrow> item) \<Rightarrow> item \<Rightarrow> bool" where
  "keeps_item f x \<longleftrightarrow> item_class (f x) = item_class x \<and> item_id (f x) = item_id x \<and> item_parent (f x) = item_parent x \<and>
     itemlist (f x) = itemlist x \<and> maxSize (f x) = maxSize x \<and> unlocked (f x) = unlocked x \<and>
     totalWeight (f x) = totalWeight x"

lemma upd_item_same_tree: "keeps_item f (item_at w i) \<Longrightarrow> same_tree (upd_item i f w) w"
  by (rule same_treeI) (simp_all add: item_at_upd keeps_item_def)

lemma is_container_class: "item_class x = item_class y \<Longrightarrow> is_container x = is_container y"
  by (simp add: is_container_def)

lemma upd_item_weights:
  assumes w: "store_ok T w" and k: "keeps_item f (item_at w i)"
    and x: "x < length (heap w)" "i \<notin> set (itemlist (item_at w x))"
  shows "weight_ok T (upd_item i f w) x"
proof -
  let ?v = "upd_item i f w"
  note s = same_tree_simps [OF upd_item_same_tree [OF k]]
  have "load T ?v (itemlist (item_at w x)) = load T w (itemlist (item_at w x))"
    using x(2) by (auto simp: load_def item_at_upd intro!: arg_cong [where f = sum_list])
  moreover have "totalWeight (item_at ?v x) = totalWeight (item_at w x)"
    using k by (simp add: item_at_upd keeps_item_def)
  ultimately show ?thesis using store_okD(2) [OF w x(1)] by (simp add: weight_ok_def s)
qed

lemma reweigh_ok:
  assumes w: "store_ok (types e) w" and k: "keeps_item f (item_at w i)" and st: "stack_ok (types e) (f (item_at w i))"
    and c: "c < length (heap w)" "is_container (item_at w c)" and i: "i \<in> set (contents w (Item_ref c))"
  obtains w' where "reweigh e c i f w = Some w'" and "store_ok (types e) w'" and "same_tree w' w"
    and "\<And>j. item_count (item_at w' j) = (if j = i then item_count (f (item_at w i)) else item_count (item_at w j))"
    and "holders w' = holders w"
proof -
  let ?T = "types e"
  note t = store_okD(1) [OF w]
  let ?v = "upd_item i f w"
  have sv: "same_tree ?v w" by (rule upd_item_same_tree [OF k])
  note s = same_tree_simps [OF sv]
  have il: "i < length (heap w)" "item_parent (item_at w i) = Some (Item_ref c)" using tree_okD(2,3) [OF t i] by simp_all
  have tv: "tree_ok ?T ?v" using t same_tree_ok [OF sv] by simp
  let ?d = "- getWeight ?T (item_at w i) + getWeight ?T (item_at ?v i)"
  let ?w' = "bump (chain ?v c) ?d ?v"
  have run: "reweigh e c i f w = Some ?w'"
    using updateItemWeight_bump [OF tv _ same_tree_refl, of c ?d] c(1) by (simp add: reweigh_def Let_def)
  have ne: "i \<noteq> c"
  proof
    assume "i = c"
    then have "(c, c) \<in> parent_rel w" using il by (simp add: parent_rel_def)
    then show False using tree_okD(9) [OF t] by (auto simp: acyclic_def)
  qed
  have "weight_ok ?T ?v x" if "x < length (heap ?v)" "x \<noteq> c" for x
  proof (rule upd_item_weights [OF w k])
    show "x < length (heap w)" using that by simp
    show "i \<notin> set (itemlist (item_at w x))"
      using that il(2) tree_okD(3) [OF t, of i "Item_ref x"] by (auto simp: contents_Item)
  qed
  moreover have "totalWeight (item_at ?v c) + ?d = load ?T ?v (itemlist (item_at ?v c))"
    if "\<forall>j \<in> set (itemlist (item_at ?v c)). \<not> skips (item_at ?v j)"
  proof -
    have d: "distinct (itemlist (item_at w c))" "i \<in> set (itemlist (item_at w c))"
      using tree_okD(1) [OF t, of "Item_ref c"] i c by (simp_all add: contents_Item)
    obtain ys zs where split: "itemlist (item_at w c) = ys @ i # zs" "i \<notin> set ys" "i \<notin> set zs"
      using d by (metis split_list distinct.simps(2) distinct_append not_distinct_conv_prefix)
    have g: "getWeight ?T (item_at ?v j) = getWeight ?T (item_at w j)" if "j \<noteq> i" for j
      using that by (simp add: item_at_upd)
    have "load ?T ?v ys = load ?T w ys" "load ?T ?v zs = load ?T w zs"
      using split g unfolding load_def by (metis (no_types, lifting) map_cong)+
    then have "load ?T ?v (itemlist (item_at w c)) = load ?T w (itemlist (item_at w c)) + ?d"
      by (simp add: split load_def)
    moreover have "totalWeight (item_at w c) = load ?T w (itemlist (item_at w c))"
      using store_okD(2) [OF w c(1)] c(2) that by (simp add: weight_ok_def s)
    moreover have "item_at ?v c = item_at w c" using ne by (simp add: item_at_upd)
    ultimately show ?thesis by simp
  qed
  ultimately have "weight_ok ?T ?w' x" if "x < length (heap ?v)" for x
    using weights_after_update [OF tv, of c ?d x] c that by (simp add: s)
  moreover have "stack_ok ?T (item_at ?w' x)" if "x < length (heap w)" for x
    using store_okD(3) [OF w that] st that by (simp add: bump_stack_ok item_at_upd)
  ultimately have ok: "store_ok ?T ?w'"
    using same_tree_ok [OF same_tree_bump] tv by (simp add: store_ok_def)
  have "item_count (item_at ?w' j) = (if j = i then item_count (f (item_at w i)) else item_count (item_at w j))" for j
    using item_at_outside [of ?w' w j] il by (cases "j < length (heap w)") (auto simp: item_at_bump item_at_upd)
  with run ok show thesis
    using that same_tree_trans [OF same_tree_bump sv] by simp
qed

lemma upd_in_slot_ok:
  assumes w: "store_ok T w" and k: "keeps_item f (item_at w i)" and st: "stack_ok T (f (item_at w i))"
    and p: "\<And>c. item_parent (item_at w i) \<noteq> Some (Item_ref c)"
  shows "store_ok T (upd_item i f w)"
proof -
  let ?v = "upd_item i f w"
  note t = store_okD(1) [OF w]
  have "weight_ok T ?v x" if "x < length (heap w)" for x
  proof (rule upd_item_weights [OF w k that])
    show "i \<notin> set (itemlist (item_at w x))"
      using that p tree_okD(3) [OF t, of i "Item_ref x"] by (auto simp: contents_Item)
  qed
  moreover have "stack_ok T (item_at ?v x)" if "x < length (heap w)" for x
    using store_okD(3) [OF w that] st by (simp add: item_at_upd)
  moreover have "tree_ok T ?v" using t same_tree_ok [OF upd_item_same_tree [OF k]] by simp
  ultimately show ?thesis by (simp add: store_ok_def)
qed

section \<open>Taking an item out of a container\<close>

definition take_out :: "nat \<Rightarrow> nat \<Rightarrow> store \<Rightarrow> store" where
  "take_out c i w = upd_item c (\<lambda>y. y\<lparr>itemlist := remove1 i (itemlist y)\<rparr>) (setParent None i w)"

lemma item_at_take_out:
  assumes "i \<noteq> c" and "i < length (heap w)" and "c < length (heap w)"
  shows "item_at (take_out c i w) j =
    (if j = i then (item_at w i)\<lparr>item_parent := None\<rparr>
     else if j = c then (item_at w c)\<lparr>itemlist := remove1 i (itemlist (item_at w c))\<rparr> else item_at w j)"
  using assms by (simp add: take_out_def setParent_def item_at_upd)

lemma take_out_simps [simp]:
  "length (heap (take_out c i w)) = length (heap w)" "holders (take_out c i w) = holders w"
  by (simp_all add: take_out_def)

lemma not_own_child: "tree_ok T w \<Longrightarrow> i \<in> set (contents w (Item_ref c)) \<Longrightarrow> i \<noteq> c"
proof
  assume t: "tree_ok T w" "i \<in> set (contents w (Item_ref c))" "i = c"
  then have "(c, c) \<in> parent_rel w" using tree_okD(2,3) [OF t(1,2)] by (simp add: parent_rel_def)
  then show False using tree_okD(9) [OF t(1)] by (auto simp: acyclic_def)
qed

lemma take_out_tree:
  assumes t: "tree_ok T w" and i: "i \<in> set (contents w (Item_ref c))" "\<not> fixed (item_at w i)"
    and c: "c < length (heap w)" "is_container (item_at w c)"
  shows "tree_ok T (take_out c i w)" (is "tree_ok T ?w")
    and "contents (take_out c i w) t = (if t = Item_ref c then remove1 i (contents w t) else contents w t)"
proof -
  note ne = not_own_child [OF t i(1)] and il = tree_okD(2,3) [OF t i(1)]
  note at = item_at_take_out [OF ne il(1) c(1)]
  show con: "contents ?w t = (if t = Item_ref c then remove1 i (contents w t) else contents w t)" for t
    using c ne by (auto simp: contents_def at split: thing.splits)
  have parents: "item_parent (item_at ?w j) = (if j = i then None else item_parent (item_at w j))" for j
    using ne by (simp add: at)
  have "parent_rel ?w \<subseteq> parent_rel w" by (auto simp: parent_rel_def parents split: if_splits)
  then have "acyclic (parent_rel ?w)" using tree_okD(9) [OF t] by (rule acyclic_subset [rotated])
  moreover have "distinct (contents ?w t)" for t
    using tree_okD(1) [OF t, of t] by (auto simp: con)
  moreover have "j < length (heap ?w) \<and> item_parent (item_at ?w j) = Some t" if j: "j \<in> set (contents ?w t)" for j t
  proof -
    have "j \<in> set (contents w t)" using j by (auto simp: con split: if_splits dest: notin_set_remove1 set_remove1_subset [THEN subsetD])
    moreover have "j \<noteq> i"
    proof
      assume "j = i"
      with calculation il(2) tree_okD(3) [OF t] have "t = Item_ref c" by fastforce
      then show False using j \<open>j = i\<close> tree_okD(1) [OF t, of "Item_ref c"] by (simp add: con)
    qed
    ultimately show ?thesis using tree_okD(2,3) [OF t] by (simp add: parents)
  qed
  moreover have "linked_ok ?w j" if "j < length (heap w)" for j
    using tree_okD(4) [OF t that] by (auto simp: linked_ok_def parents con at)
  moreover have "fixed_ok T ?w j" if "j < length (heap w)" for j
    by (rule fixed_ok_reparent [OF tree_okD(5) [OF t that] i(2)]) (auto simp: at)
  moreover have "(\<not> is_container (item_at ?w j) \<longrightarrow> itemlist (item_at ?w j) = []) \<and> 0 \<le> sint (maxSize (item_at ?w j))"
    if "j < length (heap w)" for j
    using tree_okD(7,8) [OF t that] c(2) tree_okD(7,8) [OF t il(1)] by (auto simp: at)
  ultimately show "tree_ok T ?w"
    using tree_okD(6) [OF t] unfolding tree_ok_def take_out_simps by blast
qed

lemma take_out_chain:
  assumes t: "tree_ok T w" and i: "i \<in> set (contents w (Item_ref c))" and c: "c < length (heap w)"
  shows "chain (take_out c i w) c = chain w c" and "i \<notin> chain w c"
proof -
  note ne = not_own_child [OF t i] and il = tree_okD(2,3) [OF t i]
  note at = item_at_take_out [OF ne il(1) c(1)]
  show ni: "i \<notin> chain w c"
  proof
    assume "i \<in> chain w c"
    then have "(c, i) \<in> (parent_rel w)\<^sup>*" using chain_rel [OF t c] by blast
    moreover have "(i, c) \<in> parent_rel w" using il by (simp add: parent_rel_def)
    ultimately have "(c, c) \<in> (parent_rel w)\<^sup>+" by (rule rtrancl_into_trancl1)
    then show False using tree_okD(9) [OF t] by (simp add: acyclic_def)
  qed
  have u: "up (take_out c i w) x = up w x" if "x \<noteq> i" for x
    using that ne by (auto simp: up_def at split: option.splits thing.splits)
  have "x \<in> chain w c" if "x \<in> chain (take_out c i w) c" for x
    using that
  proof induction
    case (chain_up x p)
    then have "x \<noteq> i" using ni by auto
    then show ?case using chain_up u by (metis chain.chain_up)
  qed (simp add: chain_self)
  moreover have "x \<in> chain (take_out c i w) c" if "x \<in> chain w c" for x
  proof -
    have "x \<in> chain (take_out c i w) c \<and> x \<in> chain w c" using that
    proof induction
      case (chain_up x p)
      then have "x \<noteq> i" using ni by auto
      then show ?case using chain_up u by (metis chain.chain_up)
    qed (simp add: chain_self)
    then show ?thesis ..
  qed
  ultimately show "chain (take_out c i w) c = chain w c" by blast
qed

lemma container_take_whole:
  assumes w: "store_ok (types e) w" and c: "c < length (heap w)" "is_container (item_at w c)"
    and i: "i \<in> set (contents w (Item_ref c))" "\<not> fixed (item_at w i)"
  obtains w' where "do { w \<leftarrow> updateItemWeight c (- getWeight (types e) (item_at w i)) w;
      let w = setParent None i w;
      Some (upd_item c (\<lambda>y. y\<lparr>itemlist := remove1 i (itemlist y)\<rparr>) w) } = Some w'" and "store_ok (types e) w'"
    and "same_tree w' (take_out c i w)" and "\<And>j. item_count (item_at w' j) = item_count (item_at w j)"
    and "holders w' = holders w"
proof -
  let ?T = "types e"
  note t = store_okD(1) [OF w]
  note ne = not_own_child [OF t i(1)] and il = tree_okD(2,3) [OF t i(1)]
  note at = item_at_take_out [OF ne il(1) c(1)]
  let ?v = "take_out c i w" and ?d = "- getWeight ?T (item_at w i)"
  let ?w' = "bump (chain ?v c) ?d ?v"
  note tv = take_out_tree(1) [OF t i c]
  have eq: "take_out c i (bump (chain w c) ?d w) = ?w'"
  proof (rule store_eqI)
    fix j assume "j < length (heap ?w')"
    then have j: "j < length (heap w)" by simp
    have "is_container (item_at w c)" by (rule c(2))
    then show "item_at (take_out c i (bump (chain w c) ?d w)) j = item_at ?w' j"
      using j ne il(1) c(1) take_out_chain [OF t i(1) c(1)]
      by (simp add: item_at_take_out item_at_bump chain_self)
  qed simp_all
  have run: "do { w \<leftarrow> updateItemWeight c ?d w;
      let w = setParent None i w;
      Some (upd_item c (\<lambda>y. y\<lparr>itemlist := remove1 i (itemlist y)\<rparr>) w) } = Some ?w'"
    using updateItemWeight_bump [OF t c(1) same_tree_refl, of ?d] eq by (simp add: take_out_def [symmetric] Let_def)
  have gw: "getWeight ?T (item_at ?v j) = getWeight ?T (item_at w j)" for j by (simp add: at)
  note sl = same_load [of ?T ?v w, OF gw]
  have "weight_ok ?T ?v x" if "x < length (heap ?v)" "x \<noteq> c" for x
    using store_okD(2) [OF w, of x] that sl by (auto simp: weight_ok_def at)
  moreover have "totalWeight (item_at ?v c) + ?d = load ?T ?v (itemlist (item_at ?v c))"
    if ns: "\<forall>j \<in> set (itemlist (item_at ?v c)). \<not> skips (item_at ?v j)"
  proof -
    have d: "i \<in> set (itemlist (item_at w c))" using i c by (simp add: contents_Item)
    have "\<not> skips (item_at w j)" if "j \<in> set (itemlist (item_at w c))" for j
    proof (cases "j = i")
      case True then show ?thesis using i(2) by (simp add: fixed_def)
    next
      case False
      then have "j \<in> set (itemlist (item_at ?v c))" using that ne by (simp add: at)
      then show ?thesis using ns by (auto simp: at split: if_splits)
    qed
    then have "totalWeight (item_at w c) = load ?T w (itemlist (item_at w c))"
      using store_okD(2) [OF w c(1)] c(2) by (simp add: weight_ok_def)
    moreover have "load ?T w (itemlist (item_at w c)) = getWeight ?T (item_at w i) + load ?T w (remove1 i (itemlist (item_at w c)))"
      unfolding load_def by (rule sum_list_map_remove1 [OF d])
    ultimately show ?thesis using ne by (simp add: at sl)
  qed
  ultimately have "weight_ok ?T ?w' x" if "x < length (heap ?v)" for x
    using weights_after_update [OF tv, of c ?d x] c ne that by (simp add: at)
  moreover have "stack_ok ?T (item_at ?w' x)" if "x < length (heap w)" for x
    using store_okD(3) [OF w that] store_okD(3) [OF w il(1)] store_okD(3) [OF w c(1)] that by (simp add: bump_stack_ok at)
  ultimately have ok: "store_ok ?T ?w'"
    using same_tree_ok [OF same_tree_bump] tv by (simp add: store_ok_def)
  have "item_count (item_at ?w' j) = item_count (item_at w j)" for j
    using item_at_outside [of ?w' w j] by (cases "j < length (heap w)") (simp_all add: item_at_bump at)
  with run ok show thesis using that same_tree_bump by simp
qed

section \<open>Slots\<close>

definition opt_list :: "nat option \<Rightarrow> nat list" where
  "opt_list x = (case x of None \<Rightarrow> [] | Some i \<Rightarrow> [i])"

lemma opt_list_simps [simp]: "opt_list None = []" "opt_list (Some i) = [i]"
  by (simp_all add: opt_list_def)

lemma slot_items_split:
  assumes "length (inventory h) = 11" and "1 \<le> s" and "s \<le> 10"
  shows "\<exists>ys zs. \<forall>x. slot_items (h\<lparr>inventory := (inventory h)[s := x]\<rparr>) = ys @ opt_list x @ zs"
proof -
  have split: "[1..<11] = [1..<s] @ s # [Suc s..<11]"
    using assms(2,3) upt_add_eq_append [of 1 s "11 - s"] by (simp add: upt_conv_Cons)
  let ?f = "\<lambda>inv s. opt_list (inv ! s)"
  have a: "map (?f ((inventory h)[s := x])) [1..<s] = map (?f (inventory h)) [1..<s]" for x
    by (rule map_cong) simp_all
  have b: "map (?f ((inventory h)[s := x])) [Suc s..<11] = map (?f (inventory h)) [Suc s..<11]" for x
    by (rule map_cong) simp_all
  have "slot_items (h\<lparr>inventory := (inventory h)[s := x]\<rparr>) =
      concat (map (?f (inventory h)) [1..<s]) @ opt_list x @ concat (map (?f (inventory h)) [Suc s..<11])" for x
  proof -
    have "slot_items (h\<lparr>inventory := (inventory h)[s := x]\<rparr>) =
        concat (map (?f ((inventory h)[s := x])) ([1..<s] @ s # [Suc s..<11]))"
      unfolding slot_items_def split [symmetric] opt_list_def by simp
    also have "\<dots> = concat (map (?f (inventory h)) [1..<s]) @ opt_list x @ concat (map (?f (inventory h)) [Suc s..<11])"
      unfolding map_append list.map concat_append concat.simps a b using assms(1,3) by simp
    finally show ?thesis .
  qed
  then show ?thesis by blast
qed

lemma holder_inventory_id: "h\<lparr>inventory := (inventory h)[s := inventory h ! s]\<rparr> = h"
  by simp

lemma set_slot_simps [simp]:
  "heap (set_slot p s x w) = heap w" "length (holders (set_slot p s x w)) = length (holders w)"
  "item_at (set_slot p s x w) j = item_at w j"
  by (simp_all add: set_slot_def item_at_def)

lemma contents_set_slot:
  assumes "p < length (holders w)"
  shows "contents (set_slot p s x w) t =
    (if t = Player_ref p then slot_items ((holders w ! p)\<lparr>inventory := (inventory (holders w ! p))[nat s := x]\<rparr>)
     else contents w t)"
  using assms by (auto simp: contents_def set_slot_def item_at_def nth_list_update split: thing.splits)

lemma contents_setParent: "contents (setParent q i w) t = contents w t"
  by (auto simp: contents_def setParent_def item_at_upd split: thing.splits)

lemma item_at_setParent: "i < length (heap w) \<Longrightarrow>
    item_at (setParent q i w) j = (if j = i then (item_at w i)\<lparr>item_parent := q\<rparr> else item_at w j)"
  by (simp add: setParent_def item_at_upd)

text \<open>A store that differs in the parent of one item and in the slots of one player.\<close>

lemma slots_tree:
  assumes t: "tree_ok T w" and i: "i < length (heap w)" "\<not> fixed (item_at w i)"
    and v: "length (heap v) = length (heap w)"
      "\<And>j. item_at v j = (if j = i then (item_at w i)\<lparr>item_parent := q\<rparr> else item_at w j)"
    and q: "\<And>c. q \<noteq> Some (Item_ref c)" "\<And>c. item_parent (item_at w i) \<noteq> Some (Item_ref c)"
    and inv: "\<forall>h \<in> set (holders v). length (inventory h) = 11"
    and d: "\<And>t. distinct (contents v t)"
    and con: "\<And>t j. j \<in> set (contents v t) \<Longrightarrow> j \<noteq> i \<and> j \<in> set (contents w t) \<or> j = i \<and> q = Some t"
    and keep: "\<And>c. contents v (Item_ref c) = contents w (Item_ref c)"
  shows "tree_ok T v"
proof -
  have parents: "item_parent (item_at v j) = (if j = i then q else item_parent (item_at w j))" for j
    by (simp add: v)
  have "(a, b) \<in> parent_rel v \<longleftrightarrow> (a, b) \<in> parent_rel w" for a b
    by (cases "a = i") (simp_all add: parent_rel_def v(1) parents q)
  then have rel: "parent_rel v = parent_rel w" by auto
  have "j < length (heap v) \<and> item_parent (item_at v j) = Some t" if "j \<in> set (contents v t)" for j t
    using con [OF that] tree_okD(2,3) [OF t] i by (auto simp: v)
  moreover have "linked_ok v j" if "j < length (heap w)" for j
    using tree_okD(4) [OF t that] q by (auto simp: linked_ok_def parents v keep)
  moreover have "fixed_ok T v j" if "j < length (heap w)" for j
    by (rule fixed_ok_reparent [OF tree_okD(5) [OF t that] i(2)]) (auto simp: v)
  moreover have "(\<not> is_container (item_at v j) \<longrightarrow> itemlist (item_at v j) = []) \<and> 0 \<le> sint (maxSize (item_at v j))"
    if "j < length (heap w)" for j
    using tree_okD(7,8) [OF t that] by (auto simp: v)
  ultimately show ?thesis
    using tree_okD(9) [OF t] inv d unfolding tree_ok_def rel v(1) by blast
qed

lemma weights_by_links:
  assumes w: "store_ok T w" and v: "length (heap v) = length (heap w)"
    "\<And>j. item_at v j = (if j = i then (item_at w i)\<lparr>item_parent := q\<rparr> else item_at w j)" and t: "tree_ok T v"
    and i: "i < length (heap w)"
  shows "store_ok T v"
proof -
  have "load T v is = load T w is" for "is" by (rule same_load) (simp add: v)
  then have "weight_ok T v c \<and> stack_ok T (item_at v c)" if "c < length (heap w)" for c
    using store_okD(2,3) [OF w that] store_okD(2,3) [OF w i] by (auto simp: weight_ok_def v)
  with t show ?thesis by (simp add: store_ok_def v(1))
qed

lemma inventory_length:
  "tree_ok T w \<Longrightarrow> p < length (holders w) \<Longrightarrow> length (inventory (holders w ! p)) = 11"
  using tree_okD(6) by simp

lemma set_holders_set_slot:
  assumes "\<forall>h \<in> set (holders w). length (inventory h) = 11" and "p < length (holders w)"
  shows "\<forall>h \<in> set (holders (set_slot p s x w)). length (inventory h) = 11"
proof
  fix h assume "h \<in> set (holders (set_slot p s x w))"
  then have "h \<in> insert ((holders w ! p)\<lparr>inventory := (inventory (holders w ! p))[nat s := x]\<rparr>) (set (holders w))"
    using set_update_subset_insert by (auto simp: set_slot_def dest: subsetD [OF set_update_subset_insert])
  then show "length (inventory h) = 11" using assms by auto
qed

lemma player_addThing_ok:
  assumes w: "store_ok T w" and i: "free_item w i" and p: "p < length (holders w)"
    and s: "1 \<le> s" "s \<le> 10" "in_slot w p s = None"
  shows "store_ok T (player_addThing p s i w)"
    and "set (contents (player_addThing p s i w) t) =
      (if t = Player_ref p then insert i (set (contents w t)) else set (contents w t))"
    and "item_count (item_at (player_addThing p s i w) j) = item_count (item_at w j)"
    and "item_id (item_at (player_addThing p s i w) j) = item_id (item_at w j)"
    and "length (heap (player_addThing p s i w)) = length (heap w)"
proof -
  note t = store_okD(1) [OF w]
  from i have i': "i < length (heap w)" "item_parent (item_at w i) = None" "\<not> fixed (item_at w i)"
    by (simp_all add: free_item_def)
  let ?h = "holders w ! p" and ?v = "player_addThing p s i w"
  have add: "?v = set_slot p s (Some i) (setParent (Some (Player_ref p)) i w)"
    using s by (simp add: player_addThing_def slot_defs)
  have s': "1 \<le> nat s" "nat s \<le> 10" using s by auto
  obtain ys zs where split: "\<And>x. slot_items (?h\<lparr>inventory := (inventory ?h)[nat s := x]\<rparr>) = ys @ opt_list x @ zs"
    using slot_items_split [OF inventory_length [OF t p] s'] by blast
  have "inventory ?h ! nat s = None" using s by (simp add: in_slot_def slot_defs split: if_splits)
  then have old: "contents w (Player_ref p) = ys @ zs"
    using split [of None] holder_inventory_id [of ?h "nat s"] p by (simp add: contents_def)
  have con: "contents ?v t = (if t = Player_ref p then ys @ i # zs else contents w t)" for t
    unfolding add by (subst contents_set_slot) (simp_all add: p split contents_setParent)
  show set: "set (contents ?v t) = (if t = Player_ref p then insert i (set (contents w t)) else set (contents w t))" for t
    by (auto simp: con old)
  have at: "item_at ?v j = (if j = i then (item_at w i)\<lparr>item_parent := Some (Player_ref p)\<rparr> else item_at w j)" for j
    by (simp add: add item_at_setParent i')
  show len: "length (heap ?v) = length (heap w)" by (simp add: add)
  show "item_count (item_at ?v j) = item_count (item_at w j)" "item_id (item_at ?v j) = item_id (item_at w j)"
    by (simp_all add: at)
  have "tree_ok T ?v"
  proof (rule slots_tree [OF t i'(1,3) len at])
    show "\<forall>h \<in> set (holders ?v). length (inventory h) = 11"
      unfolding add using set_holders_set_slot [of "setParent (Some (Player_ref p)) i w" p] tree_okD(6) [OF t] p by simp
    show "distinct (contents ?v t)" for t
      using tree_okD(1) [OF t, of t] not_in_contents [OF t i'(2), of t] by (auto simp: con old)
    show "j \<noteq> i \<and> j \<in> set (contents w t) \<or> j = i \<and> Some (Player_ref p) = Some t" if "j \<in> set (contents ?v t)" for t j
      using that not_in_contents [OF t i'(2), of t] by (auto simp: set split: if_splits)
  qed (use i'(2) in \<open>auto simp: con\<close>)
  then show "store_ok T ?v" by (rule weights_by_links [OF w len at _ i'(1)])
qed

lemma player_index_slot:
  assumes "player_getThingIndex w p i = s" and "s \<noteq> -1"
  shows "1 \<le> s" "s \<le> 10" "inventory (holders w ! p) ! nat s = Some i"
  using assms by (auto simp: player_getThingIndex_def find_Some_iff nat_add_distrib split: option.splits)

lemma player_index_contents:
  "player_getThingIndex w p i \<noteq> -1 \<longleftrightarrow> i \<in> set (slot_items (holders w ! p))"
proof -
  let ?h = "holders w ! p"
  have "player_getThingIndex w p i \<noteq> -1 \<longleftrightarrow> (\<exists>s \<in> set [1..<11]. inventory ?h ! s = Some i)"
    using find_None_iff [of "\<lambda>s. inventory ?h ! s = Some i" "[1..<11]"]
    by (auto simp: player_getThingIndex_def split: option.splits)
  also have "\<dots> \<longleftrightarrow> i \<in> set (slot_items ?h)"
    by (auto simp: slot_items_def split: option.splits intro!: bexI)
  finally show ?thesis .
qed

lemma player_take_whole:
  assumes w: "store_ok T w" and p: "p < length (holders w)"
    and i: "player_getThingIndex w p i = s" "s \<noteq> -1" "\<not> fixed (item_at w i)"
  shows "store_ok T (set_slot p s None (setParent None i w))"
    and "set (contents (set_slot p s None (setParent None i w)) t) = set (contents w t) - {i}"
    and "item_count (item_at (set_slot p s None (setParent None i w)) j) = item_count (item_at w j)"
    and "free_item (set_slot p s None (setParent None i w)) i"
    and "in_slot (set_slot p s None (setParent None i w)) p s = None"
proof -
  note t = store_okD(1) [OF w]
  let ?h = "holders w ! p" and ?v = "set_slot p s None (setParent None i w)"
  note s = player_index_slot [OF i(1,2)]
  have s': "1 \<le> nat s" "nat s \<le> 10" using s by auto
  obtain ys zs where split: "\<And>x. slot_items (?h\<lparr>inventory := (inventory ?h)[nat s := x]\<rparr>) = ys @ opt_list x @ zs"
    using slot_items_split [OF inventory_length [OF t p] s'] by blast
  have old: "contents w (Player_ref p) = ys @ i # zs"
    using split [of "Some i"] holder_inventory_id [of ?h "nat s"] p s(3) by (simp add: contents_def)
  have il: "i < length (heap w)" "item_parent (item_at w i) = Some (Player_ref p)"
    using tree_okD(2,3) [OF t, of i "Player_ref p"] by (simp_all add: old)
  have con: "contents ?v t = (if t = Player_ref p then ys @ zs else contents w t)" for t
    by (subst contents_set_slot) (simp_all add: p split contents_setParent)
  have elsewhere: "i \<notin> set (contents w t)" if "t \<noteq> Player_ref p" for t
    using that il(2) tree_okD(3) [OF t] by fastforce
  show set: "set (contents ?v t) = set (contents w t) - {i}" for t
    using elsewhere [of t] tree_okD(1) [OF t, of "Player_ref p"] by (auto simp: con old)
  have at: "item_at ?v j = (if j = i then (item_at w i)\<lparr>item_parent := None\<rparr> else item_at w j)" for j
    by (simp add: item_at_setParent il)
  have len: "length (heap ?v) = length (heap w)" by simp
  show "item_count (item_at ?v j) = item_count (item_at w j)" by (simp add: item_at_setParent il)
  have "tree_ok T ?v"
  proof (rule slots_tree [OF t il(1) i(3) len at])
    show "\<forall>h \<in> set (holders ?v). length (inventory h) = 11"
      using set_holders_set_slot [of "setParent None i w" p] tree_okD(6) [OF t] p by simp
    show "distinct (contents ?v t)" for t
      using tree_okD(1) [OF t, of t] by (auto simp: con old)
    show "j \<noteq> i \<and> j \<in> set (contents w t) \<or> j = i \<and> None = Some t" if "j \<in> set (contents ?v t)" for t j
      using that set [of t] by blast
  qed (use il(2) in \<open>auto simp: con\<close>)
  then show "store_ok T ?v" by (rule weights_by_links [OF w len at _ il(1)])
  show "free_item ?v i" using il(1) i(3) by (simp add: free_item_def item_at_setParent)
  have "nat s < length (inventory ?h)" using s' inventory_length [OF t p] by simp
  then show "in_slot ?v p s = None"
    using p by (simp add: in_slot_def set_slot_def)
qed

end
