(* ===== verification/Move_Safety.thy ===== *)
theory Move_Safety
  imports Item_Trees
begin

text \<open>
  Moving items keeps a store well formed and loses or makes no item: the questions of
  \<open>internalMoveItem\<close> are enough for its changes to be safe, except where part of a stack is put onto
  an equal stack without room for all of it. Then the same item ends in two places.
\<close>

section \<open>Items in places and their number\<close>

definition placed :: "store \<Rightarrow> nat set" where
  "placed w = {i. \<exists>t. i \<in> set (contents w t)}"

definition amount :: "store \<Rightarrow> u16 \<Rightarrow> nat" where
  "amount w ty = (\<Sum>i \<in> {i \<in> placed w. item_id (item_at w i) = ty}. unat (item_count (item_at w i)))"

definition same_kinds :: "store \<Rightarrow> store \<Rightarrow> bool" where
  "same_kinds v w \<longleftrightarrow> length (heap v) = length (heap w) \<and> length (holders v) = length (holders w) \<and>
     (\<forall>j. item_class (item_at v j) = item_class (item_at w j) \<and> item_id (item_at v j) = item_id (item_at w j) \<and>
          maxSize (item_at v j) = maxSize (item_at w j) \<and> unlocked (item_at v j) = unlocked (item_at w j))"

lemma same_kinds_simps:
  assumes "same_kinds v w"
  shows "length (heap v) = length (heap w)" "length (holders v) = length (holders w)"
    "item_class (item_at v i) = item_class (item_at w i)" "item_id (item_at v i) = item_id (item_at w i)"
    "maxSize (item_at v i) = maxSize (item_at w i)" "unlocked (item_at v i) = unlocked (item_at w i)"
    "is_container (item_at v i) = is_container (item_at w i)" "skips (item_at v i) = skips (item_at w i)"
    "fixed (item_at v i) = fixed (item_at w i)" "isStackable T (item_at v i) = isStackable T (item_at w i)"
    "isPickupable T (item_at v i) = isPickupable T (item_at w i)" "is_place v = is_place w"
  using assms by (simp_all add: same_kinds_def is_container_def skips_def fixed_def isStackable_def isPickupable_def
      item_type_of_def is_place_def fun_eq_iff split: thing.splits)

lemma same_kinds_refl [simp]: "same_kinds w w"
  by (simp add: same_kinds_def)

lemma same_kinds_trans: "same_kinds u v \<Longrightarrow> same_kinds v w \<Longrightarrow> same_kinds u w"
  by (simp add: same_kinds_def)

lemma same_tree_kinds: "same_tree v w \<Longrightarrow> same_kinds v w"
  using same_tree_simps(2) [of v w] by (simp add: same_kinds_def same_tree_def)

lemma placed_less: "tree_ok T w \<Longrightarrow> i \<in> placed w \<Longrightarrow> i < length (heap w)"
  by (auto simp: placed_def dest: tree_okD(2))

lemma finite_placed: "tree_ok T w \<Longrightarrow> finite (placed w)"
  by (rule finite_subset [of _ "{..<length (heap w)}"]) (auto dest: placed_less)

lemma same_tree_placed: "same_tree v w \<Longrightarrow> placed v = placed w"
  by (simp add: placed_def same_tree_contents)

text \<open>The number of items of a type after a change: one item more or less, or a changed count.\<close>

lemma amount_eq:
  assumes "finite (placed w)"
  shows "amount w ty = (\<Sum>i \<in> placed w. if item_id (item_at w i) = ty then unat (item_count (item_at w i)) else 0)"
  unfolding amount_def by (rule sum.inter_filter [OF assms])

definition share :: "store \<Rightarrow> u16 \<Rightarrow> nat \<Rightarrow> nat" where
  "share w ty i = (if item_id (item_at w i) = ty then unat (item_count (item_at w i)) else 0)"

lemma amount_share: "finite (placed w) \<Longrightarrow> amount w ty = sum (share w ty) (placed w)"
  by (simp add: amount_eq share_def)

lemma amount_less:
  assumes "finite (placed w)" and "placed v = placed w - {i}" and "i \<in> placed w"
    and "\<And>j. j \<noteq> i \<Longrightarrow> share v ty j = share w ty j"
  shows "amount w ty = amount v ty + share w ty i"
proof -
  have "sum (share w ty) (placed w) = share w ty i + sum (share w ty) (placed w - {i})"
    using assms(1,3) by (rule sum.remove)
  moreover have "sum (share v ty) (placed v) = sum (share w ty) (placed w - {i})"
    using assms(2,4) by (intro sum.cong) auto
  ultimately show ?thesis using assms(1,2) by (simp add: amount_share)
qed

lemma amount_more:
  assumes "finite (placed w)" and "placed v = insert i (placed w)" and "i \<notin> placed w"
    and "\<And>j. j \<noteq> i \<Longrightarrow> share v ty j = share w ty j"
  shows "amount v ty = amount w ty + share v ty i"
proof (rule amount_less)
  show "finite (placed v)" "placed w = placed v - {i}" "i \<in> placed v" using assms(1-3) by auto
  show "share w ty j = share v ty j" if "j \<noteq> i" for j by (rule assms(4) [OF that, symmetric])
qed

lemma amount_change:
  assumes "finite (placed w)" and "placed v = placed w" and "i \<in> placed w"
    and "\<And>j. j \<noteq> i \<Longrightarrow> share v ty j = share w ty j"
  shows "amount v ty + share w ty i = amount w ty + share v ty i"
proof -
  have "sum (share w ty) (placed w) = share w ty i + sum (share w ty) (placed w - {i})"
    "sum (share v ty) (placed w) = share v ty i + sum (share v ty) (placed w - {i})"
    using assms(1,3) by (auto intro: sum.remove)
  moreover have "sum (share v ty) (placed w - {i}) = sum (share w ty) (placed w - {i})"
    using assms(4) by (intro sum.cong) auto
  ultimately show ?thesis using assms(1,2) by (simp add: amount_share)
qed

section \<open>Removing, updating and adding\<close>

lemma index_of_range: "index_of i js n = -1 \<longleftrightarrow> i \<notin> set js" if "0 \<le> n"
  using that by (induction js arbitrary: n) auto

lemma thing_index_contents:
  assumes "is_place w t"
  shows "getThingIndex w t i \<noteq> -1 \<longleftrightarrow> i \<in> set (contents w t)"
  using assms player_index_contents
  by (auto simp: is_place_def getThingIndex_def container_getThingIndex_def index_of_range contents_def split: thing.splits)

lemma count_left_less: "cnt < ucast n \<Longrightarrow> unat (count_left n cnt) = unat n - unat cnt"
proof -
  assume a: "cnt < (ucast n :: u32)"
  have n: "unat n < 256" using unat_u8_le [of n] by simp
  have d: "unat ((ucast n :: u32) - cnt) = unat n - unat cnt"
    using unat_sub [OF less_imp_le [OF a]] by simp
  then have "sint ((ucast n :: u32) - cnt) = int (unat n - unat cnt)"
    using n by (simp add: sint_uint uint_nat signed_take_bit_int_eq_self)
  then have "count_left n cnt = ucast ((ucast n :: u32) - cnt)"
    by (simp add: count_left_def Let_def)
  then show ?thesis using d n by (simp add: unsigned_ucast_eq take_bit_nat_eq_self)
qed

lemma keeps_setItemCount: "keeps_item (setItemCount n) x"
  by (simp add: keeps_item_def setItemCount_def)

lemma stack_ok_setItemCount:
  "isStackable T x \<Longrightarrow> stack_ok T x \<Longrightarrow> 1 \<le> unat n \<Longrightarrow> unat n \<le> 100 \<Longrightarrow> stack_ok T (setItemCount n x)"
  by (simp add: stack_ok_def setItemCount_def isStackable_def item_type_of_def is_container_def)

text \<open>Removing all of an item makes it free.\<close>

definition removed :: "store \<Rightarrow> nat \<Rightarrow> store \<Rightarrow> bool" where
  "removed w i v \<longleftrightarrow> same_kinds v w \<and> (\<forall>t. set (contents v t) = set (contents w t) - {i}) \<and>
     (\<forall>j. item_count (item_at v j) = item_count (item_at w j)) \<and> free_item v i \<and>
     (\<forall>j. j \<noteq> i \<longrightarrow> item_parent (item_at v j) = item_parent (item_at w j)) \<and>
     (\<forall>p s. in_slot v p s = in_slot w p s \<or> in_slot v p s = None)"

lemma in_slot_holders: "holders v = holders w \<Longrightarrow> in_slot v p s = in_slot w p s"
  by (simp add: in_slot_def)

lemma in_slot_cleared: "in_slot (set_slot p k None w) q s = in_slot w q s \<or> in_slot (set_slot p k None w) q s = None"
proof (cases "q = p \<and> p < length (holders w)")
  case True
  then show ?thesis
    by (cases "nat k < length (inventory (holders w ! p))")
      (simp_all add: in_slot_def set_slot_def nth_list_update list_update_beyond)
next
  case False
  then have "holders (set_slot p k None w) ! q = holders w ! q"
    by (cases "p < length (holders w)") (auto simp: set_slot_def list_update_beyond)
  then show ?thesis by (simp add: in_slot_def)
qed

lemma in_slot_contents:
  assumes "p < length (holders w)" and "in_slot w p s = Some j"
  shows "j \<in> set (contents w (Player_ref p))"
proof -
  have s: "1 \<le> s" "s \<le> 10" "inventory (holders w ! p) ! nat s = Some j"
    using assms(2) by (auto simp: in_slot_def slot_defs split: if_splits)
  have "nat s \<in> set [1..<11]" using s by auto
  then show ?thesis using assms(1) s(3)
    by (auto simp: contents_def slot_items_def intro!: bexI [of _ "nat s"])
qed

lemma removeThing_whole:
  assumes w: "store_ok (types e) w" and t: "is_place w t" and i: "i \<in> set (contents w t)" "\<not> fixed (item_at w i)"
    and whole: "isStackable (types e) (item_at w i) \<Longrightarrow> cnt = ucast (item_count (item_at w i))"
  shows "\<exists>v. removeThing e t i cnt w = Some v \<and> store_ok (types e) v \<and> removed w i v"
proof (cases t)
  case (Item_ref c)
  note tw = store_okD(1) [OF w]
  have c: "c < length (heap w)" "is_container (item_at w c)" using t by (simp_all add: Item_ref is_place_def)
  have i': "i \<in> set (contents w (Item_ref c))" using i by (simp add: Item_ref)
  note ne = not_own_child [OF tw i'] and il = tree_okD(2,3) [OF tw i']
  note at = item_at_take_out [OF ne il(1) c(1)]
  obtain v where v: "do { w \<leftarrow> updateItemWeight c (- getWeight (types e) (item_at w i)) w;
      let w = setParent None i w;
      Some (upd_item c (\<lambda>y. y\<lparr>itemlist := remove1 i (itemlist y)\<rparr>) w) } = Some v" "store_ok (types e) v"
    "same_tree v (take_out c i w)" "\<And>j. item_count (item_at v j) = item_count (item_at w j)" "holders v = holders w"
    using container_take_whole [OF w c i' i(2)] by blast
  have "container_getThingIndex w c i \<noteq> -1"
    using thing_index_contents [OF t, of i] i by (simp add: Item_ref getThingIndex_def)
  then have "removeThing e t i cnt w = Some v"
    using v(1) whole c by (auto simp: removeThing_def container_removeThing_def Item_ref Let_def)
  moreover have "removed w i v"
  proof -
    note s = same_tree_simps [OF v(3)]
    have "same_kinds v w"
      using s(1-4,7,8) v(5) c(2) by (simp add: same_kinds_def at)
    moreover have "set (contents v u) = set (contents w u) - {i}" for u
      using tree_okD(1) [OF tw, of u] il(2) tree_okD(3) [OF tw, of i u]
      by (auto simp: same_tree_contents [OF v(3)] take_out_tree(2) [OF tw i' i(2) c])
    moreover have "free_item v i"
      using il(1) i(2) by (simp add: free_item_def s at)
    ultimately show ?thesis using v(4) by (simp add: removed_def s at in_slot_holders [OF v(5)])
  qed
  ultimately show ?thesis using v(2) by blast
next
  case (Player_ref p)
  have p: "p < length (holders w)" using t by (simp add: Player_ref is_place_def)
  have ix: "player_getThingIndex w p i \<noteq> -1"
    using thing_index_contents [OF t, of i] i by (simp add: Player_ref getThingIndex_def)
  note r = player_take_whole [OF w p refl ix i(2)]
  let ?v = "set_slot p (player_getThingIndex w p i) None (setParent None i w)"
  have il: "i < length (heap w)" using tree_okD(2) [OF store_okD(1) [OF w] i(1)] .
  have "removeThing e t i cnt w = Some ?v"
    using whole ix by (auto simp: removeThing_def player_removeThing_def Player_ref Let_def)
  moreover have "same_kinds ?v w" using il by (simp add: same_kinds_def item_at_setParent)
  moreover have "in_slot ?v q s = in_slot w q s \<or> in_slot ?v q s = None" for q s
    using in_slot_cleared [of p _ "setParent None i w" q s] in_slot_holders [of "setParent None i w" w q s] by simp
  ultimately show ?thesis using r il by (auto simp: removed_def item_at_setParent)
next
  case (Tile_ref q)
  then show ?thesis using t by (simp add: is_place_def)
qed

text \<open>Removing part of a stack leaves the rest where it is.\<close>

lemma removeThing_part:
  assumes w: "store_ok (types e) w" and t: "is_place w t" and i: "i \<in> set (contents w t)"
    and part: "isStackable (types e) (item_at w i)" "cnt < ucast (item_count (item_at w i))"
  shows "\<exists>v. removeThing e t i cnt w = Some v \<and> store_ok (types e) v \<and> same_tree v w \<and> holders v = holders w \<and>
    (\<forall>j. item_count (item_at v j) =
      (if j = i then count_left (item_count (item_at w i)) cnt else item_count (item_at w j)))"
proof -
  note tw = store_okD(1) [OF w]
  have il: "i < length (heap w)" "item_parent (item_at w i) = Some t" using tree_okD(2,3) [OF tw i] by simp_all
  let ?n = "item_count (item_at w i)" and ?f = "setItemCount (count_left (item_count (item_at w i)) cnt)"
  have left: "unat (count_left ?n cnt) = unat ?n - unat cnt" by (rule count_left_less [OF part(2)])
  have less: "unat cnt < unat ?n" using part(2) by (simp add: word_less_nat_alt)
  have st: "stack_ok (types e) (?f (item_at w i))"
    using store_okD(3) [OF w il(1)] part(1) left less by (intro stack_ok_setItemCount) (auto simp: stack_ok_def)
  have ne: "cnt \<noteq> ucast ?n" using part(2) by auto
  show ?thesis
  proof (cases t)
    case (Item_ref c)
    have c: "c < length (heap w)" "is_container (item_at w c)" using t by (simp_all add: Item_ref is_place_def)
    have i': "i \<in> set (contents w (Item_ref c))" using i by (simp add: Item_ref)
    have ix: "container_getThingIndex w c i \<noteq> -1"
      using thing_index_contents [OF t, of i] i by (simp add: Item_ref getThingIndex_def)
    obtain v where "reweigh e c i ?f w = Some v" "store_ok (types e) v" "same_tree v w" "holders v = holders w"
      "\<And>j. item_count (item_at v j) = (if j = i then item_count (?f (item_at w i)) else item_count (item_at w j))"
      using reweigh_ok [OF w keeps_setItemCount st c i'] by metis
    then show ?thesis using ix c part(1) ne
      by (intro exI [of _ v]) (simp add: removeThing_def container_removeThing_def Item_ref Let_def setItemCount_def)
  next
    case (Player_ref p)
    have ix: "player_getThingIndex w p i \<noteq> -1"
      using thing_index_contents [OF t, of i] i by (simp add: Player_ref getThingIndex_def)
    have "removeThing e t i cnt w = Some (upd_item i ?f w)"
      using ix part(1) ne by (simp add: removeThing_def player_removeThing_def Player_ref Let_def)
    moreover have "store_ok (types e) (upd_item i ?f w)"
      using il by (intro upd_in_slot_ok [OF w keeps_setItemCount st]) (simp add: Player_ref)
    moreover have "same_tree (upd_item i ?f w) w" by (rule upd_item_same_tree [OF keeps_setItemCount])
    ultimately show ?thesis using il(1) by (auto simp: item_at_upd setItemCount_def)
  next
    case (Tile_ref q)
    then show ?thesis using t by (simp add: is_place_def)
  qed
qed

text \<open>An update of the count of a stack.\<close>

lemma setIntAttr_keeps: "keeps_item (item_setIntAttr t v) x" "item_count (item_setIntAttr t v x) = item_count x"
  by (simp_all add: item_setIntAttr_def keeps_item_def)

lemma removeAttribute_keeps: "keeps_item (item_removeAttribute t) x" "item_count (item_removeAttribute t x) = item_count x"
  by (simp_all add: item_removeAttribute_def keeps_item_def split: option.split)

lemma keeps_comp: "keeps_item f (g x) \<Longrightarrow> keeps_item g x \<Longrightarrow> keeps_item (\<lambda>x. f (g x)) x"
  by (simp add: keeps_item_def)

lemma setID_same:
  assumes "item_id x = ty"
  shows "keeps_item (setID T ty) x" "item_count (setID T ty x) = item_count x"
proof -
  have "x\<lparr>item_id := ty\<rparr> = x" using assms by simp
  then show "keeps_item (setID T ty) x" "item_count (setID T ty x) = item_count x"
    using setIntAttr_keeps removeAttribute_keeps
    by (simp_all add: setID_def Let_def setDuration_def setDecaying_def keeps_item_def)
qed

lemma set_stack:
  assumes "types_ok T" and "isStackable T x" and "item_id x = ty"
  shows "keeps_item (\<lambda>x. setSubType T n (setID T ty x)) x"
    and "item_count (setSubType T n (setID T ty x)) = ucast n"
proof -
  have k: "keeps_item (setID T ty) x" by (rule setID_same [OF assms(3)])
  then have ty: "item_type_of T (setID T ty x) = T ty" using assms(3) by (simp add: item_type_of_def keeps_item_def)
  have "it_stackable (T ty)" using assms(2,3) by (simp add: isStackable_def item_type_of_def)
  moreover from this have "\<not> isFluidContainer (T ty) \<and> \<not> isSplash (T ty)"
    using assms(1) by (auto simp: types_ok_def plain_type_def isFluidContainer_def isSplash_def)
  ultimately have s: "setSubType T n (setID T ty x) = setItemCount (ucast n) (setID T ty x)"
    by (simp add: setSubType_def Let_def ty)
  show "keeps_item (\<lambda>x. setSubType T n (setID T ty x)) x"
    using k by (simp add: keeps_item_def s setItemCount_def)
  show "item_count (setSubType T n (setID T ty x)) = ucast n" by (simp add: s setItemCount_def)
qed

lemma updateThing_stack:
  assumes w: "store_ok (types e) w" and ty: "types_ok (types e)" and t: "is_place w t" and j: "j \<in> set (contents w t)"
    and st: "isStackable (types e) (item_at w j)" and n: "1 \<le> unat (ucast (ucast n :: u16) :: u8)"
      "unat (ucast (ucast n :: u16) :: u8) \<le> 100"
  shows "\<exists>v. updateThing e t j (item_id (item_at w j)) n w = Some v \<and> store_ok (types e) v \<and> same_tree v w \<and>
    holders v = holders w \<and>
    (\<forall>k. item_count (item_at v k) = (if k = j then ucast (ucast n :: u16) else item_count (item_at w k)))"
proof -
  let ?T = "types e" and ?ty = "item_id (item_at w j)"
  let ?f = "\<lambda>x. setSubType ?T (ucast n) (setID ?T ?ty x)"
  note tw = store_okD(1) [OF w]
  have jl: "j < length (heap w)" "item_parent (item_at w j) = Some t" using tree_okD(2,3) [OF tw j] by simp_all
  note k = set_stack [OF ty st refl, where n = "ucast n"]
  have so: "stack_ok ?T (?f (item_at w j))"
    using store_okD(3) [OF w jl(1)] st k n by (simp add: stack_ok_def keeps_item_def isStackable_def item_type_of_def is_container_def)
  show ?thesis
  proof (cases t)
    case (Item_ref c)
    have c: "c < length (heap w)" "is_container (item_at w c)" using t by (simp_all add: Item_ref is_place_def)
    have j': "j \<in> set (contents w (Item_ref c))" using j by (simp add: Item_ref)
    have ix: "container_getThingIndex w c j \<noteq> -1"
      using thing_index_contents [OF t, of j] j by (simp add: Item_ref getThingIndex_def)
    obtain v where "reweigh e c j ?f w = Some v" "store_ok ?T v" "same_tree v w" "holders v = holders w"
      "\<And>i. item_count (item_at v i) = (if i = j then item_count (?f (item_at w j)) else item_count (item_at w i))"
      using reweigh_ok [OF w k(1) so c j'] by metis
    then show ?thesis using ix c k(2)
      by (intro exI [of _ v]) (simp add: updateThing_def container_updateThing_def Item_ref)
  next
    case (Player_ref p)
    have ix: "player_getThingIndex w p j \<noteq> -1"
      using thing_index_contents [OF t, of j] j by (simp add: Player_ref getThingIndex_def)
    have "updateThing e t j ?ty n w = Some (upd_item j ?f w)"
      using ix by (simp add: updateThing_def player_updateThing_def Player_ref)
    moreover have "store_ok ?T (upd_item j ?f w)"
      using jl by (intro upd_in_slot_ok [OF w k(1) so]) (simp add: Player_ref)
    moreover have "same_tree (upd_item j ?f w) w" by (rule upd_item_same_tree [OF k(1)])
    ultimately show ?thesis using jl(1) k(2) by (auto simp: item_at_upd)
  next
    case (Tile_ref q)
    then show ?thesis using t by (simp add: is_place_def)
  qed
qed

text \<open>A free item can be put into a container that is not below it, or into an empty slot.\<close>

definition can_take :: "store \<Rightarrow> thing \<Rightarrow> int \<Rightarrow> nat \<Rightarrow> bool" where
  "can_take w t index i \<longleftrightarrow>
     (case t of
        Item_ref c \<Rightarrow> c < length (heap w) \<and> is_container (item_at w c) \<and> (c, i) \<notin> (parent_rel w)\<^sup>* \<and>
          index < sint (maxSize (item_at w c))
      | Player_ref p \<Rightarrow> p < length (holders w) \<and> 1 \<le> index \<and> index \<le> 10 \<and> in_slot w p index = None
      | Tile_ref q \<Rightarrow> False)"

lemma addThing_ok:
  assumes w: "store_ok (types e) w" and i: "free_item w i" and t: "can_take w t index i"
  shows "\<exists>v. addThing e t index i w = Some v \<and> store_ok (types e) v \<and> same_kinds v w \<and>
    (\<forall>u. set (contents v u) = (if u = t then insert i (set (contents w u)) else set (contents w u))) \<and>
    (\<forall>j. item_count (item_at v j) = item_count (item_at w j))"
proof (cases t)
  case (Item_ref c)
  with t have c: "c < length (heap w)" "is_container (item_at w c)" "(c, i) \<notin> (parent_rel w)\<^sup>*"
    "index < sint (maxSize (item_at w c))" by (simp_all add: can_take_def)
  from i have i': "i < length (heap w)" by (simp add: free_item_def)
  have ne: "i \<noteq> c" using c(3) by auto
  note at = item_at_attach [OF ne i' c(1), of "Some (Item_ref c)"]
  obtain v where v: "container_addThing e c index i w = Some v" "store_ok (types e) v"
    "same_tree v (push_front c i (setParent (Some (Item_ref c)) i w))"
    "\<And>t. contents v t = (if t = Item_ref c then i # contents w t else contents w t)"
    "\<And>j. item_count (item_at v j) = item_count (item_at w j)" "holders v = holders w"
    using container_addThing_ok [OF w i c] by metis
  have "same_kinds v w"
    using same_tree_simps(3,4,7,8) [OF v(3)] same_tree_simps(1) [OF v(3), unfolded push_front_def] v(6)
    by (simp add: same_kinds_def at)
  then show ?thesis using v c by (auto simp: addThing_def Item_ref)
next
  case (Player_ref p)
  with t have p: "p < length (holders w)" "1 \<le> index" "index \<le> 10" "in_slot w p index = None"
    by (simp_all add: can_take_def)
  from i have i': "i < length (heap w)" by (simp add: free_item_def)
  note r = player_addThing_ok [OF w i p]
  have "same_kinds (player_addThing p index i w) w"
    using i' p by (simp add: same_kinds_def player_addThing_def slot_defs item_at_setParent)
  then show ?thesis using r by (auto simp: addThing_def Player_ref)
next
  case (Tile_ref q)
  then show ?thesis using t by (simp add: can_take_def)
qed

section \<open>A clone\<close>

definition with_item :: "item \<Rightarrow> store \<Rightarrow> store" where
  "with_item y w = w\<lparr>heap := heap w @ [y]\<rparr>"

lemma with_item_simps [simp]:
  "length (heap (with_item y w)) = Suc (length (heap w))" "holders (with_item y w) = holders w"
  "j < length (heap w) \<Longrightarrow> item_at (with_item y w) j = item_at w j"
  "item_at (with_item y w) (length (heap w)) = y"
  by (simp_all add: with_item_def item_at_def nth_append)

lemma with_item_ok:
  assumes w: "store_ok T w" and y: "item_class y = Plain_Item" "item_parent y = None" "itemlist y = []"
    "maxSize y = 0" "stack_ok T y"
  shows "store_ok T (with_item y w)" and "contents (with_item y w) t = contents w t"
    and "parent_rel (with_item y w) = parent_rel w"
proof -
  let ?v = "with_item y w" and ?n = "length (heap w)"
  note t = store_okD(1) [OF w]
  have cases: "j < Suc ?n \<longleftrightarrow> j < ?n \<or> j = ?n" for j by auto
  show con: "contents ?v t = contents w t" for t
    using y(3) by (auto simp: contents_def cases split: thing.splits)
  show rel: "parent_rel ?v = parent_rel w"
    using y(2) by (auto simp: parent_rel_def cases)
  have fresh: "\<not> is_container y" "\<not> skips y" "\<not> fixed y" using y(1) by (simp_all add: is_container_def skips_def fixed_def)
  have "linked_ok ?v j" if "j < Suc ?n" for j
    using that tree_okD(4) [OF t, of j] y(2) by (auto simp: linked_ok_def cases con)
  moreover have "fixed_ok T ?v j" if "j < Suc ?n" for j
  proof (cases "j = ?n")
    case True
    then show ?thesis using y(1) fresh by (simp add: fixed_ok_def)
  next
    case False
    then have j: "j < ?n" using that by simp
    then have "l < ?n" if "item_parent (item_at w j) = Some (Item_ref l)" for l
      using that tree_okD(4) [OF t j] by (simp add: linked_ok_def)
    then show ?thesis using tree_okD(5) [OF t j] j by (auto simp: fixed_ok_def split: option.splits thing.splits)
  qed
  moreover have "(\<not> is_container (item_at ?v j) \<longrightarrow> itemlist (item_at ?v j) = []) \<and> 0 \<le> sint (maxSize (item_at ?v j))"
    if "j < Suc ?n" for j
    using that tree_okD(7,8) [OF t, of j] y by (auto simp: cases)
  moreover have "j < Suc ?n \<and> item_parent (item_at ?v j) = Some u" if "j \<in> set (contents w u)" for j u
    using tree_okD(2,3) [OF t that] by simp
  ultimately have "tree_ok T ?v"
    using tree_okD(1,6,9) [OF t] unfolding tree_ok_def by (simp add: con rel)
  moreover have "weight_ok T ?v c \<and> stack_ok T (item_at ?v c)" if "c < Suc ?n" for c
  proof (cases "c = ?n")
    case True
    then show ?thesis using y(5) fresh by (simp add: weight_ok_def)
  next
    case False
    then have c: "c < ?n" using that by simp
    have kids: "j < ?n" if "j \<in> set (itemlist (item_at w c))" for j
      using that c tree_okD(2) [OF t, of j "Item_ref c"] by (simp add: contents_Item)
    then have "load T ?v (itemlist (item_at w c)) = load T w (itemlist (item_at w c))"
      by (auto simp: load_def intro!: arg_cong [where f = sum_list])
    then show ?thesis using store_okD(2,3) [OF w c] c kids by (simp add: weight_ok_def)
  qed
  ultimately show "store_ok T ?v" by (simp add: store_ok_def)
qed

lemma new_item_links:
  "item_class (new_item T cl ty n) = cl" "item_id (new_item T cl ty n) = ty"
  "item_parent (new_item T cl ty n) = None" "itemlist (new_item T cl ty n) = []"
  "maxSize (new_item T cl ty n) = 0"
  by (simp_all add: new_item_def setDefaultDuration_def init_subtype_def blank_item_def setDuration_def setFluidType_def
      setCharges_def item_setIntAttr_def setItemCount_def Let_def)

lemma item_clone_plain:
  assumes "types_ok T" and "isStackable T x"
  shows "\<exists>y. item_clone T x = Some y \<and> item_class y = Plain_Item \<and> item_id y = item_id x \<and> item_parent y = None \<and>
    itemlist y = [] \<and> maxSize y = 0"
proof -
  have "plain_type T (item_id x)" using assms by (simp add: types_ok_def isStackable_def item_type_of_def)
  then obtain n where "CreateItem T (item_id x) (ucast (item_count x)) = Some (new_item T Plain_Item (item_id x) n)"
    by (auto simp: plain_type_def)
  then show ?thesis
    by (simp add: item_clone_def new_item_links setDecaying_def item_setIntAttr_def Let_def split: option.split)
qed

section \<open>The transfer\<close>

text \<open>The case in which part of a stack is put onto an equal stack that has no room for all of it.\<close>

definition split_unsafe :: "env \<Rightarrow> store \<Rightarrow> nat \<Rightarrow> nat option \<Rightarrow> u32 \<Rightarrow> bool" where
  "split_unsafe e w i toItem moveCount \<longleftrightarrow>
     (case toItem of
        None \<Rightarrow> False
      | Some j \<Rightarrow>
          isStackable (types e) (item_at w i) \<and> equals (item_at w i) (Some (item_at w j)) \<and>
          moveCount \<noteq> of_nat ITEM_STACK_SIZE \<and>
          unat (item_count (item_at w j)) + unat moveCount > ITEM_STACK_SIZE \<and>
          moveCount < ucast (item_count (item_at w i)))"

text \<open>A place can take an item: no cycle arises, and the slot is empty.\<close>

definition room_for :: "store \<Rightarrow> thing \<Rightarrow> int \<Rightarrow> nat \<Rightarrow> bool" where
  "room_for w to index i \<longleftrightarrow>
     (case to of
        Item_ref c \<Rightarrow> (c, i) \<notin> (parent_rel w)\<^sup>* \<and> index < sint (maxSize (item_at w c))
      | Player_ref p \<Rightarrow> 1 \<le> index \<and> index \<le> 10 \<and> in_slot w p index = None
      | Tile_ref q \<Rightarrow> False)"

text \<open>What the questions have settled before the transfer.\<close>

definition move_ready :: "env \<Rightarrow> store \<Rightarrow> thing \<Rightarrow> thing \<Rightarrow> int \<Rightarrow> nat \<Rightarrow> nat option \<Rightarrow> u32 \<Rightarrow> bool" where
  "move_ready e w from to index i toItem moveCount \<longleftrightarrow>
     is_place w from \<and> is_place w to \<and> i \<in> set (contents w from) \<and> \<not> fixed (item_at w i) \<and> 0 < moveCount \<and>
     (isStackable (types e) (item_at w i) \<longrightarrow> moveCount \<le> ucast (item_count (item_at w i))) \<and>
     (\<forall>j. toItem = Some j \<longrightarrow> j \<noteq> i \<and> j \<in> set (contents w to)) \<and>
     (room_for w to index i \<or>
      (\<exists>j. toItem = Some j \<and> isStackable (types e) (item_at w i) \<and> equals (item_at w i) (Some (item_at w j)) \<and>
           unat moveCount + unat (item_count (item_at w j)) \<le> ITEM_STACK_SIZE))"

lemma equals_id: "equals x (Some y) \<Longrightarrow> item_id x = item_id y"
  by (auto simp: equals_def split: if_splits)

lemma equals_stackable: "equals x (Some y) \<Longrightarrow> isStackable T x = isStackable T y"
  by (simp add: equals_id isStackable_def item_type_of_def)

lemma allowed_count:
  assumes "unat n \<le> 100"
  shows "unat (min (word_of_int (int ITEM_STACK_SIZE - int (unat (n :: u8)))) m :: u32) = min (100 - unat n) (unat m)"
proof -
  have "unat (word_of_int (int ITEM_STACK_SIZE - int (unat n)) :: u32) = 100 - unat n"
  proof -
    have d: "int ITEM_STACK_SIZE - int (unat n) = int (100 - unat n)" using assms by (simp add: ITEM_STACK_SIZE_def)
    show ?thesis unfolding d by (simp add: unsigned_of_nat take_bit_nat_eq_self)
  qed
  then show ?thesis by (simp add: min_def word_le_nat_alt)
qed

lemma removed_can_take:
  assumes r: "removed w i v" and i: "i < length (heap w)"
    and t: "can_take w t index i \<or> (\<exists>p. t = Player_ref p \<and> p < length (holders w) \<and> 1 \<le> index \<and> index \<le> 10 \<and>
      in_slot w p index \<in> {None, Some i})"
  shows "can_take v t index i"
proof (cases t)
  case (Item_ref c)
  note k = same_kinds_simps [of v w]
  from r have s: "same_kinds v w" by (simp add: removed_def)
  have "parent_rel v \<subseteq> parent_rel w"
    using r same_kinds_simps(1) [OF s] by (auto simp: parent_rel_def removed_def free_item_def) (metis option.distinct(1))
  then have "(parent_rel v)\<^sup>* \<subseteq> (parent_rel w)\<^sup>*" by (rule rtrancl_mono)
  then show ?thesis using t Item_ref same_kinds_simps(1,5,7) [OF s] by (auto simp: can_take_def)
next
  case (Player_ref p)
  from r have s: "same_kinds v w" by (simp add: removed_def)
  have p: "p < length (holders w)" "1 \<le> index" "index \<le> 10" "in_slot w p index \<in> {None, Some i}"
    using t Player_ref by (auto simp: can_take_def)
  have "in_slot v p index \<noteq> Some i"
    using in_slot_contents [of p v index i] p(1) same_kinds_simps(2) [OF s] r by (auto simp: removed_def)
  moreover have "in_slot v p index = in_slot w p index \<or> in_slot v p index = None" using r by (simp add: removed_def)
  ultimately have "in_slot v p index = None" using p(4) by auto
  then show ?thesis using p same_kinds_simps(2) [OF s] by (simp add: can_take_def Player_ref)
next
  case (Tile_ref q)
  then show ?thesis using t by (auto simp: can_take_def)
qed

lemma removed_placed: "removed w i v \<Longrightarrow> placed v = placed w - {i}"
  by (auto simp: removed_def placed_def)

lemma same_share:
  "same_kinds v w \<Longrightarrow> item_count (item_at v j) = item_count (item_at w j) \<Longrightarrow> share v ty j = share w ty j"
  by (simp add: share_def same_kinds_simps(4))

lemma removed_amount:
  assumes "tree_ok T w" and "removed w i v" and "i \<in> placed w"
  shows "amount w ty = amount v ty + share w ty i"
proof (rule amount_less [OF finite_placed [OF assms(1)] removed_placed [OF assms(2)] assms(3)])
  show "share v ty j = share w ty j" for j using assms(2) by (auto simp: removed_def intro: same_share)
qed

lemma added_amount:
  assumes t: "tree_ok T w" and k: "same_kinds v w" and i: "i \<notin> placed w"
    and c: "\<And>u. set (contents v u) = (if u = t then insert i (set (contents w u)) else set (contents w u))"
    and n: "\<And>j. item_count (item_at v j) = item_count (item_at w j)"
  shows "amount v ty = amount w ty + share w ty i"
proof -
  have "placed v = insert i (placed w)" by (auto simp: placed_def c split: if_splits)
  then have "amount v ty = amount w ty + share v ty i"
    using finite_placed [OF t] i same_share [OF k n] by (intro amount_more) auto
  then show ?thesis by (simp add: same_share [OF k n])
qed

lemma free_not_placed: "tree_ok T w \<Longrightarrow> free_item w i \<Longrightarrow> i \<notin> placed w"
  using not_in_contents by (auto simp: placed_def free_item_def)

text \<open>Moving an item as it is.\<close>

lemma move_whole:
  assumes w: "store_ok (types e) w" and f: "is_place w from" and i: "i \<in> set (contents w from)" "\<not> fixed (item_at w i)"
    and whole: "isStackable (types e) (item_at w i) \<Longrightarrow> cnt = ucast (item_count (item_at w i))"
    and t: "can_take w to index i \<or> (\<exists>p. to = Player_ref p \<and> p < length (holders w) \<and> 1 \<le> index \<and> index \<le> 10 \<and>
      in_slot w p index \<in> {None, Some i})"
  shows "\<exists>u v. removeThing e from i cnt w = Some u \<and> addThing e to index i u = Some v \<and> store_ok (types e) v \<and>
    (\<forall>ty. amount v ty = amount w ty) \<and> same_kinds v w \<and> i \<in> set (contents v to)"
proof -
  note tw = store_okD(1) [OF w]
  have il: "i < length (heap w)" using tree_okD(2) [OF tw i(1)] .
  obtain u where u: "removeThing e from i cnt w = Some u" "store_ok (types e) u" "removed w i u"
    using removeThing_whole [OF w f i whole] by blast
  then have free: "free_item u i" by (simp add: removed_def)
  obtain v where v: "addThing e to index i u = Some v" "store_ok (types e) v" "same_kinds v u"
    "\<And>x. set (contents v x) = (if x = to then insert i (set (contents u x)) else set (contents u x))"
    "\<And>j. item_count (item_at v j) = item_count (item_at u j)"
    using addThing_ok [OF u(2) free removed_can_take [OF u(3) il t]] by blast
  have ku: "same_kinds u w" using u(3) by (simp add: removed_def)
  have "i \<in> placed w" using i(1) by (auto simp: placed_def)
  then have "amount w ty = amount u ty + share w ty i" for ty by (rule removed_amount [OF tw u(3)])
  moreover have "amount v ty = amount u ty + share u ty i" for ty
    using free_not_placed [OF store_okD(1) [OF u(2)] free] v(4,5)
    by (intro added_amount [OF store_okD(1) [OF u(2)] v(3), of i to]) auto
  moreover have "share u ty i = share w ty i" for ty
    using u(3) by (intro same_share [OF ku]) (simp add: removed_def)
  ultimately have "amount v ty = amount w ty" for ty by simp
  then show ?thesis using u(1) v(1,2,4) same_kinds_trans [OF v(3) ku] by auto
qed

lemma small_count:
  assumes "unat (c :: u8) + unat (n :: u32) \<le> 100"
  shows "unat (ucast (ucast (ucast c + n :: u32) :: u16) :: u8) = unat c + unat n"
proof -
  have "unat (ucast c + n :: u32) = unat c + unat n"
    using assms by (subst unat_add_lem [THEN iffD1]) (simp_all add: unsigned_ucast_eq take_bit_nat_eq_self_iff)
  moreover have "unat (ucast (ucast c + n :: u32) :: u16) = unat (ucast c + n :: u32)"
    unfolding unsigned_ucast_eq by (rule take_bit_nat_eq_self) (use calculation assms in simp)
  ultimately show ?thesis unfolding unsigned_ucast_eq [where 'b = 16 and 'c = 8]
    by (simp add: take_bit_nat_eq_self assms [THEN le_less_trans])
qed

lemma same_tree_change:
  assumes t: "tree_ok T w" and v: "same_tree v w" and i: "i \<in> placed w"
    and n: "\<And>j. j \<noteq> i \<Longrightarrow> item_count (item_at v j) = item_count (item_at w j)"
  shows "amount v ty + share w ty i = amount w ty + share v ty i"
proof (rule amount_change [OF finite_placed [OF t] same_tree_placed [OF v] i])
  show "share v ty j = share w ty j" if "j \<noteq> i" for j
    using same_tree_kinds [OF v] n [OF that] by (rule same_share)
qed

lemma merge_onto_ok:
  assumes w: "store_ok (types e) w" and ty: "types_ok (types e)" and f: "is_place w from" and t: "is_place w to"
    and i: "i \<in> set (contents w from)" "\<not> fixed (item_at w i)" "isStackable (types e) (item_at w i)"
    and j: "j \<in> set (contents w to)" "j \<noteq> i" "item_id (item_at w i) = item_id (item_at w j)"
    and n: "0 < n" "n \<le> ucast (item_count (item_at w i))" "unat (item_count (item_at w j)) + unat n \<le> 100"
  shows "\<exists>v. merge_onto e from to i j n w = Some v \<and> store_ok (types e) v \<and> (\<forall>ty. amount v ty = amount w ty) \<and>
    same_kinds v w \<and>
    (n < ucast (item_count (item_at w i)) \<longrightarrow>
       same_tree v w \<and> holders v = holders w \<and> item_count (item_at v i) = count_left (item_count (item_at w i)) n)"
proof -
  let ?T = "types e" and ?ci = "item_count (item_at w i)" and ?cj = "item_count (item_at w j)"
  note tw = store_okD(1) [OF w]
  have js: "isStackable ?T (item_at w j)" using i(3) j(3) by (simp add: isStackable_def item_type_of_def)
  have pl: "i \<in> placed w" "j \<in> placed w" using i(1) j(1) by (auto simp: placed_def)
  text \<open>The first step, in either case.\<close>
  have "\<exists>u. removeThing e from i n w = Some u \<and> store_ok ?T u \<and> same_kinds u w \<and> j \<in> set (contents u to) \<and>
      item_count (item_at u j) = ?cj \<and> (\<forall>ty. amount w ty = amount u ty + (if item_id (item_at w i) = ty then unat n else 0)) \<and>
      (n < ucast ?ci \<longrightarrow> same_tree u w \<and> holders u = holders w \<and> item_count (item_at u i) = count_left ?ci n)"
  proof (cases "n < ucast ?ci")
    case True
    obtain u where u: "removeThing e from i n w = Some u" "store_ok ?T u" "same_tree u w" "holders u = holders w"
      "\<And>k. item_count (item_at u k) = (if k = i then count_left ?ci n else item_count (item_at w k))"
      using removeThing_part [OF w f i(1,3) True] by blast
    have "amount u ty + share w ty i = amount w ty + share u ty i" for ty
      using u(5) by (intro same_tree_change [OF tw u(3) pl(1)]) simp
    moreover have "unat (count_left ?ci n) + unat n = unat ?ci"
      using count_left_less [OF True] True by (simp add: word_less_nat_alt)
    moreover have "share w ty i = share u ty i + (if item_id (item_at w i) = ty then unat n else 0)" for ty
      using calculation(2) same_tree_simps(4) [OF u(3)] u(5) by (simp add: share_def)
    ultimately have "amount w ty = amount u ty + (if item_id (item_at w i) = ty then unat n else 0)" for ty
      by (metis add.assoc add.commute add_right_cancel)
    then show ?thesis using u j same_tree_kinds [OF u(3)] same_tree_contents [OF u(3)] by auto
  next
    case False
    then have eq: "n = ucast ?ci" using n(2) by simp
    then have un: "unat n = unat ?ci" by simp
    obtain u where u: "removeThing e from i n w = Some u" "store_ok ?T u" "removed w i u"
      using removeThing_whole [OF w f i(1,2) eq] by blast
    have "amount w ty = amount u ty + share w ty i" for ty by (rule removed_amount [OF tw u(3) pl(1)])
    then show ?thesis using u j False un by (auto simp: removed_def share_def)
  qed
  then obtain u where u: "removeThing e from i n w = Some u" "store_ok ?T u" "same_kinds u w" "j \<in> set (contents u to)"
      "item_count (item_at u j) = ?cj" "\<And>ty. amount w ty = amount u ty + (if item_id (item_at w i) = ty then unat n else 0)"
      "n < ucast ?ci \<longrightarrow> same_tree u w \<and> holders u = holders w \<and> item_count (item_at u i) = count_left ?ci n"
    by blast
  note k = same_kinds_simps [OF u(3)]
  note sc = small_count [OF n(3)]
  have n1: "1 \<le> unat n" using n(1) by (simp add: word_less_nat_alt)
  obtain v where v: "updateThing e to j (item_id (item_at u j)) (ucast ?cj + n) u = Some v" "store_ok ?T v"
    "same_tree v u" "holders v = holders u"
    "\<And>k. item_count (item_at v k) = (if k = j then ucast (ucast (ucast ?cj + n) :: u16) else item_count (item_at u k))"
    using updateThing_stack [OF u(2) ty, of to j "ucast ?cj + n"] t u(4) js k sc n(3) n1 by auto
  have run: "merge_onto e from to i j n w = Some v"
    using u(1,5) v(1) by (simp add: merge_onto_def)
  have "amount v ty + share u ty j = amount u ty + share v ty j" for ty
  proof (rule same_tree_change [OF store_okD(1) [OF u(2)] v(3)])
    show "j \<in> placed u" using u(4) by (auto simp: placed_def)
    show "item_count (item_at v k) = item_count (item_at u k)" if "k \<noteq> j" for k using that v(5) by simp
  qed
  moreover have "share v ty j = share u ty j + (if item_id (item_at w i) = ty then unat n else 0)" for ty
    using same_tree_simps(4) [OF v(3)] v(5) u(5) sc j(3) k(4) by (simp add: share_def)
  ultimately have "amount v ty = amount w ty" for ty using u(6) [of ty] by simp
  moreover have "same_kinds v w" using same_tree_kinds [OF v(3)] u(3) by (rule same_kinds_trans)
  moreover have "same_tree v w \<and> holders v = holders w \<and> item_count (item_at v i) = count_left ?ci n" if "n < ucast ?ci"
    using u(7) that v(3,4,5) j(2) by (auto intro: same_tree_trans)
  ultimately show ?thesis using run v(2) by blast
qed

lemma sint_small: "1 \<le> unat (n :: u32) \<Longrightarrow> unat n \<le> 100 \<Longrightarrow> 0 < sint n"
proof -
  assume "1 \<le> unat n" "unat n \<le> 100"
  then have "0 < uint n" "uint n < 2147483648" using uint_nat [of n] by linarith+
  then show "0 < sint n" by (simp add: sint_uint signed_take_bit_int_eq_self)
qed

lemma with_item_amount:
  assumes "store_ok T w" and "item_class y = Plain_Item" "item_parent y = None" "itemlist y = []"
    "maxSize y = 0" "stack_ok T y"
  shows "amount (with_item y w) ty = amount w ty" and "share (with_item y w) ty (length (heap w)) =
    (if item_id y = ty then unat (item_count y) else 0)"
proof -
  note tw = store_okD(1) [OF assms(1)]
  have p: "placed (with_item y w) = placed w" by (simp add: placed_def with_item_ok(2) [OF assms])
  have "sum (share (with_item y w) ty) (placed w) = sum (share w ty) (placed w)"
    using placed_less [OF tw] by (intro sum.cong) (auto simp: share_def)
  then show "amount (with_item y w) ty = amount w ty"
    using finite_placed [OF tw] by (simp add: amount_share p)
qed (simp add: share_def)

lemma is_place_with_item: "is_place w t \<Longrightarrow> is_place (with_item y w) t"
  by (auto simp: is_place_def split: thing.splits)

lemma can_take_fresh:
  assumes t: "tree_ok T w" and s: "same_tree v (with_item y w)" and h: "holders v = holders w"
    and r: "parent_rel (with_item y w) = parent_rel w"
    and to: "is_place w to" "case to of Item_ref c \<Rightarrow> index < sint (maxSize (item_at w c))
      | Player_ref p \<Rightarrow> 1 \<le> index \<and> index \<le> 10 \<and> in_slot w p index = None | Tile_ref q \<Rightarrow> False"
  shows "can_take v to index (length (heap w))"
proof (cases to)
  case (Item_ref c)
  then have c: "c < length (heap w)" "is_container (item_at w c)" using to by (simp_all add: is_place_def)
  have "parent_rel v = parent_rel w" using same_tree_simps(1,5) [OF s] r by (simp add: parent_rel_def)
  moreover have "(c, length (heap w)) \<notin> (parent_rel w)\<^sup>*"
  proof
    assume "(c, length (heap w)) \<in> (parent_rel w)\<^sup>*"
    then show False
    proof (cases rule: rtranclE)
      case base then show False using c by simp
    next
      case (step d)
      then show False using tree_okD(4) [OF t, of d] by (auto simp: parent_rel_def linked_ok_def)
    qed
  qed
  ultimately show ?thesis
    using c to Item_ref same_tree_simps(1,7,9) [OF s] by (simp add: can_take_def)
next
  case (Player_ref p)
  then show ?thesis using to in_slot_holders [OF h] by (simp add: can_take_def is_place_def h)
next
  case (Tile_ref q)
  then show ?thesis using to by simp
qed

text \<open>A part of a stack is moved as a clone.\<close>

lemma move_part:
  assumes w: "store_ok (types e) w" and ty: "types_ok (types e)" and f: "is_place w from" and i: "i \<in> set (contents w from)"
    and part: "isStackable (types e) (item_at w i)" "0 < n" "n < ucast (item_count (item_at w i))"
    and to: "is_place w to" "case to of Item_ref c \<Rightarrow> index < sint (maxSize (item_at w c))
      | Player_ref p \<Rightarrow> 1 \<le> index \<and> index \<le> 10 \<and> in_slot w p index = None | Tile_ref q \<Rightarrow> False"
  shows "\<exists>u x v. split_stack e i n w = Some (Some (length (heap w)), None, n, u) \<and> removeThing e from i n u = Some x \<and>
    addThing e to index (length (heap w)) x = Some v \<and> store_ok (types e) v \<and> (\<forall>ty. amount v ty = amount w ty)"
proof -
  let ?T = "types e" and ?ci = "item_count (item_at w i)" and ?k = "length (heap w)"
  note tw = store_okD(1) [OF w]
  have il: "i < ?k" using tree_okD(2) [OF tw i] .
  obtain y where y: "item_clone ?T (item_at w i) = Some y" "item_class y = Plain_Item" "item_id y = item_id (item_at w i)"
    "item_parent y = None" "itemlist y = []" "maxSize y = 0"
    using item_clone_plain [OF ty part(1)] by blast
  let ?y = "setItemCount (ucast n) y"
  have ci: "unat ?ci \<le> 100" using store_okD(3) [OF w il] part(1) by (simp add: stack_ok_def)
  have n: "1 \<le> unat n" "unat n < unat ?ci" using part by (simp_all add: word_less_nat_alt)
  then have un: "unat (ucast n :: u8) = unat n" using ci by (simp add: unsigned_ucast_eq take_bit_nat_eq_self)
  have y': "item_class ?y = Plain_Item" "item_parent ?y = None" "itemlist ?y = []" "maxSize ?y = 0"
      "item_id ?y = item_id (item_at w i)" "unat (item_count ?y) = unat n"
    using y un by (simp_all add: setItemCount_def)
  have so: "stack_ok ?T ?y" using y' n ci by (simp add: stack_ok_def is_container_def)
  have split: "split_stack e i n w = Some (Some ?k, None, n, with_item ?y w)"
  proof -
    have "0 < sint n" using n ci by (intro sint_small) simp_all
    moreover have "n \<noteq> ucast ?ci" using part(3) by auto
    ultimately show ?thesis using y(1) n by (simp add: split_stack_def Let_def with_item_def)
  qed
  note ok = with_item_ok [OF w y'(1-4) so] with_item_amount [OF w y'(1-4) so]
  let ?u = "with_item ?y w"
  have at: "item_at ?u i = item_at w i" using il by simp
  obtain v where v: "removeThing e from i n ?u = Some v" "store_ok ?T v" "same_tree v ?u" "holders v = holders ?u"
    "\<And>j. item_count (item_at v j) = (if j = i then count_left ?ci n else item_count (item_at ?u j))"
    using removeThing_part [OF ok(1) is_place_with_item [OF f], of i n] part i at ok(2) by auto
  have free: "free_item v ?k"
    using y' same_tree_simps(1,5,11) [OF v(3)] by (simp add: free_item_def fixed_def skips_def)
  have take: "can_take v to index ?k"
    by (rule can_take_fresh [OF tw v(3) _ ok(3) to]) (use v(4) in simp)
  obtain x where x: "addThing e to index ?k v = Some x" "store_ok ?T x" "same_kinds x v"
    "\<And>u. set (contents x u) = (if u = to then insert ?k (set (contents v u)) else set (contents v u))"
    "\<And>j. item_count (item_at x j) = item_count (item_at v j)"
    using addThing_ok [OF v(2) free take] by blast
  have "amount x ty = amount w ty" for ty
  proof -
    have "amount x ty = amount v ty + share v ty ?k"
      using free_not_placed [OF store_okD(1) [OF v(2)] free] x(4,5)
      by (intro added_amount [OF store_okD(1) [OF v(2)] x(3), of ?k to]) auto
    moreover have "i \<in> placed ?u" using i ok(2) by (auto simp: placed_def)
    then have "amount v ty + share ?u ty i = amount ?u ty + share v ty i"
      using v(5) by (intro same_tree_change [OF store_okD(1) [OF ok(1)] v(3)]) simp_all
    moreover have "unat (count_left ?ci n) + unat n = unat ?ci"
      using count_left_less [OF part(3)] n by simp
    moreover have "share v ty ?k = (if item_id (item_at w i) = ty then unat n else 0)"
      using il same_tree_simps(4) [OF v(3)] v(5) y' by (simp add: share_def)
    moreover have "share ?u ty i = (if item_id (item_at w i) = ty then unat ?ci else 0)"
      "share v ty i = (if item_id (item_at w i) = ty then unat (count_left ?ci n) else 0)"
      using il same_tree_simps(4) [OF v(3)] v(5) by (simp_all add: share_def)
    ultimately show ?thesis using ok(4) by (cases "item_id (item_at w i) = ty") simp_all
  qed
  then show ?thesis using split v(1) x(1,2) by blast
qed

lemma room_can_take: "is_place w to \<Longrightarrow> room_for w to index i \<Longrightarrow> can_take w to index i"
  by (auto simp: is_place_def room_for_def can_take_def split: thing.splits)

lemma room_same:
  assumes s: "same_tree v w" and h: "holders v = holders w"
  shows "room_for v to index i = room_for w to index i"
  using same_tree_simps(7) [OF s] same_tree_simps(1,5) [OF s] in_slot_holders [OF h]
  by (simp add: room_for_def parent_rel_def split: thing.splits)

lemma transfer_ok:
  assumes w: "store_ok (types e) w" and ty: "types_ok (types e)" and r: "move_ready e w from to index i toItem n"
    and safe: "\<not> split_unsafe e w i toItem n"
  shows "\<exists>m u v. transfer e from to index i toItem n w = Some (m, u, v) \<and> store_ok (types e) v \<and>
    (\<forall>ty. amount v ty = amount w ty)"
proof -
  let ?T = "types e" and ?x = "item_at w i"
  let ?ci = "item_count ?x"
  note tw = store_okD(1) [OF w]
  from r have f: "is_place w from" "is_place w to" "i \<in> set (contents w from)" "\<not> fixed ?x" "0 < n"
    "isStackable ?T ?x \<Longrightarrow> n \<le> ucast ?ci" "\<And>j. toItem = Some j \<Longrightarrow> j \<noteq> i \<and> j \<in> set (contents w to)"
    by (simp_all add: move_ready_def)
  have il: "i < length (heap w)" using tree_okD(2) [OF tw f(3)] .
  have whole: "\<exists>u v. removeThing e from i n w = Some u \<and> addThing e to index i u = Some v \<and> store_ok ?T v \<and>
      (\<forall>ty. amount v ty = amount w ty)"
    if "room_for w to index i" "isStackable ?T ?x \<Longrightarrow> n = ucast ?ci"
    using move_whole [OF w f(1,3,4) that(2), where to = to and index = index] room_can_take [OF f(2) that(1)] by blast
  have room: "room_for w to index i"
    if "\<And>j. toItem = Some j \<Longrightarrow> isStackable ?T ?x \<Longrightarrow> equals ?x (Some (item_at w j)) \<Longrightarrow>
      100 < unat n + unat (item_count (item_at w j))"
    using r that by (fastforce simp: move_ready_def ITEM_STACK_SIZE_def)
  show ?thesis
  proof (cases "isStackable ?T ?x")
    case False
    have "room_for w to index i" by (rule room) (use False in simp)
    from whole [OF this] False show ?thesis by (auto simp: transfer_def Let_def)
  next
    case st: True
    have ci: "1 \<le> unat ?ci" "unat ?ci \<le> 100" using store_okD(3) [OF w il] st by (simp_all add: stack_ok_def)
    have n: "n \<le> ucast ?ci" "1 \<le> unat n" "unat n \<le> unat ?ci"
      using f(5,6) st by (simp_all add: word_less_nat_alt word_le_nat_alt)
    show ?thesis
    proof (cases "\<exists>j. toItem = Some j \<and> equals ?x (Some (item_at w j)) \<and> n \<noteq> of_nat ITEM_STACK_SIZE")
      case True
      then obtain j where j: "toItem = Some j" "equals ?x (Some (item_at w j))" "n \<noteq> of_nat ITEM_STACK_SIZE" by blast
      let ?cj = "item_count (item_at w j)"
      define a where "a = min (word_of_int (int ITEM_STACK_SIZE - int (unat ?cj))) n"
      note j' = f(7) [OF j(1)]
      have cj: "unat ?cj \<le> 100"
        using j' tree_okD(2) [OF tw, of j to] store_okD(3) [OF w, of j] st equals_stackable [OF j(2), of ?T]
        by (simp add: stack_ok_def)
      have a: "unat a = min (100 - unat ?cj) (unat n)" unfolding a_def by (rule allowed_count [OF cj])
      have an: "a \<le> n" by (simp add: a_def)
      have tr: "transfer e from to index i toItem n w =
        do { (m, u, n, w) \<leftarrow> (if 0 < a then do {
                w \<leftarrow> merge_onto e from to i j a w; Some (if n - a = 0 then None else Some i, Some j, n - a, w) }
              else Some (Some i, None, n, w));
             case m of None \<Rightarrow> Some (None, u, w)
             | Some m \<Rightarrow> do { w \<leftarrow> removeThing e from i n w; w \<leftarrow> addThing e to index m w; Some (Some m, u, w) } }"
        using j st by (simp add: transfer_def Let_def a_def)
      have all: "n = ucast ?ci" if "100 < unat ?cj + unat n"
        using safe j st that n(1) by (simp add: split_unsafe_def ITEM_STACK_SIZE_def)
      have room': "room_for w to index i" if "100 < unat ?cj + unat n"
        by (rule room) (use j(1) that in simp)
      show ?thesis
      proof (cases "0 < a")
        case False
        then have "unat ?cj = 100" using a n(2) cj by (simp add: word_less_nat_alt)
        then have "100 < unat ?cj + unat n" using n(2) by simp
        from whole [OF room' [OF this] all [OF this]] show ?thesis using False unfolding tr by auto
      next
        case True
        have le: "a \<le> ucast ?ci" using an n(1) by (rule order_trans)
        have fits: "unat ?cj + unat a \<le> 100" using a cj by simp
        obtain v where v: "merge_onto e from to i j a w = Some v" "store_ok ?T v" "\<forall>ty. amount v ty = amount w ty"
          "a < ucast ?ci \<longrightarrow> same_tree v w \<and> holders v = holders w \<and> item_count (item_at v i) = count_left ?ci a"
          using merge_onto_ok [OF w ty f(1,2,3,4) _ _ _ equals_id [OF j(2)] True le fits] j' st by blast
        show ?thesis
        proof (cases "n - a = 0")
          case zero: True
          then show ?thesis using True v(1-3) unfolding tr by auto
        next
          case more: False
          have lt: "a < n" using more an by (auto simp: less_le)
          have big: "100 < unat ?cj + unat n" using a cj lt by (simp add: word_less_nat_alt)
          have lt': "a < ucast ?ci" using lt all [OF big] by simp
          then have s: "same_tree v w" "holders v = holders w" "item_count (item_at v i) = count_left ?ci a" using v(4) by auto
          have "unat (n - a) = unat (item_count (item_at v i))"
            using count_left_less [OF lt'] s(3) all [OF big] unat_sub [OF less_imp_le [OF lt]] by simp
          then have eq: "n - a = ucast (item_count (item_at v i))" by (simp add: word_unat_eq_iff)
          have "\<exists>u x. removeThing e from i (n - a) v = Some u \<and> addThing e to index i u = Some x \<and> store_ok ?T x \<and>
            (\<forall>ty. amount x ty = amount v ty) \<and> same_kinds x v \<and> i \<in> set (contents x to)"
          proof (rule move_whole [OF v(2)])
            show "is_place v from" "i \<in> set (contents v from)" "\<not> fixed (item_at v i)"
              using f same_tree_simps(11,17) [OF s(1)] same_tree_contents [OF s(1)] by simp_all
            show "n - a = ucast (item_count (item_at v i))" by (rule eq)
            have "is_place v to" using f same_tree_simps(17) [OF s(1)] by simp
            moreover have "room_for v to index i" using room' [OF big] room_same [OF s(1,2)] by simp
            ultimately show "can_take v to index i \<or> (\<exists>p. to = Player_ref p \<and> p < length (holders v) \<and> 1 \<le> index \<and>
              index \<le> 10 \<and> in_slot v p index \<in> {None, Some i})" by (simp add: room_can_take)
          qed
          then show ?thesis using True more v(1,3) unfolding tr by auto
        qed
      qed
    next
      case False
      have rm: "room_for w to index i"
      proof (rule room)
        fix j assume j: "toItem = Some j" "equals ?x (Some (item_at w j))"
        then have "n = of_nat ITEM_STACK_SIZE" using False by blast
        then have "unat n = 100" by (simp add: ITEM_STACK_SIZE_def)
        moreover have "1 \<le> unat (item_count (item_at w j))"
          using f(7) [OF j(1)] tree_okD(2) [OF tw, of j to] store_okD(3) [OF w, of j] st
            equals_stackable [OF j(2), of ?T] by (simp add: stack_ok_def)
        ultimately show "100 < unat n + unat (item_count (item_at w j))" by simp
      qed
      have tr: "transfer e from to index i toItem n w =
        do { (m, u, n, w) \<leftarrow> split_stack e i n w;
             case m of None \<Rightarrow> Some (None, u, w)
             | Some m \<Rightarrow> do { w \<leftarrow> removeThing e from i n w; w \<leftarrow> addThing e to index m w; Some (Some m, u, w) } }"
        using False st by (cases toItem) (auto simp: transfer_def Let_def)
      show ?thesis
      proof (cases "n = ucast ?ci")
        case True
        then show ?thesis using whole [OF rm True] unfolding tr by (auto simp: split_stack_def Let_def)
      next
        case False
        then have lt: "n < ucast ?ci" using n(1) by simp
        have "case to of Item_ref c \<Rightarrow> index < sint (maxSize (item_at w c))
          | Player_ref p \<Rightarrow> 1 \<le> index \<and> index \<le> 10 \<and> in_slot w p index = None | Tile_ref q \<Rightarrow> False"
          using rm by (simp add: room_for_def split: thing.splits)
        from move_part [OF w ty f(1,3) st f(5) lt f(2) this] show ?thesis unfolding tr by auto
      qed
    qed
  qed
qed

end
