(* ===== verification/Move_Answers.thy ===== *)
theory Move_Answers
  imports Move_Safety
begin

text \<open>
  What the answers to the questions of \<open>internalMoveItem\<close> say: when an item may be added the receiver is not
  below it, the destination that is found holds the item that is found there, and a count that is granted fits.
\<close>

section \<open>Parents\<close>

definition valid_thing :: "store \<Rightarrow> thing \<Rightarrow> bool" where
  "valid_thing w t \<longleftrightarrow>
     (case t of Item_ref c \<Rightarrow> c < length (heap w) | Player_ref p \<Rightarrow> p < length (holders w) | Tile_ref q \<Rightarrow> True)"

lemma valid_content: "tree_ok T w \<Longrightarrow> j \<in> set (contents w t) \<Longrightarrow> valid_thing w (Item_ref j)"
  using tree_okD(2) by (simp add: valid_thing_def)

text \<open>The loop over the parents passes every container above, the lockers of depots apart.\<close>

lemma ancestors_above:
  assumes t: "tree_ok T w"
  shows "c < length (heap w) \<Longrightarrow> (c, j) \<in> (parent_rel w)\<^sup>* \<Longrightarrow> ancestors w (Item_ref c) = Some ps \<Longrightarrow>
    j = c \<or> Item_ref j \<in> set ps \<or> fixed (item_at w j)"
proof (induction c arbitrary: ps rule: wf_induct_rule [OF wf_parents [OF t]])
  case (1 c)
  from "1.prems"(2) show ?case
  proof (cases rule: converse_rtranclE)
    case base then show ?thesis by simp
  next
    case (step p)
    then have p: "item_parent (item_at w c) = Some (Item_ref p)" by (simp add: parent_rel_def)
    have lk: "p < length (heap w)" using tree_okD(4) [OF t "1.prems"(1)] p by (simp add: linked_ok_def)
    show ?thesis
    proof (cases "skips (item_at w c)")
      case True
      then have l: "item_class (item_at w p) = Depot_Locker" "\<forall>q. item_parent (item_at w p) \<noteq> Some (Item_ref q)"
        using tree_okD(5) [OF t "1.prems"(1)] p by (simp_all add: fixed_ok_def)
      from step(2) have "j = p"
        by (cases rule: converse_rtranclE) (use l(2) in \<open>auto simp: parent_rel_def\<close>)
      then show ?thesis using l(1) by (simp add: fixed_def)
    next
      case False
      then have "getParent w (Item_ref c) = Some (Some (Item_ref p))" using p by (simp add: getParent_direct)
      then obtain qs where qs: "ancestors w (Item_ref p) = Some qs" "ps = Item_ref p # qs"
        using "1.prems"(3) by (subst (asm) ancestors.simps) (auto simp: bind_eq_Some_conv)
      have "j = p \<or> Item_ref j \<in> set qs \<or> fixed (item_at w j)"
        using "1.IH" [of p qs] step lk qs(1) by simp
      then show ?thesis using qs(2) by auto
    qed
  qed
qed

lemma scan_parents_None: "scan_parents w noLimit i ps = None \<Longrightarrow> Item_ref i \<notin> set ps"
  by (induction ps) (auto split: if_splits)

lemma scan_parents_refuses: "scan_parents w noLimit i ps \<noteq> Some RETURNVALUE_NOERROR"
  by (induction ps) auto

lemma parent_refuses_refuses: "parent_refuses e w c index i flags ps \<noteq> Some RETURNVALUE_NOERROR"
  using scan_parents_refuses by (auto simp: parent_refuses_def Let_def split: list.split option.split)

lemma parent_refuses_None:
  assumes "parent_refuses e w c index i flags ps = None"
  shows "Item_ref i \<notin> set ps"
proof (cases ps)
  case (Cons p qs)
  have "scan_parents w (hasBitSet FLAG_NOLIMIT flags) i ps = None"
  proof (rule ccontr)
    assume "scan_parents w (hasBitSet FLAG_NOLIMIT flags) i ps \<noteq> None"
    then obtain r where r: "scan_parents w (hasBitSet FLAG_NOLIMIT flags) i ps = Some r" by blast
    show False using assms unfolding parent_refuses_def r Let_def by (simp add: Cons split: if_split_asm)
  qed
  then show ?thesis by (rule scan_parents_None)
qed simp

section \<open>The answer of \<open>queryAdd\<close>\<close>

definition plain_flags :: "u32 \<Rightarrow> bool" where
  "plain_flags flags \<longleftrightarrow> \<not> hasBitSet FLAG_NOLIMIT flags \<and> \<not> hasBitSet FLAG_CHILDISOWNER flags"

lemma Container_queryAdd_yes:
  assumes t: "tree_ok T w" and c: "c < length (heap w)" and f: "plain_flags flags" and i: "i < length (heap w)"
    and T: "T = types e" and yes: "Container_queryAdd e w c index i cnt flags actor = Some RETURNVALUE_NOERROR"
  shows "isPickupable T (item_at w i)" and "(c, i) \<notin> (parent_rel w)\<^sup>*"
proof -
  from yes f have p: "isPickupable T (item_at w i)" and ic: "i \<noteq> c"
    by (simp_all add: Container_queryAdd_def plain_flags_def Let_def T split: if_split_asm)
  obtain ps where ps: "ancestors w (Item_ref c) = Some ps" "parent_refuses e w c index i flags ps = None"
  proof (cases "ancestors w (Item_ref c)")
    case None
    then show ?thesis using yes f by (simp add: Container_queryAdd_def plain_flags_def Let_def split: if_split_asm)
  next
    case (Some ps)
    have "parent_refuses e w c index i flags ps = None"
    proof (cases "parent_refuses e w c index i flags ps")
      case (Some r)
      then show ?thesis using yes f \<open>ancestors w (Item_ref c) = Some ps\<close> parent_refuses_refuses [of e w c index i flags ps]
        by (simp add: Container_queryAdd_def plain_flags_def Let_def split: if_split_asm)
    qed simp
    then show ?thesis using Some that by simp
  qed
  have "Item_ref i \<notin> set ps" by (rule parent_refuses_None [OF ps(2)])
  moreover have "\<not> fixed (item_at w i)" using tree_okD(5) [OF t i] p by (auto simp: fixed_ok_def)
  ultimately show "(c, i) \<notin> (parent_rel w)\<^sup>*" using ancestors_above [OF t c _ ps(1)] ic by blast
  show "isPickupable T (item_at w i)" by (rule p)
qed

lemma container_queryAdd_yes:
  assumes t: "tree_ok T w" and c: "c < length (heap w)" and f: "plain_flags flags" and i: "i < length (heap w)"
    and T: "T = types e" and yes: "container_queryAdd e w c index i cnt flags actor = Some RETURNVALUE_NOERROR"
  shows "isPickupable T (item_at w i)" and "(c, i) \<notin> (parent_rel w)\<^sup>*"
proof -
  note base = Container_queryAdd_yes [OF t c f i T]
  have "isPickupable T (item_at w i) \<and> (c, i) \<notin> (parent_rel w)\<^sup>*"
  proof (cases "item_class (item_at w c) = Store_Inbox")
    case True
    then have "i \<noteq> c" "isPickupable T (item_at w i)"
      using yes T by (auto simp: container_queryAdd_def class_queryAdd_def Let_def split: if_splits)
    moreover have "(c, q) \<notin> parent_rel w" for q
      using tree_okD(5) [OF t c] True by (simp add: fixed_ok_def parent_rel_def)
    ultimately show ?thesis by (auto elim: converse_rtranclE)
  next
    case False
    then have "Container_queryAdd e w c index i cnt flags actor = Some RETURNVALUE_NOERROR"
      using yes f by (auto simp: container_queryAdd_def class_queryAdd_def plain_flags_def Let_def bind_eq_Some_conv
          split: item_class.splits if_splits)
    then show ?thesis using base by blast
  qed
  then show "isPickupable T (item_at w i)" and "(c, i) \<notin> (parent_rel w)\<^sup>*" by simp_all
qed

lemma slot_answer_outside:
  assumes "\<not> (1 \<le> index \<and> index \<le> 10)"
  shows "slot_answer e w p index i cnt =
    (if index = 0 \<or> index = -1 then RETURNVALUE_NOTENOUGHROOM else RETURNVALUE_NOTPOSSIBLE)"
proof -
  have "index \<noteq> 1" "index \<noteq> 2" "index \<noteq> 3" "index \<noteq> 4" "index \<noteq> 5" "index \<noteq> 6" "index \<noteq> 7" "index \<noteq> 8"
    "index \<noteq> 9" "index \<noteq> 10" using assms by auto
  then show ?thesis by (simp add: slot_answer_def slot_defs)
qed

lemma player_queryAdd_yes:
  assumes f: "plain_flags flags" and yes: "player_queryAdd e w p index i cnt flags = Some RETURNVALUE_NOERROR"
  shows "isPickupable (types e) (item_at w i)" and "1 \<le> index" and "index \<le> 10"
    and "in_slot w p index = Some j \<Longrightarrow> isStackable (types e) (item_at w j) \<and> item_id (item_at w j) = item_id (item_at w i)"
proof -
  show "isPickupable (types e) (item_at w i)"
    using f yes by (simp add: player_queryAdd_def plain_flags_def Let_def split: if_splits)
  show "isStackable (types e) (item_at w j) \<and> item_id (item_at w j) = item_id (item_at w i)" if j: "in_slot w p index = Some j"
  proof (rule ccontr)
    assume no: "\<not> ?thesis"
    have "player_queryAdd e w p index i cnt flags \<noteq> Some RETURNVALUE_NOERROR"
    proof (cases "hasCapacity e w p i cnt")
      case None
      then show ?thesis using f by (simp add: player_queryAdd_def plain_flags_def Let_def)
    next
      case (Some enough)
      then show ?thesis using f no j
        by (simp add: player_queryAdd_def plain_flags_def Let_def bind_eq_Some_conv split: option.split thing.split)
    qed
    then show False using yes by simp
  qed
  have "1 \<le> index \<and> index \<le> 10"
  proof (rule ccontr)
    assume out: "\<not> (1 \<le> index \<and> index \<le> 10)"
    then have "in_slot w p index = None" by (auto simp: in_slot_def slot_defs)
    with f yes show False
      unfolding player_queryAdd_def slot_answer_outside [OF out]
      by (auto simp: plain_flags_def Let_def bind_eq_Some_conv slot_defs split: if_split_asm)
  qed
  then show "1 \<le> index" "index \<le> 10" by simp_all
qed

section \<open>The destination\<close>

definition settled :: "store \<Rightarrow> thing \<Rightarrow> int \<Rightarrow> nat option \<Rightarrow> bool" where
  "settled w t index toItem \<longleftrightarrow>
     (case t of
        Item_ref c \<Rightarrow> \<not> unlocked (item_at w c) \<or> index < sint (maxSize (item_at w c)) \<or>
          (toItem \<noteq> None \<and> 0 \<le> index \<and> getItemByIndex w c index = toItem)
      | Player_ref p \<Rightarrow> 1 \<le> index \<and> index \<le> 10 \<longrightarrow> toItem = in_slot w p index
      | Tile_ref q \<Rightarrow> True)"

definition lies_in :: "store \<Rightarrow> thing \<Rightarrow> nat option \<Rightarrow> bool" where
  "lies_in w t toItem \<longleftrightarrow> (\<forall>j. toItem = Some j \<longrightarrow> j \<in> set (contents w t))"

lemma lies_in_None [simp]: "lies_in w t None"
  by (simp add: lies_in_def)

lemma find_stack_Some:
  "find_stack w i n js = Some (k, j) \<Longrightarrow> n \<le> k \<and> nat (k - n) < length js \<and> js ! nat (k - n) = j"
proof (induction js arbitrary: n)
  case (Cons x js)
  show ?case
  proof (cases "find_stack w i n (x # js) = find_stack w i (n + 1) js")
    case True
    then have "n + 1 \<le> k \<and> nat (k - (n + 1)) < length js \<and> js ! nat (k - (n + 1)) = j" using Cons by simp
    moreover from this have "nat (k - n) = Suc (nat (k - (n + 1)))" by (simp add: nat_diff_distrib' Suc_nat_eq_nat_zadd1)
    ultimately show ?thesis by simp
  next
    case False
    then show ?thesis using Cons.prems by (auto split: if_splits)
  qed
qed simp

lemma getItemByIndex_in:
  "c < length (heap w) \<Longrightarrow> getItemByIndex w c index = Some j \<Longrightarrow> j \<in> set (contents w (Item_ref c))"
  by (auto simp: getItemByIndex_def contents_def split: if_splits)

lemma stack_destination_in:
  assumes c: "c < length (heap w)" and d: "lies_in w (Item_ref c) destItem"
    and ix: "index < sint (maxSize (item_at w c))"
    and r: "stack_destination e w c index i destItem flags = Some (t, k, toItem)"
  shows "t = Item_ref c \<and> lies_in w t toItem \<and> settled w t k toItem"
proof (cases "find_stack w i 0 (itemlist (item_at w c))")
  case None
  then show ?thesis using r d ix
    by (auto simp: stack_destination_def settled_def Let_def bind_eq_Some_conv split: if_split_asm)
next
  case (Some a)
  then obtain n j where nj: "find_stack w i 0 (itemlist (item_at w c)) = Some (n, j)" by (cases a) simp
  have g: "getItemByIndex w c n = Some j" "0 \<le> n"
    using find_stack_Some [OF nj] by (auto simp: getItemByIndex_def)
  have "j \<in> set (contents w (Item_ref c))" by (rule getItemByIndex_in [OF c g(1)])
  then show ?thesis using r d ix nj g
    by (auto simp: stack_destination_def settled_def lies_in_def Let_def bind_eq_Some_conv split: if_split_asm)
qed

lemma container_destination:
  assumes t: "tree_ok T w" and c: "c < length (heap w)" and d: "lies_in w (Item_ref c) destItem"
    and r: "container_queryDestination e w c index i destItem flags = Some (s, k, toItem)"
  shows "(\<exists>q. s = Item_ref q) \<and> valid_thing w s \<and> lies_in w s toItem \<and> settled w s k toItem"
proof (cases "unlocked (item_at w c)")
  case False
  then show ?thesis using r c by (auto simp: container_queryDestination_def settled_def valid_thing_def)
next
  case True
  obtain pa where pa: "getParent w (Item_ref c) = Some pa"
    using r True by (auto simp: container_queryDestination_def Let_def bind_eq_Some_conv)
  have pos: "-1 < sint (maxSize (item_at w q))" if "q < length (heap w)" for q
    using tree_okD(8) [OF t that] by simp
  show ?thesis
  proof (cases "index = 254")
    case True
    have "q < length (heap w)" if "pa = Some (Item_ref q)" for q
    proof (cases "skips (item_at w c)")
      case sk: True
      then show ?thesis using getParent_skip [OF t c sk] pa that by auto
    next
      case False
      then show ?thesis using getParent_direct [OF False] pa that tree_okD(4) [OF t c] by (simp add: linked_ok_def)
    qed
    then show ?thesis using r True \<open>unlocked (item_at w c)\<close> pa c pos
      by (auto simp: container_queryDestination_def INDEX_WHEREEVER_def settled_def valid_thing_def
          split: option.split_asm thing.split_asm if_split_asm)
  next
    case False
    define ix where "ix = (if index = 255 \<or> index \<ge> sint (maxSize (item_at w c)) then INDEX_WHEREEVER else index)"
    define de where "de = (if index = 255 \<or> index \<ge> sint (maxSize (item_at w c)) then None else destItem)"
    define fo where "fo = (if ix \<noteq> INDEX_WHEREEVER then getItemByIndex w c ix else None)"
    have ix: "ix < sint (maxSize (item_at w c))" using pos [OF c] by (simp add: ix_def INDEX_WHEREEVER_def)
    have de: "lies_in w (Item_ref c) de" using d by (simp add: de_def)
    have r': "(case fo of
                 Some j \<Rightarrow> if has_receiver (item_at w j) then Some (Item_ref j, INDEX_WHEREEVER, None)
                           else stack_destination e w c ix i (Some j) flags
               | None \<Rightarrow> stack_destination e w c ix i de flags) = Some (s, k, toItem)"
      using r \<open>unlocked (item_at w c)\<close> pa False unfolding fo_def ix_def de_def
      by (cases "index = 255 \<or> index \<ge> sint (maxSize (item_at w c))"; cases "index = INDEX_WHEREEVER")
        (simp_all add: container_queryDestination_def cong: option.case_cong)
    show ?thesis
    proof (cases fo)
      case None
      have "s = Item_ref c \<and> lies_in w s toItem \<and> settled w s k toItem"
        by (rule stack_destination_in [OF c de ix]) (use r' None in simp)
      then show ?thesis using c by (auto simp: valid_thing_def)
    next
      case (Some j)
      then have j: "j \<in> set (contents w (Item_ref c))" using getItemByIndex_in [OF c] by (simp add: fo_def split: if_splits)
      then have jl: "j < length (heap w)" by (rule tree_okD(2) [OF t])
      have "lies_in w (Item_ref c) (Some j)" using j by (simp add: lies_in_def)
      then have "s = Item_ref c \<and> lies_in w s toItem \<and> settled w s k toItem" if "\<not> has_receiver (item_at w j)"
        by (rule stack_destination_in [OF c _ ix]) (use r' Some that in simp)
      then show ?thesis using r' Some c jl pos [OF jl]
        by (cases "has_receiver (item_at w j)") (auto simp: valid_thing_def settled_def INDEX_WHEREEVER_def)
    qed
  qed
qed

lemma stack_place_in: "stack_place w traded i n js = Some (k, j) \<Longrightarrow> j \<in> set js"
  by (induction js arbitrary: n) (auto split: if_split_asm)

lemma search_containers_in:
  assumes t: "tree_ok T w" and r: "search_containers e w p stacking i flags cs = Some r"
    and cs: "\<forall>c \<in> set cs. c < length (heap w)"
  shows "case r of None \<Rightarrow> True
    | Some (s, k, toItem) \<Rightarrow> (\<exists>q. s = Item_ref q) \<and> valid_thing w s \<and> lies_in w s toItem"
proof -
  have "w' = w \<longrightarrow> (\<forall>c \<in> set cs. c < length (heap w)) \<longrightarrow>
      (case r of None \<Rightarrow> True
       | Some (s, k, toItem) \<Rightarrow> (\<exists>q. s = Item_ref q) \<and> valid_thing w s \<and> lies_in w s toItem)"
    if "search_containers e w' p stacking i flags cs = Some r" for e w' p stacking i flags cs r
    using that
  proof (induction rule: search_containers.raw_induct [rotated, consumes 1, case_names step])
  case (step search e w' p stacking i flags cs r)
  show ?case
  proof (intro impI, cases cs)
    assume w': "w' = w" and cs: "\<forall>c \<in> set cs. c < length (heap w)"
    let ?good = "case r of None \<Rightarrow> True
      | Some (s, k, toItem) \<Rightarrow> (\<exists>q. s = Item_ref q) \<and> valid_thing w s \<and> lies_in w s toItem"
    {
      case Nil
      then show ?good using step by simp
    next
      case (Cons c rest)
      then have c: "c < length (heap w)" using cs by simp
      have inside: "j \<in> set (contents w (Item_ref c))" if "j \<in> set (itemlist (item_at w c))" for j
        using that c by (simp add: contents_def)
      have sub: "\<forall>j \<in> set (rest @ subcontainers w js). j < length (heap w)" if "set js \<subseteq> set (itemlist (item_at w c))" for js
        using that cs Cons tree_okD(2) [OF t inside] by (auto simp: subcontainers_def)
      have oth: "set (others tr i (itemlist (item_at w c))) \<subseteq> set (itemlist (item_at w c))" for tr
        by (auto simp: others_def)
      have later: ?good if "search e w p stacking i flags (rest @ subcontainers w js) = Some r"
        "set js \<subseteq> set (itemlist (item_at w c))" for js
        using step.IH [OF that(1)] sub [OF that(2)] by simp
      have here: ?good if "r = Some (Item_ref c, k, toItem)" "\<forall>j. toItem = Some j \<longrightarrow> j \<in> set (itemlist (item_at w c))" for k toItem
        using that c inside by (simp add: valid_thing_def lies_in_def)
      show ?good
      proof (cases stacking)
        case False
        then show ?thesis using step.hyps later [of "itemlist (item_at w c)"] here
          by (auto simp: Cons w' Let_def bind_eq_Some_conv split: option.split_asm)
      next
        case True
        then show ?thesis using step.hyps later [OF _ oth] here stack_place_in
          by (auto simp: Cons w' Let_def bind_eq_Some_conv split: option.split_asm if_split_asm)
      qed
    }
  qed
  qed
  from this [OF r] cs show ?thesis by blast
qed

lemma in_slot_valid:
  assumes "tree_ok T w" and "p < length (holders w)" and "in_slot w p s = Some j"
  shows "j < length (heap w)"
  using tree_okD(2) [OF assms(1) in_slot_contents [OF assms(2,3)]] .

lemma search_slots_in:
  assumes t: "tree_ok T w" and p: "p < length (holders w)"
  shows "search_slots e w p stacking i flags cs slots = Some (found, ds) \<Longrightarrow> \<forall>c \<in> set cs. c < length (heap w) \<Longrightarrow>
    (\<forall>c \<in> set ds. c < length (heap w)) \<and> (\<forall>s j. found = Some (s, j) \<longrightarrow> j = in_slot w p s)"
proof (induction slots arbitrary: cs)
  case (Cons s slots)
  show ?case
  proof (cases "in_slot w p (int s)")
    case None
    then show ?thesis using Cons by (auto simp: bind_eq_Some_conv split: if_split_asm)
  next
    case (Some j)
    then have "j < length (heap w)" by (rule in_slot_valid [OF t p])
    then have more: "\<forall>c \<in> set (if is_container (item_at w j) then cs @ [j] else cs). c < length (heap w)"
      using Cons.prems(2) by simp
    then show ?thesis using Cons.prems Some Cons.IH [OF _ more] Cons.IH [of cs]
      by (auto simp: bind_eq_Some_conv split: if_split_asm)
  qed
qed simp

lemma player_destination:
  assumes t: "tree_ok T w" and p: "p < length (holders w)"
    and r: "player_queryDestination e w p index i flags = Some (s, k, toItem)"
  shows "valid_thing w s \<and> lies_in w s toItem \<and>
    (s = Player_ref p \<and> settled w s k toItem \<or> (\<exists>q. s = Item_ref q))"
proof (cases "index = 0 \<or> index = INDEX_WHEREEVER")
  case True
  define st where "st = (\<not> hasBitSet FLAG_IGNOREAUTOSTACK flags \<and> isStackable (types e) (item_at w i))"
  have "do { (found, cs) \<leftarrow> search_slots e w p st i flags [] [1..<11];
             case found of
               Some (s, j) \<Rightarrow> Some (Player_ref p, s, j)
             | None \<Rightarrow> do {
                 r \<leftarrow> search_containers e w p st i flags cs;
                 Some (case r of Some d \<Rightarrow> d | None \<Rightarrow> (Player_ref p, index, None)) } } = Some (s, k, toItem)"
    using r True unfolding player_queryDestination_def st_def Let_def by (simp only: if_True)
  then obtain found cs where f: "search_slots e w p st i flags [] [1..<11] = Some (found, cs)"
    and r': "(case found of Some (s, j) \<Rightarrow> Some (Player_ref p, s, j)
             | None \<Rightarrow> do {
                 r \<leftarrow> search_containers e w p st i flags cs;
                 Some (case r of Some d \<Rightarrow> d | None \<Rightarrow> (Player_ref p, index, None)) }) = Some (s, k, toItem)"
    unfolding bind_eq_Some_conv by auto
  have slots: "\<forall>c \<in> set cs. c < length (heap w)" "\<And>s j. found = Some (s, j) \<Longrightarrow> j = in_slot w p s"
    using search_slots_in [OF t p f] by simp_all
  show ?thesis
  proof (cases found)
    case None
    then obtain q where q: "search_containers e w p st i flags cs = Some q"
      "(case q of Some d \<Rightarrow> d | None \<Rightarrow> (Player_ref p, index, None)) = (s, k, toItem)"
      using r' by (auto simp: bind_eq_Some_conv)
    from search_containers_in [OF t q(1) slots(1)] q(2) show ?thesis using True p
      by (cases q) (auto simp: settled_def valid_thing_def INDEX_WHEREEVER_def)
  next
    case (Some a)
    then show ?thesis using r' slots(2) p in_slot_contents [OF p]
      by (cases a) (auto simp: settled_def valid_thing_def lies_in_def)
  qed
next
  case False
  then show ?thesis using r p in_slot_contents [OF p] in_slot_valid [OF t p]
    by (auto simp: player_queryDestination_def settled_def valid_thing_def lies_in_def split: option.split_asm if_split_asm)
qed

lemma item_destination:
  assumes t: "tree_ok T w"
  shows "final_destination (Suc n) e w (Item_ref c) index i toItem flags = Some (s, k, toItem') \<Longrightarrow>
    c < length (heap w) \<Longrightarrow> lies_in w (Item_ref c) toItem \<Longrightarrow>
    (\<exists>q. s = Item_ref q) \<and> valid_thing w s \<and> lies_in w s toItem' \<and> settled w s k toItem'"
proof (induction n arbitrary: c index toItem)
  case 0
  then obtain s' k' j' where q: "queryDestination e w (Item_ref c) index i toItem flags = Some (s', k', j')"
    and r: "s = s'" "k = k'" "toItem' = j'"
    by (auto simp: bind_eq_Some_conv split: if_split_asm)
  then have "container_queryDestination e w c index i toItem flags = Some (s', k', j')"
    by (simp add: queryDestination_def split: if_split_asm)
  from container_destination [OF t 0(2,3) this] show ?case using r by simp
next
  case (Suc n)
  from Suc.prems(1) obtain s' k' j' where q: "queryDestination e w (Item_ref c) index i toItem flags = Some (s', k', j')"
    and r: "(if s' = Item_ref c then Some (Item_ref c, k', j') else final_destination (Suc n) e w s' k' i j' flags) =
      Some (s, k, toItem')"
    by (subst (asm) final_destination.simps) (auto simp: bind_eq_Some_conv)
  then have "container_queryDestination e w c index i toItem flags = Some (s', k', j')"
    by (simp add: queryDestination_def split: if_split_asm)
  from container_destination [OF t Suc.prems(2,3) this] obtain c' where s': "s' = Item_ref c'" "c' < length (heap w)"
    "lies_in w s' j'" "settled w s' k' j'"
    by (auto simp: valid_thing_def)
  show ?case
  proof (cases "s' = Item_ref c")
    case True
    then show ?thesis using r s' Suc.prems(2) by (auto simp: valid_thing_def)
  next
    case False
    then show ?thesis using r s' Suc.IH [of c' k' j'] by simp
  qed
qed

lemma destination_settled:
  assumes t: "tree_ok T w" and v: "valid_thing w to"
    and r: "final_destination MAX_DESTINATIONS e w to index i None flags = Some (s, k, toItem)"
  shows "valid_thing w s \<and> lies_in w s toItem \<and> settled w s k toItem"
proof (cases to)
  case (Item_ref c)
  then show ?thesis using item_destination [OF t, of 15 e c index i None flags s k toItem] v r
    by (simp add: MAX_DESTINATIONS_def valid_thing_def eval_nat_numeral)
next
  case (Player_ref p)
  then have p: "p < length (holders w)" using v by (simp add: valid_thing_def)
  have m: "MAX_DESTINATIONS = Suc (Suc 14)" by (simp add: MAX_DESTINATIONS_def)
  from r [unfolded m final_destination.simps(2) [of "Suc 14"]] Player_ref obtain s' k' j' where q: "player_queryDestination e w p index i flags = Some (s', k', j')"
    and r': "(if s' = to then Some (to, k', j') else final_destination (Suc 14) e w s' k' i j' flags) = Some (s, k, toItem)"
    by (auto simp: bind_eq_Some_conv queryDestination_def simp del: final_destination.simps)
  from player_destination [OF t p q] show ?thesis
  proof (elim conjE disjE exE)
    assume "s' = Player_ref p" "valid_thing w s'" "lies_in w s' j'" "settled w s' k' j'"
    then show ?thesis using r' Player_ref by simp
  next
    fix c assume c: "s' = Item_ref c" "valid_thing w s'" "lies_in w s' j'"
    then have "final_destination (Suc 14) e w (Item_ref c) k' i j' flags = Some (s, k, toItem)" using r' Player_ref by simp
    from item_destination [OF t this] show ?thesis using c by (simp add: valid_thing_def)
  qed
next
  case (Tile_ref q)
  then show ?thesis using r by (simp add: MAX_DESTINATIONS_def eval_nat_numeral queryDestination_def)
qed

section \<open>The move is ready\<close>

lemma removal_granted:
  assumes "removal_refused e w index i cnt flags = RETURNVALUE_NOERROR"
  shows "index \<noteq> -1" and "0 < cnt" and "isStackable (types e) (item_at w i) \<Longrightarrow> cnt \<le> ucast (item_count (item_at w i))"
  using assms by (auto simp: removal_refused_def Let_def word_gt_0 not_less split: if_split_asm)

lemma queryRemove_yes:
  assumes "queryRemove e w t i cnt flags actor = Some RETURNVALUE_NOERROR" and "is_place w t"
  shows "i \<in> set (contents w t)" and "0 < cnt"
    and "isStackable (types e) (item_at w i) \<Longrightarrow> cnt \<le> ucast (item_count (item_at w i))"
proof -
  have "removal_refused e w (getThingIndex w t i) i cnt flags = RETURNVALUE_NOERROR"
    using assms by (auto simp: queryRemove_def is_place_def getThingIndex_def container_queryRemove_def
        player_queryRemove_def Let_def split: thing.split_asm if_split_asm)
  note g = removal_granted [OF this]
  show "i \<in> set (contents w t)" using g(1) thing_index_contents [OF assms(2)] by simp
  show "0 < cnt" "isStackable (types e) (item_at w i) \<Longrightarrow> cnt \<le> ucast (item_count (item_at w i))"
    using g by simp_all
qed

lemma no_free_slots:
  assumes "0 \<le> sint (m :: u32)" and "sint m < int n" and "n < 2 ^ 31"
  shows "sint (m - of_nat n) < 0"
proof -
  have "m - of_nat n = word_of_int (sint m - int n)" by simp
  then have "sint (m - of_nat n) = signed_take_bit 31 (sint m - int n)" by (simp only: signed_of_int) simp
  also have "\<dots> = sint m - int n" using assms by (intro signed_take_bit_int_eq_self) simp_all
  finally show ?thesis using assms by simp
qed

text \<open>In a container with more items than places only stacks grow.\<close>

lemma overfull_count:
  assumes t: "tree_ok T w" and c: "c < length (heap w)" and few: "length (heap w) < 2 ^ 31" and f: "plain_flags flags"
    and j: "getItemByIndex w c index = Some j" and over: "sint (maxSize (item_at w c)) \<le> index"
    and q: "container_queryMaxCount e w c index i cnt flags = Some (ret, m)" and m: "m \<noteq> 0"
  shows "isStackable (types e) (item_at w i)" and "equals (item_at w i) (Some (item_at w j))"
    and "unat m + unat (item_count (item_at w j)) = ITEM_STACK_SIZE"
proof -
  let ?box = "item_at w c" and ?cj = "item_count (item_at w j)"
  have ix: "0 \<le> index" "nat index < length (itemlist ?box)" using j by (auto simp: getItemByIndex_def split: if_splits)
  have "distinct (itemlist ?box)" "set (itemlist ?box) \<subseteq> {..<length (heap w)}"
    using tree_okD(1) [OF t, of "Item_ref c"] tree_okD(2) [OF t, of _ "Item_ref c"] c by (auto simp: contents_def)
  then have "length (itemlist ?box) \<le> length (heap w)"
    using card_mono [of "{..<length (heap w)}" "set (itemlist ?box)"] by (simp add: distinct_card)
  then have "sint (maxSize ?box - of_nat (length (itemlist ?box))) < 0"
    using tree_okD(8) [OF t c] over ix few by (intro no_free_slots) simp_all
  then have zero: "max 0 (sint (maxSize ?box - of_nat (length (itemlist ?box)))) = 0" by simp
  have nl: "\<not> hasBitSet FLAG_NOLIMIT flags" using f by (simp add: plain_flags_def)
  have ne: "index \<noteq> INDEX_WHEREEVER" using ix by (simp add: INDEX_WHEREEVER_def)
  show st: "isStackable (types e) (item_at w i)"
    using q m nl by (simp add: container_queryMaxCount_def Let_def zero split: if_split_asm)
  then have fits: "equals (item_at w i) (Some (item_at w j)) \<and> unat ?cj < ITEM_STACK_SIZE"
    "m = of_nat (ITEM_STACK_SIZE - unat ?cj)"
    using q m nl ne j by (auto simp: container_queryMaxCount_def Let_def zero bind_eq_Some_conv split: if_split_asm)
  then show "equals (item_at w i) (Some (item_at w j))" by simp
  have "unat m = ITEM_STACK_SIZE - unat ?cj"
    unfolding fits(2) by (simp add: unsigned_of_nat ITEM_STACK_SIZE_def take_bit_nat_eq_self)
  then show "unat m + unat ?cj = ITEM_STACK_SIZE" using fits(1) by simp
qed

text \<open>In a slot with an item, only an equal stack has room.\<close>

lemma slot_count:
  assumes j: "in_slot w p index = Some j" and ix: "1 \<le> index"
    and q: "player_queryMaxCount e w p index i cnt flags = Some (ret, m)" and m: "m \<noteq> 0"
  shows "isStackable (types e) (item_at w i)" and "equals (item_at w i) (Some (item_at w j))"
    and "unat m + unat (item_count (item_at w j)) = ITEM_STACK_SIZE"
proof -
  let ?cj = "item_count (item_at w j)"
  have fits: "isStackable (types e) (item_at w j) \<and> equals (item_at w i) (Some (item_at w j)) \<and> unat ?cj < ITEM_STACK_SIZE"
    "m = of_nat (100 - unat ?cj)"
    using q j ix m by (auto simp: player_queryMaxCount_def INDEX_WHEREEVER_def Let_def split: if_split_asm)
  then show "isStackable (types e) (item_at w i)" "equals (item_at w i) (Some (item_at w j))"
    using equals_stackable by blast+
  have "unat m = 100 - unat ?cj"
    unfolding fits(2) by (simp add: unsigned_of_nat take_bit_nat_eq_self)
  then show "unat m + unat ?cj = ITEM_STACK_SIZE" using fits(1) by (simp add: ITEM_STACK_SIZE_def)
qed

lemma queryAdd_yes:
  assumes t: "tree_ok (types e) w" and v: "valid_thing w to" and f: "plain_flags flags" and i: "i < length (heap w)"
    and yes: "queryAdd e w to index i cnt flags actor = Some RETURNVALUE_NOERROR"
  shows "is_place w to" and "\<not> fixed (item_at w i)"
    and "to = Item_ref c \<Longrightarrow> (c, i) \<notin> (parent_rel w)\<^sup>*"
    and "to = Player_ref p \<Longrightarrow> 1 \<le> index \<and> index \<le> 10"
proof -
  have p: "isPickupable (types e) (item_at w i)"
    using yes v container_queryAdd_yes [OF t _ f i refl] player_queryAdd_yes [OF f]
    by (auto simp: queryAdd_def valid_thing_def split: thing.split_asm if_split_asm)
  then show "\<not> fixed (item_at w i)" using tree_okD(5) [OF t i] by (auto simp: fixed_ok_def)
  show "is_place w to" using yes v by (auto simp: queryAdd_def valid_thing_def is_place_def split: thing.split_asm if_split_asm)
  show "to = Item_ref c \<Longrightarrow> (c, i) \<notin> (parent_rel w)\<^sup>*"
    using yes v container_queryAdd_yes(2) [OF t _ f i refl]
    by (auto simp: queryAdd_def valid_thing_def split: if_split_asm)
  show "to = Player_ref p \<Longrightarrow> 1 \<le> index \<and> index \<le> 10"
    using yes player_queryAdd_yes(2,3) [OF f] by (auto simp: queryAdd_def)
qed

lemma answers_ready:
  assumes w: "store_ok (types e) w" and few: "length (heap w) < 2 ^ 31" and f: "plain_flags flags"
    and fr: "is_place w from" and v: "valid_thing w to" and i: "i < length (heap w)"
    and d: "lies_in w to toItem" "settled w to index toItem" "toItem \<noteq> Some i"
    and add: "queryAdd e w to index i cnt flags actor' = Some RETURNVALUE_NOERROR"
    and count: "queryMaxCount e w to index i cnt flags = Some (ret, m)"
    and n: "n = (if isStackable (types e) (item_at w i) then min cnt m else m)"
    and remove: "queryRemove e w from i n flags actor = Some RETURNVALUE_NOERROR"
  shows "move_ready e w from to index i toItem n"
proof -
  note t = store_okD(1) [OF w]
  note a = queryAdd_yes [OF t v f i add] and r = queryRemove_yes [OF remove fr]
  have m: "m \<noteq> 0" and nm: "n \<le> m" using r(2) n by (auto split: if_split_asm)
  have grow: "room_for w to index i \<or>
      (\<exists>j. toItem = Some j \<and> isStackable (types e) (item_at w i) \<and> equals (item_at w i) (Some (item_at w j)) \<and>
           unat n + unat (item_count (item_at w j)) \<le> ITEM_STACK_SIZE)"
  proof (cases to)
    case (Item_ref c)
    have c: "c < length (heap w)" "is_container (item_at w c)" using a(1) Item_ref by (simp_all add: is_place_def)
    show ?thesis
    proof (cases "index < sint (maxSize (item_at w c))")
      case True
      then show ?thesis using a(3) Item_ref by (simp add: room_for_def)
    next
      case False
      have "unlocked (item_at w c)"
      proof (rule ccontr)
        assume l: "\<not> unlocked (item_at w c)"
        then have "item_class (item_at w c) \<noteq> Store_Inbox" using tree_okD(5) [OF t c(1)] by (auto simp: fixed_ok_def)
        then show False using add f l Item_ref c
          by (auto simp: queryAdd_def container_queryAdd_def class_queryAdd_def Container_queryAdd_def plain_flags_def Let_def
              bind_eq_Some_conv split: item_class.split_asm if_split_asm)
      qed
      then obtain j where j: "toItem = Some j" "getItemByIndex w c index = Some j"
        using d(2) False by (auto simp: settled_def Item_ref)
      have "container_queryMaxCount e w c index i cnt flags = Some (ret, m)"
        using count c by (simp add: queryMaxCount_def Item_ref)
      note o = overfull_count [OF t c(1) few f j(2) _ this m]
      have "unat n \<le> unat m" using nm by (simp add: word_le_nat_alt)
      then show ?thesis using o False j(1) by auto
    qed
  next
    case (Player_ref p)
    have ix: "1 \<le> index" "index \<le> 10" using a(4) Player_ref by simp_all
    show ?thesis
    proof (cases "in_slot w p index")
      case None
      then show ?thesis using ix by (simp add: room_for_def Player_ref)
    next
      case (Some j)
      then have "toItem = Some j" using d(2) ix by (simp add: settled_def Player_ref)
      moreover have "unat n \<le> unat m" using nm by (simp add: word_le_nat_alt)
      moreover have "player_queryMaxCount e w p index i cnt flags = Some (ret, m)"
        using count by (simp add: queryMaxCount_def Player_ref)
      note slot_count [OF Some ix(1) this m]
      ultimately show ?thesis by auto
    qed
  next
    case (Tile_ref q)
    then show ?thesis using a(1) by (simp add: is_place_def)
  qed
  then show ?thesis using a(1,2) r fr d by (auto simp: move_ready_def lies_in_def)
qed

end
