(* ===== verification/Move_Theorems.thy ===== *)
theory Move_Theorems
  imports Move_Answers
begin

text \<open>
  The theorems about \<open>internalMoveItem\<close>: a move that is not an unsafe split keeps the store well formed and the
  number of items of each type, and an unsafe split does not. The last section has a small store for examples.
\<close>

section \<open>Notifications and decay\<close>

text \<open>Two stores with the same items in the same places, of the same weight.\<close>

definition alike :: "store \<Rightarrow> store \<Rightarrow> bool" where
  "alike v w \<longleftrightarrow> same_tree v w \<and> (\<forall>j. item_count (item_at v j) = item_count (item_at w j) \<and>
     totalWeight (item_at v j) = totalWeight (item_at w j) \<and> (\<forall>T. getWeight T (item_at v j) = getWeight T (item_at w j)))"

lemma alike_refl [simp]: "alike w w"
  by (simp add: alike_def)

lemma alike_trans: "alike u v \<Longrightarrow> alike v w \<Longrightarrow> alike u w"
  by (auto simp: alike_def intro: same_tree_trans)

lemma alike_ok:
  assumes a: "alike v w" and w: "store_ok T w"
  shows "store_ok T v" and "amount v ty = amount w ty" and "placed v = placed w"
proof -
  from a have s: "same_tree v w" and n: "\<And>j. item_count (item_at v j) = item_count (item_at w j)"
    and x: "\<And>j. totalWeight (item_at v j) = totalWeight (item_at w j)"
    and g: "\<And>T j. getWeight T (item_at v j) = getWeight T (item_at w j)" by (auto simp: alike_def)
  have "weight_ok T v c = weight_ok T w c" for c
    using same_load [of T v w] by (simp add: weight_ok_def same_tree_simps(6,9,10) [OF s] x g)
  moreover have "stack_ok T (item_at v c) = stack_ok T (item_at w c)" for c
    by (simp add: stack_ok_def same_tree_simps(9,13) [OF s] n)
  ultimately show "store_ok T v" using w same_tree_ok [OF s] same_tree_simps(1) [OF s] by (simp add: store_ok_def)
  show p: "placed v = placed w" by (rule same_tree_placed [OF s])
  show "amount v ty = amount w ty"
    unfolding amount_def p by (simp add: same_tree_simps(4) [OF s] n)
qed

lemma alike_heap:
  assumes "heap v = heap w" and "map inventory (holders v) = map inventory (holders w)"
  shows "alike v w"
proof -
  have "item_at v j = item_at w j" for j using assms(1) by (simp add: item_at_def)
  then show ?thesis using assms by (simp add: alike_def same_tree_def)
qed

lemma updateInventoryWeight_alike: "alike (updateInventoryWeight e p w) w"
proof (rule alike_heap)
  have "inventory (f (holders w ! q)) = inventory (holders w ! q)" if "\<And>h. inventory (f h) = inventory h" for f q
    using that by simp
  show "map inventory (holders (updateInventoryWeight e p w)) = map inventory (holders w)"
    by (cases "p < length (holders w)")
      (simp_all add: updateInventoryWeight_def Let_def map_update list_update_beyond list_update_same_conv)
qed (simp add: updateInventoryWeight_def Let_def)

lemma notify_alike:
  assumes "notify e t linked w = Some v"
  shows "alike v w"
  using assms
proof (induction rule: notify.raw_induct [rotated, consumes 1, case_names step])
  case (step notify e t linked w v)
  show ?case
  proof (cases t)
    case (Item_ref c)
    show ?thesis
    proof (cases "item_class (item_at w c) = Container")
      case True
      then obtain top where "getTopParent w c = Some top" and
        top: "(case top of None \<Rightarrow> Some w
          | Some t' \<Rightarrow> if t' = Item_ref c then do { tile \<leftarrow> item_getTile w t'; Some w }
              else (case t' of Player_ref p \<Rightarrow> notify e t' True w | _ \<Rightarrow> notify e t' False w)) = Some v"
        using step.hyps Item_ref by (auto simp: bind_eq_Some_conv)
      show ?thesis
      proof (cases top)
        case None
        then show ?thesis using top by simp
      next
        case (Some t')
        then show ?thesis using top step.IH [of _ t' _ w v] by (cases "t' = Item_ref c"; cases t') (auto simp: bind_eq_Some_conv)
      qed
    next
      case False
      then show ?thesis using step.hyps Item_ref step.IH
        by (cases "is_container (item_at w c)") (auto simp: bind_eq_Some_conv split: option.split_asm)
    qed
  next
    case (Player_ref p)
    then show ?thesis using step.hyps updateInventoryWeight_alike by (auto split: if_split_asm)
  next
    case (Tile_ref q)
    then show ?thesis using step.hyps by simp
  qed
qed

lemma notify_if_there_alike: "notify_if_there e t m w = Some v \<Longrightarrow> alike v w"
  by (auto simp: notify_if_there_def intro: notify_alike split: option.split_asm if_split_asm)

lemma find_attr_append: "a_type y \<noteq> t \<Longrightarrow> find_attr t (xs @ [y]) = find_attr t xs"
  by (induction xs) simp_all

lemma find_attr_update: "k < length xs \<Longrightarrow> a_type y = a_type (xs ! k) \<Longrightarrow> find_attr t (xs[k := y]) = find_attr t xs"
  by (induction xs arbitrary: k) (auto split: nat.split)

lemma set_value_other:
  assumes "t \<noteq> u"
  shows "getExistingAttr t (set_value u f a) = getExistingAttr t a" and "hasAttribute t (set_value u f a) = hasAttribute t a"
proof -
  have ne: "attr_index u \<noteq> attr_index t" using assms by (simp add: attr_index_inj)
  show has: "hasAttribute t (set_value u f a) = hasAttribute t a"
    using ne attr_index_less [of t]
    by (auto simp: set_value_def getAttr_def Let_def hasAttribute_bit flag_def bit_simps split: option.split)
  show "getExistingAttr t (set_value u f a) = getExistingAttr t a"
  proof (cases "if hasAttribute u a then find_attr u (attribute_list a) else None")
    case None
    then have l: "attribute_list (set_value u f a) =
        attribute_list a @ [\<lparr>a_type = u, a_value = f (zero_value u)\<rparr>]"
      by (simp add: set_value_def getAttr_def Let_def)
    have "find_attr t (attribute_list (set_value u f a)) = find_attr t (attribute_list a)"
      unfolding l using assms by (intro find_attr_append) simp
    then show ?thesis
      using find_attr_Some by (auto simp: getExistingAttr_def has l nth_append dest: find_attr_Some intro!: option.map_cong0)
  next
    case (Some k)
    then have k: "k < length (attribute_list a)" "a_type (attribute_list a ! k) = u"
      using find_attr_Some [of u "attribute_list a" k] by (simp_all split: if_split_asm)
    have l: "attribute_list (set_value u f a) =
        (attribute_list a)[k := (attribute_list a ! k)\<lparr>a_value := f (a_value (attribute_list a ! k))\<rparr>]"
      using Some by (simp add: set_value_def getAttr_def Let_def)
    have fa: "find_attr t (attribute_list (set_value u f a)) = find_attr t (attribute_list a)"
      unfolding l by (rule find_attr_update [OF k(1)]) simp
    show ?thesis
    proof (cases "find_attr t (attribute_list a)")
      case None
      then show ?thesis using fa by (simp add: getExistingAttr_def has)
    next
      case (Some n)
      then have "n \<noteq> k" using find_attr_Some [OF Some] k assms by auto
      then show ?thesis using fa Some by (simp add: getExistingAttr_def has l)
    qed
  qed
qed

lemma setIntAttr_other:
  assumes "t \<noteq> u"
  shows "item_hasAttribute t (item_setIntAttr u v x) = item_hasAttribute t x"
    and "item_getIntAttr t (item_setIntAttr u v x) = item_getIntAttr t x"
  using set_value_other [OF assms]
  by (cases "item_attrs x"; simp add: item_hasAttribute_def item_getIntAttr_def item_setIntAttr_def getAttributes_def
      setIntAttr_def getIntAttr_def hasAttribute_def [of _ no_attributes] getExistingAttr_def [of _ no_attributes]
      no_attributes_def [THEN arg_cong [where f = attributeBits]] Let_def)+

lemma setDecaying_weight: "getWeight T (setDecaying s x) = getWeight T x"
proof -
  have o: "item_hasAttribute ITEM_ATTRIBUTE_WEIGHT (setDecaying s x) = item_hasAttribute ITEM_ATTRIBUTE_WEIGHT x"
    "item_getIntAttr ITEM_ATTRIBUTE_WEIGHT (setDecaying s x) = item_getIntAttr ITEM_ATTRIBUTE_WEIGHT x"
    unfolding setDecaying_def by (rule setIntAttr_other; simp)+
  have k: "item_id (setDecaying s x) = item_id x" "item_count (setDecaying s x) = item_count x"
    "item_class (setDecaying s x) = item_class x" "totalWeight (setDecaying s x) = totalWeight x"
    by (simp_all add: setDecaying_def item_setIntAttr_def)
  show ?thesis unfolding getWeight_def item_getWeight_def getBaseWeight_def isStackable_def item_type_of_def is_container_def o k
    by (rule refl)
qed

lemma start_decay_alike: "alike (start_decay m w) w"
proof (cases "m < length (heap w)")
  case True
  have k: "keeps_item (setDecaying DECAYING_TRUE) x" "item_count (setDecaying DECAYING_TRUE x) = item_count x" for x
    using setIntAttr_keeps by (simp_all add: setDecaying_def keeps_item_def)
  have "alike (upd_item m (setDecaying DECAYING_TRUE) w) w"
    using upd_item_same_tree [OF k(1)] k by (simp add: alike_def item_at_upd setDecaying_weight keeps_item_def)
  then show ?thesis by (simp add: start_decay_def)
next
  case False
  then have "upd_item m f w = w" for f by (simp add: upd_item_def list_update_beyond)
  then show ?thesis by (simp add: start_decay_def)
qed

section \<open>The transfer and what follows it\<close>

lemma carry_out_ok:
  assumes "store_ok (types e) w" and "types_ok (types e)" and "move_ready e w from to index i toItem n"
    and "\<not> split_unsafe e w i toItem n"
    and run: "carry_out e from to index i toItem cnt m n r w = Some (ret, moved, v)"
  shows "store_ok (types e) v \<and> (\<forall>ty. amount v ty = amount w ty)"
proof -
  obtain k u x where x: "transfer e from to index i toItem n w = Some (k, u, x)" "store_ok (types e) x"
      "\<forall>ty. amount x ty = amount w ty"
    using transfer_ok [OF assms(1-4)] by blast
  obtain x1 x2 x3 where "(if getThingIndex w from i \<noteq> -1 then notify e from True x else Some x) = Some x1"
    "notify_if_there e to k x1 = Some x2" "notify_if_there e to u x2 = Some x3"
    "v = x3 \<or> (\<exists>q. v = start_decay q x3)"
    using run x(1) by (auto simp: carry_out_def Let_def bind_eq_Some_conv split: if_split_asm option.split_asm)
  then have a: "alike x1 x" "alike x2 x1" "alike x3 x2" and v: "v = x3 \<or> (\<exists>q. v = start_decay q x3)"
    by (auto split: if_split_asm dest: notify_alike notify_if_there_alike)
  have "alike x3 x" using a by (blast intro: alike_trans)
  then have "alike v x" using v start_decay_alike by (blast intro: alike_trans)
  then show ?thesis using alike_ok [OF _ x(2)] x(3) by simp
qed

lemma no_more_answers:
  assumes run: "move_checked e from to index i toItem cnt flags actor traded w = Some (ret, moved, v)"
  obtains (unchanged) "v = w"
  | (moved) r m n where "queryMaxCount e w to index i cnt flags = Some (r, m)"
      and "n = (if isStackable (types e) (item_at w i) then min cnt m else m)"
      and "queryRemove e w from i n flags actor = Some RETURNVALUE_NOERROR"
      and "carry_out e from to index i toItem cnt m n r w = Some (ret, moved, v)"
  using run by (auto simp: move_checked_def Let_def bind_eq_Some_conv split: if_split_asm)

lemma move_checked_ok:
  assumes w: "store_ok (types e) w" and T: "types_ok (types e)" and few: "length (heap w) < 2 ^ 31" and f: "plain_flags flags"
    and fr: "is_place w from" and v: "valid_thing w to" and i: "i < length (heap w)"
    and d: "lies_in w to toItem" "settled w to index toItem" "toItem \<noteq> Some i"
    and yes: "queryAdd e w to index i cnt flags actor' = Some RETURNVALUE_NOERROR"
    and safe: "\<And>r m. queryMaxCount e w to index i cnt flags = Some (r, m) \<Longrightarrow> \<not> split_unsafe e w i toItem (min cnt m)"
    and run: "move_checked e from to index i toItem cnt flags actor traded w = Some (ret, moved, v')"
  shows "store_ok (types e) v' \<and> (\<forall>ty. amount v' ty = amount w ty)"
  using run
proof (cases rule: no_more_answers)
  case unchanged
  then show ?thesis using w by simp
next
  case (moved r m n)
  have "move_ready e w from to index i toItem n"
    by (rule answers_ready [OF w few f fr v i d yes moved(1-3)])
  moreover have "\<not> split_unsafe e w i toItem n"
    using safe [OF moved(1)] moved(2) by (auto simp: split_unsafe_def split: option.splits)
  ultimately show ?thesis using carry_out_ok [OF w T _ _ moved(4)] by blast
qed

section \<open>The exchange\<close>

lemma cannot_dress_answer: "cannot_dress e sp \<noteq> RETURNVALUE_NEEDEXCHANGE"
  by (simp add: cannot_dress_def)

lemma classic_hand_answer: "classic_hand e w p k i cnt \<noteq> RETURNVALUE_NEEDEXCHANGE"
  by (simp add: classic_hand_def Let_def split: option.split)

lemma hand_answers: "right_hand e w p i cnt \<noteq> RETURNVALUE_NEEDEXCHANGE" "left_hand e w p i cnt \<noteq> RETURNVALUE_NEEDEXCHANGE"
  by (simp_all add: right_hand_def left_hand_def Let_def classic_hand_answer split: option.split)

lemma slot_answer_answer: "slot_answer e w p index i cnt \<noteq> RETURNVALUE_NEEDEXCHANGE"
  using cannot_dress_answer hand_answers by (simp add: slot_answer_def Let_def)

lemma parent_refuses_answer: "parent_refuses e w c index i flags ps \<noteq> Some RETURNVALUE_NEEDEXCHANGE"
proof -
  have "scan_parents w b i ps \<noteq> Some RETURNVALUE_NEEDEXCHANGE" for b by (induction ps) auto
  then show ?thesis by (auto simp: parent_refuses_def Let_def split: list.split option.split)
qed

lemma class_answer: "base \<noteq> Some RETURNVALUE_NEEDEXCHANGE \<Longrightarrow> class_queryAdd e w c i cnt flags base \<noteq> Some RETURNVALUE_NEEDEXCHANGE"
  by (simp add: class_queryAdd_def Let_def bind_eq_Some_conv split: item_class.split)

lemma owner_answer: "owner_queryAdd e w t i cnt flags \<noteq> Some RETURNVALUE_NEEDEXCHANGE"
  by (simp add: owner_queryAdd_def class_answer bind_eq_Some_conv split: thing.split)

lemma container_answer: "container_queryAdd e w c index i cnt flags actor \<noteq> Some RETURNVALUE_NEEDEXCHANGE"
proof -
  have "Container_queryAdd e w c index i cnt flags actor \<noteq> Some RETURNVALUE_NEEDEXCHANGE"
  proof
    assume a: "Container_queryAdd e w c index i cnt flags actor = Some RETURNVALUE_NEEDEXCHANGE"
    then obtain ps where ps: "ancestors w (Item_ref c) = Some ps"
      by (cases "ancestors w (Item_ref c)") (simp_all add: Container_queryAdd_def Let_def split: if_split_asm)
    show False
    proof (cases "parent_refuses e w c index i flags ps")
      case None
      then show False using a ps owner_answer
        by (cases "getTopParent w c") (auto simp: Container_queryAdd_def Let_def split: if_split_asm option.split_asm)
    next
      case (Some r)
      then show False using a ps parent_refuses_answer [of e w c index i flags ps]
        by (simp add: Container_queryAdd_def Let_def split: if_split_asm)
    qed
  qed
  then show ?thesis unfolding container_queryAdd_def by (rule class_answer)
qed

lemma exchange_asked:
  assumes eq: "\<And>p i s. onPlayerEquip e p i s \<noteq> RETURNVALUE_NEEDEXCHANGE" and f: "plain_flags flags"
    and ask: "queryAdd e w to index i cnt flags actor = Some RETURNVALUE_NEEDEXCHANGE"
  obtains p j where "to = Player_ref p" and "in_slot w p index = Some j" and "1 \<le> index" "index \<le> 10"
    and "\<not> (isStackable (types e) (item_at w j) \<and> item_id (item_at w j) = item_id (item_at w i))"
proof (cases to)
  case (Player_ref p)
  then have a: "player_queryAdd e w p index i cnt flags = Some RETURNVALUE_NEEDEXCHANGE" using ask by (simp add: queryAdd_def)
  obtain enough where cap: "hasCapacity e w p i cnt = Some enough"
    using a f slot_answer_answer [of e w p index i cnt]
    by (cases "hasCapacity e w p i cnt") (auto simp: player_queryAdd_def plain_flags_def Let_def split: if_split_asm)
  show ?thesis
  proof (cases "in_slot w p index")
    case None
    then show ?thesis using a f cap eq slot_answer_answer [of e w p index i cnt]
      by (simp add: player_queryAdd_def plain_flags_def Let_def split: if_split_asm)
  next
    case (Some j)
    then have "1 \<le> index" "index \<le> 10" by (auto simp: in_slot_def slot_defs split: if_split_asm)
    moreover have "\<not> (isStackable (types e) (item_at w j) \<and> item_id (item_at w j) = item_id (item_at w i))"
      using a f cap eq Some slot_answer_answer [of e w p index i cnt]
      by (auto simp: player_queryAdd_def plain_flags_def Let_def split: if_split_asm)
    ultimately show ?thesis using that Player_ref Some by blast
  qed
qed (use ask container_answer in \<open>auto simp: queryAdd_def split: if_split_asm\<close>)

lemma index_names_slot:
  assumes "player_getThingIndex w p i = k" and "1 \<le> k"
  shows "in_slot w p k = Some i"
proof -
  obtain s where s: "find (\<lambda>s. inventory (holders w ! p) ! s = Some i) [1..<11] = Some s" "k = int s"
    using assms by (auto simp: player_getThingIndex_def split: option.split_asm)
  then have "inventory (holders w ! p) ! s = Some i" "s \<in> set [1..<11]" by (auto simp: find_Some_iff in_set_conv_nth)
  then show ?thesis using s(2) by (auto simp: in_slot_def slot_defs)
qed

text \<open>The item in the slot is put where the moved item comes from, and the slot is empty then.\<close>

lemma exchange_done:
  assumes w: "store_ok (types e) w" and fr: "is_place w from" and p: "p < length (holders w)" and i: "i < length (heap w)"
    and cap: "\<And>c. from = Item_ref c \<Longrightarrow> 0 < sint (maxSize (item_at w c))"
    and j: "in_slot w p index = Some j" "1 \<le> index" "index \<le> 10"
    and ne: "\<not> (isStackable (types e) (item_at w j) \<and> item_id (item_at w j) = item_id (item_at w i))"
    and yes: "queryAdd e w from (getThingIndex w from i) j n 0 None = Some RETURNVALUE_NOERROR"
  obtains u v where "removeThing e (Player_ref p) j (ucast (item_count (item_at w j))) w = Some u"
    and "addThing_anywhere e from j u = Some v" and "store_ok (types e) v"
    and "\<And>ty. amount v ty = amount w ty" and "same_kinds v w" and "in_slot v p index = None"
proof -
  note t = store_okD(1) [OF w]
  have pf: "plain_flags 0" by (simp add: plain_flags_def hasBitSet_def)
  have jp: "j \<in> set (contents w (Player_ref p))" by (rule in_slot_contents [OF p j(1)])
  then have jl: "j < length (heap w)" by (rule tree_okD(2) [OF t])
  have vf: "valid_thing w from" using fr by (auto simp: valid_thing_def is_place_def split: thing.splits)
  note a = queryAdd_yes [OF t vf pf jl yes]
  obtain c where c: "from = Item_ref c"
  proof (cases "from")
    case (Player_ref q)
    then have pa: "player_queryAdd e w q (player_getThingIndex w q i) j n 0 = Some RETURNVALUE_NOERROR"
      using yes by (simp add: queryAdd_def getThingIndex_def)
    have "in_slot w q (player_getThingIndex w q i) = Some i"
      using a(4) Player_ref by (intro index_names_slot [OF refl]) (simp add: getThingIndex_def)
    then have "isStackable (types e) (item_at w i) \<and> item_id (item_at w i) = item_id (item_at w j)"
      using player_queryAdd_yes(4) [OF pf pa] by blast
    then show ?thesis using ne by (auto simp: isStackable_def item_type_of_def)
  qed (use fr that in \<open>auto simp: is_place_def\<close>)
  have cl: "c < length (heap w)" "is_container (item_at w c)" using fr c by (simp_all add: is_place_def)
  have pl: "is_place w (Player_ref p)" using p by (simp add: is_place_def)
  obtain u where u: "removeThing e (Player_ref p) j (ucast (item_count (item_at w j))) w = Some u" "store_ok (types e) u"
    "removed w j u"
    using removeThing_whole [OF w pl jp a(2) refl] by blast
  have ku: "same_kinds u w" and free: "free_item u j" using u(3) by (simp_all add: removed_def)
  have take: "can_take u from 0 j"
    by (rule removed_can_take [OF u(3) jl]) (use cl c a(3) cap in \<open>simp add: can_take_def\<close>)
  then have take': "c < length (heap u)" "is_container (item_at u c)" "(c, j) \<notin> (parent_rel u)\<^sup>*" "0 < sint (maxSize (item_at u c))"
    by (simp_all add: can_take_def c)
  obtain v where v: "addThing e from 0 j u = Some v" "store_ok (types e) v" "same_kinds v u"
    "\<And>x. set (contents v x) = (if x = from then insert j (set (contents u x)) else set (contents u x))"
    "\<And>k. item_count (item_at v k) = item_count (item_at u k)"
    using addThing_ok [OF u(2) free take] by blast
  have hv: "holders v = holders u"
    using container_addThing_ok [OF u(2) free take'] v(1) take'(2) by (simp add: addThing_def c) metis
  have "in_slot u p index \<noteq> Some j"
    using in_slot_contents [of p u index j] p same_kinds_simps(2) [OF ku] u(3) by (auto simp: removed_def)
  moreover have "in_slot u p index = in_slot w p index \<or> in_slot u p index = None" using u(3) by (simp add: removed_def)
  ultimately have "in_slot v p index = None" using j(1) in_slot_holders [OF hv] by auto
  moreover have "addThing_anywhere e from j u = Some v" using v(1) by (simp add: addThing_def addThing_anywhere_def c)
  moreover have "amount v ty = amount w ty" for ty
  proof -
    have "j \<in> placed w" using jp by (auto simp: placed_def)
    then have "amount w ty = amount u ty + share w ty j" by (rule removed_amount [OF t u(3)])
    moreover have "amount v ty = amount u ty + share u ty j"
      using free_not_placed [OF store_okD(1) [OF u(2)] free] v(4,5)
      by (intro added_amount [OF store_okD(1) [OF u(2)] v(3), of j "from"]) auto
    moreover have "share u ty j = share w ty j"
      using u(3) by (intro same_share [OF ku]) (simp add: removed_def)
    ultimately show ?thesis by simp
  qed
  ultimately show ?thesis using that u(1) v(2) same_kinds_trans [OF v(3) ku] by blast
qed

lemma exchange_cases:
  assumes run: "exchange e from to index i toItem cnt flags actor moveBack w = Some (ret, toItem', v)"
  obtains (refused) "v = w" and "ret \<noteq> RETURNVALUE_NOERROR"
  | (kept) "v = w" and "toItem' = toItem"
  | (finished) j u x n where "toItem = Some j" and "n = ucast (item_count (item_at w j))"
      and "queryAdd e w from (getThingIndex w from i) j n 0 None = Some RETURNVALUE_NOERROR"
      and "removeThing e to j n w = Some u" and "addThing_anywhere e from j u = Some x" and "alike v x"
      and "toItem' = None" and "queryAdd e v to index i cnt flags None = Some ret"
proof -
  obtain j where j: "toItem = Some j" using run by (auto simp: exchange_def split: option.split_asm)
  let ?n = "ucast (item_count (item_at w j))"
  obtain a where a: "queryAdd e w from (getThingIndex w from i) j ?n 0 None = Some a"
    using run by (auto simp: exchange_def j Let_def bind_eq_Some_conv)
  show ?thesis
  proof (cases "a \<noteq> RETURNVALUE_NOERROR \<or> moveBack \<noteq> RETURNVALUE_NOERROR")
    case True
    then show ?thesis using run a by (intro refused) (auto simp: exchange_def j Let_def split: if_split_asm)
  next
    case False
    then obtain b m where b: "queryMaxCount e w from INDEX_WHEREEVER j ?n 0 = Some (b, m)"
      using run a by (auto simp: exchange_def j Let_def bind_eq_Some_conv)
    show ?thesis
    proof (cases "b \<noteq> RETURNVALUE_NOERROR \<and> m = 0")
      case True
      then show ?thesis using run a b False by (intro refused) (auto simp: exchange_def j Let_def)
    next
      case more: False
      obtain r where r: "queryRemove e w to j ?n flags actor = Some r"
        using run a b False more by (auto simp: exchange_def j Let_def bind_eq_Some_conv)
      show ?thesis
      proof (cases "r = RETURNVALUE_NOERROR")
        case False
        then show ?thesis using run a b r \<open>\<not> (a \<noteq> _ \<or> _)\<close> more by (intro kept) (auto simp: exchange_def j Let_def)
      next
        case True
        define n1 where "n1 x = (if getThingIndex w to j \<noteq> -1 then notify e to True x else Some x)" for x
        define n2 where "n2 x = (if getThingIndex x from j \<noteq> -1 then notify e from True x else Some x)" for x
        have "do { u \<leftarrow> removeThing e to j ?n w; x \<leftarrow> addThing_anywhere e from j u; x1 \<leftarrow> n1 x; x2 \<leftarrow> n2 x1;
            ret \<leftarrow> queryAdd e x2 to index i cnt flags None; Some (ret, None, x2) } = Some (ret, toItem', v)"
          using run a b r True \<open>\<not> (a \<noteq> _ \<or> _)\<close> more
          by (simp add: exchange_def j Let_def n1_def n2_def cong: if_cong)
        then obtain u x x1 where st: "removeThing e to j ?n w = Some u" "addThing_anywhere e from j u = Some x"
          "n1 x = Some x1" "n2 x1 = Some v" "queryAdd e v to index i cnt flags None = Some ret" "toItem' = None"
          by (auto simp: bind_eq_Some_conv)
        then have "alike x1 x" "alike v x1"
          by (auto simp: n1_def n2_def split: if_split_asm dest: notify_alike)
        then have al: "alike v x" by (blast intro: alike_trans)
        show ?thesis
          by (rule finished [OF j refl _ st(1,2) al st(6,5)]) (use a \<open>\<not> (a \<noteq> _ \<or> _)\<close> in simp)
      qed
    qed
  qed
qed

lemma alike_kinds: "alike v w \<Longrightarrow> same_kinds v w"
  by (simp add: alike_def same_tree_kinds)

lemma alike_slots:
  assumes a: "alike v w" and p: "p < length (holders w)"
  shows "in_slot v p s = in_slot w p s"
proof -
  have m: "map inventory (holders v) = map inventory (holders w)" using a by (simp add: alike_def same_tree_def)
  then have "length (holders v) = length (holders w)" by (rule map_eq_imp_length_eq)
  then have "inventory (holders v ! p) = inventory (holders w ! p)" using m p by (metis nth_map)
  then show ?thesis by (simp add: in_slot_def)
qed

text \<open>What a move may ask for without losing its footing.\<close>

definition unsafe_move :: "env \<Rightarrow> thing \<Rightarrow> int \<Rightarrow> nat \<Rightarrow> u32 \<Rightarrow> u32 \<Rightarrow> store \<Rightarrow> bool" where
  "unsafe_move e to index i cnt flags w \<longleftrightarrow>
     (case final_destination MAX_DESTINATIONS e w to index i None flags of
        None \<Rightarrow> False
      | Some (t, k, toItem) \<Rightarrow>
          (case queryMaxCount e w t k i cnt flags of
             None \<Rightarrow> False
           | Some (r, m) \<Rightarrow> split_unsafe e w i toItem (min cnt m)))"

definition move_allowed :: "env \<Rightarrow> thing \<Rightarrow> thing \<Rightarrow> nat \<Rightarrow> u32 \<Rightarrow> store \<Rightarrow> bool" where
  "move_allowed e from to i flags w \<longleftrightarrow>
     store_ok (types e) w \<and> types_ok (types e) \<and> length (heap w) < 2 ^ 31 \<and> plain_flags flags \<and>
     is_place w from \<and> is_place w to \<and> i < length (heap w) \<and>
     (case from of Item_ref c \<Rightarrow> 0 < sint (maxSize (item_at w c)) | _ \<Rightarrow> True)"

lemma move_allowedD:
  assumes "move_allowed e from to i flags w"
  shows "store_ok (types e) w" and "types_ok (types e)" and "length (heap w) < 2 ^ 31" and "plain_flags flags"
    and "is_place w from" and "valid_thing w to" and "i < length (heap w)"
    and "from = Item_ref c \<Longrightarrow> 0 < sint (maxSize (item_at w c))"
  using assms by (auto simp: move_allowed_def is_place_def valid_thing_def split: thing.splits)

lemma exchange_ok:
  assumes ok: "move_allowed e from to' i flags w" and v: "valid_thing w (Player_ref p)"
    and d: "toItem = in_slot w p index" and j: "in_slot w p index = Some j" "1 \<le> index" "index \<le> 10"
    and ne: "\<not> (isStackable (types e) (item_at w j) \<and> item_id (item_at w j) = item_id (item_at w i))"
    and x: "exchange e from (Player_ref p) index i toItem cnt flags actor moveBack w = Some (ret, toItem', v)"
  obtains (unchanged) "v = w" and "ret \<noteq> RETURNVALUE_NOERROR \<or> toItem' = toItem"
  | (exchanged) "toItem' = None" and "store_ok (types e) v" and "\<And>ty. amount v ty = amount w ty" and "same_kinds v w"
      and "in_slot v p index = None" and "queryAdd e v (Player_ref p) index i cnt flags None = Some ret"
  using x
proof (cases rule: exchange_cases)
  case refused
  then show ?thesis by (intro unchanged) simp_all
next
  case kept
  then show ?thesis by (intro unchanged) simp_all
next
  case (finished k u x n)
  note m = move_allowedD [OF ok]
  have p: "p < length (holders w)" using v by (simp add: valid_thing_def)
  have k: "k = j" using d finished(1) j by simp
  obtain u' x' where x': "removeThing e (Player_ref p) j (ucast (item_count (item_at w j))) w = Some u'"
    "addThing_anywhere e from j u' = Some x'" "store_ok (types e) x'" "\<And>ty. amount x' ty = amount w ty" "same_kinds x' w"
    "in_slot x' p index = None"
    by (rule exchange_done [OF m(1,5) p m(7,8) j ne finished(3) [unfolded k]]) blast+
  have "x' = x" using finished(2,4,5) x'(1,2) k by simp
  note a = alike_ok [OF finished(6) x'(3) [unfolded this]]
  show ?thesis
  proof (rule exchanged)
    show "toItem' = None" "store_ok (types e) v" using finished(7) a(1) by simp_all
    show "amount v ty = amount w ty" for ty using a(2) x'(4) \<open>x' = x\<close> by simp
    show "same_kinds v w" using alike_kinds [OF finished(6)] x'(5) \<open>x' = x\<close> by (auto intro: same_kinds_trans)
    show "in_slot v p index = None"
      using alike_slots [OF finished(6)] x'(6) p same_kinds_simps(2) [OF x'(5)] \<open>x' = x\<close> by simp
    show "queryAdd e v (Player_ref p) index i cnt flags None = Some ret" using finished(8) by simp
  qed
qed

lemma move_after_exchange:
  assumes ok: "move_allowed e from to' i flags w" and eq: "\<And>p i s. onPlayerEquip e p i s \<noteq> RETURNVALUE_NEEDEXCHANGE"
    and v: "valid_thing w to" and d: "settled w to index toItem"
    and ask: "queryAdd e w to index i cnt flags actor = Some RETURNVALUE_NEEDEXCHANGE"
    and x: "exchange e from to index i toItem cnt flags actor moveBack w = Some (r, toItem', w')"
    and run: "(if r \<noteq> RETURNVALUE_NOERROR then Some (r, None, w')
      else move_checked e from to index i toItem' cnt flags actor traded w') = Some (ret, moved, v')"
  shows "store_ok (types e) v' \<and> (\<forall>ty. amount v' ty = amount w ty)"
proof -
  note m = move_allowedD [OF ok]
  obtain p j where to: "to = Player_ref p" and j: "in_slot w p index = Some j" "1 \<le> index" "index \<le> 10"
    and ne: "\<not> (isStackable (types e) (item_at w j) \<and> item_id (item_at w j) = item_id (item_at w i))"
    by (rule exchange_asked [OF eq m(4) ask])
  have p: "p < length (holders w)" using v to by (simp add: valid_thing_def)
  have ti: "toItem = in_slot w p index" using d j to by (simp add: settled_def)
  from ok v [unfolded to] ti j ne x [unfolded to] show ?thesis
  proof (cases rule: exchange_ok)
    case unchanged
    show ?thesis
    proof (cases "r = RETURNVALUE_NOERROR")
      case True
      then have "move_checked e from to index i toItem' cnt flags actor traded w = Some (ret, moved, v')"
        using run unchanged by simp
      then show ?thesis
      proof (cases rule: no_more_answers)
        case unchanged
        then show ?thesis using m(1) by simp
      next
        case (moved r m' n)
        have "m' \<noteq> 0" using queryRemove_yes(2) [OF moved(3) m(5)] moved(2) by (auto split: if_split_asm)
        moreover have "player_queryMaxCount e w p index i cnt flags = Some (r, m')"
          using moved(1) to by (simp add: queryMaxCount_def)
        ultimately have "isStackable (types e) (item_at w i)" "equals (item_at w i) (Some (item_at w j))"
          using slot_count [OF j(1,2)] by blast+
        then show ?thesis using ne equals_id equals_stackable by metis
      qed
    next
      case False
      then show ?thesis using run unchanged m(1) by simp
    qed
  next
    case exchanged
    note ks = same_kinds_simps [OF exchanged(4)]
    show ?thesis
    proof (cases "r = RETURNVALUE_NOERROR")
      case True
      have "store_ok (types e) v' \<and> (\<forall>ty. amount v' ty = amount w' ty)"
      proof (rule move_checked_ok [OF exchanged(2) m(2) _ m(4)])
        show "length (heap w') < 2 ^ 31" "i < length (heap w')" using m(3,7) ks(1) by simp_all
        show "is_place w' from" using m(5) ks(12) by simp
        show "valid_thing w' to" using to p ks(2) by (simp add: valid_thing_def)
        show "lies_in w' to toItem'" "toItem' \<noteq> Some i" using exchanged(1) by simp_all
        show "settled w' to index toItem'" using exchanged(1,5) to by (simp add: settled_def)
        show "\<not> split_unsafe e w' i toItem' (min cnt m)" for m using exchanged(1) by (simp add: split_unsafe_def)
        show "queryAdd e w' to index i cnt flags None = Some RETURNVALUE_NOERROR" using exchanged(6) to True by simp
        show "move_checked e from to index i toItem' cnt flags actor traded w' = Some (ret, moved, v')" using run True by simp
      qed
      then show ?thesis using exchanged(3) by simp
    next
      case False
      then show ?thesis using run exchanged by simp
    qed
  qed
qed

section \<open>A store for examples\<close>

text \<open>Two bags on the floor with 80 gold coins each; the bags have eight places.\<close>

definition gold_type :: item_type where
  "gold_type = new_type\<lparr>it_id := 2148, it_stackable := True, it_weight := 10, it_pickupable := True\<rparr>"

definition bag_type :: item_type where
  "bag_type = new_type\<lparr>it_id := 1987, it_group := ITEM_GROUP_CONTAINER, it_weight := 800, it_pickupable := True\<rparr>"

definition sample_types :: type_table where
  "sample_types = (\<lambda>k. if k = 2148 then gold_type else if k = 1987 then bag_type else new_type)"

definition sample_env :: env where
  "sample_env = \<lparr>types = sample_types, classic_equipment_slots = False, only_invited_can_move = False,
     house_refuses = (\<lambda>a t. False), onPlayerEquip = (\<lambda>p i s. RETURNVALUE_NOERROR)\<rparr>"

definition sample_bag :: "nat \<Rightarrow> item" where
  "sample_bag i = (new_container sample_types Container 1987 8 True)
     \<lparr>itemlist := [i], totalWeight := 800, item_parent := Some (Tile_ref 0)\<rparr>"

definition sample_gold :: "nat \<Rightarrow> item" where
  "sample_gold c = (new_item sample_types Plain_Item 2148 80)\<lparr>item_parent := Some (Item_ref c)\<rparr>"

definition two_bags :: store where
  "two_bags = \<lparr>heap = [sample_bag 2, sample_bag 3, sample_gold 0, sample_gold 1], holders = []\<rparr>"

lemma sample_bag_eq: "sample_bag i = \<lparr>item_class = Container, item_id = 1987, item_attrs = None, item_count = 1,
     item_parent = Some (Tile_ref 0), itemlist = [i], maxSize = 8, totalWeight = 800, unlocked = True, maxDepotItems = 0\<rparr>"
  by (simp add: sample_bag_def new_container_def new_item_def setDefaultDuration_def init_subtype_def blank_item_def
      item_type_of_def sample_types_def bag_type_def new_type_def isFluidContainer_def isSplash_def Let_def)

lemma sample_gold_eq: "sample_gold c = \<lparr>item_class = Plain_Item, item_id = 2148, item_attrs = None, item_count = 80,
     item_parent = Some (Item_ref c), itemlist = [], maxSize = 0, totalWeight = 0, unlocked = True, maxDepotItems = 0\<rparr>"
  by (simp add: sample_gold_def new_item_def setDefaultDuration_def init_subtype_def blank_item_def setItemCount_def
      item_type_of_def sample_types_def gold_type_def new_type_def isFluidContainer_def isSplash_def Let_def)

lemma sample_types_ok: "types_ok sample_types"
  by (auto simp: types_ok_def plain_type_def sample_types_def gold_type_def bag_type_def new_type_def CreateItem_def Let_def)

lemma two_bags_ok: "store_ok sample_types two_bags"
proof -
  have cases: "j < length (heap two_bags) \<longleftrightarrow> j = 0 \<or> j = 1 \<or> j = 2 \<or> j = 3" for j
    by (auto simp: two_bags_def)
  have at: "item_at two_bags 0 = sample_bag 2" "item_at two_bags (Suc 0) = sample_bag 3"
    "item_at two_bags 2 = sample_gold 0" "item_at two_bags 3 = sample_gold 1"
    by (simp_all add: two_bags_def item_at_def numeral_3_eq_3 numeral_2_eq_2)
  have con: "contents two_bags t =
      (if t = Item_ref 0 then [2] else if t = Item_ref 1 then [3] else [])" for t
  proof (cases t)
    case (Item_ref c)
    then show ?thesis
      by (cases "c < length (heap two_bags)") (auto simp: contents_def cases at sample_bag_eq sample_gold_eq)
  qed (simp_all add: contents_def two_bags_def)
  have rel: "parent_rel two_bags \<subseteq> less_than\<inverse>"
    by (auto simp: parent_rel_def cases at sample_bag_eq sample_gold_eq)
  have acyc: "acyclic (parent_rel two_bags)"
    using acyclic_subset [OF _ rel] wf_acyclic [OF wf_less_than] by simp
  have w: "getWeight sample_types (sample_gold c) = 800" for c
    by (simp add: getWeight_def item_getWeight_def getBaseWeight_def isStackable_def item_type_of_def is_container_def
        sample_gold_eq sample_types_def gold_type_def item_hasAttribute_def new_type_def)
  have ty: "it_stackable (sample_types 2148)" "\<not> it_stackable (sample_types 1987)"
    by (simp_all add: sample_types_def gold_type_def bag_type_def new_type_def)
  have "linked_ok two_bags j \<and> fixed_ok sample_types two_bags j \<and>
      (\<not> is_container (item_at two_bags j) \<longrightarrow> itemlist (item_at two_bags j) = []) \<and> 0 \<le> sint (maxSize (item_at two_bags j)) \<and>
      weight_ok sample_types two_bags j \<and> stack_ok sample_types (item_at two_bags j)"
    if "j < length (heap two_bags)" for j
    using that unfolding cases
    by (elim disjE)
      (simp_all add: at con linked_ok_def fixed_ok_def fixed_def skips_def is_container_def weight_ok_def load_def stack_ok_def
        sample_bag_eq sample_gold_eq w [unfolded sample_gold_eq] isStackable_def item_type_of_def ty cases [of 0, simplified] cases [of 1, simplified])
  moreover have "j < length (heap two_bags) \<and> item_parent (item_at two_bags j) = Some t" if "j \<in> set (contents two_bags t)" for j t
    using that by (auto simp: con cases at sample_gold_eq split: if_split_asm)
  moreover have "distinct (contents two_bags t)" for t by (simp add: con)
  ultimately show ?thesis
    using acyc unfolding store_ok_def tree_ok_def by (simp add: two_bags_def [THEN arg_cong [where f = holders]])
qed

lemma sample_move_allowed: "move_allowed sample_env (Item_ref 0) (Item_ref 1) 2 0 two_bags"
proof -
  have "types sample_env = sample_types" by (simp add: sample_env_def)
  moreover have "is_place two_bags (Item_ref 0)" "is_place two_bags (Item_ref 1)" by code_simp+
  moreover have "plain_flags 0" "0 < sint (maxSize (item_at two_bags 0))" "2 < length (heap two_bags)" by code_simp+
  moreover have "length (heap two_bags) < 2 ^ 31" by (simp add: two_bags_def)
  ultimately show ?thesis using two_bags_ok sample_types_ok by (simp add: move_allowed_def)
qed

lemma updateItemWeight_lists:
  assumes "updateItemWeight c d w = Some v"
  shows "length (heap v) = length (heap w) \<and> holders v = holders w \<and> (\<forall>k. itemlist (item_at v k) = itemlist (item_at w k))"
  using assms
proof (induction rule: updateItemWeight.raw_induct [rotated, consumes 1, case_names step])
  case (step update c d w v)
  define x where "x = upd_item c (\<lambda>x. x\<lparr>totalWeight := totalWeight x + d\<rparr>) w"
  have here: "length (heap x) = length (heap w)" "holders x = holders w" "itemlist (item_at x k) = itemlist (item_at w k)" for k
    by (simp_all add: x_def item_at_upd)
  have "do { parent \<leftarrow> getParent x (Item_ref c);
      case parent of Some (Item_ref p) \<Rightarrow> if is_container (item_at x p) then update p d x else Some x
      | _ \<Rightarrow> Some x } = Some v"
    using step.hyps unfolding Let_def x_def [symmetric] .
  then obtain t where t: "(case t of Some (Item_ref p) \<Rightarrow> if is_container (item_at x p) then update p d x else Some x
      | _ \<Rightarrow> Some x) = Some v"
    by (auto simp: bind_eq_Some_conv)
  consider "v = x" | p where "update p d x = Some v"
  proof (cases "\<exists>p. t = Some (Item_ref p) \<and> is_container (item_at x p)")
    case True
    then show ?thesis using t that(2) by auto
  next
    case False
    then have "Some x = Some v" using t by (cases t; cases "the t") auto
    then show ?thesis using that(1) by simp
  qed
  then show ?case
  proof cases
    case 1
    then show ?thesis using here by simp
  next
    case (2 p)
    from step.IH [OF this] here show ?thesis by simp
  qed
qed

lemma addThing_container_lists:
  assumes "addThing e (Item_ref c) index i w = Some v" and "index < sint (maxSize (item_at w c))" and "c < length (heap w)"
    and "i \<noteq> c"
  shows "i \<in> set (contents v (Item_ref c))" and "t \<noteq> Item_ref c \<Longrightarrow> contents v t = contents w t"
proof -
  let ?w = "push_front c i (setParent (Some (Item_ref c)) i w)"
  obtain d where "updateItemWeight c d ?w = Some v"
    using assms(1,2) by (auto simp: addThing_def container_addThing_def Let_def split: if_split_asm)
  note u = updateItemWeight_lists [OF this]
  have l: "length (heap ?w) = length (heap w)" "holders ?w = holders w" by (simp_all add: push_front_def)
  have k: "itemlist (item_at ?w k) = (if k = c then i # itemlist (item_at w c) else itemlist (item_at w k))" for k
    using assms(3,4) by (simp add: push_front_def setParent_def item_at_upd)
  show "i \<in> set (contents v (Item_ref c))" using u l k assms(3) by (simp add: contents_def)
  show "t \<noteq> Item_ref c \<Longrightarrow> contents v t = contents w t" using u l k by (simp add: contents_def split: thing.split)
qed

section \<open>The theorems\<close>

text \<open>C2: a move asked for without the flags that lift the limits, and which does not put part of a stack onto
  an equal stack without room for it, keeps the store well formed - no item in two places, no container in itself,
  every weight right, no stack over 100 - and loses or makes no item, whatever it answers and wherever the destination
  or an exchange leads it.\<close>

theorem moves_conserve:
  assumes "move_allowed e from to i flags w" and "\<And>p i s. onPlayerEquip e p i s \<noteq> RETURNVALUE_NEEDEXCHANGE"
    and "\<not> unsafe_move e to index i cnt flags w"
    and "internalMoveItem e from to index i cnt flags actor traded moveEvent moveBack w = Some (ret, moved, v)"
  shows "store_ok (types e) v \<and> (\<forall>ty. amount v ty = amount w ty)"
proof (cases "moveEvent = RETURNVALUE_NOERROR")
  case True
  from assms(1) have w: "store_ok (types e) w" and T: "types_ok (types e)" and few: "length (heap w) < 2 ^ 31"
    and f: "plain_flags flags" and fr: "is_place w from" and i: "i < length (heap w)" and vt: "valid_thing w to"
    by (auto simp: move_allowed_def valid_thing_def is_place_def split: thing.splits)
  obtain t k toItem where fd: "final_destination MAX_DESTINATIONS e w to index i None flags = Some (t, k, toItem)"
    using assms(4) True by (auto simp: internalMoveItem_def bind_eq_Some_conv)
  note d = destination_settled [OF store_okD(1) [OF w] vt fd]
  show ?thesis
  proof (cases "toItem = Some i")
    case True
    then show ?thesis using assms(4) \<open>moveEvent = _\<close> fd w by (simp add: internalMoveItem_def)
  next
    case other: False
    obtain a where a: "queryAdd e w t k i cnt flags actor = Some a"
      using assms(4) \<open>moveEvent = _\<close> fd other by (auto simp: internalMoveItem_def bind_eq_Some_conv)
    show ?thesis
    proof (cases "a = RETURNVALUE_NEEDEXCHANGE")
      case True
      then obtain b tI x where b: "exchange e from t k i toItem cnt flags actor moveBack w = Some (b, tI, x)"
        using assms(4) \<open>moveEvent = _\<close> fd other a by (auto simp: internalMoveItem_def bind_eq_Some_conv)
      have "(if b \<noteq> RETURNVALUE_NOERROR then Some (b, None, x)
          else move_checked e from t k i tI cnt flags actor traded x) = Some (ret, moved, v)"
        using assms(4) \<open>moveEvent = _\<close> fd other a True b by (simp add: internalMoveItem_def)
      then show ?thesis using d a True
        by (intro move_after_exchange [OF assms(1,2) _ _ _ b]) auto
    next
      case False
      then have run: "(if a \<noteq> RETURNVALUE_NOERROR then Some (a, None, w)
          else move_checked e from t k i toItem cnt flags actor traded w) = Some (ret, moved, v)"
        using assms(4) \<open>moveEvent = _\<close> fd other a by (simp add: internalMoveItem_def)
      show ?thesis
      proof (cases "a = RETURNVALUE_NOERROR")
        case True
        have "\<not> split_unsafe e w i toItem (min cnt m)" if "queryMaxCount e w t k i cnt flags = Some (r, m)" for r m
          using assms(3) fd that by (simp add: unsafe_move_def)
        then show ?thesis using run a True d other
          by (intro move_checked_ok [OF w T few f fr _ i, where index = k and toItem = toItem]) auto
      qed (use run w in simp)
    qed
  qed
qed (use assms in \<open>auto simp: internalMoveItem_def move_allowed_def\<close>)

theorem moves_conserve_witness:
  "\<exists>moved v. internalMoveItem sample_env (Item_ref 0) (Item_ref 1) 255 2 20 0 None None
       RETURNVALUE_NOERROR RETURNVALUE_NOERROR two_bags = Some (RETURNVALUE_NOERROR, moved, v) \<and>
     store_ok sample_types v \<and> amount v 2148 = amount two_bags 2148"
proof -
  have "map_option fst (internalMoveItem sample_env (Item_ref 0) (Item_ref 1) 255 2 20 0 None None
      RETURNVALUE_NOERROR RETURNVALUE_NOERROR two_bags) = Some RETURNVALUE_NOERROR" by code_simp
  then obtain moved v where r: "internalMoveItem sample_env (Item_ref 0) (Item_ref 1) 255 2 20 0 None None
      RETURNVALUE_NOERROR RETURNVALUE_NOERROR two_bags = Some (RETURNVALUE_NOERROR, moved, v)" by auto
  have "\<not> unsafe_move sample_env (Item_ref 1) 255 2 20 0 two_bags" by code_simp
  from moves_conserve [OF sample_move_allowed _ this r] r show ?thesis by (simp add: sample_env_def)
qed

text \<open>C33: where part of a stack is put onto an equal stack that has no room for all of it, the rest of the part is not
  split off: the stack itself is put into the other container and stays in its own, so that it is in two places and
  the store is no longer well formed.\<close>

theorem split_leaves_item_in_two_places:
  assumes "store_ok (types e) w" and "types_ok (types e)" and "is_place w from" and "is_place w (Item_ref c)"
    and "from \<noteq> Item_ref c" and "i \<in> set (contents w from)" and "j \<in> set (contents w (Item_ref c))"
    and "index < sint (maxSize (item_at w c))" and "split_unsafe e w i (Some j) n"
    and "transfer e from (Item_ref c) index i (Some j) n w = Some (moved, updated, v)"
  shows "i \<in> set (contents v from) \<and> i \<in> set (contents v (Item_ref c)) \<and> \<not> store_ok (types e) v"
proof -
  let ?T = "types e" and ?to = "Item_ref c" and ?ci = "item_count (item_at w i)" and ?cj = "item_count (item_at w j)"
  note t = store_okD(1) [OF assms(1)]
  from assms(9) have st: "isStackable ?T (item_at w i)" and eq: "equals (item_at w i) (Some (item_at w j))"
    and n: "n \<noteq> of_nat ITEM_STACK_SIZE" "100 < unat ?cj + unat n" "n < ucast ?ci"
    by (simp_all add: split_unsafe_def ITEM_STACK_SIZE_def)
  have il: "i < length (heap w)" and jl: "j < length (heap w)" using tree_okD(2) [OF t] assms(6,7) by blast+
  have ji: "j \<noteq> i" using tree_okD(3) [OF t assms(6)] tree_okD(3) [OF t assms(7)] assms(5) by auto
  have nf: "\<not> fixed (item_at w i)" and ic: "i \<noteq> c"
    using store_okD(3) [OF assms(1) il] st assms(4) by (auto simp: stack_ok_def fixed_def skips_def is_container_def is_place_def)
  have cj: "unat ?cj \<le> 100" using store_okD(3) [OF assms(1) jl] st equals_stackable [OF eq] by (simp add: stack_ok_def)
  have ci: "unat ?ci \<le> 100" using store_okD(3) [OF assms(1) il] st by (simp add: stack_ok_def)
  define a where "a = min (word_of_int (int ITEM_STACK_SIZE - int (unat ?cj))) n"
  have a: "unat a = 100 - unat ?cj" unfolding a_def allowed_count [OF cj] using n(2) by simp
  have an: "a < n" using a n(2) cj by (simp add: word_less_nat_alt)
  have un: "unat (n - a) = unat n - unat a" using unat_sub [OF less_imp_le [OF an]] by simp
  have run: "do { (m, u, n, w) \<leftarrow> (if 0 < a then do {
          w \<leftarrow> merge_onto e from ?to i j a w; Some (Some i, Some j, n - a, w) } else Some (Some i, None, n, w));
        w \<leftarrow> removeThing e from i n w; w \<leftarrow> addThing e ?to index i w; Some (Some i, u, w) } = Some (moved, updated, v)"
  proof -
    have "n - a \<noteq> 0" using an by auto
    then show ?thesis using assms(10) st eq n(1) unfolding transfer_def Let_def option.case a_def [symmetric]
      by (cases "0 < a") simp_all
  qed
  text \<open>What is left before the rest of the part is moved.\<close>
  obtain u where u: "same_tree u w" "store_ok ?T u" "item_count (item_at u i) = count_left ?ci a \<or> a = 0 \<and> u = w"
    "do { w \<leftarrow> removeThing e from i (n - a) u; addThing e ?to index i w } = Some v"
  proof (cases "0 < a")
    case True
    have lt: "a < ucast ?ci" using an n(3) by simp
    have "unat ?cj + unat a \<le> 100" using a cj by simp
    then obtain u where "merge_onto e from ?to i j a w = Some u" "store_ok ?T u" "same_tree u w"
      "item_count (item_at u i) = count_left ?ci a"
      using merge_onto_ok [OF assms(1-4,6) nf st assms(7) ji equals_id [OF eq] True less_imp_le [OF lt]] lt by auto
    then show ?thesis using that [of u] run True by (auto simp: bind_eq_Some_conv)
  next
    case False
    then have "a = 0" by (simp add: word_gt_0)
    then show ?thesis using that [of w] run assms(1) by (auto simp: bind_eq_Some_conv)
  qed
  have au: "a < ucast ?ci" using an n(3) by simp
  have "unat (item_count (item_at u i)) = unat ?ci - unat a" using u(3) count_left_less [OF au] by auto
  then have part: "n - a < ucast (item_count (item_at u i))"
    using un n(3) an by (simp add: word_less_nat_alt)
  have iu: "i \<in> set (contents u from)" using assms(6) same_tree_contents [OF u(1)] by simp
  have fu: "is_place u from" using assms(3) same_tree_simps(17) [OF u(1)] by simp
  have su: "isStackable ?T (item_at u i)" using st same_tree_simps(13) [OF u(1)] by simp
  obtain x where x: "removeThing e from i (n - a) u = Some x" "same_tree x u"
    using removeThing_part [OF u(2) fu iu su part] by blast
  have xw: "same_tree x w" using x(2) u(1) by (rule same_tree_trans)
  have "addThing e ?to index i x = Some v" using u(4) x(1) by simp
  from addThing_container_lists [OF this _ _ ic] have both: "i \<in> set (contents v ?to)" "i \<in> set (contents v from)"
    using assms(4-6,8) same_tree_simps(1,7) [OF xw] same_tree_contents [OF xw] by (simp_all add: is_place_def)
  have "\<not> store_ok ?T v"
  proof
    assume "store_ok ?T v"
    then have "item_parent (item_at v i) = Some t" if "i \<in> set (contents v t)" for t
      using that tree_okD(3) store_okD(1) by blast
    from this [OF both(1)] this [OF both(2)] show False using assms(5) by simp
  qed
  then show ?thesis using both by simp
qed

theorem split_leaves_item_in_two_places_witness:
  "\<exists>moved updated v. transfer sample_env (Item_ref 0) (Item_ref 1) 0 2 (Some 3) 50 two_bags = Some (moved, updated, v) \<and>
     2 \<in> set (contents v (Item_ref 0)) \<and> 2 \<in> set (contents v (Item_ref 1)) \<and> \<not> store_ok sample_types v"
proof -
  have T: "types sample_env = sample_types" by (simp add: sample_env_def)
  have "transfer sample_env (Item_ref 0) (Item_ref 1) 0 2 (Some 3) 50 two_bags \<noteq> None" by code_simp
  then obtain moved updated v
    where r: "transfer sample_env (Item_ref 0) (Item_ref 1) 0 2 (Some 3) 50 two_bags = Some (moved, updated, v)" by auto
  have "2 \<in> set (contents v (Item_ref 0)) \<and> 2 \<in> set (contents v (Item_ref 1)) \<and> \<not> store_ok (types sample_env) v"
  proof (rule split_leaves_item_in_two_places [OF _ _ _ _ _ _ _ _ _ r])
    show "store_ok (types sample_env) two_bags" "types_ok (types sample_env)"
      using two_bags_ok sample_types_ok T by simp_all
    show "is_place two_bags (Item_ref 0)" "is_place two_bags (Item_ref 1)" "Item_ref 0 \<noteq> Item_ref 1"
      "2 \<in> set (contents two_bags (Item_ref 0))" "3 \<in> set (contents two_bags (Item_ref 1))"
      "0 < sint (maxSize (item_at two_bags 1))" "split_unsafe sample_env two_bags 2 (Some 3) 50" by code_simp+
  qed
  then show ?thesis using r T by auto
qed

end
