(* ===== verification/Item_Saving.thy ===== *)
theory Item_Saving
  imports Items Prop_Stream Positions
begin

text \<open>
  How an item is saved and loaded, \<open>serializeAttr\<close>, \<open>readAttr\<close> and \<open>unserializeAttr\<close> of
  \<open>src/item.cpp\<close> with the overrides of containers, lockers, doors, teleports and beds. What is
  written is the list of bytes appended to the stream; a read is a step on the bytes left and on
  the item being loaded, with the tables of the game that loading an item writes to.
\<close>

section \<open>The numbers of attributes in a stream\<close>

datatype AttrTypes_t =
  ATTR_TILE_FLAGS | ATTR_ACTION_ID | ATTR_UNIQUE_ID | ATTR_TEXT | ATTR_DESC | ATTR_TELE_DEST
| ATTR_ITEM | ATTR_DEPOT_ID | ATTR_RUNE_CHARGES | ATTR_HOUSEDOORID | ATTR_COUNT | ATTR_DURATION
| ATTR_DECAYING_STATE | ATTR_WRITTENDATE | ATTR_WRITTENBY | ATTR_SLEEPERGUID | ATTR_SLEEPSTART
| ATTR_CHARGES | ATTR_CONTAINER_ITEMS | ATTR_NAME | ATTR_ARTICLE | ATTR_PLURALNAME | ATTR_WEIGHT
| ATTR_ATTACK | ATTR_DEFENSE | ATTR_EXTRADEFENSE | ATTR_ARMOR | ATTR_HITCHANCE | ATTR_SHOOTRANGE
| ATTR_CUSTOM_ATTRIBUTES | ATTR_DECAYTO | ATTR_WRAPID | ATTR_STOREITEM | ATTR_ATTACK_SPEED
| ATTR_OPENCONTAINER | ATTR_PODIUMOUTFIT | ATTR_TIER

fun attr_code :: "AttrTypes_t \<Rightarrow> u8" where
  "attr_code ATTR_TILE_FLAGS = 3"
| "attr_code ATTR_ACTION_ID = 4"
| "attr_code ATTR_UNIQUE_ID = 5"
| "attr_code ATTR_TEXT = 6"
| "attr_code ATTR_DESC = 7"
| "attr_code ATTR_TELE_DEST = 8"
| "attr_code ATTR_ITEM = 9"
| "attr_code ATTR_DEPOT_ID = 10"
| "attr_code ATTR_RUNE_CHARGES = 12"
| "attr_code ATTR_HOUSEDOORID = 14"
| "attr_code ATTR_COUNT = 15"
| "attr_code ATTR_DURATION = 16"
| "attr_code ATTR_DECAYING_STATE = 17"
| "attr_code ATTR_WRITTENDATE = 18"
| "attr_code ATTR_WRITTENBY = 19"
| "attr_code ATTR_SLEEPERGUID = 20"
| "attr_code ATTR_SLEEPSTART = 21"
| "attr_code ATTR_CHARGES = 22"
| "attr_code ATTR_CONTAINER_ITEMS = 23"
| "attr_code ATTR_NAME = 24"
| "attr_code ATTR_ARTICLE = 25"
| "attr_code ATTR_PLURALNAME = 26"
| "attr_code ATTR_WEIGHT = 27"
| "attr_code ATTR_ATTACK = 28"
| "attr_code ATTR_DEFENSE = 29"
| "attr_code ATTR_EXTRADEFENSE = 30"
| "attr_code ATTR_ARMOR = 31"
| "attr_code ATTR_HITCHANCE = 32"
| "attr_code ATTR_SHOOTRANGE = 33"
| "attr_code ATTR_CUSTOM_ATTRIBUTES = 34"
| "attr_code ATTR_DECAYTO = 35"
| "attr_code ATTR_WRAPID = 36"
| "attr_code ATTR_STOREITEM = 37"
| "attr_code ATTR_ATTACK_SPEED = 38"
| "attr_code ATTR_OPENCONTAINER = 39"
| "attr_code ATTR_PODIUMOUTFIT = 40"
| "attr_code ATTR_TIER = 41"

definition all_attrs :: "AttrTypes_t list" where
  "all_attrs = [ATTR_TILE_FLAGS, ATTR_ACTION_ID, ATTR_UNIQUE_ID, ATTR_TEXT, ATTR_DESC, ATTR_TELE_DEST,
     ATTR_ITEM, ATTR_DEPOT_ID, ATTR_RUNE_CHARGES, ATTR_HOUSEDOORID, ATTR_COUNT, ATTR_DURATION,
     ATTR_DECAYING_STATE, ATTR_WRITTENDATE, ATTR_WRITTENBY, ATTR_SLEEPERGUID, ATTR_SLEEPSTART,
     ATTR_CHARGES, ATTR_CONTAINER_ITEMS, ATTR_NAME, ATTR_ARTICLE, ATTR_PLURALNAME, ATTR_WEIGHT,
     ATTR_ATTACK, ATTR_DEFENSE, ATTR_EXTRADEFENSE, ATTR_ARMOR, ATTR_HITCHANCE, ATTR_SHOOTRANGE,
     ATTR_CUSTOM_ATTRIBUTES, ATTR_DECAYTO, ATTR_WRAPID, ATTR_STOREITEM, ATTR_ATTACK_SPEED,
     ATTR_OPENCONTAINER, ATTR_PODIUMOUTFIT, ATTR_TIER]"

definition attr_of_code :: "u8 \<Rightarrow> AttrTypes_t option" where
  "attr_of_code n = find (\<lambda>t. attr_code t = n) all_attrs"

lemma attr_of_attr_code [simp]: "attr_of_code (attr_code t) = Some t"
  by (cases t) (simp_all add: attr_of_code_def all_attrs_def)

lemma attr_code_not_0 [simp]: "attr_code t \<noteq> 0"
  by (cases t) simp_all

declare attr_code.simps [simp del]

section \<open>The item being loaded\<close>

text \<open>An item with the members that its class adds and that are saved, and the tables of the game.\<close>

record loading =
  the_item :: item
  serializationCount :: u32
  depotId :: u16
  destPos :: position
  sleeperGUID :: u32
  sleepStart :: u64

definition new_loading :: "item \<Rightarrow> loading" where
  "new_loading j = \<lparr>the_item = j, serializationCount = 0, depotId = 0, destPos = \<lparr>px = 0, py = 0, pz = 0\<rparr>,
     sleeperGUID = 0, sleepStart = 0\<rparr>"

record tables =
  uniqueItems :: "u16 list"
  bedSleepers :: "u32 list"

text \<open>What the code outside relies on: the table of item types, and the name of a character in the
  database, which is empty where there is none.\<close>

record load_env =
  env_types :: type_table
  nameByGuid :: "u32 \<Rightarrow> u8 list"

type_synonym load_state = "loading \<times> tables"

definition on_item :: "(item \<Rightarrow> item) \<Rightarrow> load_state \<Rightarrow> load_state" where
  "on_item f s = (fst s\<lparr>the_item := f (the_item (fst s))\<rparr>, snd s)"

definition setActionId :: "u16 \<Rightarrow> item \<Rightarrow> item" where
  "setActionId n = item_setIntAttr ITEM_ATTRIBUTE_ACTIONID (ucast (if n < 100 then 100 else n))"

definition getActionId :: "item \<Rightarrow> u16" where
  "getActionId i = ucast (item_getIntAttr ITEM_ATTRIBUTE_ACTIONID i)"

definition addUniqueItem :: "u16 \<Rightarrow> tables \<Rightarrow> bool \<times> tables" where
  "addUniqueItem n g =
     (if n \<in> set (uniqueItems g) then (False, g) else (True, g\<lparr>uniqueItems := n # uniqueItems g\<rparr>))"

definition setUniqueId :: "u16 \<Rightarrow> load_state \<Rightarrow> load_state" where
  "setUniqueId n s =
     (if item_hasAttribute ITEM_ATTRIBUTE_UNIQUEID (the_item (fst s)) then s
      else case addUniqueItem n (snd s) of
             (False, g) \<Rightarrow> (fst s, g)
           | (True, g) \<Rightarrow> on_item (item_setIntAttr ITEM_ATTRIBUTE_UNIQUEID (ucast n)) (fst s, g))"

definition setDate :: "s32 \<Rightarrow> item \<Rightarrow> item" where
  "setDate n = item_setIntAttr ITEM_ATTRIBUTE_DATE (scast n)"

definition setDoorId :: "u32 \<Rightarrow> item \<Rightarrow> item" where
  "setDoorId n = item_setIntAttr ITEM_ATTRIBUTE_DOORID (ucast n)"

definition item_setCustomAttribute :: "u8 list \<Rightarrow> custom_value \<Rightarrow> item \<Rightarrow> item" where
  "item_setCustomAttribute key v i = i\<lparr>item_attrs := Some (setCustomAttribute key v (getAttributes i))\<rparr>"

section \<open>Reading\<close>

definition le64 :: "u64 \<Rightarrow> u8 list" where
  "le64 w = le32 (ucast w) @ le32 (ucast (drop_bit 32 w))"

definition of_le64 :: "u8 list \<Rightarrow> u64" where
  "of_le64 bs = ucast (of_le32 (take 4 bs)) OR push_bit 32 (ucast (of_le32 (drop 4 bs)))"

definition read_u64 :: "u64 reader" where
  "read_u64 bs = map_option (apfst of_le64) (read_bytes 8 bs)"

lemma le64_codec_facts: "length (le64 w) = 8" "of_le64 (le64 w) = w"
proof -
  show "length (le64 w) = 8" by (simp add: le64_def)
  show "of_le64 (le64 w) = w"
  proof (rule bit_word_eqI)
    fix n :: nat
    assume "n < LENGTH(64)"
    then show "bit (of_le64 (le64 w)) n = bit w n"
      by (cases "n < 32") (auto simp: le64_def of_le64_def bit_simps)
  qed
qed

lemma le64_of_le64: "length bs = 8 \<Longrightarrow> le64 (of_le64 bs) = bs"
proof -
  assume l: "length bs = 8"
  have low: "ucast (of_le64 bs) = of_le32 (take 4 bs)" and
    high: "ucast (drop_bit 32 (of_le64 bs)) = of_le32 (drop 4 bs)"
    by (rule bit_word_eqI; auto simp: of_le64_def bit_simps dest: bit_imp_le_length)+
  show ?thesis using l by (simp add: le64_def low high le32_of_le32)
qed

interpretation u64_codec: byte_codec le64 of_le64 8
  by unfold_locales (simp_all add: le64_codec_facts le64_of_le64)

lemma read_u64_append [simp]: "read_u64 (le64 w @ bs) = Some (w, bs)"
  using u64_codec.read_enc [of w bs] by (simp add: read_u64_def)

text \<open>A read that fails ends the loading of the item.\<close>

datatype read_result = Read_Error | Read_End "u8 list" | Read_Continue "u8 list"

definition take_value :: "'a reader \<Rightarrow> ('a \<Rightarrow> load_state \<Rightarrow> load_state) \<Rightarrow> u8 list \<Rightarrow> load_state \<Rightarrow> read_result \<times> load_state" where
  "take_value reader f bs s =
     (case reader bs of
        None \<Rightarrow> (Read_Error, s)
      | Some (v, bs) \<Rightarrow> (Read_Continue bs, f v s))"

text \<open>\<open>CustomAttribute::unserialize\<close>. A byte that is neither 0 nor 1 is no valid \<open>bool\<close>; it is read as
  true.\<close>

definition unserialize_custom :: "custom_value reader" where
  "unserialize_custom bs =
     (case read_u8 bs of
        None \<Rightarrow> None
      | Some (pos, bs) \<Rightarrow>
          if pos = 1 then map_option (apfst Custom_String) (readString bs)
          else if pos = 2 then map_option (apfst Custom_Int) (read_u64 bs)
          else if pos = 3 then map_option (apfst Custom_Double) (read_u64 bs)
          else if pos = 4 then map_option (apfst (\<lambda>b. Custom_Bool (b \<noteq> 0))) (read_u8 bs)
          else None)"

primrec read_customs :: "nat \<Rightarrow> u8 list \<Rightarrow> load_state \<Rightarrow> read_result \<times> load_state" where
  "read_customs 0 bs s = (Read_Continue bs, s)"
| "read_customs (Suc n) bs s =
     (case readString bs of
        None \<Rightarrow> (Read_Error, s)
      | Some (key, bs) \<Rightarrow>
          (case unserialize_custom bs of
             None \<Rightarrow> (Read_Error, s)
           | Some (val, bs) \<Rightarrow> read_customs n bs (on_item (item_setCustomAttribute key val) s)))"

definition int_from :: "itemAttrTypes \<Rightarrow> 64 word \<Rightarrow> load_state \<Rightarrow> load_state" where
  "int_from t v = on_item (item_setIntAttr t v)"

definition str_from :: "itemAttrTypes \<Rightarrow> u8 list \<Rightarrow> load_state \<Rightarrow> load_state" where
  "str_from t v = on_item (item_setStrAttr t v)"

definition skipped :: "nat \<Rightarrow> u8 list \<Rightarrow> load_state \<Rightarrow> read_result \<times> load_state" where
  "skipped n = take_value (skip n) (\<lambda>_ s. s)"

definition Item_readAttr :: "load_env \<Rightarrow> AttrTypes_t \<Rightarrow> u8 list \<Rightarrow> load_state \<Rightarrow> read_result \<times> load_state" where
  "Item_readAttr e attr =
     (case attr of
        ATTR_COUNT \<Rightarrow> take_value read_u8 (\<lambda>n. on_item (setSubType (env_types e) (ucast n)))
      | ATTR_RUNE_CHARGES \<Rightarrow> take_value read_u8 (\<lambda>n. on_item (setSubType (env_types e) (ucast n)))
      | ATTR_ACTION_ID \<Rightarrow> take_value read_u16 (\<lambda>n. on_item (setActionId n))
      | ATTR_UNIQUE_ID \<Rightarrow> take_value read_u16 setUniqueId
      | ATTR_TEXT \<Rightarrow> take_value readString (str_from ITEM_ATTRIBUTE_TEXT)
      | ATTR_WRITTENDATE \<Rightarrow> take_value read_u32 (\<lambda>n. on_item (setDate n))
      | ATTR_WRITTENBY \<Rightarrow> take_value readString (str_from ITEM_ATTRIBUTE_WRITER)
      | ATTR_DESC \<Rightarrow> take_value readString (str_from ITEM_ATTRIBUTE_DESCRIPTION)
      | ATTR_CHARGES \<Rightarrow> take_value read_u16 (\<lambda>n. on_item (setSubType (env_types e) n))
      | ATTR_DURATION \<Rightarrow> take_value read_s32 (\<lambda>n. on_item (setDuration (word_of_int (max 0 n))))
      | ATTR_DECAYING_STATE \<Rightarrow>
          take_value read_u8 (\<lambda>n s. if n \<noteq> DECAYING_FALSE then on_item (setDecaying DECAYING_PENDING) s else s)
      | ATTR_NAME \<Rightarrow> take_value readString (str_from ITEM_ATTRIBUTE_NAME)
      | ATTR_ARTICLE \<Rightarrow> take_value readString (str_from ITEM_ATTRIBUTE_ARTICLE)
      | ATTR_PLURALNAME \<Rightarrow> take_value readString (str_from ITEM_ATTRIBUTE_PLURALNAME)
      | ATTR_WEIGHT \<Rightarrow> take_value read_u32 (\<lambda>n. int_from ITEM_ATTRIBUTE_WEIGHT (ucast n))
      | ATTR_ATTACK \<Rightarrow> take_value read_u32 (\<lambda>n. int_from ITEM_ATTRIBUTE_ATTACK (scast n))
      | ATTR_ATTACK_SPEED \<Rightarrow> take_value read_u32 (\<lambda>n. int_from ITEM_ATTRIBUTE_ATTACK_SPEED (ucast n))
      | ATTR_DEFENSE \<Rightarrow> take_value read_u32 (\<lambda>n. int_from ITEM_ATTRIBUTE_DEFENSE (scast n))
      | ATTR_EXTRADEFENSE \<Rightarrow> take_value read_u32 (\<lambda>n. int_from ITEM_ATTRIBUTE_EXTRADEFENSE (scast n))
      | ATTR_ARMOR \<Rightarrow> take_value read_u32 (\<lambda>n. int_from ITEM_ATTRIBUTE_ARMOR (scast n))
      | ATTR_HITCHANCE \<Rightarrow> take_value read_u8 (\<lambda>n. int_from ITEM_ATTRIBUTE_HITCHANCE (scast n))
      | ATTR_SHOOTRANGE \<Rightarrow> take_value read_u8 (\<lambda>n. int_from ITEM_ATTRIBUTE_SHOOTRANGE (ucast n))
      | ATTR_DECAYTO \<Rightarrow> take_value read_u32 (\<lambda>n. int_from ITEM_ATTRIBUTE_DECAYTO (scast n))
      | ATTR_WRAPID \<Rightarrow> take_value read_u16 (\<lambda>n. int_from ITEM_ATTRIBUTE_WRAPID (ucast n))
      | ATTR_STOREITEM \<Rightarrow> take_value read_u8 (\<lambda>n. int_from ITEM_ATTRIBUTE_STOREITEM (ucast n))
      | ATTR_OPENCONTAINER \<Rightarrow> skipped 1
      | ATTR_TIER \<Rightarrow> skipped 1
      | ATTR_PODIUMOUTFIT \<Rightarrow> skipped 15
      | ATTR_DEPOT_ID \<Rightarrow> skipped 2
      | ATTR_HOUSEDOORID \<Rightarrow> skipped 1
      | ATTR_SLEEPERGUID \<Rightarrow> skipped 4
      | ATTR_SLEEPSTART \<Rightarrow> skipped 4
      | ATTR_TELE_DEST \<Rightarrow> skipped 5
      | ATTR_CONTAINER_ITEMS \<Rightarrow> (\<lambda>bs s. (Read_Error, s))
      | ATTR_CUSTOM_ATTRIBUTES \<Rightarrow>
          (\<lambda>bs s. case read_u64 bs of
             None \<Rightarrow> (Read_Error, s)
           | Some (n, bs) \<Rightarrow> read_customs (unat n) bs s)
      | _ \<Rightarrow> (\<lambda>bs s. (Read_Error, s)))"

subsection \<open>The classes with members of their own\<close>

definition Container_readAttr :: "load_env \<Rightarrow> AttrTypes_t \<Rightarrow> u8 list \<Rightarrow> load_state \<Rightarrow> read_result \<times> load_state" where
  "Container_readAttr e attr bs s =
     (if attr = ATTR_CONTAINER_ITEMS then
        case read_u32 bs of
          None \<Rightarrow> (Read_Error, s)
        | Some (n, bs) \<Rightarrow> (Read_End bs, apfst (\<lambda>x. x\<lparr>serializationCount := n\<rparr>) s)
      else Item_readAttr e attr bs s)"

definition DepotLocker_readAttr :: "load_env \<Rightarrow> AttrTypes_t \<Rightarrow> u8 list \<Rightarrow> load_state \<Rightarrow> read_result \<times> load_state" where
  "DepotLocker_readAttr e attr bs s =
     (if attr = ATTR_DEPOT_ID then take_value read_u16 (\<lambda>n. apfst (\<lambda>x. x\<lparr>depotId := n\<rparr>)) bs s
      else Item_readAttr e attr bs s)"

definition Door_readAttr :: "load_env \<Rightarrow> AttrTypes_t \<Rightarrow> u8 list \<Rightarrow> load_state \<Rightarrow> read_result \<times> load_state" where
  "Door_readAttr e attr bs s =
     (if attr = ATTR_HOUSEDOORID then take_value read_u8 (\<lambda>n. on_item (setDoorId (ucast n))) bs s
      else Item_readAttr e attr bs s)"

text \<open>A destination that is cut off has its first coordinates changed all the same.\<close>

definition Teleport_readAttr :: "load_env \<Rightarrow> AttrTypes_t \<Rightarrow> u8 list \<Rightarrow> load_state \<Rightarrow> read_result \<times> load_state" where
  "Teleport_readAttr e attr bs s =
     (if attr = ATTR_TELE_DEST then
        case read_u16 bs of
          None \<Rightarrow> (Read_Error, s)
        | Some (x, bs) \<Rightarrow>
            let s = apfst (\<lambda>l. l\<lparr>destPos := (destPos l)\<lparr>px := x\<rparr>\<rparr>) s
            in case read_u16 bs of
                 None \<Rightarrow> (Read_Error, s)
               | Some (y, bs) \<Rightarrow>
                   take_value read_u8 (\<lambda>z. apfst (\<lambda>l. l\<lparr>destPos := (destPos l)\<lparr>pz := z\<rparr>\<rparr>)) bs
                     (apfst (\<lambda>l. l\<lparr>destPos := (destPos l)\<lparr>py := y\<rparr>\<rparr>) s)
      else Item_readAttr e attr bs s)"

text \<open>The bytes of \<open>" is sleeping there."\<close>\<close>

definition sleeping_there :: "u8 list" where
  "sleeping_there = [32, 105, 115, 32, 115, 108, 101, 101, 112, 105, 110, 103, 32, 116, 104, 101, 114, 101, 46]"

definition setBedSleeper :: "u32 \<Rightarrow> tables \<Rightarrow> tables" where
  "setBedSleeper guid g = g\<lparr>bedSleepers := guid # filter (\<lambda>x. x \<noteq> guid) (bedSleepers g)\<rparr>"

definition read_sleeper :: "load_env \<Rightarrow> u32 \<Rightarrow> load_state \<Rightarrow> load_state" where
  "read_sleeper e guid s =
     (if guid \<noteq> 0 \<and> nameByGuid e guid \<noteq> [] then
        (case str_from ITEM_ATTRIBUTE_DESCRIPTION (nameByGuid e guid @ sleeping_there) s of
           (x, g) \<Rightarrow> (x\<lparr>sleeperGUID := guid\<rparr>, setBedSleeper guid g))
      else s)"

definition BedItem_readAttr :: "load_env \<Rightarrow> AttrTypes_t \<Rightarrow> u8 list \<Rightarrow> load_state \<Rightarrow> read_result \<times> load_state" where
  "BedItem_readAttr e attr =
     (if attr = ATTR_SLEEPERGUID then take_value read_u32 (read_sleeper e)
      else if attr = ATTR_SLEEPSTART then take_value read_u32 (\<lambda>n. apfst (\<lambda>x. x\<lparr>sleepStart := ucast n\<rparr>))
      else Item_readAttr e attr)"

definition readAttr :: "load_env \<Rightarrow> AttrTypes_t \<Rightarrow> u8 list \<Rightarrow> load_state \<Rightarrow> read_result \<times> load_state" where
  "readAttr e attr bs s =
     (let cl = item_class (the_item (fst s))
      in if cl = Depot_Locker then DepotLocker_readAttr e attr bs s
         else if is_container (the_item (fst s)) then Container_readAttr e attr bs s
         else if cl = Door then Door_readAttr e attr bs s
         else if cl = Teleport then Teleport_readAttr e attr bs s
         else if cl = Bed_Item then BedItem_readAttr e attr bs s
         else Item_readAttr e attr bs s)"

section \<open>The loop over attributes\<close>

text \<open>A read leaves no more bytes than there were, so that the loop ends.\<close>

definition shrinking :: "'a reader \<Rightarrow> bool" where
  "shrinking r \<longleftrightarrow> (\<forall>bs v cs. r bs = Some (v, cs) \<longrightarrow> length cs \<le> length bs)"

lemma shrinkingD: "shrinking r \<Longrightarrow> r bs = Some (v, cs) \<Longrightarrow> length cs \<le> length bs"
  by (auto simp: shrinking_def)

lemma shrinking_bytes: "shrinking (read_bytes n)"
  by (auto simp: shrinking_def dest!: read_bytes_Some)

lemma shrinking_map: "shrinking r \<Longrightarrow> shrinking (\<lambda>bs. map_option (apfst f) (r bs))"
  by (auto simp: shrinking_def)

lemma shrinking_bind:
  assumes "shrinking r" and "\<And>v. shrinking (q v)"
  shows "shrinking (\<lambda>bs. case r bs of None \<Rightarrow> None | Some (v, bs) \<Rightarrow> q v bs)"
  unfolding shrinking_def
proof (intro allI impI)
  fix bs v cs
  assume "(case r bs of None \<Rightarrow> None | Some (v, bs) \<Rightarrow> q v bs) = Some (v, cs)"
  then obtain u ds where "r bs = Some (u, ds)" and "q u ds = Some (v, cs)" by (auto split: option.splits)
  then show "length cs \<le> length bs" using assms by (meson order_trans shrinkingD)
qed

lemma shrinking_reader_defs:
  "read_u8 = (\<lambda>bs. map_option (apfst hd) (read_bytes 1 bs))"
  "read_u16 = (\<lambda>bs. map_option (apfst of_le16) (read_bytes 2 bs))"
  "read_u32 = (\<lambda>bs. map_option (apfst of_le32) (read_bytes 4 bs))"
  "read_s32 = (\<lambda>bs. map_option (apfst sint) (read_u32 bs))"
  "read_u64 = (\<lambda>bs. map_option (apfst of_le64) (read_bytes 8 bs))"
  "skip n = (\<lambda>bs. map_option (apfst (\<lambda>_. ())) (read_bytes n bs))"
  "readString = (\<lambda>bs. case read_u16 bs of None \<Rightarrow> None | Some (v, bs) \<Rightarrow> read_bytes (unat v) bs)"
  by (simp_all add: fun_eq_iff read_u8_def read_u16_def read_u32_def read_s32_def read_u64_def skip_def readString_def)

lemma shrinking_readers:
  "shrinking read_u8" "shrinking read_u16" "shrinking read_u32" "shrinking read_s32" "shrinking read_u64"
  "shrinking (skip n)" "shrinking readString"
  unfolding shrinking_reader_defs
  by (intro shrinking_bind shrinking_map shrinking_bytes)+

lemma shrinking_custom: "shrinking unserialize_custom"
proof -
  have *: "unserialize_custom = (\<lambda>bs. case read_u8 bs of None \<Rightarrow> None | Some (pos, bs) \<Rightarrow>
      (if pos = 1 then (\<lambda>bs. map_option (apfst Custom_String) (readString bs))
       else if pos = 2 then (\<lambda>bs. map_option (apfst Custom_Int) (read_u64 bs))
       else if pos = 3 then (\<lambda>bs. map_option (apfst Custom_Double) (read_u64 bs))
       else if pos = 4 then (\<lambda>bs. map_option (apfst (\<lambda>b. Custom_Bool (b \<noteq> 0))) (read_u8 bs))
       else (\<lambda>bs. None)) bs)"
    by (simp add: fun_eq_iff unserialize_custom_def split: option.splits)
  show ?thesis
    unfolding * by (intro shrinking_bind shrinking_readers) (auto intro!: shrinking_map shrinking_readers simp: shrinking_def [of "\<lambda>bs. None"])
qed

definition left_of :: "read_result \<Rightarrow> nat" where
  "left_of r = (case r of Read_Error \<Rightarrow> 0 | Read_End bs \<Rightarrow> length bs | Read_Continue bs \<Rightarrow> length bs)"

lemma take_value_left: "shrinking r \<Longrightarrow> left_of (fst (take_value r f bs s)) \<le> length bs"
  by (auto simp: take_value_def left_of_def dest: shrinkingD split: option.splits)

lemma read_customs_left: "left_of (fst (read_customs n bs s)) \<le> length bs"
proof (induction n arbitrary: bs s)
  case (Suc n)
  have "left_of (fst (read_customs n ds t)) \<le> length bs"
    if "readString bs = Some (key, cs)" "unserialize_custom cs = Some (val, ds)" for key cs val ds t
    using Suc [of ds t] shrinkingD [OF shrinking_readers(7) that(1)] shrinkingD [OF shrinking_custom that(2)] by linarith
  then show ?case by (auto simp: left_of_def [of Read_Error] split: option.splits)
qed (simp add: left_of_def)

lemma Item_readAttr_left: "left_of (fst (Item_readAttr e attr bs s)) \<le> length bs"
proof -
  have c: "left_of (fst (read_customs (unat n) cs s)) \<le> length bs" if "read_u64 bs = Some (n, cs)" for n cs
    using read_customs_left [of "unat n" cs s] shrinkingD [OF shrinking_readers(5) that] by linarith
  show ?thesis
    by (cases attr)
      (auto simp: Item_readAttr_def skipped_def shrinking_readers take_value_left left_of_def [of Read_Error] c
        split: option.splits)
qed

lemma readAttr_left: "left_of (fst (readAttr e attr bs s)) \<le> length bs"
proof -
  note i = Item_readAttr_left take_value_left [OF shrinking_readers(1)] take_value_left [OF shrinking_readers(2)]
    take_value_left [OF shrinking_readers(3)]
  have "left_of (fst (Container_readAttr e attr bs s)) \<le> length bs"
    by (auto simp: Container_readAttr_def i left_of_def [of Read_Error] left_of_def [of "Read_End _"]
        dest: shrinkingD [OF shrinking_readers(3)] split: option.splits)
  moreover have "left_of (fst (take_value read_u8 f ds t)) \<le> length bs"
    if "read_u16 bs = Some (x, cs)" "read_u16 cs = Some (y, ds)" for f x y cs ds t
    using i(2) [of f ds t] shrinkingD [OF shrinking_readers(2)] that order_trans by meson
  then have "left_of (fst (Teleport_readAttr e attr bs s)) \<le> length bs"
    by (auto simp: Teleport_readAttr_def i left_of_def [of Read_Error] Let_def split: option.splits)
  ultimately show ?thesis
    by (simp add: readAttr_def DepotLocker_readAttr_def Door_readAttr_def BedItem_readAttr_def i Let_def)
qed

lemma readAttr_continue: "readAttr e attr bs s = (Read_Continue cs, t) \<Longrightarrow> length cs < Suc (length bs)"
  using readAttr_left [of e attr bs s] by (simp add: left_of_def)

text \<open>The bytes left where the answer is true, and the item.\<close>

function unserializeAttr :: "load_env \<Rightarrow> u8 list \<Rightarrow> load_state \<Rightarrow> u8 list option \<times> load_state" where
  "unserializeAttr e [] s = (Some [], s)"
| "unserializeAttr e (a # bs) s =
     (if a = 0 then (Some bs, s)
      else case attr_of_code a of
             None \<Rightarrow> (None, s)
           | Some attr \<Rightarrow>
               (case readAttr e attr bs s of
                  (Read_Error, s) \<Rightarrow> (None, s)
                | (Read_End bs, s) \<Rightarrow> (Some bs, s)
                | (Read_Continue bs, s) \<Rightarrow> unserializeAttr e bs s))"
  by pat_completeness auto

termination
  by (relation "measure (\<lambda>(e, bs, s). length bs)") (auto dest: readAttr_continue readAttr_continue [OF sym])

section \<open>Writing\<close>

fun serialize_custom :: "custom_value \<Rightarrow> u8 list" where
  "serialize_custom Blank = [0]"
| "serialize_custom (Custom_String v) = 1 # writeString v"
| "serialize_custom (Custom_Int v) = 2 # le64 v"
| "serialize_custom (Custom_Double v) = 3 # le64 v"
| "serialize_custom (Custom_Bool v) = [4, if v then 1 else 0]"

definition written_if :: "bool \<Rightarrow> AttrTypes_t \<Rightarrow> u8 list \<Rightarrow> u8 list" where
  "written_if c attr bs = (if c then attr_code attr # bs else [])"

definition written_int :: "itemAttrTypes \<Rightarrow> AttrTypes_t \<Rightarrow> (64 word \<Rightarrow> u8 list) \<Rightarrow> item \<Rightarrow> u8 list" where
  "written_int t attr enc i = written_if (item_hasAttribute t i) attr (enc (item_getIntAttr t i))"

definition written_str :: "itemAttrTypes \<Rightarrow> AttrTypes_t \<Rightarrow> item \<Rightarrow> u8 list" where
  "written_str t attr i = written_if (item_hasAttribute t i) attr (writeString (item_getStrAttr t i))"

definition written_text :: "itemAttrTypes \<Rightarrow> AttrTypes_t \<Rightarrow> item \<Rightarrow> u8 list" where
  "written_text t attr i = written_if (item_getStrAttr t i \<noteq> []) attr (writeString (item_getStrAttr t i))"

definition item_customs :: "item \<Rightarrow> custom_map" where
  "item_customs i = (case getCustomAttributeMap (getAttributes i) of None \<Rightarrow> [] | Some m \<Rightarrow> m)"

definition Item_serializeAttr :: "type_table \<Rightarrow> item \<Rightarrow> u8 list" where
  "Item_serializeAttr T i =
     (let it = item_type_of T i
      in written_if (it_stackable it \<or> isFluidContainer it \<or> isSplash it) ATTR_COUNT [ucast (getSubType T i)] @
         written_if (getCharges i \<noteq> 0) ATTR_CHARGES (le16 (getCharges i)) @
         written_if (it_moveable it \<and> getActionId i \<noteq> 0) ATTR_ACTION_ID (le16 (getActionId i)) @
         written_text ITEM_ATTRIBUTE_TEXT ATTR_TEXT i @
         written_if (item_getIntAttr ITEM_ATTRIBUTE_DATE i \<noteq> 0) ATTR_WRITTENDATE
           (le32 (ucast (item_getIntAttr ITEM_ATTRIBUTE_DATE i))) @
         written_text ITEM_ATTRIBUTE_WRITER ATTR_WRITTENBY i @
         written_text ITEM_ATTRIBUTE_DESCRIPTION ATTR_DESC i @
         written_int ITEM_ATTRIBUTE_DURATION ATTR_DURATION (le32 \<circ> ucast) i @
         written_if (getDecaying i = DECAYING_TRUE \<or> getDecaying i = DECAYING_PENDING) ATTR_DECAYING_STATE [getDecaying i] @
         written_str ITEM_ATTRIBUTE_NAME ATTR_NAME i @
         written_str ITEM_ATTRIBUTE_ARTICLE ATTR_ARTICLE i @
         written_str ITEM_ATTRIBUTE_PLURALNAME ATTR_PLURALNAME i @
         written_int ITEM_ATTRIBUTE_WEIGHT ATTR_WEIGHT (le32 \<circ> ucast) i @
         written_int ITEM_ATTRIBUTE_ATTACK ATTR_ATTACK (le32 \<circ> ucast) i @
         written_int ITEM_ATTRIBUTE_ATTACK_SPEED ATTR_ATTACK_SPEED (le32 \<circ> ucast) i @
         written_int ITEM_ATTRIBUTE_DEFENSE ATTR_DEFENSE (le32 \<circ> ucast) i @
         written_int ITEM_ATTRIBUTE_EXTRADEFENSE ATTR_EXTRADEFENSE (le32 \<circ> ucast) i @
         written_int ITEM_ATTRIBUTE_ARMOR ATTR_ARMOR (le32 \<circ> ucast) i @
         written_int ITEM_ATTRIBUTE_HITCHANCE ATTR_HITCHANCE (\<lambda>n. [ucast n]) i @
         written_int ITEM_ATTRIBUTE_SHOOTRANGE ATTR_SHOOTRANGE (\<lambda>n. [ucast n]) i @
         written_int ITEM_ATTRIBUTE_DECAYTO ATTR_DECAYTO (le32 \<circ> ucast) i @
         written_int ITEM_ATTRIBUTE_WRAPID ATTR_WRAPID (le16 \<circ> ucast) i @
         written_int ITEM_ATTRIBUTE_STOREITEM ATTR_STOREITEM (\<lambda>n. [ucast n]) i @
         written_if (item_hasAttribute ITEM_ATTRIBUTE_CUSTOM i) ATTR_CUSTOM_ATTRIBUTES
           (le64 (of_nat (length (item_customs i))) @
            concat (map (\<lambda>(key, val). writeString key @ serialize_custom val) (item_customs i))))"

definition Teleport_serializeAttr :: "type_table \<Rightarrow> loading \<Rightarrow> u8 list" where
  "Teleport_serializeAttr T x =
     Item_serializeAttr T (the_item x) @
     attr_code ATTR_TELE_DEST # le16 (px (destPos x)) @ le16 (py (destPos x)) @ [pz (destPos x)]"

definition BedItem_serializeAttr :: "loading \<Rightarrow> u8 list" where
  "BedItem_serializeAttr x =
     written_if (sleeperGUID x \<noteq> 0) ATTR_SLEEPERGUID (le32 (sleeperGUID x)) @
     written_if (sleepStart x \<noteq> 0) ATTR_SLEEPSTART (le32 (ucast (sleepStart x)))"

definition serializeAttr :: "type_table \<Rightarrow> loading \<Rightarrow> u8 list" where
  "serializeAttr T x =
     (case item_class (the_item x) of
        Door \<Rightarrow> []
      | Teleport \<Rightarrow> Teleport_serializeAttr T x
      | Bed_Item \<Rightarrow> BedItem_serializeAttr x
      | _ \<Rightarrow> Item_serializeAttr T (the_item x))"

end
