(* ===== verification/Item_Restoring.thy ===== *)
theory Item_Restoring
  imports Item_Saving
begin

text \<open>
  What becomes of an item that is saved and loaded: \<open>saved_as\<close> says for each attribute what comes
  back, \<open>serialized_read_back\<close> that reading the written bytes puts exactly that back, piece by piece,
  and \<open>kept_value\<close> which values come back as they are.
\<close>

section \<open>What is restored\<close>

definition item_map :: "item \<Rightarrow> itemAttrTypes \<Rightarrow> attr_value option" where
  "item_map i = attr_map (getAttributes i)"

definition item_ok :: "item \<Rightarrow> bool" where
  "item_ok i \<longleftrightarrow> attrs_ok (getAttributes i)"

definition fluid_type :: "item_type \<Rightarrow> bool" where
  "fluid_type it \<longleftrightarrow> isFluidContainer it \<or> isSplash it"

definition saved_string :: "u8 list \<Rightarrow> attr_value option" where
  "saved_string s = (if s = [] then None else Some (Str s))"

definition saved_int :: "itemAttrTypes \<Rightarrow> (64 word \<Rightarrow> 64 word) \<Rightarrow> item \<Rightarrow> attr_value option" where
  "saved_int t f i =
     (if item_hasAttribute t i then Some (Integer (kept_int t (f (item_getIntAttr t i)))) else None)"

definition signed32 :: "64 word \<Rightarrow> 64 word" where
  "signed32 n = scast (ucast n :: u32)"

definition unsigned32 :: "64 word \<Rightarrow> 64 word" where
  "unsigned32 n = ucast (ucast n :: u32)"

text \<open>The value that a saved and loaded item has for an attribute, where saving keeps one.\<close>

definition saved_as :: "type_table \<Rightarrow> item \<Rightarrow> itemAttrTypes \<Rightarrow> attr_value option" where
  "saved_as T i t =
     (case t of
        ITEM_ATTRIBUTE_FLUIDTYPE \<Rightarrow>
          if fluid_type (item_type_of T i) then Some (Integer (ucast (ucast (getFluidType i) :: u8))) else None
      | ITEM_ATTRIBUTE_CHARGES \<Rightarrow> if getCharges i \<noteq> 0 then Some (Integer (ucast (getCharges i))) else None
      | ITEM_ATTRIBUTE_ACTIONID \<Rightarrow>
          if it_moveable (item_type_of T i) \<and> getActionId i \<noteq> 0
          then Some (Integer (ucast (max 100 (getActionId i)))) else None
      | ITEM_ATTRIBUTE_TEXT \<Rightarrow> saved_string (item_getStrAttr t i)
      | ITEM_ATTRIBUTE_DATE \<Rightarrow>
          if item_getIntAttr t i \<noteq> 0 then Some (Integer (signed32 (item_getIntAttr t i))) else None
      | ITEM_ATTRIBUTE_WRITER \<Rightarrow> saved_string (item_getStrAttr t i)
      | ITEM_ATTRIBUTE_DESCRIPTION \<Rightarrow> saved_string (item_getStrAttr t i)
      | ITEM_ATTRIBUTE_DURATION \<Rightarrow>
          saved_int t (\<lambda>n. scast (word_of_int (max 0 (sint (ucast n :: u32))) :: u32)) i
      | ITEM_ATTRIBUTE_DECAYSTATE \<Rightarrow>
          if getDecaying i = DECAYING_TRUE \<or> getDecaying i = DECAYING_PENDING then Some (Integer 2) else None
      | ITEM_ATTRIBUTE_NAME \<Rightarrow> saved_string (item_getStrAttr t i)
      | ITEM_ATTRIBUTE_ARTICLE \<Rightarrow> saved_string (item_getStrAttr t i)
      | ITEM_ATTRIBUTE_PLURALNAME \<Rightarrow> saved_string (item_getStrAttr t i)
      | ITEM_ATTRIBUTE_WEIGHT \<Rightarrow> saved_int t unsigned32 i
      | ITEM_ATTRIBUTE_ATTACK \<Rightarrow> saved_int t signed32 i
      | ITEM_ATTRIBUTE_ATTACK_SPEED \<Rightarrow> saved_int t unsigned32 i
      | ITEM_ATTRIBUTE_DEFENSE \<Rightarrow> saved_int t signed32 i
      | ITEM_ATTRIBUTE_EXTRADEFENSE \<Rightarrow> saved_int t signed32 i
      | ITEM_ATTRIBUTE_ARMOR \<Rightarrow> saved_int t signed32 i
      | ITEM_ATTRIBUTE_HITCHANCE \<Rightarrow> saved_int t (\<lambda>n. scast (ucast n :: u8)) i
      | ITEM_ATTRIBUTE_SHOOTRANGE \<Rightarrow> saved_int t (\<lambda>n. ucast (ucast n :: u8)) i
      | ITEM_ATTRIBUTE_DECAYTO \<Rightarrow> saved_int t signed32 i
      | ITEM_ATTRIBUTE_WRAPID \<Rightarrow> saved_int t (\<lambda>n. ucast (ucast n :: u16)) i
      | ITEM_ATTRIBUTE_STOREITEM \<Rightarrow> saved_int t (\<lambda>n. ucast (ucast n :: u8)) i
      | ITEM_ATTRIBUTE_CUSTOM \<Rightarrow> if item_customs i = [] then None else Some (Custom (item_customs i))
      | _ \<Rightarrow> None)"

text \<open>The order in which they are written.\<close>

definition saved_types :: "itemAttrTypes list" where
  "saved_types =
     [ITEM_ATTRIBUTE_FLUIDTYPE, ITEM_ATTRIBUTE_CHARGES, ITEM_ATTRIBUTE_ACTIONID, ITEM_ATTRIBUTE_TEXT,
      ITEM_ATTRIBUTE_DATE, ITEM_ATTRIBUTE_WRITER, ITEM_ATTRIBUTE_DESCRIPTION, ITEM_ATTRIBUTE_DURATION,
      ITEM_ATTRIBUTE_DECAYSTATE, ITEM_ATTRIBUTE_NAME, ITEM_ATTRIBUTE_ARTICLE, ITEM_ATTRIBUTE_PLURALNAME,
      ITEM_ATTRIBUTE_WEIGHT, ITEM_ATTRIBUTE_ATTACK, ITEM_ATTRIBUTE_ATTACK_SPEED, ITEM_ATTRIBUTE_DEFENSE,
      ITEM_ATTRIBUTE_EXTRADEFENSE, ITEM_ATTRIBUTE_ARMOR, ITEM_ATTRIBUTE_HITCHANCE, ITEM_ATTRIBUTE_SHOOTRANGE,
      ITEM_ATTRIBUTE_DECAYTO, ITEM_ATTRIBUTE_WRAPID, ITEM_ATTRIBUTE_STOREITEM, ITEM_ATTRIBUTE_CUSTOM]"

definition put_customs :: "custom_map \<Rightarrow> item \<Rightarrow> item" where
  "put_customs m j = fold (\<lambda>(key, val). item_setCustomAttribute key val) m j"

fun put_back :: "itemAttrTypes \<Rightarrow> attr_value option \<Rightarrow> item \<Rightarrow> item" where
  "put_back t None j = j"
| "put_back t (Some (Integer n)) j = item_setIntAttr t n j"
| "put_back t (Some (Str s)) j = item_setStrAttr t s j"
| "put_back t (Some (Custom m)) j = put_customs m j"

text \<open>What an item needs for its attributes to come back. Charges of an item that is counted in another
  way come back as its count; a text is never empty and not longer than 65535; a custom entry has a
  value and a key in lower case, as every key that is set.\<close>

definition custom_storable :: "custom_map \<Rightarrow> bool" where
  "custom_storable m \<longleftrightarrow> length m < 2 ^ 64 \<and>
     (\<forall>(key, val) \<in> set m. length key \<le> 65535 \<and> lower_key key = key \<and>
        (case val of Blank \<Rightarrow> False | Custom_String s \<Rightarrow> length s \<le> 65535 | _ \<Rightarrow> True))"

definition storable :: "type_table \<Rightarrow> item \<Rightarrow> bool" where
  "storable T i \<longleftrightarrow>
     (getCharges i \<noteq> 0 \<longrightarrow> it_charges (item_type_of T i) \<noteq> 0 \<and> \<not> it_stackable (item_type_of T i) \<and>
        \<not> fluid_type (item_type_of T i)) \<and>
     (\<forall>t \<in> {ITEM_ATTRIBUTE_TEXT, ITEM_ATTRIBUTE_WRITER, ITEM_ATTRIBUTE_DESCRIPTION, ITEM_ATTRIBUTE_NAME,
           ITEM_ATTRIBUTE_ARTICLE, ITEM_ATTRIBUTE_PLURALNAME}.
        length (item_getStrAttr t i) \<le> 65535 \<and> (item_hasAttribute t i \<longrightarrow> item_getStrAttr t i \<noteq> [])) \<and>
     custom_storable (item_customs i)"

subsection \<open>The operations on an item as updates of its map\<close>

lemma has_map: "item_ok i \<Longrightarrow> item_hasAttribute t i \<longleftrightarrow> item_map i t \<noteq> None"
  by (auto simp: item_hasAttribute_def item_map_def item_ok_def getAttributes_def hasAttribute_map split: option.splits)

lemma getAttributes_set [simp]: "getAttributes (i\<lparr>item_attrs := Some a\<rparr>) = a"
  by (simp add: getAttributes_def)

text \<open>The values that are put back.\<close>

definition fresh_value :: "itemAttrTypes \<Rightarrow> attr_value \<Rightarrow> bool" where
  "fresh_value t v \<longleftrightarrow> value_kind_ok t v \<and>
     (case v of Integer n \<Rightarrow> kept_int t n = n | Str s \<Rightarrow> s \<noteq> []
      | Custom m \<Rightarrow> m \<noteq> [] \<and> (\<forall>e \<in> set m. lower_key (fst e) = fst e))"

lemma put_back_spec:
  assumes j: "item_ok j" and v: "fresh_value t v"
    and c: "t = ITEM_ATTRIBUTE_CUSTOM \<Longrightarrow> item_map j ITEM_ATTRIBUTE_CUSTOM = None"
  shows "item_ok (put_back t (Some v) j) \<and> item_map (put_back t (Some v) j) = (item_map j)(t \<mapsto> v)"
proof (cases v)
  case (Integer n)
  then show ?thesis using setIntAttr_spec [OF j [unfolded item_ok_def], of t n] v
    by (simp add: item_setIntAttr_def item_ok_def item_map_def fresh_value_def)
next
  case (Str s)
  then show ?thesis using setStrAttr_spec [OF j [unfolded item_ok_def], of t s] v
    by (simp add: item_setStrAttr_def item_ok_def item_map_def fresh_value_def)
next
  case (Custom m)
  have step: "item_ok (put_customs m j) \<and> (m \<noteq> [] \<longrightarrow>
      item_map (put_customs m j) = (item_map j)(ITEM_ATTRIBUTE_CUSTOM \<mapsto> Custom (custom_entries (getAttributes j) @ m)))"
    if "item_ok j" "distinct (map fst (custom_entries (getAttributes j) @ m))" "\<forall>e \<in> set m. lower_key (fst e) = fst e" for m j
    using that
  proof (induction m arbitrary: j)
    case Nil
    then show ?case by (simp add: put_customs_def)
  next
    case (Cons e m)
    obtain key val where e: "e = (key, val)" by (cases e)
    let ?j = "item_setCustomAttribute key val j" and ?c = "custom_entries (getAttributes j)"
    have "map_of ?c key = None" using Cons.prems(2) e by (auto simp: map_of_eq_None_iff)
    with Cons.prems(3) e have c: "erase_key (lower_key key) ?c @ [(lower_key key, val)] = ?c @ [(key, val)]"
      by (simp add: erase_key_absent)
    note s = setCustomAttribute_spec [OF Cons.prems(1) [unfolded item_ok_def], of key val, unfolded c]
    have ok: "item_ok ?j" and mp: "item_map ?j = (item_map j)(ITEM_ATTRIBUTE_CUSTOM \<mapsto> Custom (?c @ [(key, val)]))"
      using s by (simp_all add: item_setCustomAttribute_def item_ok_def item_map_def)
    then have ce: "custom_entries (getAttributes ?j) = ?c @ [(key, val)]"
      by (simp add: custom_entries_def item_map_def)
    have "item_ok (put_customs m ?j) \<and> (m \<noteq> [] \<longrightarrow>
        item_map (put_customs m ?j) = (item_map ?j)(ITEM_ATTRIBUTE_CUSTOM \<mapsto> Custom (custom_entries (getAttributes ?j) @ m)))"
      using Cons.prems e by (intro Cons.IH ok) (auto simp: ce)
    moreover have "put_customs (e # m) j = put_customs m ?j" by (simp add: put_customs_def e)
    ultimately show ?case using mp ce e by (cases "m = []") (auto simp: put_customs_def)
  qed
  have t: "t = ITEM_ATTRIBUTE_CUSTOM" using v Custom by (auto simp: fresh_value_def attr_types)
  have "custom_entries (getAttributes j) = []" using c [OF t] by (simp add: custom_entries_def item_map_def)
  with step [OF j, of m] v Custom t show ?thesis by (simp add: attr_types fresh_value_def)
qed

lemma put_back_fold:
  assumes "distinct ts" and "item_ok j" and "ITEM_ATTRIBUTE_CUSTOM \<in> set ts \<Longrightarrow> item_map j ITEM_ATTRIBUTE_CUSTOM = None"
    and "\<And>t v. t \<in> set ts \<Longrightarrow> r t = Some v \<Longrightarrow> fresh_value t v"
  shows "item_ok (fold (\<lambda>t. put_back t (r t)) ts j) \<and>
    item_map (fold (\<lambda>t. put_back t (r t)) ts j) = item_map j ++ (r |` set ts)"
  using assms
proof (induction ts arbitrary: j)
  case (Cons t ts)
  let ?j = "put_back t (r t) j"
  have one: "item_ok ?j \<and> item_map ?j = (case r t of None \<Rightarrow> item_map j | Some v \<Rightarrow> (item_map j)(t \<mapsto> v))"
  proof (cases "r t")
    case (Some v)
    then show ?thesis using put_back_spec [OF Cons.prems(2), of t v] Cons.prems(3,4) by auto
  qed (use Cons.prems(2) in simp)
  have new: "item_map ?j ITEM_ATTRIBUTE_CUSTOM = None" if "ITEM_ATTRIBUTE_CUSTOM \<in> set ts"
    using one that Cons.prems(1,3) by (auto split: option.splits)
  have "item_ok (fold (\<lambda>t. put_back t (r t)) ts ?j) \<and>
      item_map (fold (\<lambda>t. put_back t (r t)) ts ?j) = item_map ?j ++ (r |` set ts)"
    using Cons.prems(1,4) one new by (intro Cons.IH) simp_all
  moreover have "item_map ?j ++ (r |` set ts) = item_map j ++ (r |` set (t # ts))"
    using one Cons.prems(1)
    by (auto simp: fun_eq_iff map_add_def restrict_map_def split: option.splits)
  ultimately show ?case by simp
qed simp

lemma item_customs_map: "item_ok i \<Longrightarrow> item_customs i = custom_entries (getAttributes i)"
  by (auto simp: item_customs_def item_ok_def getCustomAttributeMap_map custom_entries_def split: option.splits)

lemma saved_as_fresh:
  assumes i: "item_ok i" and st: "storable T i" and v: "saved_as T i t = Some v"
  shows "fresh_value t v"
proof -
  have low: "\<forall>e \<in> set (item_customs i). lower_key (fst e) = fst e"
    using st by (auto simp: storable_def custom_storable_def)
  have d: "distinct (map fst (item_customs i))"
    using i by (simp add: item_customs_map custom_entries_distinct item_ok_def)
  show ?thesis using v low d
    by (cases t)
      (auto simp: saved_as_def saved_string_def saved_int_def attr_types kept_int_def fresh_value_def split: if_splits)
qed

section \<open>Reading back what was written\<close>

definition shared_attr :: "AttrTypes_t \<Rightarrow> bool" where
  "shared_attr attr \<longleftrightarrow> attr \<notin> {ATTR_CONTAINER_ITEMS, ATTR_DEPOT_ID, ATTR_HOUSEDOORID, ATTR_TELE_DEST,
     ATTR_SLEEPERGUID, ATTR_SLEEPSTART}"

lemma readAttr_shared: "shared_attr attr \<Longrightarrow> readAttr e attr = Item_readAttr e attr"
  by (auto simp: fun_eq_iff shared_attr_def readAttr_def Container_readAttr_def DepotLocker_readAttr_def
      Door_readAttr_def Teleport_readAttr_def BedItem_readAttr_def Let_def)

lemma on_item_id [simp]: "on_item (\<lambda>j. j) s = s"
  by (simp add: on_item_def)

lemma on_item_on_item [simp]: "on_item g (on_item f s) = on_item (\<lambda>j. g (f j)) s"
  by (simp add: on_item_def)

lemma read_back:
  assumes "shared_attr attr" and "Item_readAttr e attr (bs @ rest) s = (Read_Continue rest, on_item f s)"
    and "\<not> c \<Longrightarrow> on_item f s = s"
  shows "unserializeAttr e (written_if c attr bs @ rest) s = unserializeAttr e rest (on_item f s)"
  using assms by (cases c) (simp_all add: written_if_def readAttr_shared)

lemma written_if_False [simp]: "written_if False attr bs = []"
  by (simp add: written_if_def)

lemma read_back_int:
  assumes "shared_attr attr" and "\<And>n rest s. Item_readAttr e attr (enc n @ rest) s = (Read_Continue rest, int_from t (f n) s)"
  shows "unserializeAttr e (written_int t attr enc i @ rest) s = unserializeAttr e rest (on_item (put_back t (saved_int t f i)) s)"
  using assms
  by (auto simp: written_int_def written_if_def readAttr_shared int_from_def saved_int_def item_setIntAttr_def
      setIntAttr_def kept_int_def Let_def on_item_def)

lemma put_back_eqs [simp]:
  "put_back t None = (\<lambda>j. j)" "put_back t (Some (Integer n)) = item_setIntAttr t n"
  "put_back t (Some (Str s)) = item_setStrAttr t s" "put_back t (Some (Custom m)) = put_customs m"
  by (simp_all add: fun_eq_iff)

lemma read_back_str:
  assumes "shared_attr attr" and "\<And>n rest s. Item_readAttr e attr (writeString n @ rest) s =
      (Read_Continue rest, str_from t (if length n \<le> 65535 then n else []) s)"
    and "length (item_getStrAttr t i) \<le> 65535 \<and> (item_hasAttribute t i \<longrightarrow> item_getStrAttr t i \<noteq> [])"
    and "isStrAttrType t" and "item_ok i"
  shows "unserializeAttr e (written_text t attr i @ rest) s =
      unserializeAttr e rest (on_item (put_back t (saved_string (item_getStrAttr t i))) s)"
    and "unserializeAttr e (written_str t attr i @ rest) s =
      unserializeAttr e rest (on_item (put_back t (saved_string (item_getStrAttr t i))) s)"
proof -
  have "item_getStrAttr t i = []" if "\<not> item_hasAttribute t i"
    using that assms(4,5) getStrAttr_map [of "getAttributes i" t]
    by (auto simp: item_getStrAttr_def item_ok_def getAttributes_def item_hasAttribute_def hasAttribute_map split: option.splits)
  then have "written_str t attr i = written_text t attr i"
    using assms(3) by (auto simp: written_str_def written_text_def written_if_def)
  then show "unserializeAttr e (written_text t attr i @ rest) s =
      unserializeAttr e rest (on_item (put_back t (saved_string (item_getStrAttr t i))) s)"
    and "unserializeAttr e (written_str t attr i @ rest) s =
      unserializeAttr e rest (on_item (put_back t (saved_string (item_getStrAttr t i))) s)"
    using assms(1-3)
    by (auto simp: written_text_def written_if_def readAttr_shared str_from_def saved_string_def)
qed

lemma put_customs_Nil [simp]: "put_customs [] = (\<lambda>j. j)"
  by (simp add: put_customs_def fun_eq_iff)

lemma read_customs_back:
  assumes "custom_storable m"
  shows "read_customs (length m) (concat (map (\<lambda>(key, val). writeString key @ serialize_custom val) m) @ rest) s =
    (Read_Continue rest, on_item (put_customs m) s)"
  using assms
proof (induction m arbitrary: s)
  case (Cons e m)
  obtain key val where e: "e = (key, val)" by (cases e)
  have "unserialize_custom (serialize_custom val @ more) = Some (val, more)" for more
    using Cons.prems e
    by (cases val) (auto simp: custom_storable_def unserialize_custom_def string_round_trip)
  with Cons e show ?case
    by (simp add: custom_storable_def string_round_trip put_customs_def)
qed simp

lemma int_pieces:
  fixes e :: load_env and T :: type_table and i :: item and rest :: "u8 list" and s :: load_state
  defines "back t \<equiv> unserializeAttr e rest (on_item (put_back t (saved_as T i t)) s)"
  shows
    "unserializeAttr e (written_int ITEM_ATTRIBUTE_DURATION ATTR_DURATION (le32 \<circ> ucast) i @ rest) s = back ITEM_ATTRIBUTE_DURATION"
    "unserializeAttr e (written_int ITEM_ATTRIBUTE_WEIGHT ATTR_WEIGHT (le32 \<circ> ucast) i @ rest) s = back ITEM_ATTRIBUTE_WEIGHT"
    "unserializeAttr e (written_int ITEM_ATTRIBUTE_ATTACK ATTR_ATTACK (le32 \<circ> ucast) i @ rest) s = back ITEM_ATTRIBUTE_ATTACK"
    "unserializeAttr e (written_int ITEM_ATTRIBUTE_ATTACK_SPEED ATTR_ATTACK_SPEED (le32 \<circ> ucast) i @ rest) s = back ITEM_ATTRIBUTE_ATTACK_SPEED"
    "unserializeAttr e (written_int ITEM_ATTRIBUTE_DEFENSE ATTR_DEFENSE (le32 \<circ> ucast) i @ rest) s = back ITEM_ATTRIBUTE_DEFENSE"
    "unserializeAttr e (written_int ITEM_ATTRIBUTE_EXTRADEFENSE ATTR_EXTRADEFENSE (le32 \<circ> ucast) i @ rest) s = back ITEM_ATTRIBUTE_EXTRADEFENSE"
    "unserializeAttr e (written_int ITEM_ATTRIBUTE_ARMOR ATTR_ARMOR (le32 \<circ> ucast) i @ rest) s = back ITEM_ATTRIBUTE_ARMOR"
    "unserializeAttr e (written_int ITEM_ATTRIBUTE_HITCHANCE ATTR_HITCHANCE (\<lambda>n. [ucast n]) i @ rest) s = back ITEM_ATTRIBUTE_HITCHANCE"
    "unserializeAttr e (written_int ITEM_ATTRIBUTE_SHOOTRANGE ATTR_SHOOTRANGE (\<lambda>n. [ucast n]) i @ rest) s = back ITEM_ATTRIBUTE_SHOOTRANGE"
    "unserializeAttr e (written_int ITEM_ATTRIBUTE_DECAYTO ATTR_DECAYTO (le32 \<circ> ucast) i @ rest) s = back ITEM_ATTRIBUTE_DECAYTO"
    "unserializeAttr e (written_int ITEM_ATTRIBUTE_WRAPID ATTR_WRAPID (le16 \<circ> ucast) i @ rest) s = back ITEM_ATTRIBUTE_WRAPID"
    "unserializeAttr e (written_int ITEM_ATTRIBUTE_STOREITEM ATTR_STOREITEM (\<lambda>n. [ucast n]) i @ rest) s = back ITEM_ATTRIBUTE_STOREITEM"
  unfolding back_def saved_as_def itemAttrTypes.case
  by (rule read_back_int; simp add: shared_attr_def Item_readAttr_def take_value_def int_from_def signed32_def
      unsigned32_def read_s32_def setDuration_def)+

lemma str_pieces:
  fixes e :: load_env and T :: type_table and i :: item and rest :: "u8 list" and s :: load_state
  assumes "storable T i" and "item_ok i"
  defines "back t \<equiv> unserializeAttr e rest (on_item (put_back t (saved_as T i t)) s)"
  shows
    "unserializeAttr e (written_text ITEM_ATTRIBUTE_TEXT ATTR_TEXT i @ rest) s = back ITEM_ATTRIBUTE_TEXT"
    "unserializeAttr e (written_text ITEM_ATTRIBUTE_WRITER ATTR_WRITTENBY i @ rest) s = back ITEM_ATTRIBUTE_WRITER"
    "unserializeAttr e (written_text ITEM_ATTRIBUTE_DESCRIPTION ATTR_DESC i @ rest) s = back ITEM_ATTRIBUTE_DESCRIPTION"
    "unserializeAttr e (written_str ITEM_ATTRIBUTE_NAME ATTR_NAME i @ rest) s = back ITEM_ATTRIBUTE_NAME"
    "unserializeAttr e (written_str ITEM_ATTRIBUTE_ARTICLE ATTR_ARTICLE i @ rest) s = back ITEM_ATTRIBUTE_ARTICLE"
    "unserializeAttr e (written_str ITEM_ATTRIBUTE_PLURALNAME ATTR_PLURALNAME i @ rest) s = back ITEM_ATTRIBUTE_PLURALNAME"
  unfolding back_def saved_as_def itemAttrTypes.case
  by (rule read_back_str; use assms(1,2) in \<open>simp add: shared_attr_def Item_readAttr_def take_value_def
      string_round_trip storable_def attr_types\<close>)+

lemma other_pieces:
  fixes e :: load_env and T :: type_table and i :: item and rest :: "u8 list" and s :: load_state
  assumes "storable T i"
  defines "back t \<equiv> unserializeAttr e rest (on_item (put_back t (saved_as T i t)) s)"
  shows
    "unserializeAttr e (written_if (it_moveable (item_type_of T i) \<and> getActionId i \<noteq> 0) ATTR_ACTION_ID
       (le16 (getActionId i)) @ rest) s = back ITEM_ATTRIBUTE_ACTIONID" (is ?action)
    "unserializeAttr e (written_if (item_getIntAttr ITEM_ATTRIBUTE_DATE i \<noteq> 0) ATTR_WRITTENDATE
       (le32 (ucast (item_getIntAttr ITEM_ATTRIBUTE_DATE i))) @ rest) s = back ITEM_ATTRIBUTE_DATE" (is ?date)
    "unserializeAttr e (written_if (getDecaying i = DECAYING_TRUE \<or> getDecaying i = DECAYING_PENDING)
       ATTR_DECAYING_STATE [getDecaying i] @ rest) s = back ITEM_ATTRIBUTE_DECAYSTATE" (is ?decay)
    "unserializeAttr e (written_if (item_hasAttribute ITEM_ATTRIBUTE_CUSTOM i) ATTR_CUSTOM_ATTRIBUTES
       (le64 (of_nat (length (item_customs i))) @
        concat (map (\<lambda>(key, val). writeString key @ serialize_custom val) (item_customs i))) @ rest) s =
     back ITEM_ATTRIBUTE_CUSTOM" (is ?custom)
proof -
  have m: "max 100 n = (if n < 100 then 100 else n)" for n :: u16 by (auto simp: max_def not_le)
  show ?action
    by (simp add: back_def saved_as_def written_if_def readAttr_shared shared_attr_def Item_readAttr_def take_value_def
        setActionId_def [abs_def] m)
  show ?date
    by (simp add: back_def saved_as_def written_if_def readAttr_shared shared_attr_def Item_readAttr_def take_value_def
        setDate_def [abs_def] signed32_def)
  show ?decay
    by (auto simp: back_def saved_as_def written_if_def readAttr_shared shared_attr_def Item_readAttr_def take_value_def
        setDecaying_def DECAYING_TRUE_def DECAYING_PENDING_def DECAYING_FALSE_def)
  have c: "custom_storable (item_customs i)" using assms(1) by (simp add: storable_def)
  then have "length (item_customs i) < 2 ^ 64" by (simp add: custom_storable_def)
  then have l: "unat (of_nat (length (item_customs i)) :: u64) = length (item_customs i)" by (simp add: unat_of_nat)
  have none: "item_customs i = []" if "\<not> item_hasAttribute ITEM_ATTRIBUTE_CUSTOM i"
    using that by (auto simp: item_customs_def getCustomAttributeMap_def item_hasAttribute_def getAttributes_def
        no_attributes_def hasAttribute_def split: option.splits)
  show ?custom
    using none read_customs_back [OF c, of rest s]
    by (auto simp: back_def saved_as_def written_if_def readAttr_shared shared_attr_def Item_readAttr_def l)
qed

text \<open>The count and the charges go through \<open>setSubType\<close>, which asks for the type of the item.\<close>

definition counted :: "type_table \<Rightarrow> item \<Rightarrow> item \<Rightarrow> item" where
  "counted T i j =
     (if it_stackable (item_type_of T i) \<and> \<not> fluid_type (item_type_of T i) then setItemCount (item_count i) j else j)"

lemma item_type_of_set [simp]:
  "item_type_of T (item_setIntAttr t n j) = item_type_of T j"
  "item_type_of T (setItemCount c j) = item_type_of T j"
  by (simp_all add: item_type_of_def item_setIntAttr_def setItemCount_def)

lemma widened:
  "(ucast (ucast (x :: u8) :: u16) :: u64) = ucast x"
  "(ucast (ucast (x :: u8) :: u16) :: u8) = x"
  by (rule bit_word_eqI, auto simp: bit_simps dest: bit_imp_le_length)+

lemma count_pieces:
  assumes "storable T i" and "env_types e = T" and "item_type_of T (the_item (fst s)) = item_type_of T i"
  defines "it \<equiv> item_type_of T i"
  shows "unserializeAttr e (written_if (it_stackable it \<or> isFluidContainer it \<or> isSplash it) ATTR_COUNT [ucast (getSubType T i)] @
      written_if (getCharges i \<noteq> 0) ATTR_CHARGES (le16 (getCharges i)) @ rest) s =
    unserializeAttr e rest (on_item (\<lambda>j. put_back ITEM_ATTRIBUTE_CHARGES (saved_as T i ITEM_ATTRIBUTE_CHARGES)
      (put_back ITEM_ATTRIBUTE_FLUIDTYPE (saved_as T i ITEM_ATTRIBUTE_FLUIDTYPE) (counted T i j))) s)"
proof -
  let ?j = "the_item (fst s)"
  have on: "on_item f s = on_item g s" if "f ?j = g ?j" for f g
    using that by (simp add: on_item_def)
  have count: "unserializeAttr e (written_if (it_stackable it \<or> isFluidContainer it \<or> isSplash it) ATTR_COUNT
      [ucast (getSubType T i)] @ more) s = unserializeAttr e more (on_item (\<lambda>j.
      put_back ITEM_ATTRIBUTE_FLUIDTYPE (saved_as T i ITEM_ATTRIBUTE_FLUIDTYPE) (counted T i j)) s)" for more
    using assms(2,3)
    by (auto simp: written_if_def readAttr_shared shared_attr_def Item_readAttr_def take_value_def saved_as_def
        setSubType_def getSubType_def it_def counted_def fluid_type_def setFluidType_def widened intro!: on arg_cong [of _ _ "unserializeAttr e more"])
  have charges: "unserializeAttr e (written_if (getCharges i \<noteq> 0) ATTR_CHARGES (le16 (getCharges i)) @ more) t =
      unserializeAttr e more (on_item (put_back ITEM_ATTRIBUTE_CHARGES (saved_as T i ITEM_ATTRIBUTE_CHARGES)) t)"
    if "item_type_of T (the_item (fst t)) = item_type_of T i" for t more
  proof -
    have "on_item (setSubType T n) t = on_item (setCharges n) t" if "getCharges i \<noteq> 0" for n
      using that assms(1) \<open>item_type_of T (the_item (fst t)) = item_type_of T i\<close>
      by (simp add: on_item_def setSubType_def storable_def fluid_type_def)
    then show ?thesis
      using assms(2)
      by (simp add: written_if_def readAttr_shared shared_attr_def Item_readAttr_def take_value_def saved_as_def
          setCharges_def [abs_def])
  qed
  show ?thesis
    by (subst count, subst charges)
      (use assms(3) in \<open>auto simp: on_item_def counted_def saved_as_def\<close>)
qed

definition restore :: "type_table \<Rightarrow> item \<Rightarrow> item \<Rightarrow> item" where
  "restore T i j = fold (\<lambda>t. put_back t (saved_as T i t)) saved_types (counted T i j)"

lemma serialized_read_back:
  assumes "storable T i" and "item_ok i" and "env_types e = T" and "item_type_of T (the_item (fst s)) = item_type_of T i"
  shows "unserializeAttr e (Item_serializeAttr T i @ rest) s = unserializeAttr e rest (on_item (restore T i) s)"
proof -
  note pieces = int_pieces [where T = T and i = i] str_pieces [OF assms(1,2)] other_pieces [OF assms(1)]
  show ?thesis
    unfolding Item_serializeAttr_def Let_def append_assoc count_pieces [OF assms(1,3,4)] pieces on_item_on_item
    by (simp add: restore_def [abs_def] saved_types_def)
qed

section \<open>The item that comes back\<close>

definition restored :: "type_table \<Rightarrow> item \<Rightarrow> item \<Rightarrow> item \<Rightarrow> bool" where
  "restored T i j j' \<longleftrightarrow> item_ok j' \<and> item_map j' = item_map j ++ saved_as T i \<and>
     j' = (counted T i j)\<lparr>item_attrs := item_attrs j'\<rparr>"

lemma put_customs_fields: "put_customs m j = j\<lparr>item_attrs := item_attrs (put_customs m j)\<rparr>"
proof (induction m arbitrary: j)
  case (Cons e m)
  obtain key val where e: "e = (key, val)" by (cases e)
  have "put_customs (e # m) j = put_customs m (item_setCustomAttribute key val j)" by (simp add: put_customs_def e)
  with Cons.IH [of "item_setCustomAttribute key val j"] show ?case by (simp add: item_setCustomAttribute_def)
qed simp

lemma put_back_fields: "put_back t v j = j\<lparr>item_attrs := item_attrs (put_back t v j)\<rparr>"
  using put_customs_fields by (cases "(t, v, j)" rule: put_back.cases) (simp_all add: item_setIntAttr_def item_setStrAttr_def)

lemma attrs_only_trans:
  assumes "y = j\<lparr>item_attrs := item_attrs y\<rparr>" and "x = y\<lparr>item_attrs := item_attrs x\<rparr>"
  shows "x = j\<lparr>item_attrs := item_attrs x\<rparr>"
proof -
  have "y\<lparr>item_attrs := a\<rparr> = j\<lparr>item_attrs := a\<rparr>" for a
    by (subst assms(1)) simp
  then show ?thesis by (subst assms(2)) simp
qed

lemma put_back_fold_fields:
  "fold (\<lambda>t. put_back t (r t)) ts j = j\<lparr>item_attrs := item_attrs (fold (\<lambda>t. put_back t (r t)) ts j)\<rparr>"
proof (induction ts arbitrary: j)
  case (Cons t ts)
  from attrs_only_trans [OF put_back_fields [of t "r t" j] Cons.IH [of "put_back t (r t) j"]]
  show ?case by simp
qed simp

lemma saved_as_only: "saved_as T i |` set saved_types = saved_as T i"
proof
  fix t
  show "(saved_as T i |` set saved_types) t = saved_as T i t"
    by (cases t) (simp_all add: restrict_map_def saved_types_def saved_as_def)
qed

lemma restore_restored:
  assumes "storable T i" and "item_ok i" and "item_ok j" and "item_map j ITEM_ATTRIBUTE_CUSTOM = None"
  shows "restored T i j (restore T i j)"
proof -
  have c: "item_ok (counted T i j)" "item_map (counted T i j) = item_map j"
    using assms(3) by (simp_all add: counted_def item_ok_def item_map_def setItemCount_def getAttributes_def)
  have d: "distinct saved_types" by (simp add: saved_types_def)
  from put_back_fold [OF d c(1), of "saved_as T i"] c(2) assms(4) saved_as_fresh [OF assms(2,1)]
  show ?thesis
    unfolding restored_def restore_def saved_as_only by (simp add: put_back_fold_fields [symmetric])
qed

lemma item_setIntAttr_map:
  "item_ok j \<Longrightarrow> isIntAttrType t \<Longrightarrow> t \<noteq> ITEM_ATTRIBUTE_NONE \<Longrightarrow> item_ok (item_setIntAttr t n j) \<and>
     item_map (item_setIntAttr t n j) = (item_map j)(t \<mapsto> Integer (kept_int t n))"
  by (simp add: item_ok_def item_map_def item_setIntAttr_def setIntAttr_spec)

text \<open>A new item has a duration, charges and a fluid at most; a vessel has a fluid.\<close>

definition new_attributes :: "type_table \<Rightarrow> item \<Rightarrow> bool" where
  "new_attributes T j \<longleftrightarrow> item_ok j \<and>
     dom (item_map j) \<subseteq> {ITEM_ATTRIBUTE_DURATION, ITEM_ATTRIBUTE_CHARGES, ITEM_ATTRIBUTE_FLUIDTYPE} \<and>
     (fluid_type (item_type_of T j) \<longrightarrow> item_map j ITEM_ATTRIBUTE_FLUIDTYPE \<noteq> None)"

lemma new_item_map: "new_attributes T (new_item T cl ty n)"
proof -
  have b: "item_ok (blank_item cl ty)" "item_map (blank_item cl ty) = Map.empty" "item_type_of T (blank_item cl ty) = T ty"
    by (simp_all add: blank_item_def item_ok_def item_map_def getAttributes_def item_type_of_def fun_eq_iff)
  have count: "item_ok (setItemCount c j) = item_ok j" "item_map (setItemCount c j) = item_map j" for c j
    by (simp_all add: item_ok_def item_map_def setItemCount_def getAttributes_def)
  define j where "j = init_subtype T n (blank_item cl ty)"
  have j: "item_ok j \<and> item_type_of T j = T ty \<and> dom (item_map j) \<subseteq> {ITEM_ATTRIBUTE_CHARGES, ITEM_ATTRIBUTE_FLUIDTYPE} \<and>
      (fluid_type (T ty) \<longrightarrow> item_map j ITEM_ATTRIBUTE_FLUIDTYPE \<noteq> None)"
    using b item_setIntAttr_map [of "blank_item cl ty"]
    by (simp add: j_def init_subtype_def Let_def count setCharges_def setFluidType_def attr_types fluid_type_def)
  then show ?thesis
    using item_setIntAttr_map [of j ITEM_ATTRIBUTE_DURATION]
    by (auto simp: new_item_def setDefaultDuration_def Let_def setDuration_def attr_types new_attributes_def
        j_def [symmetric])
qed

lemma CreateItem_map: "CreateItem T ty n = Some j \<Longrightarrow> new_attributes T j"
proof -
  assume new: "CreateItem T ty n = Some j"
  have c: "new_attributes T (new_container T cl ty n u)" for cl ty n u
    using new_item_map [of T cl ty 0]
    by (simp add: new_attributes_def new_container_def item_ok_def item_map_def getAttributes_def item_type_of_def)
  have d: "new_attributes T (if b then x else y)" if "new_attributes T x" "new_attributes T y" for b x y using that by simp
  have "new_attributes T j" if "(if b then None else if d then None else Some x) = Some j" "new_attributes T x" for b d x
    using that by (auto split: if_splits)
  from this [OF new [unfolded CreateItem_def Let_def]] show "new_attributes T j"
    by this (intro d new_item_map c)+
qed

text \<open>Values that are kept as they are.\<close>

fun kept_value :: "item_type \<Rightarrow> itemAttrTypes \<Rightarrow> attr_value \<Rightarrow> bool" where
  "kept_value it t (Integer n) =
     (case t of
        ITEM_ATTRIBUTE_ACTIONID \<Rightarrow> it_moveable it \<and> 100 \<le> n \<and> n < 2 ^ 16
      | ITEM_ATTRIBUTE_DATE \<Rightarrow> n \<noteq> 0 \<and> int32 (sint n)
      | ITEM_ATTRIBUTE_WEIGHT \<Rightarrow> n < 2 ^ 32
      | ITEM_ATTRIBUTE_ATTACK_SPEED \<Rightarrow> 100 \<le> n \<and> n < 2 ^ 32
      | ITEM_ATTRIBUTE_HITCHANCE \<Rightarrow> - 128 \<le> sint n \<and> sint n < 128
      | ITEM_ATTRIBUTE_SHOOTRANGE \<Rightarrow> n < 2 ^ 8
      | ITEM_ATTRIBUTE_STOREITEM \<Rightarrow> n < 2 ^ 8
      | ITEM_ATTRIBUTE_WRAPID \<Rightarrow> n < 2 ^ 16
      | ITEM_ATTRIBUTE_DURATION \<Rightarrow> n < 2 ^ 31
      | ITEM_ATTRIBUTE_DECAYSTATE \<Rightarrow> n = 2
      | ITEM_ATTRIBUTE_CHARGES \<Rightarrow> 0 < n \<and> n < 2 ^ 16 \<and> it_charges it \<noteq> 0 \<and> \<not> it_stackable it \<and> \<not> fluid_type it
      | ITEM_ATTRIBUTE_FLUIDTYPE \<Rightarrow> fluid_type it \<and> n < 2 ^ 8
      | _ \<Rightarrow> t \<in> {ITEM_ATTRIBUTE_ATTACK, ITEM_ATTRIBUTE_DEFENSE, ITEM_ATTRIBUTE_EXTRADEFENSE, ITEM_ATTRIBUTE_ARMOR,
           ITEM_ATTRIBUTE_DECAYTO} \<and> int32 (sint n))"
| "kept_value it t (Str s) = (s \<noteq> [] \<and> length s \<le> 65535)"
| "kept_value it t (Custom m) = (m \<noteq> [] \<and> custom_storable m)"

definition kept_item :: "type_table \<Rightarrow> item \<Rightarrow> bool" where
  "kept_item T i \<longleftrightarrow> item_ok i \<and>
     (\<forall>x \<in> set (attribute_list (getAttributes i)). kept_value (item_type_of T i) (a_type x) (a_value x))"

lemma kept_item_value: "kept_item T i \<Longrightarrow> item_map i t = Some v \<Longrightarrow> kept_value (item_type_of T i) t v"
  using attr_map_Some [of "getAttributes i" t v] by (auto simp: kept_item_def item_map_def item_ok_def)

lemma item_value_kind: "item_ok i \<Longrightarrow> item_map i t = Some v \<Longrightarrow> value_kind_ok t v"
  using attr_map_Some [of "getAttributes i" t v] by (auto simp: item_ok_def item_map_def attrs_ok_def)

subsection \<open>Values in range\<close>

lemma unsigned_kept:
  fixes n :: u64
  shows "n < 2 ^ 8 \<Longrightarrow> ucast (ucast n :: u8) = n" "n < 2 ^ 16 \<Longrightarrow> ucast (ucast n :: u16) = n"
    "n < 2 ^ 32 \<Longrightarrow> ucast (ucast n :: u32) = n"
  by (simp_all add: word_unat_eq_iff word_less_nat_alt unsigned_take_bit_eq unsigned_ucast_eq take_bit_nat_eq_self)

lemma word_eq_sint: "sint a = sint b \<Longrightarrow> a = b"
  by (rule signed_word_eqI)

lemma signed_take_kept: "- (2 ^ k) \<le> x \<Longrightarrow> x < 2 ^ k \<Longrightarrow> signed_take_bit k (x :: int) = x"
  by (simp add: signed_take_bit_int_eq_self)

lemma sint_narrow:
  fixes n :: u64
  shows "int32 (sint n) \<Longrightarrow> sint (ucast n :: u32) = sint n"
    and "- 128 \<le> sint n \<Longrightarrow> sint n < 128 \<Longrightarrow> sint (ucast n :: u8) = sint n" 
proof -
  have "sint (ucast n :: u32) = signed_take_bit 31 (sint n)" "sint (ucast n :: u8) = signed_take_bit 7 (sint n)"
    by (rule bit_eqI, simp add: bit_simps min_def)+
  then show "int32 (sint n) \<Longrightarrow> sint (ucast n :: u32) = sint n"
    and "- 128 \<le> sint n \<Longrightarrow> sint n < 128 \<Longrightarrow> sint (ucast n :: u8) = sint n"
    by (simp_all add: int32_def signed_take_kept)
qed

lemma sint_widen: "sint (scast (x :: u32) :: u64) = sint x" "sint (scast (y :: u8) :: u64) = sint y"
  by (rule bit_eqI, simp add: bit_simps min_def)+

lemma signed_kept:
  fixes n :: u64
  shows "int32 (sint n) \<Longrightarrow> scast (ucast n :: u32) = n" 
    and "- 128 \<le> sint n \<Longrightarrow> sint n < 128 \<Longrightarrow> scast (ucast n :: u8) = n" 
  by (rule word_eq_sint, simp add: sint_narrow sint_widen)+

lemma duration_kept:
  fixes n :: u64
  assumes "n < 2 ^ 31"
  shows "scast (word_of_int (max 0 (sint (ucast n :: u32))) :: u32) = n"
proof -
  have "uint n < 2 ^ 31" using assms by (simp add: word_less_def)
  moreover have "- 9223372036854775808 \<le> uint n" using uint_ge_0 [of n] by linarith
  ultimately have *: "sint n = uint n" "uint n < 2 ^ 31" by (simp_all add: sint_uint signed_take_bit_int_eq_self_iff)
  have "0 \<le> uint n" by simp
  with * have i: "int32 (sint n)" "0 \<le> sint n" unfolding int32_def by linarith+
  then show ?thesis using sint_word_of_int32 [of "sint n"]
    by (intro word_eq_sint) (simp add: sint_narrow sint_widen)
qed

lemma kept_int_map: "item_ok i \<Longrightarrow> item_map i t = Some (Integer n) \<Longrightarrow> isIntAttrType t \<Longrightarrow> item_getIntAttr t i = n"
  by (auto simp: item_getIntAttr_def item_ok_def item_map_def getAttributes_def getIntAttr_map split: option.splits)

lemma kept_str_map: "item_ok i \<Longrightarrow> isStrAttrType t \<Longrightarrow>
    item_getStrAttr t i = (case item_map i t of None \<Rightarrow> [] | Some v \<Rightarrow> string_of v)"
  by (auto simp: item_getStrAttr_def item_ok_def item_map_def getAttributes_def getStrAttr_map split: option.splits)

lemma int_default: "item_ok i \<Longrightarrow> item_map i t = None \<Longrightarrow> item_getIntAttr t i = 0"
  by (auto simp: item_getIntAttr_def item_ok_def item_map_def getAttributes_def getIntAttr_map split: option.splits)

lemma saved_int_kept:
  assumes "item_ok i" and "item_map i t = Some (Integer n)" and "f n = n" and "t = ITEM_ATTRIBUTE_ATTACK_SPEED \<Longrightarrow> 100 \<le> sint n"
  shows "saved_int t f i = Some (Integer n)"
proof -
  have "isIntAttrType t" using item_value_kind [OF assms(1,2)] by simp
  then show ?thesis
    using assms kept_int_map [OF assms(1,2)] by (auto simp: saved_int_def kept_int_def has_map)
qed

lemma kept_value_saved:
  assumes k: "kept_item T i" and m: "item_map i t = Some v"
  shows "saved_as T i t = Some v"
proof -
  have ok: "item_ok i" using k by (simp add: kept_item_def)
  note val = kept_item_value [OF k m] and kind = item_value_kind [OF ok m]
  have has: "item_hasAttribute t i" using m ok by (simp add: has_map)
  show ?thesis
  proof (cases v)
    case (Integer n)
    have n: "item_getIntAttr t i = n" using kept_int_map [OF ok] m Integer kind by simp
    note l = unsigned_kept [of n] signed_kept [of n] duration_kept [of n]
    have f: "n < 2 ^ 32 \<Longrightarrow> unsigned32 n = n" "int32 (sint n) \<Longrightarrow> signed32 n = n"
      using l by (simp_all add: unsigned32_def signed32_def)
    have speed: "100 \<le> sint n" if "100 \<le> n" "n < 2 ^ 32"
    proof -
      have "uint n < 2 ^ 32" "100 \<le> uint n" using that by (simp_all add: word_less_def word_le_def)
      then show ?thesis by (simp add: sint_uint signed_take_bit_int_eq_self)
    qed
    have charges: "ucast (getCharges i) = n \<and> getCharges i \<noteq> 0" if "t = ITEM_ATTRIBUTE_CHARGES" "0 < n" "n < 2 ^ 16"
      using that n l(2) by (auto simp: getCharges_def)
    have action: "ucast (max 100 (getActionId i)) = n \<and> getActionId i \<noteq> 0"
      if "t = ITEM_ATTRIBUTE_ACTIONID" "100 \<le> n" "n < 2 ^ 16"
    proof -
      have "unat (ucast n :: u16) = unat n" using that(3) by (simp add: unsigned_ucast_eq unsigned_take_bit_eq word_less_nat_alt take_bit_nat_eq_self)
      then have "100 \<le> (ucast n :: u16)" using that(2) by (simp add: word_le_nat_alt)
      then show ?thesis using that n l(2) by (auto simp: getActionId_def max_def)
    qed
    have fluid: "ucast (ucast (getFluidType i) :: u8) = n" if "t = ITEM_ATTRIBUTE_FLUIDTYPE" "n < 2 ^ 8"
    proof -
      have "(ucast (ucast n :: u16) :: u8) = ucast n" by (rule bit_word_eqI) (auto simp: bit_simps)
      then show ?thesis using that n l(1) by (simp add: getFluidType_def)
    qed
    have decay: "getDecaying i = 2" if "t = ITEM_ATTRIBUTE_DECAYSTATE" "n = 2"
      using that n by (simp add: getDecaying_def)
    have date: "item_getIntAttr ITEM_ATTRIBUTE_DATE i = n" if "t = ITEM_ATTRIBUTE_DATE" using that n by simp
    show ?thesis
      using val m unfolding Integer
      by (cases t; simp add: saved_as_def signed32_def charges action fluid decay date DECAYING_PENDING_def l(4))
        (rule saved_int_kept [OF ok], assumption, (rule l f; simp), (rule speed; simp))+
  next
    case (Str s)
    then have "item_getStrAttr t i = s" using kept_str_map [OF ok] m kind by simp
    with val Str kind show ?thesis by (cases t) (simp_all add: saved_as_def saved_string_def attr_types)
  next
    case (Custom c)
    then have t: "t = ITEM_ATTRIBUTE_CUSTOM" using kind by (auto simp: attr_types)
    have "item_customs i = c" using m Custom t by (simp add: item_customs_map [OF ok] custom_entries_def item_map_def)
    with val Custom t show ?thesis by (simp add: saved_as_def)
  qed
qed

lemma kept_item_storable:
  assumes k: "kept_item T i"
  shows "storable T i"
proof -
  have ok: "item_ok i" using k by (simp add: kept_item_def)
  have charges: "it_charges (item_type_of T i) \<noteq> 0 \<and> \<not> it_stackable (item_type_of T i) \<and> \<not> fluid_type (item_type_of T i)"
    if "getCharges i \<noteq> 0"
  proof -
    have "item_map i ITEM_ATTRIBUTE_CHARGES \<noteq> None"
    proof
      assume "item_map i ITEM_ATTRIBUTE_CHARGES = None"
      with int_default [OF ok] that show False by (simp add: getCharges_def)
    qed
    then obtain v where v: "item_map i ITEM_ATTRIBUTE_CHARGES = Some v" by blast
    then show ?thesis using kept_item_value [OF k v] item_value_kind [OF ok v] by (cases v) (auto simp: attr_types)
  qed
  have str: "length (item_getStrAttr t i) \<le> 65535 \<and> (item_hasAttribute t i \<longrightarrow> item_getStrAttr t i \<noteq> [])"
    if t: "isStrAttrType t" for t
  proof (cases "item_map i t")
    case (Some v)
    from item_value_kind [OF ok this] t obtain s where "v = Str s" by (cases v) (auto simp: attr_types)
    then show ?thesis using kept_item_value [OF k Some] kept_str_map [OF ok t] Some by simp
  qed (use kept_str_map [OF ok t] has_map [OF ok] in simp)
  have custom: "custom_storable (item_customs i)"
  proof (cases "item_map i ITEM_ATTRIBUTE_CUSTOM")
    case None
    then show ?thesis by (simp add: item_customs_map [OF ok] custom_entries_def item_map_def custom_storable_def)
  next
    case (Some v)
    from custom_entry [of "getAttributes i" v] ok Some obtain c where "v = Custom c" by (auto simp: item_ok_def item_map_def)
    then show ?thesis using kept_item_value [OF k Some] Some
      by (simp add: item_customs_map [OF ok] custom_entries_def item_map_def)
  qed
  show ?thesis using charges str custom by (auto simp: storable_def attr_types)
qed

section \<open>A sample\<close>

text \<open>A letter with a text, an action id, a custom value and a weight of its own.\<close>

definition paper_types :: type_table where
  "paper_types ty = new_type\<lparr>it_id := ty\<rparr>"

definition paper_env :: load_env where
  "paper_env = \<lparr>env_types = paper_types, nameByGuid = (\<lambda>guid. [])\<rparr>"

definition letter :: item where
  "letter = item_setCustomAttribute [107] (Custom_String [118]) (item_setIntAttr ITEM_ATTRIBUTE_WEIGHT 250
     (item_setStrAttr ITEM_ATTRIBUTE_TEXT [72, 105] (setActionId 1000 (blank_item Plain_Item 2597))))"

lemma letter_attributes:
  "attribute_list (getAttributes letter) =
     [\<lparr>a_type = ITEM_ATTRIBUTE_ACTIONID, a_value = Integer 1000\<rparr>, \<lparr>a_type = ITEM_ATTRIBUTE_TEXT, a_value = Str [72, 105]\<rparr>,
      \<lparr>a_type = ITEM_ATTRIBUTE_WEIGHT, a_value = Integer 250\<rparr>,
      \<lparr>a_type = ITEM_ATTRIBUTE_CUSTOM, a_value = Custom [([107], Custom_String [118])]\<rparr>]"
  by code_simp

lemma item_ok_ops:
  "item_ok (blank_item cl ty)"
  "item_ok j \<Longrightarrow> isIntAttrType t \<Longrightarrow> t \<noteq> ITEM_ATTRIBUTE_NONE \<Longrightarrow> item_ok (item_setIntAttr t n j)"
  "item_ok j \<Longrightarrow> isStrAttrType t \<Longrightarrow> t \<noteq> ITEM_ATTRIBUTE_NONE \<Longrightarrow> item_ok (item_setStrAttr t s j)"
  "item_ok j \<Longrightarrow> item_ok (item_setCustomAttribute key val j)"
proof -
  show "item_ok (blank_item cl ty)" by (simp add: item_ok_def blank_item_def getAttributes_def)
  show "item_ok j \<Longrightarrow> isIntAttrType t \<Longrightarrow> t \<noteq> ITEM_ATTRIBUTE_NONE \<Longrightarrow> item_ok (item_setIntAttr t n j)"
    by (rule conjunct1 [OF item_setIntAttr_map])
  show "item_ok j \<Longrightarrow> isStrAttrType t \<Longrightarrow> t \<noteq> ITEM_ATTRIBUTE_NONE \<Longrightarrow> item_ok (item_setStrAttr t s j)"
    by (cases "s = []") (simp_all add: item_ok_def item_setStrAttr_def setStrAttr_spec)
  show "item_ok j \<Longrightarrow> item_ok (item_setCustomAttribute key val j)"
    by (simp add: item_ok_def item_setCustomAttribute_def setCustomAttribute_spec)
qed

lemma letter_kept: "kept_item paper_types letter"
proof -
  have "item_ok letter"
    by (simp add: letter_def setActionId_def item_ok_ops attr_types)
  moreover have "it_moveable (item_type_of paper_types letter)" by code_simp
  ultimately show ?thesis
    by (simp add: kept_item_def letter_attributes custom_storable_def lower_key_def)
qed

lemma letter_created:
  "CreateItem (env_types paper_env) (item_id letter) 0 = Some (blank_item Plain_Item 2597)"
  "item_id (blank_item Plain_Item 2597) = item_id letter" "item_map (blank_item Plain_Item 2597) = Map.empty"
  "env_types paper_env = paper_types"
proof -
  show "CreateItem (env_types paper_env) (item_id letter) 0 = Some (blank_item Plain_Item 2597)" by code_simp
  show "item_id (blank_item Plain_Item 2597) = item_id letter" by code_simp
  show "item_map (blank_item Plain_Item 2597) = Map.empty"
    by (simp add: item_map_def blank_item_def getAttributes_def)
qed (simp add: paper_env_def)

section \<open>Two items that do not come back\<close>

text \<open>A stack with charges of its own has them as its count when it is loaded: both go through
  \<open>setSubType\<close>, and the charges are written later.\<close>

lemma charges_become_count:
  assumes "it_stackable (item_type_of (env_types e) (the_item (fst s)))"
    and "\<not> fluid_type (item_type_of (env_types e) (the_item (fst s)))"
  shows "unserializeAttr e (attr_code ATTR_COUNT # [n] @ attr_code ATTR_CHARGES # le16 c @ 0 # rest) s =
    (Some rest, on_item (setItemCount (ucast c)) s)"
  using assms
  by (simp add: readAttr_shared shared_attr_def Item_readAttr_def take_value_def setSubType_def fluid_type_def
      on_item_def setItemCount_def item_type_of_def)

text \<open>A custom attribute that has no value is written as a kind that no reader takes.\<close>

lemma blank_custom_unreadable: "unserialize_custom (serialize_custom Blank @ bs) = None"
  by (simp add: unserialize_custom_def)

section \<open>Properties\<close>

lemma created_restored:
  assumes st: "storable (env_types e) i" and ok: "item_ok i" and new: "CreateItem (env_types e) (item_id i) n = Some j"
    and id: "item_id j = item_id i" and x: "the_item x = j"
  shows "unserializeAttr e (Item_serializeAttr (env_types e) i @ rest) (x, g) =
      unserializeAttr e rest (x\<lparr>the_item := restore (env_types e) i j\<rparr>, g) \<and> restored (env_types e) i j (restore (env_types e) i j)"
proof
  show "unserializeAttr e (Item_serializeAttr (env_types e) i @ rest) (x, g) =
      unserializeAttr e rest (x\<lparr>the_item := restore (env_types e) i j\<rparr>, g)"
    using serialized_read_back [OF st ok refl, of "(x, g)" rest] id x by (simp add: item_type_of_def on_item_def)
  have "item_ok j" and "item_map j ITEM_ATTRIBUTE_CUSTOM = None"
    using CreateItem_map [OF new] by (auto simp: new_attributes_def)
  then show "restored (env_types e) i j (restore (env_types e) i j)" by (rule restore_restored [OF st ok])
qed

text \<open>C34: The attributes of an item survive saving: read into a new item of its type, up to the mark
  that ends them or to the end of the bytes, they give an item that has for each attribute what was
  saved (values cut to the width they are stored in, a running decay as a pending one, action ids
  of 100 at least; no unique id and no owners), and where nothing was saved what a new item has. The
  count of a stack is restored, and nothing else of the item changes.\<close>

theorem attributes_survive_saving:
  assumes "storable (env_types e) i" and "item_ok i" and "CreateItem (env_types e) (item_id i) n = Some j"
    and "item_id j = item_id i" and "the_item x = j"
  shows "\<exists>j'. unserializeAttr e (Item_serializeAttr (env_types e) i @ 0 # rest) (x, g) = (Some rest, x\<lparr>the_item := j'\<rparr>, g) \<and>
    unserializeAttr e (Item_serializeAttr (env_types e) i) (x, g) = (Some [], x\<lparr>the_item := j'\<rparr>, g) \<and>
    item_map j' = item_map j ++ saved_as (env_types e) i \<and>
    j' = (counted (env_types e) i j)\<lparr>item_attrs := item_attrs j'\<rparr>"
  using created_restored [OF assms, of "0 # rest" g] created_restored [OF assms, of "[]" g]
  by (auto simp: restored_def)

theorem attributes_survive_saving_witness:
  "\<exists>j'. unserializeAttr paper_env (Item_serializeAttr (env_types paper_env) letter @ 0 # [9])
      (new_loading (blank_item Plain_Item 2597), \<lparr>uniqueItems = [], bedSleepers = []\<rparr>) =
    (Some [9], (new_loading (blank_item Plain_Item 2597))\<lparr>the_item := j'\<rparr>, \<lparr>uniqueItems = [], bedSleepers = []\<rparr>)"
proof -
  have "storable (env_types paper_env) letter" "item_ok letter"
    using letter_kept kept_item_storable by (simp_all add: letter_created(4) kept_item_def)
  from attributes_survive_saving [OF this letter_created(1,2), of "new_loading (blank_item Plain_Item 2597)"]
  show ?thesis by (fastforce simp: new_loading_def)
qed

text \<open>C35: An item whose values all fit what they are stored in comes back with the attributes it had,
  no more and no less, where it has the ones that a new item of its type gets.\<close>

theorem fitting_items_come_back:
  assumes kept: "kept_item (env_types e) i" and "CreateItem (env_types e) (item_id i) n = Some j"
    and "item_id j = item_id i" and new: "dom (item_map j) \<subseteq> dom (item_map i)" and "the_item x = j"
  shows "\<exists>j'. unserializeAttr e (Item_serializeAttr (env_types e) i @ 0 # rest) (x, g) = (Some rest, x\<lparr>the_item := j'\<rparr>, g) \<and>
    item_map j' = item_map i"
proof -
  have "item_ok i" using kept by (simp add: kept_item_def)
  from created_restored [OF kept_item_storable [OF kept] this assms(2,3,5), of "0 # rest" g]
  have run: "unserializeAttr e (Item_serializeAttr (env_types e) i @ 0 # rest) (x, g) =
      (Some rest, x\<lparr>the_item := restore (env_types e) i j\<rparr>, g)"
    and map: "item_map (restore (env_types e) i j) = item_map j ++ saved_as (env_types e) i"
    by (simp_all add: restored_def)
  have "(item_map j ++ saved_as (env_types e) i) t = item_map i t" for t
  proof (cases "item_map i t")
    case (Some v)
    then show ?thesis using kept_value_saved [OF kept] by (simp add: map_add_def)
  next
    case None
    then have "item_map j t = None" using new by auto
    moreover have "\<not> fluid_type (item_type_of (env_types e) i)" if "t = ITEM_ATTRIBUTE_FLUIDTYPE"
      using CreateItem_map [OF assms(2)] that assms(3) new None by (auto simp: new_attributes_def item_type_of_def)
    then have "saved_as (env_types e) i t = None"
      using None kept_item_storable [OF kept] \<open>item_ok i\<close> int_default [OF _ None] kept_str_map [of i t] has_map [of i t]
      by (cases t)
        (simp_all add: saved_as_def saved_int_def saved_string_def attr_types getCharges_def getActionId_def getDecaying_def
          DECAYING_TRUE_def DECAYING_PENDING_def item_customs_map custom_entries_def item_map_def)
    ultimately show ?thesis using None by (simp add: map_add_def)
  qed
  then have "item_map (restore (env_types e) i j) = item_map i" using map by (simp add: fun_eq_iff)
  with run show ?thesis by blast
qed

theorem fitting_items_come_back_witness:
  "\<exists>j'. unserializeAttr paper_env (Item_serializeAttr (env_types paper_env) letter @ 0 # [9])
      (new_loading (blank_item Plain_Item 2597), \<lparr>uniqueItems = [], bedSleepers = []\<rparr>) =
    (Some [9], (new_loading (blank_item Plain_Item 2597))\<lparr>the_item := j'\<rparr>, \<lparr>uniqueItems = [], bedSleepers = []\<rparr>) \<and>
    item_map j' = item_map letter"
proof -
  have "kept_item (env_types paper_env) letter" using letter_kept by (simp add: letter_created(4))
  from fitting_items_come_back [OF this letter_created(1,2), of "new_loading (blank_item Plain_Item 2597)"]
  show ?thesis by (simp add: letter_created(3) new_loading_def)
qed

end
