(* ===== verification/Item_Stores.thy ===== *)
theory Item_Stores
  imports Item_Restoring
begin

text \<open>
  The items of houses in the database, \<open>saveItem\<close>, \<open>loadItem\<close> and \<open>loadContainer\<close> of
  \<open>src/iomapserialize.cpp\<close>: an item and all that is in it is one run of bytes. A container owns
  what is in it, so that an item with its contents is a tree here. Modelled is the loading of items
  that are made new, movable ones and those that are always saved; a fixed item of the map, which is
  looked up on its tile, is an outcome of its own. Before it makes an item, \<open>loadItem\<close> asks a parent
  that has no parent for its tile. A container that is being loaded has none, and the call does not
  return: \<open>None\<close>. What follows the loading on a tile, \<open>internalAddThing\<close> and \<open>startDecaying\<close>, is not
  modelled.
\<close>

section \<open>Items with their contents\<close>

datatype item_tree = Item_Tree (root: loading) (contents: "item_tree list")

definition tree_weight :: "type_table \<Rightarrow> item_tree \<Rightarrow> u32" where
  "tree_weight T t = getWeight T (the_item (root t))"

text \<open>\<open>Container::internalAddThing\<close>, for a container that has no parent yet.\<close>

definition add_front :: "type_table \<Rightarrow> item_tree \<Rightarrow> item_tree \<Rightarrow> item_tree" where
  "add_front T child c =
     Item_Tree
       (root c\<lparr>the_item := (the_item (root c))
          \<lparr>totalWeight := totalWeight (the_item (root c)) + tree_weight T child\<rparr>\<rparr>)
       (child # contents c)"

section \<open>Saving\<close>

fun saveItem :: "type_table \<Rightarrow> item_tree \<Rightarrow> u8 list" where
  "saveItem T (Item_Tree x items) =
     le16 (item_id (the_item x)) @ serializeAttr T x @
     (if is_container (the_item x)
      then attr_code ATTR_CONTAINER_ITEMS # le32 (of_nat (length items)) @ concat (map (saveItem T) (rev items))
      else []) @
     [0]"

section \<open>Loading\<close>

text \<open>The parent that an item is loaded for: a tile, or a container with what has been loaded into it,
  which is put into a parent of its own only when it is complete. The first step of \<open>loadItem\<close> is to
  get the tile, if any.\<close>

datatype load_parent = On_Tile | In_Container item_tree

definition unplaced :: "item \<Rightarrow> store" where
  "unplaced i = \<lparr>heap = [i\<lparr>item_parent := None\<rparr>], holders = []\<rparr>"

definition parent_has_tile :: "load_parent \<Rightarrow> bool option" where
  "parent_has_tile p =
     (case p of
        On_Tile \<Rightarrow> Some True
      | In_Container c \<Rightarrow> do {
          parent \<leftarrow> getParent (unplaced (the_item (root c))) (Item_ref 0);
          if parent \<noteq> None then Some False
          else do { tile \<leftarrow> item_getTile (unplaced (the_item (root c))) (Item_ref 0); Some (tile \<noteq> None) } })"

text \<open>\<open>loadItem\<close> up to the attributes: no item for a type that is not in the table, whose attributes
  are not read either, and a fixed item of the tile for one that is not made new.\<close>

datatype started =
  Item_Failed tables | Item_Unknown "u8 list" | Item_Read "u8 list" loading tables | Item_Fixed u16 "u8 list"

definition start_item :: "load_env \<Rightarrow> load_parent \<Rightarrow> u8 list \<Rightarrow> tables \<Rightarrow> started option" where
  "start_item e p bs g =
     (case read_u16 bs of
        None \<Rightarrow> Some (Item_Failed g)
      | Some (ty, bs) \<Rightarrow> do {
          tile \<leftarrow> parent_has_tile p;
          if it_moveable (env_types e ty) \<or> it_forceSerialize (env_types e ty) \<or> \<not> tile then
            Some (case CreateItem (env_types e) ty 0 of
                    None \<Rightarrow> Item_Unknown bs
                  | Some j \<Rightarrow>
                      (case unserializeAttr e bs (new_loading j, g) of
                         (None, (x, g)) \<Rightarrow> Item_Failed g
                       | (Some bs, (x, g)) \<Rightarrow> Item_Read bs x g))
          else Some (Item_Fixed ty bs) })"

text \<open>\<open>loadContainer\<close>: the container with what has been loaded into it, and how many items are still to
  come. A result is the tables where the loading fails, and else the bytes left, what was loaded and
  the tables; for a fixed item it is the type and the bytes behind it.\<close>

datatype 'a loaded = Load_Failed tables | Loaded "u8 list" 'a tables | Fixed_Item u16 "u8 list" tables

definition end_container :: "u8 list \<Rightarrow> item_tree \<Rightarrow> tables \<Rightarrow> item_tree loaded" where
  "end_container bs c g =
     (case read_u8 bs of
        None \<Rightarrow> Load_Failed g
      | Some (endAttr, bs) \<Rightarrow>
          if endAttr \<noteq> 0 then Load_Failed g
          else Loaded bs (Item_Tree (root c\<lparr>serializationCount := 0\<rparr>) (contents c)) g)"

partial_function (option) loadContainer ::
  "load_env \<Rightarrow> nat \<Rightarrow> u8 list \<Rightarrow> item_tree \<Rightarrow> tables \<Rightarrow> item_tree loaded option" where
  "loadContainer e n bs c g =
     (case n of
        0 \<Rightarrow> Some (end_container bs c g)
      | Suc n \<Rightarrow> do {
          s \<leftarrow> start_item e (In_Container c) bs g;
          (case s of
             Item_Failed g \<Rightarrow> Some (Load_Failed g)
           | Item_Fixed ty bs \<Rightarrow> Some (Fixed_Item ty bs g)
           | Item_Unknown bs \<Rightarrow> loadContainer e n bs c g
           | Item_Read bs x g \<Rightarrow>
               if is_container (the_item x) then
                 do { r \<leftarrow> loadContainer e (unat (serializationCount x)) bs (Item_Tree x []) g;
                      (case r of
                         Loaded bs child g \<Rightarrow> loadContainer e n bs (add_front (env_types e) child c) g
                       | failed \<Rightarrow> Some failed) }
               else loadContainer e n bs (add_front (env_types e) (Item_Tree x []) c) g) })"

declare loadContainer.simps [code]

text \<open>\<open>loadItem\<close>: whether it succeeds, the bytes left and the item that is put into its parent, if any.\<close>

definition loadItem :: "load_env \<Rightarrow> load_parent \<Rightarrow> u8 list \<Rightarrow> tables \<Rightarrow> item_tree option loaded option" where
  "loadItem e p bs g = do {
     s \<leftarrow> start_item e p bs g;
     (case s of
        Item_Failed g \<Rightarrow> Some (Load_Failed g)
      | Item_Fixed ty bs \<Rightarrow> Some (Fixed_Item ty bs g)
      | Item_Unknown bs \<Rightarrow> Some (Loaded bs None g)
      | Item_Read bs x g \<Rightarrow>
          if is_container (the_item x) then
            do { r \<leftarrow> loadContainer e (unat (serializationCount x)) bs (Item_Tree x []) g;
                 Some (map_loaded Some r) }
          else Some (Loaded bs (Some (Item_Tree x [])) g)) }"

section \<open>When loading ends\<close>

lemma no_tile_for_container:
  assumes "is_container (the_item (root c))"
  shows "parent_has_tile (In_Container c) = None"
proof -
  let ?w = "unplaced (the_item (root c))"
  have p: "item_parent (item_at ?w 0) = None" by (simp add: unplaced_def item_at_def)
  have "has_receiver (item_at ?w 0)" using assms by (simp add: unplaced_def item_at_def has_receiver_def is_container_def)
  with p have "item_getTile ?w (Item_ref 0) = None" by (rule item_getTile_unplaced)
  moreover have "getParent ?w (Item_ref 0) = Some None"
    using p by (simp add: getParent.simps [of ?w "Item_ref 0"])
  ultimately show ?thesis by (simp add: parent_has_tile_def)
qed

lemma read_u16_None: "read_u16 bs = None \<longleftrightarrow> length bs < 2"
  by (simp add: read_u16_def read_bytes_def)

text \<open>A container that claims an item gets none: either there are no two bytes for its type, or the call
  does not return.\<close>

lemma loadContainer_Suc:
  assumes "is_container (the_item (root c))"
  shows "loadContainer e (Suc n) bs c g = (if length bs < 2 then Some (Load_Failed g) else None)"
  using no_tile_for_container [OF assms]
  by (subst loadContainer.simps) (auto simp: start_item_def read_u16_None [symmetric] split: option.split)

lemma start_on_tile: "start_item e On_Tile bs g \<noteq> None"
  by (simp add: start_item_def parent_has_tile_def split: option.split)

section \<open>Reading back what was saved\<close>

text \<open>An item and its contents that can be saved: of a class with no members of its own, with
  attributes that can be stored, of a type that is made again as the same type. A new item is made
  with a count: none here, and the one that was saved where items are stored one by one.\<close>

abbreviation uncounted :: "item \<Rightarrow> u16" where
  "uncounted \<equiv> \<lambda>i. 0"

definition made_again :: "(item \<Rightarrow> u16) \<Rightarrow> type_table \<Rightarrow> item \<Rightarrow> bool" where
  "made_again cnt T i =
     (case CreateItem T (item_id i) (cnt i) of
        None \<Rightarrow> False
      | Some j \<Rightarrow> item_id j = item_id i \<and> item_class j = item_class i)"

definition plain_class :: "item \<Rightarrow> bool" where
  "plain_class i \<longleftrightarrow> item_class i \<in> {Plain_Item, Magic_Field, Trash_Holder, Mailbox, Container}"

fun savable :: "(item \<Rightarrow> u16) \<Rightarrow> type_table \<Rightarrow> item_tree \<Rightarrow> bool" where
  "savable cnt T (Item_Tree x items) \<longleftrightarrow>
     plain_class (the_item x) \<and> item_ok (the_item x) \<and> storable T (the_item x) \<and> made_again cnt T (the_item x) \<and>
     (is_container (the_item x) \<or> items = []) \<and> int (length items) < 2 ^ 32 \<and> (\<forall>t \<in> set items. savable cnt T t)"

text \<open>What is loaded for it: a new item of its type with the attributes put back, and what is loaded
  for its contents.\<close>

definition remade :: "(item \<Rightarrow> u16) \<Rightarrow> type_table \<Rightarrow> item \<Rightarrow> loading" where
  "remade cnt T i = new_loading (restore T i (the (CreateItem T (item_id i) (cnt i))))"

fun reload :: "(item \<Rightarrow> u16) \<Rightarrow> type_table \<Rightarrow> item_tree \<Rightarrow> item_tree" where
  "reload cnt T (Item_Tree x items) = foldr (add_front T) (map (reload cnt T) items) (Item_Tree (remade cnt T (the_item x)) [])"

lemma foldr_add_front:
  "contents (foldr (add_front T) ts c) = ts @ contents c"
  "root (foldr (add_front T) ts c) = root c\<lparr>the_item := (the_item (root c))
     \<lparr>totalWeight := totalWeight (the_item (root c)) + sum_list (map (tree_weight T) ts)\<rparr>\<rparr>"
  by (induction ts) (auto simp: add_front_def add_ac)

text \<open>An item of a type that is made new on a tile.\<close>

definition made_new :: "type_table \<Rightarrow> item \<Rightarrow> bool" where
  "made_new T i \<longleftrightarrow> it_moveable (T (item_id i)) \<or> it_forceSerialize (T (item_id i))"

lemma start_new:
  assumes "made_new (env_types e) i" and "CreateItem (env_types e) (item_id i) 0 = Some j"
    and "unserializeAttr e bs (new_loading j, g) = (Some cs, (x, h))"
  shows "start_item e On_Tile (le16 (item_id i) @ bs) g = Some (Item_Read cs x h)"
  using assms by (auto simp: start_item_def parent_has_tile_def made_new_def)

lemma start_saved:
  assumes "savable uncounted (env_types e) (Item_Tree x items)" and "made_new (env_types e) (the_item x)"
  defines "i \<equiv> the_item x"
  shows "start_item e On_Tile (le16 (item_id i) @ serializeAttr (env_types e) x @ 0 # rest) g =
      Some (Item_Read rest (remade uncounted (env_types e) i) g)"
    and "is_container i \<Longrightarrow>
      start_item e On_Tile (le16 (item_id i) @ serializeAttr (env_types e) x @ attr_code ATTR_CONTAINER_ITEMS # le32 n @ rest) g =
      Some (Item_Read rest (remade uncounted (env_types e) i\<lparr>serializationCount := n\<rparr>) g)"
    and "is_container (the_item (remade uncounted (env_types e) i)) = is_container i"
proof -
  let ?T = "env_types e"
  obtain j where j: "CreateItem ?T (item_id i) (uncounted i) = Some j" "item_id j = item_id i" "item_class j = item_class i"
    using assms by (auto simp: made_again_def split: option.splits)
  have s: "serializeAttr ?T x = Item_serializeAttr ?T i"
    using assms by (auto simp: serializeAttr_def plain_class_def)
  have "storable ?T i" "item_ok i" using assms by simp_all
  note created = created_restored [OF this j(1,2), of "new_loading j"]
  have run: "unserializeAttr e (Item_serializeAttr ?T i @ bs) (new_loading j, g) = unserializeAttr e bs (remade uncounted ?T i, g)" for bs
    using created [of bs g] j(1) by (simp add: new_loading_def remade_def)
  note start = start_new [OF assms(2) [folded i_def] j(1)]
  have again: "restored ?T i j (restore ?T i j)" using created by (simp add: new_loading_def)
  show "start_item e On_Tile (le16 (item_id i) @ serializeAttr ?T x @ 0 # rest) g = Some (Item_Read rest (remade uncounted ?T i) g)"
    by (rule start) (simp add: s run)
  have "item_class (restore ?T i j) = item_class ((counted ?T i j)\<lparr>item_attrs := item_attrs (restore ?T i j)\<rparr>)"
    using again unfolding restored_def by (metis (no_types))
  then have cl: "item_class (the_item (remade uncounted ?T i)) = item_class i"
    using j by (simp add: remade_def new_loading_def counted_def setItemCount_def)
  then show c: "is_container (the_item (remade uncounted ?T i)) = is_container i" by (simp add: is_container_def)
  assume "is_container i"
  moreover have "item_class (the_item (remade uncounted ?T i)) \<noteq> Depot_Locker"
    using cl assms by (auto simp: plain_class_def)
  ultimately have "readAttr e ATTR_CONTAINER_ITEMS (le32 n @ rest) (remade uncounted ?T i, g) =
      (Read_End rest, (remade uncounted ?T i\<lparr>serializationCount := n\<rparr>, g))"
    using c by (simp add: readAttr_def Container_readAttr_def)
  then show "start_item e On_Tile (le16 (item_id i) @ serializeAttr ?T x @ attr_code ATTR_CONTAINER_ITEMS # le32 n @ rest) g =
      Some (Item_Read rest (remade uncounted ?T i\<lparr>serializationCount := n\<rparr>) g)"
    by (intro start) (simp add: s run)
qed

lemma saveItem_long: "2 \<le> length (saveItem T t)"
  by (cases t) simp

lemma load_saved:
  assumes "savable uncounted (env_types e) t" and "made_new (env_types e) (the_item (root t))"
  shows "loadItem e On_Tile (saveItem (env_types e) t @ rest) g =
    (if contents t = [] then Some (Loaded rest (Some (reload uncounted (env_types e) t)) g) else None)"
proof -
  let ?T = "env_types e"
  obtain x items where t: "t = Item_Tree x items" by (cases t)
  let ?y = "remade uncounted ?T (the_item x)"
  note start = start_saved [OF assms(1) [unfolded t]] assms(2) [unfolded t item_tree.sel]
  show ?thesis
  proof (cases "is_container (the_item x)")
    case False
    then have "items = []" using assms(1) t by simp
    then show ?thesis using start False t by (simp add: loadItem_def)
  next
    case True
    let ?z = "?y\<lparr>serializationCount := of_nat (length items)\<rparr>"
    have l: "unat (serializationCount ?z) = length items"
      using assms(1) t by (simp add: unat_of_nat)
    have c: "is_container (the_item (root (Item_Tree ?z [])))" using start(3) start(4) True by simp
    have run: "loadItem e On_Tile (saveItem ?T t @ rest) g =
        map_option (map_loaded Some) (loadContainer e (length items) (concat (map (saveItem ?T) (rev items)) @ 0 # rest) (Item_Tree ?z []) g)"
      using start(2) [OF start(4) True, of "of_nat (length items)" "concat (map (saveItem ?T) (rev items)) @ 0 # rest" g] c True l
      by (simp add: t loadItem_def map_conv_bind_option comp_def)
    show ?thesis
    proof (cases "items = []")
      case True
      then have z: "?z\<lparr>serializationCount := 0\<rparr> = ?y" by (simp add: remade_def new_loading_def)
      show ?thesis using run True z
        by (simp add: t loadContainer.simps [of e 0] end_container_def)
    next
      case False
      then obtain s n where n: "length items = Suc n" and s: "rev items = s # rev (butlast items)"
        by (cases items rule: rev_cases) auto
      have "concat (map (saveItem ?T) (rev items)) = saveItem ?T s @ concat (map (saveItem ?T) (rev (butlast items)))"
        unfolding s by simp
      then have "\<not> length (concat (map (saveItem ?T) (rev items)) @ 0 # rest) < 2"
        using saveItem_long [of ?T s] by (simp only: length_append)
      then show ?thesis using run False t loadContainer_Suc [OF c] unfolding n by simp
    qed
  qed
qed

section \<open>Properties\<close>

text \<open>The item that was saved and the item that comes back, with their contents in the same order.
  The weight of the contents is that of the items that came back.\<close>

definition comes_back :: "(item \<Rightarrow> u16) \<Rightarrow> type_table \<Rightarrow> item \<Rightarrow> u32 \<Rightarrow> item \<Rightarrow> bool" where
  "comes_back cnt T i load i' \<longleftrightarrow>
     (case CreateItem T (item_id i) (cnt i) of
        None \<Rightarrow> False
      | Some j \<Rightarrow> item_class i' = item_class i \<and> item_id i' = item_id i \<and> item_map i' = item_map j ++ saved_as T i \<and>
          i' = (counted T i j)\<lparr>item_attrs := item_attrs i', totalWeight := load\<rparr>)"

function tree_comes_back :: "(item \<Rightarrow> u16) \<Rightarrow> type_table \<Rightarrow> item_tree \<Rightarrow> item_tree \<Rightarrow> bool" where
  "tree_comes_back cnt T (Item_Tree x items) t \<longleftrightarrow>
     comes_back cnt T (the_item x) (sum_list (map (tree_weight T) (contents t))) (the_item (root t)) \<and>
     length (contents t) = length items \<and>
     (\<forall>(s, s') \<in> set (zip items (contents t)). tree_comes_back cnt T s s')"
  by pat_completeness auto

termination
  by (relation "measure (\<lambda>(cnt, T, t, t'). size t)")
    (auto dest!: set_zip_leftD simp: less_Suc_eq_le size_list_estimation')

lemma new_item_weightless: "CreateItem T ty n = Some j \<Longrightarrow> totalWeight j = 0"
proof -
  assume new: "CreateItem T ty n = Some j"
  have n: "totalWeight (new_item T cl ty n) = 0" for cl ty n
    by (simp add: new_item_def setDefaultDuration_def init_subtype_def Let_def setDuration_def setFluidType_def setCharges_def
        setItemCount_def item_setIntAttr_def blank_item_def)
  have c: "totalWeight (new_container T cl ty n u) = 0" for cl ty n u
    using n by (simp add: new_container_def)
  have d: "totalWeight (if b then x else y) = 0" if "totalWeight x = 0" "totalWeight y = 0" for b x y using that by simp
  have "totalWeight j = 0" if "(if b then None else if d then None else Some x) = Some j" "totalWeight x = 0" for b d x
    using that by (auto split: if_splits)
  from this [OF new [unfolded CreateItem_def Let_def]] show "totalWeight j = 0"
    by this (intro d n c)+
qed

lemma remade_comes_back:
  assumes "item_ok i" and "storable T i" and "made_again cnt T i"
  shows "comes_back cnt T i load ((the_item (remade cnt T i))\<lparr>totalWeight := totalWeight (the_item (remade cnt T i)) + load\<rparr>)"
proof -
  obtain j where j: "CreateItem T (item_id i) (cnt i) = Some j" "item_id j = item_id i" "item_class j = item_class i"
    using assms(3) by (auto simp: made_again_def split: option.splits)
  let ?r = "restore T i j"
  have "item_ok j" "item_map j ITEM_ATTRIBUTE_CUSTOM = None"
    using CreateItem_map [OF j(1)] by (auto simp: new_attributes_def)
  with assms(1,2) have r: "restored T i j ?r" by (intro restore_restored)
  then have eq: "?r = (counted T i j)\<lparr>item_attrs := item_attrs ?r\<rparr>" and map: "item_map ?r = item_map j ++ saved_as T i"
    by (simp_all add: restored_def)
  have fields: "item_class ?r = item_class i" "item_id ?r = item_id i" "totalWeight ?r = 0"
    using new_item_weightless [OF j(1)] j(2,3) by (subst eq, simp add: counted_def setItemCount_def)+
  have w: "?r\<lparr>totalWeight := load\<rparr> = (counted T i j)\<lparr>item_attrs := item_attrs ?r, totalWeight := load\<rparr>"
    by (subst eq) simp
  have m: "item_map (?r\<lparr>totalWeight := load\<rparr>) = item_map ?r" by (simp add: item_map_def getAttributes_def)
  show ?thesis
    using fields w map m j by (simp add: comes_back_def remade_def new_loading_def counted_def setItemCount_def)
qed

lemma reload_comes_back: "savable cnt T t \<Longrightarrow> tree_comes_back cnt T t (reload cnt T t)"
proof (induction t)
  case (Item_Tree x items)
  have "tree_comes_back cnt T s s'" if "(s, s') \<in> set (zip items (map (reload cnt T) items))" for s s'
  proof -
    from that have "s \<in> set items" and "s' = reload cnt T s"
      by (auto simp: set_zip)
    then show ?thesis using Item_Tree by auto
  qed
  moreover have "item_ok (the_item x)" "storable T (the_item x)" "made_again cnt T (the_item x)"
    using Item_Tree.prems by simp_all
  ultimately show ?case
    using remade_comes_back [of "the_item x" T cnt "sum_list (map (tree_weight T) (map (reload cnt T) items))"]
    by (auto simp: foldr_add_front)
qed

text \<open>A bag with a letter in it, and a letter in a bag in the bag.\<close>

definition bag_types :: type_table where
  "bag_types ty = new_type\<lparr>it_id := ty, it_group := if ty = 1987 then ITEM_GROUP_CONTAINER else ITEM_GROUP_NONE, it_weight := 80\<rparr>"

definition bag_env :: load_env where
  "bag_env = \<lparr>env_types = bag_types, nameByGuid = (\<lambda>guid. [])\<rparr>"

definition message :: item where
  "message = item_setStrAttr ITEM_ATTRIBUTE_TEXT [72, 105] (blank_item Plain_Item 2597)"

definition bag :: item where
  "bag = (blank_item Container 1987)\<lparr>maxSize := 8\<rparr>"

definition packed :: item_tree where
  "packed =
     Item_Tree (new_loading bag)
       [Item_Tree (new_loading message) [], Item_Tree (new_loading bag) [Item_Tree (new_loading message) []]]"

lemma savable_packed:
  assumes "made_again cnt bag_types message" and "made_again cnt bag_types bag"
  shows "savable cnt bag_types packed"
proof -
  have ok: "item_ok message" "item_ok bag"
    using item_ok_ops(1) [of Container 1987]
    by (simp add: message_def item_ok_ops attr_types) (simp add: bag_def item_ok_def getAttributes_def blank_item_def)
  have lists: "attribute_list (getAttributes message) = [\<lparr>a_type = ITEM_ATTRIBUTE_TEXT, a_value = Str [72, 105]\<rparr>]"
    "attribute_list (getAttributes bag) = []" by code_simp+
  have kept: "kept_item bag_types message" "kept_item bag_types bag"
    using ok by (simp_all add: kept_item_def lists)
  have cl: "plain_class message" "plain_class bag" "is_container bag" by code_simp+
  show ?thesis
    using kept_item_storable [OF kept(1)] kept_item_storable [OF kept(2)] assms ok cl
    by (simp add: packed_def new_loading_def)
qed




end
