(* ===== verification/Item_Rows.thy ===== *)
theory Item_Rows
  imports Item_Stores
begin

text \<open>
  The items of players in the database, \<open>saveItems\<close> and \<open>loadItems\<close> of \<open>src/iologindata.cpp\<close> and the
  loops of \<open>loadPlayer\<close> that put what was loaded into its place. Every item is a row with a number of
  its own and that of its place: a slot, a depot, or the number of the container it is in. The rows
  go through the containers in the order in which they were met. What the database does with a row
  is not part of this: it is taken to give back the rows it was given, highest number first, as the
  query asks. Numbers are natural numbers here, as no character has \<open>2 ^ 31\<close> items.
\<close>

section \<open>Saving\<close>

record item_row =
  row_pid :: nat
  row_sid :: nat
  row_itemtype :: u16
  row_count :: u16
  row_attributes :: "u8 list"

text \<open>An entry is an item that gets a row: the number of its place, its own, and the item.\<close>

type_synonym entry = "nat \<times> nat \<times> item_tree"

definition row_of :: "type_table \<Rightarrow> entry \<Rightarrow> item_row" where
  "row_of T en =
     (case en of (pid, sid, t) \<Rightarrow>
        \<lparr>row_pid = pid, row_sid = sid, row_itemtype = item_id (the_item (root t)),
          row_count = getSubType T (the_item (root t)), row_attributes = serializeAttr T (root t)\<rparr>)"

text \<open>The loop that numbers the items of a list, from \<open>runningId\<close> on.\<close>

fun number :: "nat \<Rightarrow> (nat \<times> item_tree) list \<Rightarrow> entry list" where
  "number runningId [] = []"
| "number runningId ((pid, t) # items) = (pid, Suc runningId, t) # number (Suc runningId) items"

definition containers_of :: "entry list \<Rightarrow> (item_tree \<times> nat) list" where
  "containers_of es = map (\<lambda>(pid, sid, t). (t, sid)) (filter (\<lambda>(pid, sid, t). is_container (the_item (root t))) es)"

lemma size_contents: "sum_list (map size (contents c)) < size c"
proof -
  have "sum_list (map size ts) \<le> size_list size ts" for ts :: "item_tree list" by (induction ts) auto
  from this [of "contents c"] show ?thesis by (cases c) simp
qed

lemma number_trees: "map (snd \<circ> snd) (number n items) = map snd items"
  by (induction n items rule: number.induct) auto

lemma size_containers_of: "sum_list (map (size \<circ> fst) (containers_of es)) \<le> sum_list (map (size \<circ> snd \<circ> snd) es)"
  by (induction es) (auto simp: containers_of_def)

text \<open>The loop over \<open>containers\<close>, which grows while it runs.\<close>

function save_containers :: "nat \<Rightarrow> (item_tree \<times> nat) list \<Rightarrow> entry list" where
  "save_containers runningId [] = []"
| "save_containers runningId ((c, parentId) # containers) =
     (let es = number runningId (map (Pair parentId) (contents c))
      in es @ save_containers (runningId + length (contents c)) (containers @ containers_of es))"
  by pat_completeness auto

termination
proof (relation "measure (\<lambda>(n, q). sum_list (map (size \<circ> fst) q))")
  fix n c p q es
  assume es: "es = number n (map (Pair p) (contents c))"
  have "sum_list (map (size \<circ> fst) (containers_of es)) \<le> sum_list (map size (map (snd \<circ> snd) es))"
    using size_containers_of [of es] by (simp add: comp_assoc)
  also have "map (snd \<circ> snd) es = contents c" unfolding es number_trees by (simp add: comp_def)
  finally show "((n + length (contents c), q @ containers_of es), n, (c, p) # q) \<in>
      measure (\<lambda>(n, q). sum_list (map (size \<circ> fst) q))"
    using size_contents [of c] by (simp add: comp_def)
qed simp

definition save_entries :: "(nat \<times> item_tree) list \<Rightarrow> entry list" where
  "save_entries itemList =
     (let es = number 100 itemList in es @ save_containers (100 + length itemList) (containers_of es))"

definition saveItems :: "type_table \<Rightarrow> (nat \<times> item_tree) list \<Rightarrow> item_row list" where
  "saveItems T itemList = map (row_of T) (save_entries itemList)"

section \<open>Loading\<close>

text \<open>\<open>ItemMap\<close>, a map ordered by number, as the list of its entries with the highest number first.\<close>

type_synonym item_table = "(nat \<times> item_tree \<times> nat) list"

fun map_put :: "nat \<Rightarrow> item_tree \<times> nat \<Rightarrow> item_table \<Rightarrow> item_table" where
  "map_put k v [] = [(k, v)]"
| "map_put k v ((k', v') # m) =
     (if k' > k then (k', v') # map_put k v m else if k' = k then (k, v) # m else (k, v) # (k', v') # m)"

text \<open>An item whose attributes cannot be read is kept with what was read.\<close>

fun loadItems :: "load_env \<Rightarrow> item_row list \<Rightarrow> item_table \<Rightarrow> tables \<Rightarrow> item_table \<times> tables" where
  "loadItems e [] itemMap g = (itemMap, g)"
| "loadItems e (row # rows) itemMap g =
     (case CreateItem (env_types e) (row_itemtype row) (row_count row) of
        None \<Rightarrow> loadItems e rows itemMap g
      | Some j \<Rightarrow>
          (case unserializeAttr e (row_attributes row) (new_loading j, g) of
             (_, (x, g)) \<Rightarrow> loadItems e rows (map_put (row_sid row) (Item_Tree x [], row_pid row) itemMap) g))"

text \<open>The loop over the map from its highest number down. An item for a slot or a depot goes to the
  player, \<open>roots\<close>, the one met last in front; another one into the container of that number, whose
  turn comes later, as a container has a lower number than what is in it. An item that names no
  container is dropped.\<close>

definition put_into :: "type_table \<Rightarrow> nat \<Rightarrow> item_tree \<Rightarrow> item_table \<Rightarrow> item_table" where
  "put_into T pid t m =
     map (\<lambda>(sid, c, p). (sid, if sid = pid \<and> is_container (the_item (root c)) then add_front T t c else c, p)) m"

function place_items :: "type_table \<Rightarrow> (nat \<Rightarrow> bool) \<Rightarrow> item_table \<Rightarrow> (nat \<times> item_tree) list \<Rightarrow> (nat \<times> item_tree) list" where
  "place_items T is_place [] roots = roots"
| "place_items T is_place ((sid, t, pid) # m) roots =
     (if is_place pid then place_items T is_place m ((pid, t) # roots)
      else place_items T is_place (put_into T pid t m) roots)"
  by pat_completeness auto

termination
  by (relation "measure (\<lambda>(T, f, m, r). length m)") (auto simp: put_into_def)

definition load_rows :: "load_env \<Rightarrow> (nat \<Rightarrow> bool) \<Rightarrow> item_row list \<Rightarrow> tables \<Rightarrow> (nat \<times> item_tree) list" where
  "load_rows e is_place rows g = place_items (env_types e) is_place (fst (loadItems e rows [] g)) []"

text \<open>The places of the inventory, and those of the depots and inboxes.\<close>

definition inventory_slot :: "nat \<Rightarrow> bool" where
  "inventory_slot pid \<longleftrightarrow> 1 \<le> pid \<and> pid \<le> 10"

definition depot_number :: "nat \<Rightarrow> bool" where
  "depot_number pid \<longleftrightarrow> pid < 100"

section \<open>The numbers of the rows\<close>

abbreviation pid_of :: "entry \<Rightarrow> nat" where "pid_of en \<equiv> fst en"
abbreviation sid_of :: "entry \<Rightarrow> nat" where "sid_of en \<equiv> fst (snd en)"
abbreviation tree_of :: "entry \<Rightarrow> item_tree" where "tree_of en \<equiv> snd (snd en)"

text \<open>The items whose place has the number \<open>k\<close>, in order.\<close>

definition placed_in :: "nat \<Rightarrow> entry list \<Rightarrow> item_tree list" where
  "placed_in k es = map tree_of (filter (\<lambda>en. pid_of en = k) es)"

definition content_of :: "item_tree \<Rightarrow> item_tree list" where
  "content_of t = (if is_container (the_item (root t)) then contents t else [])"

lemma placed_in_append [simp]: "placed_in k (xs @ ys) = placed_in k xs @ placed_in k ys"
  by (simp add: placed_in_def)

lemma placed_in_none: "k \<notin> pid_of ` set es \<Longrightarrow> placed_in k es = []"
  by (auto simp: placed_in_def filter_empty_conv)

lemma number_sids: "map sid_of (number n items) = [Suc n..<Suc (n + length items)]"
proof (induction n items rule: number.induct)
  case (2 n pid t items)
  then show ?case by (simp add: upt_conv_Cons del: upt_Suc)
qed simp

lemma number_pids: "map pid_of (number n items) = map fst items"
  by (induction n items rule: number.induct) auto

lemma number_placed: "placed_in p (number n (map (Pair p) ts)) = ts"
  by (induction ts arbitrary: n) (auto simp: placed_in_def)

lemma containers_of_sids: "snd ` set (containers_of es) = sid_of ` {en \<in> set es. is_container (the_item (root (tree_of en)))}"
  by (force simp: containers_of_def image_iff)

lemma containers_ofI:
  "en \<in> set es \<Longrightarrow> is_container (the_item (root (tree_of en))) \<Longrightarrow> (tree_of en, sid_of en) \<in> set (containers_of es)"
  by (cases en) (force simp: containers_of_def image_iff)

text \<open>What the loop over the containers gives, for containers with numbers of their own up to the
  running one.\<close>

definition numbered :: "nat \<Rightarrow> nat set \<Rightarrow> entry list \<Rightarrow> bool" where
  "numbered n ps es \<longleftrightarrow>
     map sid_of es = [Suc n..<Suc (n + length es)] \<and>
     (\<forall>en \<in> set es. pid_of en < sid_of en \<and> (pid_of en \<in> ps \<or> pid_of en \<in> sid_of ` set es)) \<and>
     (\<forall>en \<in> set es. placed_in (sid_of en) es = content_of (tree_of en))"

lemma numbered_sids: "numbered n ps es \<Longrightarrow> sid_of ` set es = {Suc n..n + length es}"
proof -
  assume "numbered n ps es"
  then have "set (map sid_of es) = set [Suc n..<Suc (n + length es)]" by (simp add: numbered_def del: upt_Suc)
  then show ?thesis by auto
qed

lemma numbered_append:
  assumes sids: "map sid_of B = [Suc n..<Suc (n + length B)]" and pids: "\<forall>en \<in> set B. pid_of en \<in> P \<and> pid_of en \<le> n"
    and Q: "\<forall>k \<in> Q. k \<le> n" and E: "numbered (n + length B) (Q \<union> snd ` set (containers_of B)) E"
    and conts: "\<forall>(t, s) \<in> set (containers_of B). placed_in s E = contents t"
  shows "numbered n (P \<union> Q) (B @ E)"
proof -
  let ?n = "n + length B" and ?C = "snd ` set (containers_of B)"
  have Bs: "sid_of ` set B = {Suc n..?n}"
  proof -
    have "set (map sid_of B) = set [Suc n..<Suc ?n]" by (simp only: sids)
    then show ?thesis by auto
  qed
  have C: "?C \<subseteq> sid_of ` set B" by (auto simp: containers_of_sids)
  have dB: "distinct (map sid_of B)" by (simp add: sids)
  note Es = numbered_sids [OF E]
  have Ep: "pid_of en < sid_of en \<and> pid_of en \<in> Q \<union> ?C \<union> {Suc ?n..?n + length E}" if "en \<in> set E" for en
    using E that Es by (auto simp: numbered_def)
  have noB: "placed_in k B = []" if "n < k" for k using that pids by (intro placed_in_none) fastforce
  have inB: "placed_in (sid_of en) E = content_of (tree_of en)" if en: "en \<in> set B" for en
  proof (cases "is_container (the_item (root (tree_of en)))")
    case True
    then have "(tree_of en, sid_of en) \<in> set (containers_of B)" using en by (intro containers_ofI)
    with conts True show ?thesis by (auto simp: content_of_def)
  next
    case False
    have "sid_of en \<notin> ?C"
    proof
      assume "sid_of en \<in> ?C"
      then obtain en' where "en' \<in> set B" and c: "is_container (the_item (root (tree_of en')))" and "sid_of en' = sid_of en"
        by (auto simp: containers_of_sids)
      with dB en have "en' = en" by (auto simp: distinct_map inj_on_def)
      with False c show False by simp
    qed
    moreover have "sid_of en \<in> {Suc n..?n}" using en Bs by blast
    ultimately have "sid_of en \<notin> pid_of ` set E" using Q Ep by fastforce
    with False show ?thesis by (simp add: placed_in_none content_of_def)
  qed
  have "placed_in (sid_of en) (B @ E) = content_of (tree_of en)" if "en \<in> set (B @ E)" for en
  proof -
    have "sid_of en \<in> sid_of ` set B \<union> sid_of ` set E" using that by auto
    then have "n < sid_of en" unfolding Bs Es by auto
    then have "placed_in (sid_of en) B = []" by (rule noB)
    moreover have "placed_in (sid_of en) E = content_of (tree_of en)"
    proof (cases "en \<in> set B")
      case False
      then have "en \<in> set E" using that by simp
      with E show ?thesis by (simp add: numbered_def)
    qed (rule inB)
    ultimately show ?thesis by simp
  qed
  moreover have "map sid_of (B @ E) = [Suc n..<Suc (n + length (B @ E))]"
    using E sids upt_add_eq_append [of "Suc n" "Suc ?n" "length E"]
    by (simp add: numbered_def add_ac del: upt_Suc)
  moreover have "pid_of en < sid_of en \<and> (pid_of en \<in> P \<union> Q \<or> pid_of en \<in> sid_of ` set (B @ E))"
    if "en \<in> set (B @ E)" for en
  proof (cases "en \<in> set B")
    case True
    then have "sid_of en \<in> sid_of ` set B" by (rule imageI)
    then have "n < sid_of en" unfolding Bs by simp
    with True pids show ?thesis by fastforce
  next
    case False
    then have "en \<in> set E" using that by simp
    from Ep [OF this] C show ?thesis unfolding Es [symmetric] by auto
  qed
  ultimately show ?thesis unfolding numbered_def by blast
qed

lemma containers_of_distinct: "distinct (map sid_of es) \<Longrightarrow> distinct (map snd (containers_of es))"
proof -
  have "map snd (containers_of es) = map sid_of (filter (\<lambda>en. is_container (the_item (root (tree_of en)))) es)"
    by (auto simp: containers_of_def case_prod_unfold)
  then show "distinct (map sid_of es) \<Longrightarrow> ?thesis" by (simp add: distinct_map_filter)
qed

lemma containers_of_container: "(t, s) \<in> set (containers_of es) \<Longrightarrow> is_container (the_item (root t))"
  by (auto simp: containers_of_def)

lemma save_containers_numbered:
  assumes "distinct (map snd q)" and "\<forall>(t, s) \<in> set q. s \<le> n \<and> is_container (the_item (root t))"
  shows "numbered n (snd ` set q) (save_containers n q) \<and>
    (\<forall>(t, s) \<in> set q. placed_in s (save_containers n q) = contents t)"
  using assms
proof (induction n q rule: save_containers.induct)
  case (1 n)
  then show ?case by (simp add: numbered_def)
next
  case (2 n c p q)
  define B where "B = number n (map (Pair p) (contents c))"
  define E where "E = save_containers (n + length (contents c)) (q @ containers_of B)"
  have all: "save_containers n ((c, p) # q) = B @ E" by (simp add: B_def E_def Let_def)
  have B: "map sid_of B = [Suc n..<Suc (n + length (contents c))]" "map pid_of B = map (\<lambda>_. p) (contents c)"
    "placed_in p B = contents c"
    using number_sids [of n "map (Pair p) (contents c)"] number_pids [of n "map (Pair p) (contents c)"]
      number_placed [of p n "contents c"]
    by (simp_all add: B_def comp_def del: upt_Suc)
  have len: "length B = length (contents c)" using arg_cong [OF B(2), of length] by simp
  have Bp: "pid_of en = p" if "en \<in> set B" for en
  proof -
    have "pid_of en \<in> set (map pid_of B)" using that by simp
    then show ?thesis unfolding B(2) by auto
  qed
  have q: "p \<le> n" "p \<notin> snd ` set q" "\<forall>k \<in> snd ` set q. k \<le> n" "distinct (map snd q)"
    "\<forall>(t, s) \<in> set q. is_container (the_item (root t))"
    using 2(2,3) by auto
  have conts: "snd ` set (containers_of B) \<subseteq> {Suc n..n + length (contents c)}"
  proof -
    have "set (map sid_of B) = {Suc n..n + length (contents c)}" by (auto simp: B(1) simp del: set_map)
    then show ?thesis by (auto simp: containers_of_sids)
  qed
  have "snd ` set q \<inter> snd ` set (containers_of B) = {}" using q(3) conts by fastforce
  then have "distinct (map snd (q @ containers_of B))"
    using q(4) containers_of_distinct [of B] B(1) by simp
  moreover have "\<forall>(t, s) \<in> set (q @ containers_of B). s \<le> n + length (contents c) \<and> is_container (the_item (root t))"
    using q conts containers_of_container [of _ _ B] by fastforce
  ultimately have IH: "numbered (n + length (contents c)) (snd ` set (q @ containers_of B)) E"
    "\<forall>(t, s) \<in> set (q @ containers_of B). placed_in s E = contents t"
    using 2(1) [OF B_def] by (auto simp: E_def)
  have "numbered n ({p} \<union> snd ` set q) (B @ E)"
    using B(1) Bp q IH by (intro numbered_append) (auto simp: len image_Un)
  moreover have "placed_in s (B @ E) = contents t" if "(t, s) \<in> set ((c, p) # q)" for t s
  proof (cases "(t, s) \<in> set q")
    case True
    then have "s \<noteq> p" using q(2) by force
    then have "placed_in s B = []" using Bp by (intro placed_in_none) auto
    with True IH(2) show ?thesis by auto
  next
    case False
    have "p \<notin> pid_of ` set E"
    proof
      assume "p \<in> pid_of ` set E"
      then have "p \<in> snd ` set q \<union> snd ` set (containers_of B) \<union> sid_of ` set E"
        using IH(1) by (auto simp: numbered_def)
      moreover have "p \<notin> snd ` set (containers_of B)" using conts q(1) by auto
      moreover have "p \<notin> sid_of ` set E" using q(1) by (simp add: numbered_sids [OF IH(1)])
      ultimately show False using q(2) by blast
    qed
    then show ?thesis using that False B(3) by (simp add: placed_in_none)
  qed
  ultimately show ?case unfolding all by auto
qed

text \<open>All rows of a list of items: the items at their places, and in each container what is in it.\<close>

lemma save_entries_numbered:
  assumes "\<forall>p \<in> set items. fst p < 100"
  shows "numbered 100 {..<100} (save_entries items)"
    and "map (\<lambda>en. (pid_of en, tree_of en)) (filter (\<lambda>en. pid_of en < 100) (save_entries items)) = items"
proof -
  define B where "B = number 100 items"
  define E where "E = save_containers (100 + length items) (containers_of B)"
  have all: "save_entries items = B @ E" by (simp add: save_entries_def B_def E_def Let_def)
  have Bs: "map sid_of B = [Suc 100..<Suc (100 + length items)]"
    unfolding B_def by (rule number_sids)
  have pairs: "map (\<lambda>en. (pid_of en, tree_of en)) (number n its) = its" for n its
    by (induction n its rule: number.induct) auto
  then have len: "length B = length items" unfolding B_def by (metis length_map)
  have Bp: "pid_of en < 100" if "en \<in> set B" for en
  proof -
    have "pid_of en \<in> set (map pid_of B)" using that by simp
    then show ?thesis using assms by (auto simp: B_def number_pids)
  qed
  have conts: "snd ` set (containers_of B) \<subseteq> {101..100 + length items}"
  proof -
    have "set (map sid_of B) = {101..100 + length items}" by (auto simp: Bs simp del: set_map)
    then show ?thesis by (auto simp: containers_of_sids)
  qed
  have "\<forall>(t, s) \<in> set (containers_of B). s \<le> 100 + length items \<and> is_container (the_item (root t))"
    using conts containers_of_container [of _ _ B] by fastforce
  from save_containers_numbered [OF containers_of_distinct this] Bs
  have E: "numbered (100 + length items) (snd ` set (containers_of B)) E"
    "\<forall>(t, s) \<in> set (containers_of B). placed_in s E = contents t"
    by (simp_all add: E_def)
  have "numbered 100 ({..<100} \<union> {}) (B @ E)"
    using Bs Bp E by (intro numbered_append) (auto simp: len less_imp_le)
  then show "numbered 100 {..<100} (save_entries items)" by (simp add: all)
  have "\<not> pid_of en < 100" if "en \<in> set E" for en
  proof -
    have "pid_of en \<in> snd ` set (containers_of B) \<union> sid_of ` set E" using E(1) that by (auto simp: numbered_def)
    then show ?thesis unfolding numbered_sids [OF E(1)] using conts by auto
  qed
  then have "filter (\<lambda>en. pid_of en < 100) (B @ E) = B" using Bp by (simp add: filter_empty_conv)
  then show "map (\<lambda>en. (pid_of en, tree_of en)) (filter (\<lambda>en. pid_of en < 100) (save_entries items)) = items"
    by (simp add: all B_def pairs)
qed

section \<open>Loading what was saved\<close>

definition first_state :: "(item \<Rightarrow> u16) \<Rightarrow> type_table \<Rightarrow> entry list \<Rightarrow> item_table" where
  "first_state cnt T es = map (\<lambda>en. (sid_of en, Item_Tree (remade cnt T (the_item (root (tree_of en)))) [], pid_of en)) es"

lemma row_of_eq [simp]: "row_of T (pid, sid, t) =
    \<lparr>row_pid = pid, row_sid = sid, row_itemtype = item_id (the_item (root t)),
      row_count = getSubType T (the_item (root t)), row_attributes = serializeAttr T (root t)\<rparr>"
  by (simp add: row_of_def)

lemma map_put_last: "\<forall>en \<in> set m. k < fst en \<Longrightarrow> map_put k v m = m @ [(k, v)]"
  by (induction m) auto

lemma row_loaded:
  assumes "savable (getSubType (env_types e)) (env_types e) t"
  defines "i \<equiv> the_item (root t)"
  obtains j where "CreateItem (env_types e) (item_id i) (getSubType (env_types e) i) = Some j"
    and "unserializeAttr e (serializeAttr (env_types e) (root t)) (new_loading j, g) =
      (Some [], (remade (getSubType (env_types e)) (env_types e) i, g))"
proof -
  let ?T = "env_types e"
  have i: "plain_class i" "item_ok i" "storable ?T i" "made_again (getSubType ?T) ?T i"
    using assms by (cases t; simp)+
  then obtain j where j: "CreateItem ?T (item_id i) (getSubType ?T i) = Some j" "item_id j = item_id i"
    by (auto simp: made_again_def split: option.splits)
  have s: "serializeAttr ?T (root t) = Item_serializeAttr ?T i"
    using i(1) by (auto simp: serializeAttr_def plain_class_def i_def)
  show ?thesis
    using created_restored [OF i(3,2) j, of "new_loading j" "[]" g] j s
    by (intro that [OF j(1)]) (simp add: new_loading_def remade_def)
qed

lemma rows_loaded:
  assumes "\<forall>en \<in> set es. savable (getSubType (env_types e)) (env_types e) (tree_of en)"
    and "sorted_wrt (>) (map fst m @ map sid_of es)"
  shows "loadItems e (map (row_of (env_types e)) es) m g = (m @ first_state (getSubType (env_types e)) (env_types e) es, g)"
  using assms
proof (induction es arbitrary: m)
  case Nil
  then show ?case by (simp add: first_state_def)
next
  case (Cons en es)
  obtain pid sid t where en: "en = (pid, sid, t)" by (cases en)
  let ?T = "env_types e" and ?new = "Item_Tree (remade (getSubType (env_types e)) (env_types e) (the_item (root t))) []"
  obtain j where j: "CreateItem ?T (item_id (the_item (root t))) (getSubType ?T (the_item (root t))) = Some j"
    "unserializeAttr e (serializeAttr ?T (root t)) (new_loading j, g) = (Some [], (remade (getSubType ?T) ?T (the_item (root t)), g))"
    using row_loaded [of e t g] Cons.prems(1) en by auto
  have put: "map_put sid (?new, pid) m = m @ [(sid, ?new, pid)]"
    using Cons.prems(2) en by (intro map_put_last) (auto simp: sorted_wrt_append)
  have "loadItems e (map (row_of ?T) es) (m @ [(sid, ?new, pid)]) g =
      ((m @ [(sid, ?new, pid)]) @ first_state (getSubType ?T) ?T es, g)"
    using Cons.prems en by (intro Cons.IH) auto
  then show ?case using en j put by (simp add: first_state_def)
qed

lemma remade_container:
  assumes "savable cnt T t"
  shows "is_container (the_item (remade cnt T (the_item (root t)))) = is_container (the_item (root t))"
proof -
  have "item_ok (the_item (root t))" "storable T (the_item (root t))" "made_again cnt T (the_item (root t))"
    using assms by (cases t; simp)+
  from remade_comes_back [OF this, of 0] show ?thesis
    by (simp add: comes_back_def is_container_def split: option.splits)
qed

definition loaded_state :: "(item \<Rightarrow> u16) \<Rightarrow> type_table \<Rightarrow> entry list \<Rightarrow> entry list \<Rightarrow> item_table" where
  "loaded_state cnt T done es = map (\<lambda>en. (sid_of en,
     foldr (add_front T) (map (reload cnt T) (placed_in (sid_of en) done)) (Item_Tree (remade cnt T (the_item (root (tree_of en)))) []),
     pid_of en)) es"

definition loaded_roots :: "(item \<Rightarrow> u16) \<Rightarrow> type_table \<Rightarrow> entry list \<Rightarrow> (nat \<times> item_tree) list" where
  "loaded_roots cnt T es = map (\<lambda>en. (pid_of en, reload cnt T (tree_of en))) (filter (\<lambda>en. pid_of en < 100) es)"

lemma reload_eq: "reload cnt T t =
    foldr (add_front T) (map (reload cnt T) (contents t)) (Item_Tree (remade cnt T (the_item (root t))) [])"
  by (cases t) simp

lemma savable_content: "savable cnt T t \<Longrightarrow> content_of t = contents t"
  by (cases t) (auto simp: content_of_def)

lemma placed_in_Cons: "placed_in k (en # es) = (if pid_of en = k then [tree_of en] else []) @ placed_in k es"
  by (simp add: placed_in_def)

lemma items_placed:
  assumes "numbered 100 {..<100} (es @ fin)" and "\<forall>en \<in> set (es @ fin). savable cnt T (tree_of en)"
    and "\<forall>en \<in> set (es @ fin). is_place (pid_of en) \<longleftrightarrow> pid_of en < 100"
  shows "place_items T is_place (loaded_state cnt T fin (rev es)) (loaded_roots cnt T fin) = loaded_roots cnt T (es @ fin)"
  using assms
proof (induction es arbitrary: fin rule: rev_induct)
  case Nil
  then show ?case by (simp add: loaded_state_def)
next
  case (snoc en es)
  let ?all = "(es @ [en]) @ fin"
  have num: "map sid_of ?all = [101..<101 + length ?all]" "\<forall>x \<in> set ?all. pid_of x < sid_of x"
    "\<forall>x \<in> set ?all. placed_in (sid_of x) ?all = content_of (tree_of x)"
    "\<forall>x \<in> set ?all. pid_of x < 100 \<or> pid_of x \<in> sid_of ` set ?all"
    using snoc.prems(1) by (auto simp: numbered_def simp del: upt_Suc set_append map_append length_append)
  have "sorted_wrt (<) (map sid_of es @ sid_of en # map sid_of fin)" using num(1) by (metis append.assoc append_Cons append_Nil map_append list.simps(8,9) sorted_wrt_upt)
  then have before: "\<forall>x \<in> set es. sid_of x < sid_of en" by (auto simp: sorted_wrt_append)
  have "pid_of x < sid_of en" if "x \<in> set (es @ [en])" for x
    using that before num(2) by (auto intro: less_trans)
  then have "placed_in (sid_of en) (es @ [en]) = []" by (intro placed_in_none) (metis imageE less_irrefl)
  moreover have "placed_in (sid_of en) ?all = content_of (tree_of en)" using num(3) by (rule bspec) simp
  moreover have "content_of (tree_of en) = contents (tree_of en)"
    using snoc.prems(2) by (intro savable_content [of cnt T]) simp
  ultimately have kids: "placed_in (sid_of en) fin = contents (tree_of en)"
    by (simp add: placed_in_Cons split: if_splits)
  then have tree: "foldr (add_front T) (map (reload cnt T) (placed_in (sid_of en) fin))
      (Item_Tree (remade cnt T (the_item (root (tree_of en)))) []) = reload cnt T (tree_of en)"
    by (simp add: reload_eq)
  have big: "\<forall>x \<in> set es. 100 < sid_of x"
  proof
    fix x
    assume "x \<in> set es"
    then have "sid_of x \<in> set (map sid_of ?all)" by simp
    then show "100 < sid_of x" unfolding num(1) by simp
  qed
  have IH: "place_items T is_place (loaded_state cnt T (en # fin) (rev es)) (loaded_roots cnt T (en # fin)) =
      loaded_roots cnt T (es @ en # fin)"
    using snoc.prems by (intro snoc.IH) simp_all
  have head: "loaded_state cnt T fin (en # rev es) =
      (sid_of en, reload cnt T (tree_of en), pid_of en) # loaded_state cnt T fin (rev es)"
    by (simp add: loaded_state_def tree)
  have place: "is_place (pid_of en) \<longleftrightarrow> pid_of en < 100" using snoc.prems(3) by simp
  have roots: "loaded_roots cnt T (en # fin) =
      (if pid_of en < 100 then [(pid_of en, reload cnt T (tree_of en))] else []) @ loaded_roots cnt T fin"
    by (simp add: loaded_roots_def)
  show ?case
  proof (cases "pid_of en < 100")
    case True
    have "loaded_state cnt T (en # fin) (rev es) = loaded_state cnt T fin (rev es)"
      using big True by (auto simp: loaded_state_def placed_in_Cons)
    with True IH show ?thesis by (simp add: head place roots)
  next
    case False
    have "put_into T (pid_of en) (reload cnt T (tree_of en)) (loaded_state cnt T fin (rev es)) = loaded_state cnt T (en # fin) (rev es)"
    proof -
      have "is_container (the_item (root (foldr (add_front T) ts (Item_Tree (remade cnt T (the_item (root (tree_of x)))) []))))"
        if x: "x \<in> set es" and sid: "sid_of x = pid_of en" for x ts
      proof -
        have "placed_in (sid_of x) ?all \<noteq> []" using sid by (auto simp: placed_in_def filter_empty_conv)
        moreover have "placed_in (sid_of x) ?all = content_of (tree_of x)" using num(3) by (rule bspec) (use x in simp)
        ultimately have "content_of (tree_of x) \<noteq> []" by metis
        then have "is_container (the_item (root (tree_of x)))" by (auto simp: content_of_def split: if_splits)
        then show ?thesis
          using remade_container [of cnt T "tree_of x"] snoc.prems(2) x by (simp add: foldr_add_front is_container_def)
      qed
      then show ?thesis by (auto simp: put_into_def loaded_state_def placed_in_Cons)
    qed
    with False IH show ?thesis by (simp add: head place roots)
  qed
qed

lemma number_savable:
  "\<forall>p \<in> set items. savable cnt T (snd p) \<Longrightarrow> \<forall>en \<in> set (number n items). savable cnt T (tree_of en)"
  by (induction n items rule: number.induct) auto

lemma savable_kids: "savable cnt T c \<Longrightarrow> t \<in> set (contents c) \<Longrightarrow> savable cnt T t"
  by (cases c) simp

lemma containers_savable:
  "\<forall>en \<in> set es. savable cnt T (tree_of en) \<Longrightarrow> \<forall>c \<in> set (containers_of es). savable cnt T (fst c)"
  by (force simp: containers_of_def)

lemma save_containers_savable:
  "\<forall>c \<in> set q. savable cnt T (fst c) \<Longrightarrow> \<forall>en \<in> set (save_containers n q). savable cnt T (tree_of en)"
proof (induction n q rule: save_containers.induct)
  case (2 n c p q)
  define es where "es = number n (map (Pair p) (contents c))"
  have es: "\<forall>en \<in> set es. savable cnt T (tree_of en)"
    unfolding es_def using 2(2) by (intro number_savable) (auto dest: savable_kids)
  have "\<forall>en \<in> set (save_containers (n + length (contents c)) (q @ containers_of es)). savable cnt T (tree_of en)"
    using 2(2) containers_savable [OF es] by (intro 2(1) es_def) auto
  with es show ?case by (auto simp: Let_def es_def)
qed simp

lemma save_entries_savable:
  assumes "\<forall>p \<in> set items. savable cnt T (snd p)"
  shows "\<forall>en \<in> set (save_entries items). savable cnt T (tree_of en)"
  using number_savable [OF assms, of 100]
    save_containers_savable [OF containers_savable [OF number_savable [OF assms, of 100]], of "100 + length items"]
  by (auto simp: save_entries_def Let_def)

lemma saved_rows_loaded:
  assumes "\<forall>p \<in> set items. savable (getSubType (env_types e)) (env_types e) (snd p)"
    and "\<forall>p \<in> set items. fst p < 100 \<and> is_place (fst p)" and "\<forall>k > 100. \<not> is_place k"
  shows "load_rows e is_place (rev (saveItems (env_types e) items)) g =
    map (\<lambda>(pid, t). (pid, reload (getSubType (env_types e)) (env_types e) t)) items"
proof -
  let ?T = "env_types e" and ?es = "save_entries items"
  have num: "numbered 100 {..<100} ?es" and rts: "map (\<lambda>en. (pid_of en, tree_of en)) (filter (\<lambda>en. pid_of en < 100) ?es) = items"
    using save_entries_numbered assms(2) by blast+
  note sv = save_entries_savable [OF assms(1)]
  have "sorted_wrt (>) (map fst [] @ map sid_of (rev ?es))"
    using num by (simp add: numbered_def rev_map [symmetric] sorted_wrt_rev sorted_wrt_upt del: upt_Suc)
  from rows_loaded [OF _ this, of e g] sv
  have rows: "fst (loadItems e (map (row_of ?T) (rev ?es)) [] g) = first_state (getSubType ?T) ?T (rev ?es)" by simp
  have state: "first_state (getSubType ?T) ?T (rev ?es) = loaded_state (getSubType ?T) ?T [] (rev ?es)"
    by (simp add: first_state_def loaded_state_def placed_in_def)
  have place: "is_place (pid_of en) \<longleftrightarrow> pid_of en < 100" if "en \<in> set ?es" for en
  proof (cases "pid_of en < 100")
    case True
    then have "(pid_of en, tree_of en) \<in> set (map (\<lambda>en. (pid_of en, tree_of en)) (filter (\<lambda>en. pid_of en < 100) ?es))"
      using that by force
    then have "(pid_of en, tree_of en) \<in> set items" unfolding rts .
    with assms(2) True show ?thesis by auto
  next
    case False
    then have "pid_of en \<in> sid_of ` set ?es" using num that by (auto simp: numbered_def)
    then have "100 < pid_of en" unfolding numbered_sids [OF num] by simp
    with assms(3) show ?thesis by auto
  qed
  have "place_items ?T is_place (loaded_state (getSubType ?T) ?T [] (rev ?es)) (loaded_roots (getSubType ?T) ?T []) =
      loaded_roots (getSubType ?T) ?T (?es @ [])"
    using num sv place by (intro items_placed) simp_all
  moreover have "loaded_roots (getSubType ?T) ?T ?es =
      map (\<lambda>(pid, t). (pid, reload (getSubType ?T) ?T t)) (map (\<lambda>en. (pid_of en, tree_of en)) (filter (\<lambda>en. pid_of en < 100) ?es))"
    by (simp add: loaded_roots_def comp_def)
  ultimately show ?thesis
    using rows state rts by (simp add: load_rows_def saveItems_def rev_map loaded_roots_def [of _ _ "[]"])
qed

section \<open>Properties\<close>

text \<open>C3: What a character owns survives logging out: the items that are saved from his slots, his
  depots or his inbox, each with all that is in it to any depth, come back from their rows in the
  same places and in the same order, with the same contents and with the attributes that saving keeps.\<close>

theorem player_items_survive:
  assumes "\<forall>p \<in> set items. savable (getSubType (env_types e)) (env_types e) (snd p)"
    and "is_place \<in> {inventory_slot, depot_number}" and "\<forall>p \<in> set items. is_place (fst p)"
  shows "\<exists>items'. load_rows e is_place (rev (saveItems (env_types e) items)) g = items' \<and>
    map fst items' = map fst items \<and>
    (\<forall>k < length items. tree_comes_back (getSubType (env_types e)) (env_types e) (snd (items ! k)) (snd (items' ! k)))"
proof -
  have "\<forall>p \<in> set items. fst p < 100 \<and> is_place (fst p)" "\<forall>k > 100. \<not> is_place k"
    using assms(2,3) by (auto simp: inventory_slot_def depot_number_def)
  from saved_rows_loaded [OF assms(1) this] show ?thesis
    using assms(1) reload_comes_back by (auto simp: case_prod_unfold)
qed

theorem player_items_survive_witness:
  "\<exists>items'. load_rows bag_env inventory_slot (rev (saveItems (env_types bag_env) [(3, packed), (5, packed)]))
      \<lparr>uniqueItems = [], bedSleepers = []\<rparr> = items' \<and>
    map fst items' = [3, 5] \<and>
    (\<forall>k < 2. tree_comes_back (getSubType (env_types bag_env)) (env_types bag_env) packed (snd (items' ! k)))"
proof -
  have "made_again (getSubType bag_types) bag_types message" "made_again (getSubType bag_types) bag_types bag" by code_simp+
  then have "savable (getSubType bag_types) bag_types packed" by (rule savable_packed)
  with player_items_survive [of "[(3, packed), (5, packed)]" bag_env inventory_slot "\<lparr>uniqueItems = [], bedSleepers = []\<rparr>"]
  show ?thesis by (simp add: bag_env_def inventory_slot_def numeral_2_eq_2 All_less_Suc)
qed

end
