(* ===== verification/Attribute_Runs.thy ===== *)
theory Attribute_Runs
  imports Item_Restoring
begin

text \<open>
  The attributes of an item after any sequence of the operations of \<open>ItemAttributes\<close> that name an
  attribute, against a map from types to values; what an operation without a name does, up to the
  destruction of its entry, which is undefined; and the equality of items that stacking goes by, against the maps of the
  two. The vector of entries and the word of bits are seen in neither.
\<close>

section \<open>Operations\<close>

datatype attr_op =
  Set_Int itemAttrTypes "64 word" | Increase_Int itemAttrTypes "64 word" | Set_Str itemAttrTypes "u8 list"
| Remove itemAttrTypes | Set_Custom "u8 list" custom_value | Remove_Custom "u8 list"

fun attr_step :: "attr_op \<Rightarrow> item_attributes \<Rightarrow> item_attributes" where
  "attr_step (Set_Int t n) a = setIntAttr t n a"
| "attr_step (Increase_Int t n) a = increaseIntAttr t n a"
| "attr_step (Set_Str t s) a = setStrAttr t s a"
| "attr_step (Remove t) a = removeAttribute t a"
| "attr_step (Set_Custom key val) a = setCustomAttribute key val a"
| "attr_step (Remove_Custom key) a = fst (removeCustomAttribute key a)"

text \<open>An operation that sets no attribute without a name. A script sets one: a name that is not known
  stands for \<open>ITEM_ATTRIBUTE_NONE\<close>, which counts as an integer type.\<close>

fun names_attribute :: "attr_op \<Rightarrow> bool" where
  "names_attribute (Set_Int t n) \<longleftrightarrow> t \<noteq> ITEM_ATTRIBUTE_NONE"
| "names_attribute (Increase_Int t n) \<longleftrightarrow> t \<noteq> ITEM_ATTRIBUTE_NONE"
| "names_attribute (Set_Str t s) \<longleftrightarrow> t \<noteq> ITEM_ATTRIBUTE_NONE"
| "names_attribute opn \<longleftrightarrow> True"

text \<open>The same operations on a map.\<close>

type_synonym attr_view = "itemAttrTypes \<Rightarrow> attr_value option"

definition view_int :: "itemAttrTypes \<Rightarrow> attr_view \<Rightarrow> 64 word" where
  "view_int t m = (case m t of Some (Integer n) \<Rightarrow> n | _ \<Rightarrow> 0)"

definition view_str :: "itemAttrTypes \<Rightarrow> attr_view \<Rightarrow> u8 list" where
  "view_str t m = (case m t of Some (Str s) \<Rightarrow> s | _ \<Rightarrow> [])"

definition view_customs :: "attr_view \<Rightarrow> custom_map" where
  "view_customs m = (case m ITEM_ATTRIBUTE_CUSTOM of Some (Custom c) \<Rightarrow> c | _ \<Rightarrow> [])"

fun view_step :: "attr_op \<Rightarrow> attr_view \<Rightarrow> attr_view" where
  "view_step (Set_Int t n) m = (if isIntAttrType t then m(t \<mapsto> Integer (kept_int t n)) else m)"
| "view_step (Increase_Int t n) m =
     (if isIntAttrType t then m(t \<mapsto> Integer (kept_int t (view_int t m + n))) else m)"
| "view_step (Set_Str t s) m = (if isStrAttrType t \<and> s \<noteq> [] then m(t \<mapsto> Str s) else m)"
| "view_step (Remove t) m = m(t := None)"
| "view_step (Set_Custom key val) m =
     m(ITEM_ATTRIBUTE_CUSTOM \<mapsto> Custom (erase_key (lower_key key) (view_customs m) @ [(lower_key key, val)]))"
| "view_step (Remove_Custom key) m =
     (if m ITEM_ATTRIBUTE_CUSTOM = None then m
      else m(ITEM_ATTRIBUTE_CUSTOM \<mapsto> Custom (erase_key (lower_key key) (view_customs m))))"

lemma attr_value_kind: "attrs_ok a \<Longrightarrow> attr_map a t = Some v \<Longrightarrow> value_kind_ok t v"
  using attr_map_Some [of a t v] by (auto simp: attrs_ok_def)

lemma view_getters:
  assumes "attrs_ok a"
  shows "getIntAttr t a = view_int t (attr_map a)" and "getStrAttr t a = view_str t (attr_map a)"
    and "custom_entries a = view_customs (attr_map a)"
proof -
  have kind: "\<And>v. attr_map a t = Some v \<Longrightarrow> value_kind_ok t v" by (rule attr_value_kind [OF assms])
  show "getIntAttr t a = view_int t (attr_map a)"
  proof (cases "attr_map a t")
    case (Some v)
    with kind [OF this] show ?thesis by (cases v) (simp_all add: getIntAttr_map [OF assms] view_int_def attr_types)
  qed (simp add: getIntAttr_map [OF assms] view_int_def)
  show "getStrAttr t a = view_str t (attr_map a)"
  proof (cases "attr_map a t")
    case (Some v)
    with kind [OF this] show ?thesis by (cases v) (auto simp: getStrAttr_map [OF assms] view_str_def attr_types)
  qed (simp add: getStrAttr_map [OF assms] view_str_def)
  show "custom_entries a = view_customs (attr_map a)"
    using custom_entry [OF assms] by (cases "attr_map a ITEM_ATTRIBUTE_CUSTOM") (auto simp: custom_entries_def view_customs_def)
qed

lemma attr_step_view:
  assumes a: "attrs_ok a" and n: "names_attribute opn"
  shows "attrs_ok (attr_step opn a) \<and> attr_map (attr_step opn a) = view_step opn (attr_map a)"
proof (cases opn)
  case (Set_Int t n)
  with a n setIntAttr_spec [of a t n] show ?thesis by (cases "isIntAttrType t") (simp_all add: setIntAttr_def [of t])
next
  case (Increase_Int t n)
  with a assms(2) setIntAttr_spec [of a t "getIntAttr t a + n"] view_getters [OF a] show ?thesis
    by (cases "isIntAttrType t") (simp_all add: increaseIntAttr_def setIntAttr_def [of t])
next
  case (Set_Str t s)
  with a n setStrAttr_spec [of a t s] show ?thesis
    by (cases "isStrAttrType t"; cases "s = []") (simp_all add: setStrAttr_def [of t])
next
  case (Remove t)
  with a removeAttribute_spec [of a t] show ?thesis by simp
next
  case (Set_Custom key val)
  with a setCustomAttribute_spec [of a key val] view_getters [OF a] show ?thesis by simp
next
  case (Remove_Custom key)
  with a removeCustomAttribute_spec [of a key] view_getters [OF a] show ?thesis by (auto split: option.splits)
qed

lemma attr_run_view:
  "attrs_ok a \<Longrightarrow> \<forall>opn \<in> set ops. names_attribute opn \<Longrightarrow> attrs_ok (fold attr_step ops a) \<and> attr_map (fold attr_step ops a) = fold view_step ops (attr_map a)"
  by (induction ops arbitrary: a) (simp_all add: attr_step_view)

text \<open>What setting an attribute without a name does.\<close>

lemma setIntAttr_NONE:
  "setIntAttr ITEM_ATTRIBUTE_NONE n a =
     a\<lparr>attribute_list := attribute_list a @ [\<lparr>a_type = ITEM_ATTRIBUTE_NONE, a_value = Integer n\<rparr>]\<rparr>"
  by (simp add: setIntAttr_def set_value_def getAttr_def hasAttribute_def flag_NONE attr_types zero_value_def)

lemma hasAttribute_NONE: "\<not> hasAttribute ITEM_ATTRIBUTE_NONE a"
  by (simp add: hasAttribute_def flag_NONE)

lemma attrs_ok_NONE: "\<not> attrs_ok (setIntAttr ITEM_ATTRIBUTE_NONE n a)"
  by (simp add: attrs_ok_def setIntAttr_NONE)

section \<open>Equality\<close>

fun same_value :: "attr_value \<Rightarrow> attr_value \<Rightarrow> bool" where
  "same_value (Integer m) (Integer n) = (m = n)"
| "same_value (Str s) (Str r) = (s = r)"
| "same_value (Custom m) (Custom n) = custom_map_equal m n"
| "same_value _ _ = False"

lemma bits_dom:
  assumes a: "attrs_ok a" and b: "attrs_ok b"
  shows "attributeBits a = attributeBits b \<longleftrightarrow> dom (attr_map a) = dom (attr_map b)"
proof
  assume "attributeBits a = attributeBits b"
  then show "dom (attr_map a) = dom (attr_map b)"
    using hasAttribute_map [OF a] hasAttribute_map [OF b] by (auto simp: hasAttribute_def dom_def set_eq_iff simp del: not_None_eq)
next
  assume d: "dom (attr_map a) = dom (attr_map b)"
  have t: "a_type ` set (attribute_list a) = a_type ` set (attribute_list b)"
    using d by (simp add: attr_map_def dom_map_of_conv_image_fst image_image)
  show "attributeBits a = attributeBits b"
  proof (rule bit_word_eqI)
    fix n :: nat
    assume n: "n < LENGTH(32)"
    have "(\<exists>x \<in> set (attribute_list a). attr_index (a_type x) = n) \<longleftrightarrow> n \<in> attr_index ` a_type ` set (attribute_list a)"
      "(\<exists>x \<in> set (attribute_list b). attr_index (a_type x) = n) \<longleftrightarrow> n \<in> attr_index ` a_type ` set (attribute_list b)"
      by (auto simp: image_iff)
    with n a b t show "bit (attributeBits a) n = bit (attributeBits b) n" by (simp add: attrs_ok_def)
  qed
qed

lemma attribute_matches_same:
  assumes "value_kind_ok (a_type x) (a_value x)" and "value_kind_ok (a_type y) (a_value y)"
  shows "attribute_matches x y \<longleftrightarrow> (a_type x = a_type y \<longrightarrow> same_value (a_value x) (a_value y))"
  using assms
  by (cases "a_value x"; cases "a_value y") (auto simp: attribute_matches_def attr_types)

lemma lists_match:
  assumes a: "attrs_ok a" and b: "attrs_ok b"
  shows "(\<forall>x \<in> set (attribute_list a). \<forall>y \<in> set (attribute_list b). attribute_matches x y) \<longleftrightarrow>
    (\<forall>t v w. attr_map a t = Some v \<longrightarrow> attr_map b t = Some w \<longrightarrow> same_value v w)" (is "?l = ?r")
proof
  have m: "attribute_matches x y \<longleftrightarrow> (a_type x = a_type y \<longrightarrow> same_value (a_value x) (a_value y))"
    if "x \<in> set (attribute_list a)" "y \<in> set (attribute_list b)" for x y
    using that a b by (intro attribute_matches_same) (auto simp: attrs_ok_def)
  show ?r if ?l
  proof (intro allI impI)
    fix t v w
    assume "attr_map a t = Some v" "attr_map b t = Some w"
    then have "\<lparr>a_type = t, a_value = v\<rparr> \<in> set (attribute_list a)" "\<lparr>a_type = t, a_value = w\<rparr> \<in> set (attribute_list b)"
      by (simp_all add: attr_map_Some a b)
    with that m show "same_value v w" by fastforce
  qed
  show ?l if ?r
  proof (intro ballI)
    fix x y
    assume xy: "x \<in> set (attribute_list a)" "y \<in> set (attribute_list b)"
    then have "attr_map a (a_type x) = Some (a_value x)" "attr_map b (a_type y) = Some (a_value y)"
      by (simp_all add: attr_map_Some a b)
    with that m [OF xy] show "attribute_matches x y" by metis
  qed
qed

lemma rel_option_agree:
  "rel_option R x y \<longleftrightarrow> (x \<noteq> None \<longleftrightarrow> y \<noteq> None) \<and> (\<forall>v w. x = Some v \<longrightarrow> y = Some w \<longrightarrow> R v w)"
  by (cases x; cases y) auto

lemma equals_attributes:
  "item_ok i \<Longrightarrow> item_ok j \<Longrightarrow> equals i (Some j) \<longleftrightarrow> item_id i = item_id j \<and>
     attributeBits (getAttributes i) = attributeBits (getAttributes j) \<and>
     (\<forall>x \<in> set (attribute_list (getAttributes i)). \<forall>y \<in> set (attribute_list (getAttributes j)). attribute_matches x y)"
  by (auto simp: equals_def getAttributes_def no_attributes_def split: option.splits)

section \<open>Properties\<close>

text \<open>Setting a text twice and a weight, and taking the weight away again.\<close>

definition sample_run :: "attr_op list" where
  "sample_run = [Set_Str ITEM_ATTRIBUTE_TEXT [72], Set_Int ITEM_ATTRIBUTE_WEIGHT 7, Set_Custom [75] (Custom_Int 3),
     Set_Str ITEM_ATTRIBUTE_TEXT [73], Remove ITEM_ATTRIBUTE_WEIGHT]"

lemma sample_run_names: "\<forall>opn \<in> set sample_run. names_attribute opn"
  by (simp add: sample_run_def)

text \<open>C36: After operations that name their attributes, the attributes of an item are well typed: an integer
  type has an integer, a string type a string and the custom type a map with each key once; a type
  has one entry at most, and the word of bits says exactly which types have one. One integer that is
  set for a name that is not known ends that: it is appended without a bit, and is not found again.\<close>

theorem attributes_well_typed:
  assumes "\<forall>opn \<in> set ops. names_attribute opn"
  shows "let a = fold attr_step ops no_attributes; b = setIntAttr ITEM_ATTRIBUTE_NONE n a
    in attrs_ok a \<and>
       attribute_list b = attribute_list a @ [\<lparr>a_type = ITEM_ATTRIBUTE_NONE, a_value = Integer n\<rparr>] \<and>
       attributeBits b = attributeBits a \<and> \<not> hasAttribute ITEM_ATTRIBUTE_NONE b \<and> getIntAttr ITEM_ATTRIBUTE_NONE b = 0 \<and>
       \<not> attrs_ok b"
  using conjunct1 [OF attr_run_view [OF attrs_ok_empty(1) assms]] attrs_ok_NONE
  by (simp add: Let_def setIntAttr_NONE getIntAttr_def getExistingAttr_def hasAttribute_NONE)

theorem attributes_well_typed_witness:
  "attrs_ok (fold attr_step sample_run no_attributes) \<and>
   \<not> attrs_ok (setIntAttr ITEM_ATTRIBUTE_NONE 5 (fold attr_step sample_run no_attributes))"
  using attributes_well_typed [OF sample_run_names, of 5] by (simp add: Let_def)

text \<open>C37: The attributes of an item are a map: after any operations that name their attributes, what the
  getters give and what \<open>hasAttribute\<close> answers is what the same operations on a map from types to
  values give, whatever the order of the entries has become.\<close>

theorem attributes_are_a_map:
  assumes "\<forall>opn \<in> set ops. names_attribute opn"
  shows "let a = fold attr_step ops no_attributes; m = fold view_step ops Map.empty
   in hasAttribute t a = (m t \<noteq> None) \<and> getIntAttr t a = view_int t m \<and> getStrAttr t a = view_str t m \<and>
      getCustomAttribute key a = map_of (view_customs m) (lower_key key)"
proof -
  let ?a = "fold attr_step ops no_attributes"
  have ok: "attrs_ok ?a" and eq: "attr_map ?a = fold view_step ops Map.empty"
    using attr_run_view [of no_attributes ops] assms by simp_all
  have "getCustomAttribute key ?a = map_of (view_customs (attr_map ?a)) (lower_key key)"
    using view_getters(3) [OF ok] custom_entry [OF ok]
    by (auto simp: getCustomAttribute_def getCustomAttributeMap_map [OF ok] custom_entries_def split: option.splits)
  then show ?thesis using view_getters [OF ok] hasAttribute_map [OF ok] eq by (simp add: Let_def)
qed

theorem attributes_are_a_map_witness:
  "getStrAttr ITEM_ATTRIBUTE_TEXT (fold attr_step sample_run no_attributes) = [73] \<and>
   \<not> hasAttribute ITEM_ATTRIBUTE_WEIGHT (fold attr_step sample_run no_attributes)"
proof -
  have "fold view_step sample_run Map.empty ITEM_ATTRIBUTE_TEXT = Some (Str [73])"
    "fold view_step sample_run Map.empty ITEM_ATTRIBUTE_WEIGHT = None"
    by (simp_all add: sample_run_def attr_types)
  then show ?thesis
    using attributes_are_a_map [OF sample_run_names, of ITEM_ATTRIBUTE_TEXT]
      attributes_are_a_map [OF sample_run_names, of ITEM_ATTRIBUTE_WEIGHT]
    by (simp add: Let_def view_str_def)
qed

text \<open>C38: Two items are equal, so that one is merged into the other, exactly when they are of one type
  and agree on every attribute: both have it with the same value, or neither has it. It does not
  matter in which order the attributes were set, or whether an item ever had any.\<close>

theorem equal_items_agree:
  assumes "item_ok i" and "item_ok j"
  shows "equals i (Some j) \<longleftrightarrow> item_id i = item_id j \<and> (\<forall>t. rel_option same_value (item_map i t) (item_map j t))"
proof -
  let ?a = "getAttributes i" and ?b = "getAttributes j"
  have ok: "attrs_ok ?a" "attrs_ok ?b" using assms by (simp_all add: item_ok_def)
  have "(\<forall>x \<in> set (attribute_list ?a). \<forall>y \<in> set (attribute_list ?b). attribute_matches x y) \<longleftrightarrow>
      (\<forall>t v w. item_map i t = Some v \<longrightarrow> item_map j t = Some w \<longrightarrow> same_value v w)"
    unfolding item_map_def by (rule lists_match [OF ok])
  moreover have "dom (item_map i) = dom (item_map j) \<and> (\<forall>t v w. item_map i t = Some v \<longrightarrow> item_map j t = Some w \<longrightarrow> same_value v w) \<longleftrightarrow>
      (\<forall>t. rel_option same_value (item_map i t) (item_map j t))"
    unfolding rel_option_agree by (simp add: dom_def set_eq_iff) blast
  ultimately show ?thesis
    using equals_attributes [OF assms] bits_dom [OF ok] by (simp add: item_map_def)
qed

text \<open>A page whose text was set first, and one whose text was set last.\<close>

definition page :: item where
  "page = item_setIntAttr ITEM_ATTRIBUTE_WEIGHT 7 (item_setStrAttr ITEM_ATTRIBUTE_TEXT [72] (blank_item Plain_Item 2597))"

definition other_page :: item where
  "other_page = item_setStrAttr ITEM_ATTRIBUTE_TEXT [72] (item_setIntAttr ITEM_ATTRIBUTE_WEIGHT 7 (blank_item Plain_Item 2597))"

theorem equal_items_agree_witness:
  "attribute_list (getAttributes page) \<noteq> attribute_list (getAttributes other_page) \<and>
   (\<forall>t. rel_option same_value (item_map page t) (item_map other_page t))"
proof -
  have "item_ok page" "item_ok other_page"
    by (simp_all add: page_def other_page_def item_ok_ops attr_types)
  note agree = equal_items_agree [OF this]
  have "equals page (Some other_page)" by code_simp
  moreover have "attribute_list (getAttributes page) \<noteq> attribute_list (getAttributes other_page)" by code_simp
  ultimately show ?thesis using agree by blast
qed

end
