(* ===== verification/Spec2Isabelle.thy ===== *)
theory Spec2Isabelle
  imports Connections Party Conditions Otb_Loader Matrix_Area Player_Index Condition_Bonuses Condition_Damage Spectators Move_Theorems Item_Rows Attribute_Runs
begin

text \<open>
  The Forgotten Server, 1.4 fork "NTOX": a server for an online role-playing game, in C++. Clients
  talk to it over TCP in encrypted packets; the game runs in one thread on a world of tiles,
  creatures and items that is loaded from OTB files and a database, with much of its behaviour
  scripted in Lua. This development models components of \<open>src/src\<close> as HOL functions,
  one theory each, and proves what each is relied on for. Names are those of the code.

  \<^bold>\<open>Parts.\<close> From the wire upwards:
  \<^item> \<open>Prelude\<close>: machine words, a flat byte memory with little-endian loads and stores (the
    \<open>memcpy\<close> of the code), general lemmas.
  \<^item> \<open>Xtea\<close> (\<open>xtea.cpp\<close>), \<open>Checksum\<close> (\<open>adlerChecksum\<close> of \<open>tools.cpp\<close>): the cipher undoes
    itself on any memory, its precomputed key schedule is the defined one, and the checksum with
    its delayed reduction is Adler-32.
  \<^item> \<open>Positions\<close> (\<open>position.h\<close>, \<open>tools.cpp\<close>): coordinates at 16 and 8 bits, directions.
  \<^item> \<open>Net_Message\<close> (\<open>networkmessage.*\<close>, \<open>outputmessage.*\<close>): the buffer with its 16-bit position
    and length; what is written field by field is read back, and reads stay in the body.
  \<^item> \<open>Protocol_Stack\<close> (\<open>protocol.*\<close>): padding, encryption, checksum and headers of a message.
  \<^item> \<open>Connections\<close> (\<open>connection.*\<close>, \<open>server.*\<close>): the handlers of a connection as a step relation
    in which asio runs one at a time and what is pending is read off their events; order of writes,
    bounds of reads, and the flood guard.
  \<^item> \<open>Prop_Stream\<close>, \<open>Otb_Loader\<close> (\<open>fileloader.*\<close>): property streams and the escaped node trees
    of OTB files, each with its round trip.
  \<^item> \<open>Conditions\<close> (\<open>condition.*\<close>, \<open>iologindata.cpp\<close>): the conditions of creatures, their
    parameters, how they refresh, and that those that persist survive the database.
  \<^item> \<open>Party\<close> (\<open>party.*\<close> with its callers in \<open>player.cpp\<close> and \<open>game.cpp\<close>): a store of players
    and parties that point at each other; the links agree in every reachable state.
  \<^item> \<open>Matrix_Area\<close> (\<open>matrixarea.*\<close>, \<open>AreaCombat\<close> of \<open>combat.cpp\<close>): the areas of spells, their
    rotation, the shapes of beams, circles and rings.
  \<^item> \<open>Return_Values\<close>, \<open>Wildcard\<close> (\<open>wildcardtree.*\<close>), \<open>Player_Index\<close> (\<open>game.cpp\<close>): the tree
    of names behind the locale \<open>name_index\<close>, and the maps that say who is online.
  \<^item> \<open>Float_Arith\<close>: \<open>float\<close> and \<open>double\<close> as rationals rounded to 24 and 53 bits, monotone.
  \<^item> \<open>Condition_Effects\<close> (\<open>condition.*\<close>, \<open>creature.*\<close>, \<open>player.*\<close>): what conditions do to a
    creature when they start, execute, are refreshed and end, and the list a creature keeps.
    \<open>Condition_Bonuses\<close> shows that no bonus is lost, doubled or left behind;
    \<open>Condition_Damage\<close> when the list of damages is made without overflow, that it is dealt in order, and
    when a refreshed condition ends.
  \<^item> \<open>Quad_Map\<close>, \<open>Spectators\<close> (\<open>map.*\<close>, \<open>spectators.h\<close>): the quad tree of the map, whose leaves
    hold floors of tiles and the creatures, with links to their neighbours; the search for
    spectators and its caches. The index refines two plain functions, and a search answers with
    exactly the creatures in range.
  \<^item> \<open>Item_Attributes\<close>, \<open>Items\<close> (\<open>item.*\<close>): the attributes of an item, a vector with a mask of bits that
    behaves as a map while operations name their attributes (a type is an enumerator here; scripts may pass
    any number), and items in a store in which they name their parents.
    \<open>Containers\<close> (\<open>container.*\<close>, \<open>depotchest.cpp\<close>, \<open>inbox.cpp\<close>, \<open>storeinbox.cpp\<close>), \<open>Inventory\<close>
    (\<open>player.cpp\<close>) and \<open>Item_Moves\<close> (\<open>game.cpp\<close>): what containers and slots answer to the questions of
    a move, how they change, and moving, adding and removing an item. \<open>Item_Trees\<close> has the invariant of
    the store, \<open>Move_Safety\<close> that each change keeps it, \<open>Move_Answers\<close> what the answers guarantee, and
    \<open>Move_Theorems\<close> that a move loses and makes no item, with the one case where it does not.
  \<^item> \<open>Attribute_Runs\<close>: the attributes after operations that name them against a map, what an unknown name does, and
    the equality of items.
  \<^item> \<open>Item_Saving\<close> (\<open>item.*\<close>, \<open>container.cpp\<close>, \<open>depotlocker.cpp\<close>, \<open>house.cpp\<close>, \<open>teleport.cpp\<close>, \<open>bed.cpp\<close>):
    writing and reading the attributes of an item, with \<open>Item_Restoring\<close> on what comes back;
    \<open>Item_Stores\<close> (\<open>iomapserialize.cpp\<close>): items of houses with their contents as one run of bytes;
    \<open>Item_Rows\<close> (\<open>iologindata.cpp\<close>): the items of a character as rows of the database. What a
    character has is loaded again with all its contents in order. Of a house, an item with nothing in it
    is; for a container with contents the loading asks for a tile and never returns, which is exactly
    when it does not end, whatever the bytes are.

  \<^bold>\<open>How the code is rendered.\<close> A class is a record, a class hierarchy a datatype beside it, an
  operation a function from state to state that returns what the caller sees. Integers keep their
  width where they can wrap; where a 32-bit integer is an \<open>int\<close>, the properties carry the range.
  Undefined behaviour (reading or writing out of range, a null or deleted object) and exceptions
  are None, as is a call that never returns, so that a theorem that a call is Some says that neither
  happens. Sums of ticks in stored conditions, the bonuses of a creature and the ranges of a search for
  spectators are taken without a
  bound. Floating-point
  values are kept as their bits where they are only stored, and rounded as in \<open>Float_Arith\<close> where
  the code computes with them. Byte order is that of x86-64.

  \<^bold>\<open>Parameters.\<close> What is not in the repository is an argument: RSA (OpenSSL), the UTF conversions
  and \<open>to_lower_copy\<close> of boost, the item table (declared in \<open>items.h\<close> but defined nowhere at this
  commit), the answers of Lua events, the clock, the results of socket operations.

  \<^bold>\<open>Not modelled.\<close> The Lua interface and the glue around it; the messages of the game protocol; tiles
  as places, path finding and sight lines; combat formulas, spells, weapons,
  monsters and npcs; market and houses; the database itself (what is stored of items and
  conditions is modelled); start-up and configuration.
  The manifest lists every part with its status.
\<close>

section \<open>From one end of a connection to the other\<close>

text \<open>C1: A message of any fields, sent by an encrypting protocol and received by the peer's
  connection with the same key: the peer's \<open>parseHeader\<close> starts the read of exactly the rest of
  the packet, its \<open>parsePacket\<close> accepts the checksum, decrypts, and hands its protocol one
  message, from which the reads of the same kinds return the fields that were written; and the
  connection waits for the next packet. This composes the field encoding, inner length, padding,
  XTEA, Adler-32 and the outer length, in both directions, with every buffer position at 16 bits.\<close>

theorem session_round_trip:
  assumes p: "\<not> rawMessages p" "encryptionEnabled p" "checksumEnabled p" "key p = expand_key k"
    and f: "length (fields_bytes f xs) \<le> 65526" "strings_ok f xs"
      "\<And>s. FString s \<in> set xs \<Longrightarrow> t (f s) = s" "t [] = []"
    and c: "\<not> connection.closed c" "receivedFirst c" "within_rate time mx c" "c_protocol c = Some q"
      "encryptionEnabled q" "key q = expand_key k"
  shows "\<exists>m c1 c3 rm.
     onSendMessage p (write_fields f xs (make_output_message buf)) = Some m \<and>
     parseHeader time mx False False (fill_read 0 (take 2 (wire_bytes m)) c) =
       (c1, [AsyncReadBody 2 (length (wire_bytes m) - 2)]) \<and>
     parsePacket ss False False (fill_read 2 (drop 2 (wire_bytes m)) c1) =
       (c3, [RecvMessage rm, AsyncReadHeader]) \<and>
     fst (read_fields t (map kind_of xs) rm) = xs \<and>
     snd (read_fields t (map kind_of xs) rm) = rm\<lparr>msg_position := 8 + msg_length rm\<rparr>"
proof -
  let ?o = "make_output_message buf" and ?bs = "fields_bytes f xs"
  have pos: "msg_position ?o = 8" "msg_length ?o = 0" "outputBufferStart ?o = 8" "synced ?o"
    by (simp_all add: make_output_message_def size_defs synced_def)
  define w where "w = write_fields f xs ?o"
  have w: "w = put_raw ?bs ?o" unfolding w_def
    using f(1,2) pos by (intro write_fields_raw) simp_all
  have len: "unat (msg_length w) = length ?bs"
    using f(1) by (simp add: w pos unat_of_nat)
  have "synced w" unfolding w using f(1) pos by (intro synced_put_raw) simp_all
  moreover have "outputBufferStart w = 8" by (simp add: w put_raw_def pos)
  ultimately obtain m where m: "onSendMessage p w = Some m" "outputBufferStart m = 0"
    "unat (msg_length m) = padded (length ?bs) + 6"
    "packet_layout (expand_key k) (bytes (buffer w) 8 (length ?bs)) (buffer m)"
    using onSendMessage_layout [OF p(1-3), of w] len f(1) p(4) by auto
  have body: "bytes (buffer w) 8 (length ?bs) = ?bs"
    by (simp add: w pos bytes_put_bytes_same)
  have wire: "wire_bytes m = bytes (buffer m) 0 (padded (length ?bs) + 6)"
    by (simp add: wire_bytes_def m(2,3))
  obtain c1 ev1 where h: "(c1, ev1) = parseHeader time mx False False (fill_read 0 (take 2 (wire_bytes m)) c)"
    by (metis surj_pair)
  obtain c3 ev3 where q: "(c3, ev3) = parsePacket ss False False (fill_read 2 (drop 2 (wire_bytes m)) c1)"
    by (metis surj_pair)
  obtain rm where rm: "ev1 = [AsyncReadBody 2 (length (wire_bytes m) - 2)]"
    "ev3 = [RecvMessage rm, AsyncReadHeader]" "msg_position rm = 8"
    "msg_length rm = of_nat (length ?bs)" "bytes (buffer rm) 8 (length ?bs) = ?bs"
    using receive_packet [OF m(4) [unfolded body] f(1) _ wire c h q] by auto
  have "has_bytes ?bs rm"
    using rm(3-5) f(1) by (simp add: has_bytes_def unat_of_nat)
  from read_fields_has_bytes [OF this f(2-4)]
  have "read_fields t (map kind_of xs) rm = (xs, rm\<lparr>msg_position := 8 + msg_length rm\<rparr>)"
    by (simp add: advance_def rm(3,4))
  then show ?thesis
    using m(1) h q rm(1,2) unfolding w_def [symmetric]
    by - (rule exI [of _ m], rule exI [of _ c1], rule exI [of _ c3], rule exI [of _ rm], simp)
qed

lemma session_round_trip_witness:
  "let k = [1, 2, 3, 4]; xs = [FByte 0x14, FString [0x48, 0x69], FU32 70000];
       p = \<lparr>key = expand_key k, encryptionEnabled = True, checksumEnabled = True,
            rawMessages = False, outputBuffer = None, connected = True\<rparr>;
       c = idle_connection\<lparr>receivedFirst := True, c_protocol := Some p\<rparr>
   in \<exists>m c1 c3 rm.
     onSendMessage p (write_fields (\<lambda>s. s) xs (make_output_message (\<lambda>_. 0))) = Some m \<and>
     parseHeader 0 25 False False (fill_read 0 (take 2 (wire_bytes m)) c) =
       (c1, [AsyncReadBody 2 (length (wire_bytes m) - 2)]) \<and>
     parsePacket [] False False (fill_read 2 (drop 2 (wire_bytes m)) c1) =
       (c3, [RecvMessage rm, AsyncReadHeader]) \<and>
     fst (read_fields (\<lambda>s. s) (map kind_of xs) rm) = xs \<and>
     snd (read_fields (\<lambda>s. s) (map kind_of xs) rm) = rm\<lparr>msg_position := 8 + msg_length rm\<rparr>"
  unfolding Let_def
  by (rule session_round_trip [where k = "[1, 2, 3, 4]" and q = "\<lparr>key = expand_key [1, 2, 3, 4],
        encryptionEnabled = True, checksumEnabled = True, rawMessages = False,
        outputBuffer = None, connected = True\<rparr>"])
     (simp_all add: idle_connection_def fields_bytes_def le16_def le32_def within_rate_def time_passed_def)

end
